(* ===== verification/Prelude.thy ===== *)
theory Prelude
  imports Main "HOL-Library.Word" "HOL-Library.Monad_Syntax"
begin

text \<open>
  Shared vocabulary of the development: the machine types of the C code, byte order
  conversions, the reading of a C function as a function into \<open>option\<close> and the
  total-correctness predicate transformer \<open>wp\<close> the component proofs run on.

  A C function that changes state is a HOL function that takes the state and returns
  \<open>Some (result, new state)\<close>. The value \<open>None\<close> stands for behaviour C leaves undefined (a
  NULL or dangling dereference, a read past the end of an object) and for a loop that never
  returns, so a theorem of the form \<open>f s = Some r\<close> says that the call returns and touches
  no memory it may not touch.
\<close>

unbundle bit_operations_syntax

section \<open>Theorem collections\<close>

named_theorems wp_simps \<open>unfolding a program under wp\<close>
named_theorems wp_rules \<open>total-correctness rules of operations\<close>
named_theorems frame_simps \<open>structures on the heap are unaffected by writes elsewhere\<close>
named_theorems cell_simps \<open>reading and writing packed memory cells\<close>

section \<open>Machine types\<close>

type_synonym u8 = "8 word"
type_synonym u16 = "16 word"
type_synonym u32 = "32 word"
type_synonym ptr = "64 word"

text \<open>The supported ABIs are little-endian, so \<open>htons\<close> and \<open>ntohs\<close> swap the two bytes.\<close>

definition lo8 :: "u16 \<Rightarrow> u8" where
  "lo8 v = ucast v"

definition hi8 :: "u16 \<Rightarrow> u8" where
  "hi8 v = ucast (drop_bit 8 v)"

definition word16 :: "u8 \<Rightarrow> u8 \<Rightarrow> u16" where
  "word16 h l = push_bit 8 (ucast h) OR ucast l"

definition htons :: "u16 \<Rightarrow> u16" where
  "htons v = word16 (lo8 v) (hi8 v)"

abbreviation ntohs :: "u16 \<Rightarrow> u16" where
  "ntohs \<equiv> htons"

text \<open>A \<open>uint16_t\<close> in memory, least significant byte first.\<close>

definition store16 :: "u16 \<Rightarrow> u8 list" where
  "store16 v = [lo8 v, hi8 v]"

fun load16 :: "u8 list \<Rightarrow> u16 option" where
  "load16 (l # h # _) = Some (word16 h l)"
| "load16 _ = None"

lemma lo8_word16 [simp]: "lo8 (word16 h l) = l"
  unfolding lo8_def word16_def
  by (rule bit_word_eqI) (auto simp: bit_simps)

lemma hi8_word16 [simp]: "hi8 (word16 h l) = h"
  unfolding hi8_def word16_def
  by (rule bit_word_eqI) (auto simp: bit_simps dest: bit_imp_le_length)

lemma word16_hi8_lo8 [simp]: "word16 (hi8 v) (lo8 v) = v"
  unfolding hi8_def lo8_def word16_def
  by (rule bit_word_eqI) (auto simp: bit_simps dest: bit_imp_le_length)

lemma htons_htons [simp]: "htons (htons v) = v"
  by (simp add: htons_def)

lemma htons_eq_iff [simp]: "htons a = htons b \<longleftrightarrow> a = b"
  by (metis htons_htons)

lemma load16_store16 [simp]: "load16 (store16 v @ r) = Some v"
  by (simp add: store16_def)

lemma length_store16 [simp]: "length (store16 v) = 2"
  by (simp add: store16_def)

lemma store16_htons: "store16 (htons v) = [hi8 v, lo8 v]"
  by (simp add: store16_def htons_def)

section \<open>Total correctness\<close>

text \<open>
  \<open>wp m Q\<close>: the call \<open>m\<close> returns, and its result satisfies \<open>Q\<close>.
\<close>

definition wp :: "'r option \<Rightarrow> ('r \<Rightarrow> bool) \<Rightarrow> bool" where
  "wp m Q \<longleftrightarrow> (\<exists>r. m = Some r \<and> Q r)"

lemma wp_Some [simp, wp_simps]: "wp (Some r) Q \<longleftrightarrow> Q r"
  by (simp add: wp_def)

lemma wp_None [simp, wp_simps]: "\<not> wp None Q"
  by (simp add: wp_def)

lemma wp_bind [wp_simps]: "wp (Option.bind m f) Q \<longleftrightarrow> wp m (\<lambda>r. wp (f r) Q)"
  by (cases m) auto

lemma wp_if [wp_simps]: "wp (if b then m else m') Q \<longleftrightarrow> (if b then wp m Q else wp m' Q)"
  by simp

lemma wp_mono: "wp m P \<Longrightarrow> (\<And>r. P r \<Longrightarrow> Q r) \<Longrightarrow> wp m Q"
  by (auto simp: wp_def)

lemma wpD: "wp m Q \<Longrightarrow> \<exists>r. m = Some r \<and> Q r"
  by (simp add: wp_def)

section \<open>Sizes\<close>

text \<open>
  \<open>size_t\<close> as a natural number below \<open>2 ^ 64\<close>, with the wrap-around of its arithmetic written
  out.
\<close>

definition usize_max :: nat where
  "usize_max = 2 ^ 64"

definition uadd :: "nat \<Rightarrow> nat \<Rightarrow> nat" where
  "uadd a b = (a + b) mod usize_max"

definition usub :: "nat \<Rightarrow> nat \<Rightarrow> nat" where
  "usub a b = (a + usize_max - b mod usize_max) mod usize_max"

lemma uadd_small: "a + b < usize_max \<Longrightarrow> uadd a b = a + b"
  by (simp add: uadd_def)

lemma usub_small: "b \<le> a \<Longrightarrow> a < usize_max \<Longrightarrow> usub a b = a - b"
  by (simp add: usub_def mod_if)

lemma usub_wraps: "a < b \<Longrightarrow> b < usize_max \<Longrightarrow> usub a b = usize_max - (b - a)"
  by (simp add: usub_def mod_if) linarith

end
