(* ===== verification/Hev_Rbtree.thy ===== *)
theory Hev_Rbtree
  imports Prelude
begin

text \<open>
  The red-black tree of \<open>core/src/hev-rbtree.c\<close> and \<open>hev-rbtree.h\<close> as it is in memory: nodes
  with a right, a left and a packed parent/colour word, addressed by 64-bit pointers, and every
  operation of the file as the sequence of reads and writes the C code makes. A read or write
  through a pointer that maps no node (NULL included) is \<open>None\<close>.
\<close>

section \<open>Nodes and memory\<close>

record rbnode =
  rb_pc :: "64 word"
  rb_right :: ptr
  rb_left :: ptr

record rbtree =
  rb_root :: ptr
  rb_mem :: "ptr \<rightharpoonup> rbnode"

datatype rbcolor = Red | Black

fun cbit :: "rbcolor \<Rightarrow> 64 word" where
  "cbit Red = 0"
| "cbit Black = 1"

definition rd_pc :: "rbtree \<Rightarrow> ptr \<Rightarrow> 64 word option" where
  "rd_pc t p = map_option rb_pc (rb_mem t p)"

definition rd_left :: "rbtree \<Rightarrow> ptr \<Rightarrow> ptr option" where
  "rd_left t p = map_option rb_left (rb_mem t p)"

definition rd_right :: "rbtree \<Rightarrow> ptr \<Rightarrow> ptr option" where
  "rd_right t p = map_option rb_right (rb_mem t p)"

definition wr_pc :: "rbtree \<Rightarrow> ptr \<Rightarrow> 64 word \<Rightarrow> rbtree option" where
  "wr_pc t p v = map_option (\<lambda>n. t\<lparr>rb_mem := (rb_mem t)(p \<mapsto> n\<lparr>rb_pc := v\<rparr>)\<rparr>) (rb_mem t p)"

definition wr_left :: "rbtree \<Rightarrow> ptr \<Rightarrow> ptr \<Rightarrow> rbtree option" where
  "wr_left t p v = map_option (\<lambda>n. t\<lparr>rb_mem := (rb_mem t)(p \<mapsto> n\<lparr>rb_left := v\<rparr>)\<rparr>) (rb_mem t p)"

definition wr_right :: "rbtree \<Rightarrow> ptr \<Rightarrow> ptr \<Rightarrow> rbtree option" where
  "wr_right t p v = map_option (\<lambda>n. t\<lparr>rb_mem := (rb_mem t)(p \<mapsto> n\<lparr>rb_right := v\<rparr>)\<rparr>) (rb_mem t p)"

section \<open>The packed parent and colour\<close>

definition hev_rbtree_node_color :: "rbtree \<Rightarrow> ptr \<Rightarrow> 64 word option" where
  "hev_rbtree_node_color t node = map_option (\<lambda>pc. pc AND 1) (rd_pc t node)"

definition hev_rbtree_node_is_red :: "rbtree \<Rightarrow> ptr \<Rightarrow> bool option" where
  "hev_rbtree_node_is_red t node =
     map_option (\<lambda>c. c AND cbit Black = 0) (hev_rbtree_node_color t node)"

definition hev_rbtree_node_is_black :: "rbtree \<Rightarrow> ptr \<Rightarrow> bool option" where
  "hev_rbtree_node_is_black t node =
     map_option (\<lambda>c. c AND cbit Black \<noteq> 0) (hev_rbtree_node_color t node)"

definition pc_is_black :: "64 word \<Rightarrow> bool" where
  "pc_is_black pc \<longleftrightarrow> pc AND cbit Black \<noteq> 0"

definition pc_parent :: "64 word \<Rightarrow> ptr" where
  "pc_parent pc = pc AND NOT 3"

definition hev_rbtree_node_parent :: "rbtree \<Rightarrow> ptr \<Rightarrow> ptr option" where
  "hev_rbtree_node_parent t node = map_option (\<lambda>pc. pc AND NOT 3) (rd_pc t node)"

definition hev_rbtree_node_red_parent :: "rbtree \<Rightarrow> ptr \<Rightarrow> ptr option" where
  "hev_rbtree_node_red_parent t node = rd_pc t node"

definition hev_rbtree_node_empty :: "rbtree \<Rightarrow> ptr \<Rightarrow> bool option" where
  "hev_rbtree_node_empty t node = map_option (\<lambda>pc. pc = node) (rd_pc t node)"

definition hev_rbtree_node_set_black :: "rbtree \<Rightarrow> ptr \<Rightarrow> rbtree option" where
  "hev_rbtree_node_set_black t node = do {
     pc \<leftarrow> rd_pc t node;
     wr_pc t node (pc OR cbit Black)
   }"

definition hev_rbtree_node_set_parent :: "rbtree \<Rightarrow> ptr \<Rightarrow> ptr \<Rightarrow> rbtree option" where
  "hev_rbtree_node_set_parent t node parent = do {
     c \<leftarrow> hev_rbtree_node_color t node;
     wr_pc t node (c OR parent)
   }"

definition hev_rbtree_node_set_parent_color ::
  "rbtree \<Rightarrow> ptr \<Rightarrow> ptr \<Rightarrow> rbcolor \<Rightarrow> rbtree option" where
  "hev_rbtree_node_set_parent_color t node parent color = wr_pc t node (parent OR cbit color)"

definition hev_rbtree_change_child :: "rbtree \<Rightarrow> ptr \<Rightarrow> ptr \<Rightarrow> ptr \<Rightarrow> rbtree option" where
  "hev_rbtree_change_child t old new parent =
     (if parent \<noteq> 0 then do {
        l \<leftarrow> rd_left t parent;
        if l = old then wr_left t parent new else wr_right t parent new
      }
      else Some (t\<lparr>rb_root := new\<rparr>))"

definition hev_rbtree_rotate_set_parents ::
  "rbtree \<Rightarrow> ptr \<Rightarrow> ptr \<Rightarrow> rbcolor \<Rightarrow> rbtree option" where
  "hev_rbtree_rotate_set_parents t old new color = do {
     parent \<leftarrow> hev_rbtree_node_parent t old;
     pc \<leftarrow> rd_pc t old;
     t \<leftarrow> wr_pc t new pc;
     t \<leftarrow> hev_rbtree_node_set_parent_color t old new color;
     hev_rbtree_change_child t old new parent
   }"

text \<open>
  \<open>hev_rbtree_node_link\<close> writes through the address of the child slot it is given. The slot is
  named by its owner: the tree root, or the left or right field of a node.
\<close>

datatype rblink = RootLink | LeftLink ptr | RightLink ptr

fun read_link :: "rbtree \<Rightarrow> rblink \<Rightarrow> ptr option" where
  "read_link t RootLink = Some (rb_root t)"
| "read_link t (LeftLink p) = rd_left t p"
| "read_link t (RightLink p) = rd_right t p"

fun write_link :: "rbtree \<Rightarrow> rblink \<Rightarrow> ptr \<Rightarrow> rbtree option" where
  "write_link t RootLink v = Some (t\<lparr>rb_root := v\<rparr>)"
| "write_link t (LeftLink p) v = wr_left t p v"
| "write_link t (RightLink p) v = wr_right t p v"

definition hev_rbtree_node_link :: "rbtree \<Rightarrow> ptr \<Rightarrow> ptr \<Rightarrow> rblink \<Rightarrow> rbtree option" where
  "hev_rbtree_node_link t node parent link = do {
     t \<leftarrow> wr_pc t node parent;
     t \<leftarrow> wr_right t node 0;
     t \<leftarrow> wr_left t node 0;
     write_link t link node
   }"

section \<open>Walking the tree\<close>

text \<open>The C loops follow pointers with no bound, so a cyclic structure makes them spin.\<close>

partial_function (option) go_left :: "rbtree \<Rightarrow> ptr \<Rightarrow> ptr option" where
  "go_left t n = do {
     l \<leftarrow> rd_left t n;
     if l \<noteq> 0 then go_left t l else Some n
   }"

partial_function (option) go_right :: "rbtree \<Rightarrow> ptr \<Rightarrow> ptr option" where
  "go_right t n = do {
     r \<leftarrow> rd_right t n;
     if r \<noteq> 0 then go_right t r else Some n
   }"

partial_function (option) climb_left :: "rbtree \<Rightarrow> ptr \<Rightarrow> ptr option" where
  "climb_left t node = do {
     parent \<leftarrow> hev_rbtree_node_parent t node;
     if parent = 0 then Some parent
     else do {
       l \<leftarrow> rd_left t parent;
       if node = l then climb_left t parent else Some parent
     }
   }"

partial_function (option) climb_right :: "rbtree \<Rightarrow> ptr \<Rightarrow> ptr option" where
  "climb_right t node = do {
     parent \<leftarrow> hev_rbtree_node_parent t node;
     if parent = 0 then Some parent
     else do {
       r \<leftarrow> rd_right t parent;
       if node = r then climb_right t parent else Some parent
     }
   }"

definition hev_rbtree_node_prev :: "rbtree \<Rightarrow> ptr \<Rightarrow> ptr option" where
  "hev_rbtree_node_prev t node = do {
     e \<leftarrow> hev_rbtree_node_empty t node;
     if e then Some 0
     else do {
       l \<leftarrow> rd_left t node;
       if l \<noteq> 0 then go_right t l else climb_left t node
     }
   }"

definition hev_rbtree_node_next :: "rbtree \<Rightarrow> ptr \<Rightarrow> ptr option" where
  "hev_rbtree_node_next t node = do {
     e \<leftarrow> hev_rbtree_node_empty t node;
     if e then Some 0
     else do {
       r \<leftarrow> rd_right t node;
       if r \<noteq> 0 then go_left t r else climb_right t node
     }
   }"

definition hev_rbtree_first :: "rbtree \<Rightarrow> ptr option" where
  "hev_rbtree_first t = (if rb_root t = 0 then Some 0 else go_left t (rb_root t))"

definition hev_rbtree_last :: "rbtree \<Rightarrow> ptr option" where
  "hev_rbtree_last t = (if rb_root t = 0 then Some 0 else go_right t (rb_root t))"

section \<open>Insertion\<close>

text \<open>Does the pointer map a red node? The C code guards the dereference by a NULL test.\<close>

definition ptr_is_red :: "rbtree \<Rightarrow> ptr \<Rightarrow> bool option" where
  "ptr_is_red t p = (if p \<noteq> 0 then hev_rbtree_node_is_red t p else Some False)"

definition set_black_under :: "rbtree \<Rightarrow> ptr \<Rightarrow> ptr \<Rightarrow> rbtree option" where
  "set_black_under t p parent =
     (if p \<noteq> 0 then hev_rbtree_node_set_parent_color t p parent Black else Some t)"

text \<open>The uncle is red: recolour and go on at the grandparent (Case 1 of both halves).\<close>

definition insert_flip ::
  "rbtree \<Rightarrow> ptr \<Rightarrow> ptr \<Rightarrow> ptr \<Rightarrow> (rbtree \<times> ptr \<times> ptr) option" where
  "insert_flip t parent gparent tmp = do {
     t \<leftarrow> hev_rbtree_node_set_parent_color t tmp gparent Black;
     t \<leftarrow> hev_rbtree_node_set_parent_color t parent gparent Black;
     let node = gparent;
     parent \<leftarrow> hev_rbtree_node_parent t node;
     t \<leftarrow> hev_rbtree_node_set_parent_color t node parent Red;
     Some (t, node, parent)
   }"

text \<open>The parent is a left child and its sibling is not red: Cases 2 and 3.\<close>

definition insert_rotate_right :: "rbtree \<Rightarrow> ptr \<Rightarrow> ptr \<Rightarrow> ptr \<Rightarrow> rbtree option" where
  "insert_rotate_right t node parent gparent = do {
     tmp \<leftarrow> rd_right t parent;
     (t, parent, tmp) \<leftarrow>
       (if node = tmp then do {
          tmp \<leftarrow> rd_left t node;
          t \<leftarrow> wr_right t parent tmp;
          t \<leftarrow> wr_left t node parent;
          t \<leftarrow> set_black_under t tmp parent;
          t \<leftarrow> hev_rbtree_node_set_parent_color t parent node Red;
          let parent = node;
          tmp \<leftarrow> rd_right t node;
          Some (t, parent, tmp)
        }
        else Some (t, parent, tmp));
     t \<leftarrow> wr_left t gparent tmp;
     t \<leftarrow> wr_right t parent gparent;
     t \<leftarrow> set_black_under t tmp gparent;
     hev_rbtree_rotate_set_parents t gparent parent Red
   }"

text \<open>The mirror image: the parent is a right child.\<close>

definition insert_rotate_left :: "rbtree \<Rightarrow> ptr \<Rightarrow> ptr \<Rightarrow> ptr \<Rightarrow> rbtree option" where
  "insert_rotate_left t node parent gparent = do {
     tmp \<leftarrow> rd_left t parent;
     (t, parent, tmp) \<leftarrow>
       (if node = tmp then do {
          tmp \<leftarrow> rd_right t node;
          t \<leftarrow> wr_left t parent tmp;
          t \<leftarrow> wr_right t node parent;
          t \<leftarrow> set_black_under t tmp parent;
          t \<leftarrow> hev_rbtree_node_set_parent_color t parent node Red;
          let parent = node;
          tmp \<leftarrow> rd_left t node;
          Some (t, parent, tmp)
        }
        else Some (t, parent, tmp));
     t \<leftarrow> wr_right t gparent tmp;
     t \<leftarrow> wr_left t parent gparent;
     t \<leftarrow> set_black_under t tmp gparent;
     hev_rbtree_rotate_set_parents t gparent parent Red
   }"

text \<open>The loop: \<open>node\<close> is red, and may violate only that its parent is not red.\<close>

partial_function (option) insert_color_loop :: "rbtree \<Rightarrow> ptr \<Rightarrow> ptr \<Rightarrow> rbtree option" where
  "insert_color_loop t node parent =
     (if parent = 0 then hev_rbtree_node_set_parent_color t node 0 Black
      else do {
        b \<leftarrow> hev_rbtree_node_is_black t parent;
        if b then Some t
        else do {
          gparent \<leftarrow> hev_rbtree_node_red_parent t parent;
          tmp \<leftarrow> rd_right t gparent;
          if parent \<noteq> tmp then do {
            red \<leftarrow> ptr_is_red t tmp;
            if red then do {
              (t, node, parent) \<leftarrow> insert_flip t parent gparent tmp;
              insert_color_loop t node parent
            }
            else insert_rotate_right t node parent gparent
          }
          else do {
            tmp \<leftarrow> rd_left t gparent;
            red \<leftarrow> ptr_is_red t tmp;
            if red then do {
              (t, node, parent) \<leftarrow> insert_flip t parent gparent tmp;
              insert_color_loop t node parent
            }
            else insert_rotate_left t node parent gparent
          }
        }
      })"

definition hev_rbtree_insert_color :: "rbtree \<Rightarrow> ptr \<Rightarrow> rbtree option" where
  "hev_rbtree_insert_color t node = do {
     parent \<leftarrow> hev_rbtree_node_red_parent t node;
     insert_color_loop t node parent
   }"

definition hev_rbtree_replace :: "rbtree \<Rightarrow> ptr \<Rightarrow> ptr \<Rightarrow> rbtree option" where
  "hev_rbtree_replace t victim new = do {
     parent \<leftarrow> hev_rbtree_node_parent t victim;
     v \<leftarrow> rb_mem t victim;
     _ \<leftarrow> rb_mem t new;
     let t = t\<lparr>rb_mem := (rb_mem t)(new \<mapsto> v)\<rparr>;
     l \<leftarrow> rd_left t victim;
     t \<leftarrow> (if l \<noteq> 0 then hev_rbtree_node_set_parent t l new else Some t);
     r \<leftarrow> rd_right t victim;
     t \<leftarrow> (if r \<noteq> 0 then hev_rbtree_node_set_parent t r new else Some t);
     hev_rbtree_change_child t victim new parent
   }"

section \<open>Removal\<close>

text \<open>The successor loop of Case 3: the last two nodes on the way down to the left.\<close>

partial_function (option) descend_left ::
  "rbtree \<Rightarrow> ptr \<Rightarrow> ptr \<Rightarrow> (ptr \<times> ptr) option" where
  "descend_left t successor tmp = do {
     let parent = successor;
     let successor = tmp;
     tmp \<leftarrow> rd_left t tmp;
     if tmp \<noteq> 0 then descend_left t successor tmp else Some (parent, successor)
   }"

text \<open>Case 1: the node has no left child.\<close>

definition erase_no_left :: "rbtree \<Rightarrow> ptr \<Rightarrow> ptr \<Rightarrow> (rbtree \<times> ptr) option" where
  "erase_no_left t node child = do {
     pc \<leftarrow> rd_pc t node;
     let parent = pc_parent pc;
     t \<leftarrow> hev_rbtree_change_child t node child parent;
     if child \<noteq> 0 then do {
       t \<leftarrow> wr_pc t child pc;
       Some (t, 0)
     }
     else Some (t, if pc_is_black pc then parent else 0)
   }"

text \<open>Case 1 again, with the only child on the left.\<close>

definition erase_no_right :: "rbtree \<Rightarrow> ptr \<Rightarrow> ptr \<Rightarrow> (rbtree \<times> ptr) option" where
  "erase_no_right t node tmp = do {
     pc \<leftarrow> rd_pc t node;
     t \<leftarrow> wr_pc t tmp pc;
     let parent = pc_parent pc;
     t \<leftarrow> hev_rbtree_change_child t node tmp parent;
     Some (t, 0)
   }"

text \<open>Cases 2 and 3: find the successor and unlink it from below.\<close>

definition erase_successor ::
  "rbtree \<Rightarrow> ptr \<Rightarrow> (rbtree \<times> ptr \<times> ptr \<times> ptr) option" where
  "erase_successor t child = do {
     tmp \<leftarrow> rd_left t child;
     if tmp = 0 then do {
       child2 \<leftarrow> rd_right t child;
       Some (t, child, child, child2)
     }
     else do {
       (parent, successor) \<leftarrow> descend_left t child tmp;
       child2 \<leftarrow> rd_right t successor;
       t \<leftarrow> wr_left t parent child2;
       t \<leftarrow> wr_right t successor child;
       t \<leftarrow> hev_rbtree_node_set_parent t child successor;
       Some (t, parent, successor, child2)
     }
   }"

text \<open>The rest of Cases 2 and 3: put the successor in the place of the node.\<close>

definition erase_two :: "rbtree \<Rightarrow> ptr \<Rightarrow> ptr \<Rightarrow> (rbtree \<times> ptr) option" where
  "erase_two t node child = do {
     (t, parent, successor, child2) \<leftarrow> erase_successor t child;
     tmp \<leftarrow> rd_left t node;
     t \<leftarrow> wr_left t successor tmp;
     t \<leftarrow> hev_rbtree_node_set_parent t tmp successor;
     pc \<leftarrow> rd_pc t node;
     t \<leftarrow> hev_rbtree_change_child t node successor (pc_parent pc);
     (t, rebalance) \<leftarrow>
       (if child2 \<noteq> 0 then do {
          t \<leftarrow> hev_rbtree_node_set_parent_color t child2 parent Black;
          Some (t, 0)
        }
        else do {
          b \<leftarrow> hev_rbtree_node_is_black t successor;
          Some (t, if b then parent else 0)
        });
     t \<leftarrow> wr_pc t successor pc;
     Some (t, rebalance)
   }"

text \<open>\<open>_hev_rbtree_erase\<close>: the new tree and the node to rebalance at, NULL for none.\<close>

definition erase_unlink :: "rbtree \<Rightarrow> ptr \<Rightarrow> (rbtree \<times> ptr) option" where
  "erase_unlink t node = do {
     child \<leftarrow> rd_right t node;
     tmp \<leftarrow> rd_left t node;
     if tmp = 0 then erase_no_left t node child
     else if child = 0 then erase_no_right t node tmp
     else erase_two t node child
   }"

text \<open>Cases 3 and 4 of the rebalancing when the sibling is the right child.\<close>

definition erase_rotate_left :: "rbtree \<Rightarrow> ptr \<Rightarrow> ptr \<Rightarrow> ptr \<Rightarrow> ptr \<Rightarrow> bool \<Rightarrow> rbtree option" where
  "erase_rotate_left t parent sibling tmp1 tmp2 case3 = do {
     (t, tmp1, sibling) \<leftarrow>
       (if case3 then do {
          tmp1 \<leftarrow> rd_right t tmp2;
          t \<leftarrow> wr_left t sibling tmp1;
          t \<leftarrow> wr_right t tmp2 sibling;
          t \<leftarrow> wr_right t parent tmp2;
          t \<leftarrow> set_black_under t tmp1 sibling;
          Some (t, sibling, tmp2)
        }
        else Some (t, tmp1, sibling));
     tmp2 \<leftarrow> rd_left t sibling;
     t \<leftarrow> wr_right t parent tmp2;
     t \<leftarrow> wr_left t sibling parent;
     t \<leftarrow> hev_rbtree_node_set_parent_color t tmp1 sibling Black;
     t \<leftarrow> (if tmp2 \<noteq> 0 then hev_rbtree_node_set_parent t tmp2 parent else Some t);
     hev_rbtree_rotate_set_parents t parent sibling Black
   }"

definition erase_rotate_right :: "rbtree \<Rightarrow> ptr \<Rightarrow> ptr \<Rightarrow> ptr \<Rightarrow> ptr \<Rightarrow> bool \<Rightarrow> rbtree option" where
  "erase_rotate_right t parent sibling tmp1 tmp2 case3 = do {
     (t, tmp1, sibling) \<leftarrow>
       (if case3 then do {
          tmp1 \<leftarrow> rd_left t tmp2;
          t \<leftarrow> wr_right t sibling tmp1;
          t \<leftarrow> wr_left t tmp2 sibling;
          t \<leftarrow> wr_left t parent tmp2;
          t \<leftarrow> set_black_under t tmp1 sibling;
          Some (t, sibling, tmp2)
        }
        else Some (t, tmp1, sibling));
     tmp2 \<leftarrow> rd_right t sibling;
     t \<leftarrow> wr_left t parent tmp2;
     t \<leftarrow> wr_right t sibling parent;
     t \<leftarrow> hev_rbtree_node_set_parent_color t tmp1 sibling Black;
     t \<leftarrow> (if tmp2 \<noteq> 0 then hev_rbtree_node_set_parent t tmp2 parent else Some t);
     hev_rbtree_rotate_set_parents t parent sibling Black
   }"

text \<open>Case 1: a red sibling is rotated up, and its inner child becomes the sibling.\<close>

definition erase_red_right :: "rbtree \<Rightarrow> ptr \<Rightarrow> ptr \<Rightarrow> (rbtree \<times> ptr) option" where
  "erase_red_right t parent sibling = do {
     red \<leftarrow> hev_rbtree_node_is_red t sibling;
     if red then do {
       tmp1 \<leftarrow> rd_left t sibling;
       t \<leftarrow> wr_right t parent tmp1;
       t \<leftarrow> wr_left t sibling parent;
       t \<leftarrow> hev_rbtree_node_set_parent_color t tmp1 parent Black;
       t \<leftarrow> hev_rbtree_rotate_set_parents t parent sibling Red;
       Some (t, tmp1)
     }
     else Some (t, sibling)
   }"

definition erase_red_left :: "rbtree \<Rightarrow> ptr \<Rightarrow> ptr \<Rightarrow> (rbtree \<times> ptr) option" where
  "erase_red_left t parent sibling = do {
     red \<leftarrow> hev_rbtree_node_is_red t sibling;
     if red then do {
       tmp1 \<leftarrow> rd_right t sibling;
       t \<leftarrow> wr_left t parent tmp1;
       t \<leftarrow> wr_right t sibling parent;
       t \<leftarrow> hev_rbtree_node_set_parent_color t tmp1 parent Black;
       t \<leftarrow> hev_rbtree_rotate_set_parents t parent sibling Red;
       Some (t, tmp1)
     }
     else Some (t, sibling)
   }"

text \<open>
  Case 2: both children of the sibling are black. The result is the new tree with the node to
  go on from and its parent, or \<open>None\<close> where the loop ends.
\<close>

definition erase_flip ::
  "rbtree \<Rightarrow> ptr \<Rightarrow> ptr \<Rightarrow> (rbtree \<times> (ptr \<times> ptr) option) option" where
  "erase_flip t parent sibling = do {
     t \<leftarrow> hev_rbtree_node_set_parent_color t sibling parent Red;
     red \<leftarrow> hev_rbtree_node_is_red t parent;
     if red then do {
       t \<leftarrow> hev_rbtree_node_set_black t parent;
       Some (t, None)
     }
     else do {
       let node = parent;
       parent \<leftarrow> hev_rbtree_node_parent t node;
       Some (t, if parent \<noteq> 0 then Some (node, parent) else None)
     }
   }"

text \<open>\<open>!p || is_black (p)\<close>\<close>

definition null_or_black :: "rbtree \<Rightarrow> ptr \<Rightarrow> bool option" where
  "null_or_black t p = (if p = 0 then Some True else hev_rbtree_node_is_black t p)"

text \<open>One iteration for each side; the second component says where to go on.\<close>

definition erase_black_right ::
  "rbtree \<Rightarrow> ptr \<Rightarrow> ptr \<Rightarrow> (rbtree \<times> (ptr \<times> ptr) option) option" where
  "erase_black_right t parent sibling = do {
     tmp1 \<leftarrow> rd_right t sibling;
     b1 \<leftarrow> null_or_black t tmp1;
     if b1 then do {
       tmp2 \<leftarrow> rd_left t sibling;
       b2 \<leftarrow> null_or_black t tmp2;
       if b2 then erase_flip t parent sibling
       else do {
         t \<leftarrow> erase_rotate_left t parent sibling tmp1 tmp2 True;
         Some (t, None)
       }
     }
     else do {
       t \<leftarrow> erase_rotate_left t parent sibling tmp1 0 False;
       Some (t, None)
     }
   }"

definition erase_step_left ::
  "rbtree \<Rightarrow> ptr \<Rightarrow> ptr \<Rightarrow> (rbtree \<times> (ptr \<times> ptr) option) option" where
  "erase_step_left t parent sibling = do {
     (t, sibling) \<leftarrow> erase_red_right t parent sibling;
     erase_black_right t parent sibling
   }"

definition erase_black_left ::
  "rbtree \<Rightarrow> ptr \<Rightarrow> ptr \<Rightarrow> (rbtree \<times> (ptr \<times> ptr) option) option" where
  "erase_black_left t parent sibling = do {
     tmp1 \<leftarrow> rd_left t sibling;
     b1 \<leftarrow> null_or_black t tmp1;
     if b1 then do {
       tmp2 \<leftarrow> rd_right t sibling;
       b2 \<leftarrow> null_or_black t tmp2;
       if b2 then erase_flip t parent sibling
       else do {
         t \<leftarrow> erase_rotate_right t parent sibling tmp1 tmp2 True;
         Some (t, None)
       }
     }
     else do {
       t \<leftarrow> erase_rotate_right t parent sibling tmp1 0 False;
       Some (t, None)
     }
   }"

definition erase_step_right ::
  "rbtree \<Rightarrow> ptr \<Rightarrow> ptr \<Rightarrow> (rbtree \<times> (ptr \<times> ptr) option) option" where
  "erase_step_right t parent sibling = do {
     (t, sibling) \<leftarrow> erase_red_left t parent sibling;
     erase_black_left t parent sibling
   }"

partial_function (option) erase_color_loop :: "rbtree \<Rightarrow> ptr \<Rightarrow> ptr \<Rightarrow> rbtree option" where
  "erase_color_loop t node parent = do {
     sibling \<leftarrow> rd_right t parent;
     (t, next) \<leftarrow>
       (if node \<noteq> sibling then erase_step_left t parent sibling
        else do {
          sibling \<leftarrow> rd_left t parent;
          erase_step_right t parent sibling
        });
     (case next of None \<Rightarrow> Some t | Some (node, parent) \<Rightarrow> erase_color_loop t node parent)
   }"

definition hev_rbtree_erase_color :: "rbtree \<Rightarrow> ptr \<Rightarrow> rbtree option" where
  "hev_rbtree_erase_color t parent = erase_color_loop t 0 parent"

definition hev_rbtree_erase :: "rbtree \<Rightarrow> ptr \<Rightarrow> rbtree option" where
  "hev_rbtree_erase t node = do {
     (t, rebalance) \<leftarrow> erase_unlink t node;
     if rebalance \<noteq> 0 then hev_rbtree_erase_color t rebalance else Some t
   }"

end
