(* ===== verification/Rbtree_Shape.thy ===== *)
theory Rbtree_Shape
  imports Hev_Rbtree
begin

text \<open>
  The abstract red-black tree a memory holds: trees whose nodes are the node addresses, paths
  from a subtree up to the root (the way the C loops climb), the predicates that say a memory
  holds such a tree or path, and the frame lemmas that let a write elsewhere pass. The second
  half states the colour and height invariants of red-black trees on these trees and paths.
\<close>

section \<open>Trees of addresses and paths to the root\<close>

datatype rbt = Leaf | Node rbcolor rbt ptr rbt

datatype step = InL rbcolor ptr rbt | InR rbcolor rbt ptr

type_synonym path = "step list"

fun rp :: "rbt \<Rightarrow> ptr" where
  "rp Leaf = 0"
| "rp (Node c l a r) = a"

fun inorder :: "rbt \<Rightarrow> ptr list" where
  "inorder Leaf = []"
| "inorder (Node c l a r) = inorder l @ a # inorder r"

fun top :: "path \<Rightarrow> ptr" where
  "top [] = 0"
| "top (InL c a r # p) = a"
| "top (InR c l a # p) = a"

fun plug :: "rbt \<Rightarrow> path \<Rightarrow> rbt" where
  "plug t [] = t"
| "plug t (InL c a r # p) = plug (Node c t a r) p"
| "plug t (InR c l a # p) = plug (Node c l a t) p"

fun before :: "path \<Rightarrow> ptr list" where
  "before [] = []"
| "before (InL c a r # p) = before p"
| "before (InR c l a # p) = before p @ inorder l @ [a]"

fun after :: "path \<Rightarrow> ptr list" where
  "after [] = []"
| "after (InL c a r # p) = a # inorder r @ after p"
| "after (InR c l a # p) = after p"

lemma inorder_plug: "inorder (plug t p) = before p @ inorder t @ after p"
  by (induction t p rule: plug.induct) auto

lemma plug_append: "plug t (p @ q) = plug (plug t p) q"
  by (induction t p rule: plug.induct) auto

definition aligned :: "ptr \<Rightarrow> bool" where
  "aligned a \<longleftrightarrow> a \<noteq> 0 \<and> a AND 3 = 0"

text \<open>The nodes of the tree are distinct, mapped at aligned addresses.\<close>

definition wf_addrs :: "ptr list \<Rightarrow> bool" where
  "wf_addrs xs \<longleftrightarrow> distinct xs \<and> (\<forall>a\<in>set xs. aligned a)"

section \<open>A memory that holds a tree\<close>

definition cell :: "ptr \<Rightarrow> rbcolor \<Rightarrow> ptr \<Rightarrow> ptr \<Rightarrow> rbnode" where
  "cell par c l r = \<lparr>rb_pc = par OR cbit c, rb_right = r, rb_left = l\<rparr>"

fun tree_at :: "(ptr \<rightharpoonup> rbnode) \<Rightarrow> ptr \<Rightarrow> rbt \<Rightarrow> bool" where
  "tree_at m par Leaf \<longleftrightarrow> True"
| "tree_at m par (Node c l a r) \<longleftrightarrow>
     m a = Some (cell par c (rp l) (rp r)) \<and> tree_at m a l \<and> tree_at m a r"

fun path_at :: "(ptr \<rightharpoonup> rbnode) \<Rightarrow> ptr \<Rightarrow> path \<Rightarrow> bool" where
  "path_at m x [] \<longleftrightarrow> True"
| "path_at m x (InL c a r # p) \<longleftrightarrow>
     m a = Some (cell (top p) c x (rp r)) \<and> tree_at m a r \<and> path_at m a p"
| "path_at m x (InR c l a # p) \<longleftrightarrow>
     m a = Some (cell (top p) c (rp l) x) \<and> tree_at m a l \<and> path_at m a p"

lemma tree_at_plug: "tree_at m 0 (plug t p) \<longleftrightarrow> tree_at m (top p) t \<and> path_at m (rp t) p"
  by (induction t p rule: plug.induct) auto

lemma rp_plug_Nil [simp]: "rp (plug t []) = rp t"
  by simp

definition rbt_at :: "rbtree \<Rightarrow> rbt \<Rightarrow> bool" where
  "rbt_at s t \<longleftrightarrow> rb_root s = rp t \<and> tree_at (rb_mem s) 0 t \<and> wf_addrs (inorder t)"

lemma tree_at_frame [frame_simps]:
  "a \<notin> set (inorder t) \<Longrightarrow> tree_at (m(a := v)) par t = tree_at m par t"
  by (induction t arbitrary: par) auto

lemma path_at_frame [frame_simps]:
  "a \<notin> set (before p) \<Longrightarrow> a \<notin> set (after p) \<Longrightarrow> path_at (m(a := v)) x p = path_at m x p"
  by (induction m x p rule: path_at.induct) (auto simp: tree_at_frame)

lemma tree_at_cong:
  "(\<And>a. a \<in> set (inorder t) \<Longrightarrow> m a = m' a) \<Longrightarrow> tree_at m par t = tree_at m' par t"
  by (induction t arbitrary: par) auto

lemma tree_at_mapped: "tree_at m par t \<Longrightarrow> a \<in> set (inorder t) \<Longrightarrow> m a \<noteq> None"
  by (induction t arbitrary: par) auto

lemma rp_in: "t \<noteq> Leaf \<Longrightarrow> rp t \<in> set (inorder t)"
  by (cases t) auto

lemma rp_0_iff: "\<forall>a\<in>set (inorder t). aligned a \<Longrightarrow> rp t = 0 \<longleftrightarrow> t = Leaf"
  by (cases t) (auto simp: aligned_def)

section \<open>Reading packed cells\<close>

lemma and_3_bit: "a AND 3 = 0 \<Longrightarrow> bit a n \<Longrightarrow> \<not> bit (3 :: 64 word) n"
  for a :: "64 word"
  by (metis bit_0_eq bit_and_iff bot_apply bot_bool_def)

lemma or_bit_and_1 [cell_simps]: "a AND 3 = 0 \<Longrightarrow> (a OR cbit c) AND 1 = cbit c"
  for a :: "64 word"
proof (rule bit_word_eqI)
  fix n assume "a AND 3 = 0" and "n < LENGTH(64)"
  then have "\<not> bit a 0"
    using and_3_bit [of a 0] by (auto simp: bit_numeral_rec)
  then show "bit ((a OR cbit c) AND 1) n = bit (cbit c) n"
    by (cases c; cases n) (auto simp: bit_simps)
qed

lemma or_bit_and_not3 [cell_simps]: "a AND 3 = 0 \<Longrightarrow> (a OR cbit c) AND NOT 3 = a"
  for a :: "64 word"
proof -
  assume a: "a AND 3 = 0"
  have "a AND NOT 3 = a"
    by (rule bit_word_eqI) (use and_3_bit [OF a] in \<open>auto simp: bit_simps\<close>)
  moreover have "cbit c AND NOT 3 = (0 :: 64 word)"
    by (cases c) simp_all
  ultimately show ?thesis by (simp add: bit.conj_disj_distrib2)
qed

lemma not3_and_3: "(x AND NOT 3) AND 3 = (0 :: 64 word)"
  by (simp add: and.assoc)

lemma aligned_0 [simp]: "\<not> aligned 0"
  by (simp add: aligned_def)

lemma alignedD: "aligned a \<Longrightarrow> a \<noteq> 0" "aligned a \<Longrightarrow> a AND 3 = 0"
  by (auto simp: aligned_def)

text \<open>The operations of \<open>hev-rbtree.c\<close> on one node, at the level of cells.\<close>

definition n_par :: "rbnode \<Rightarrow> ptr" where
  "n_par n = rb_pc n AND NOT 3"

definition n_col :: "rbnode \<Rightarrow> rbcolor" where
  "n_col n = (if rb_pc n AND 1 = 0 then Red else Black)"

definition set_col :: "rbnode \<Rightarrow> ptr \<Rightarrow> rbcolor \<Rightarrow> rbnode" where
  "set_col n par c = n\<lparr>rb_pc := par OR cbit c\<rparr>"

definition set_par :: "rbnode \<Rightarrow> ptr \<Rightarrow> rbnode" where
  "set_par n par = n\<lparr>rb_pc := (rb_pc n AND 1) OR par\<rparr>"

definition set_pc :: "rbnode \<Rightarrow> 64 word \<Rightarrow> rbnode" where
  "set_pc n pc = n\<lparr>rb_pc := pc\<rparr>"

lemma rd_wr_eqs [cell_simps]:
  "rd_pc t p = map_option rb_pc (rb_mem t p)"
  "rd_left t p = map_option rb_left (rb_mem t p)"
  "rd_right t p = map_option rb_right (rb_mem t p)"
  "wr_pc t p v = map_option (\<lambda>n. t\<lparr>rb_mem := (rb_mem t)(p \<mapsto> set_pc n v)\<rparr>) (rb_mem t p)"
  "wr_left t p v = map_option (\<lambda>n. t\<lparr>rb_mem := (rb_mem t)(p \<mapsto> n\<lparr>rb_left := v\<rparr>)\<rparr>) (rb_mem t p)"
  "wr_right t p v = map_option (\<lambda>n. t\<lparr>rb_mem := (rb_mem t)(p \<mapsto> n\<lparr>rb_right := v\<rparr>)\<rparr>) (rb_mem t p)"
  by (simp_all add: rd_pc_def rd_left_def rd_right_def wr_pc_def wr_left_def wr_right_def set_pc_def)

lemma node_op_eqs [cell_simps]:
  "hev_rbtree_node_is_red t p = map_option (\<lambda>n. n_col n = Red) (rb_mem t p)"
  "hev_rbtree_node_is_black t p = map_option (\<lambda>n. n_col n = Black) (rb_mem t p)"
  "hev_rbtree_node_parent t p = map_option n_par (rb_mem t p)"
  "hev_rbtree_node_red_parent t p = map_option rb_pc (rb_mem t p)"
  "hev_rbtree_node_set_parent_color t p par c =
     map_option (\<lambda>n. t\<lparr>rb_mem := (rb_mem t)(p \<mapsto> set_col n par c)\<rparr>) (rb_mem t p)"
  "hev_rbtree_node_set_parent t p par =
     map_option (\<lambda>n. t\<lparr>rb_mem := (rb_mem t)(p \<mapsto> set_par n par)\<rparr>) (rb_mem t p)"
  "hev_rbtree_node_set_black t p =
     map_option (\<lambda>n. t\<lparr>rb_mem := (rb_mem t)(p \<mapsto> n\<lparr>rb_pc := rb_pc n OR 1\<rparr>)\<rparr>) (rb_mem t p)"
  by (cases "rb_mem t p";
      simp add: hev_rbtree_node_is_red_def hev_rbtree_node_is_black_def hev_rbtree_node_color_def
        hev_rbtree_node_parent_def hev_rbtree_node_red_parent_def
        hev_rbtree_node_set_parent_color_def hev_rbtree_node_set_parent_def
        hev_rbtree_node_set_black_def rd_pc_def wr_pc_def n_col_def n_par_def set_col_def
        set_par_def and.assoc)+

lemma cell_sel [cell_simps]:
  "rb_left (cell par c l r) = l"
  "rb_right (cell par c l r) = r"
  "rb_pc (cell par Red l r) = par"
  by (simp_all add: cell_def)

lemma cell_upd [cell_simps]:
  "cell par c l r\<lparr>rb_left := l'\<rparr> = cell par c l' r"
  "cell par c l r\<lparr>rb_right := r'\<rparr> = cell par c l r'"
  "set_col (cell par c l r) par' c' = cell par' c' l r"
  "set_pc (cell par c l r) (rb_pc (cell par' c' l' r')) = cell par' c' l r"
  by (simp_all add: cell_def set_col_def set_pc_def)

lemma cell_packed [cell_simps]:
  assumes "par AND 3 = 0"
  shows "n_par (cell par c l r) = par"
    and "n_col (cell par c l r) = c"
    and "set_par (cell par c l r) par' = cell par' c l r"
    and "cell par c l r\<lparr>rb_pc := rb_pc (cell par c l r) OR 1\<rparr> = cell par Black l r"
    and "pc_parent (rb_pc (cell par c l r)) = par"
    and "pc_is_black (rb_pc (cell par c l r)) \<longleftrightarrow> c = Black"
  using or_bit_and_1 [OF assms, of c] or_bit_and_not3 [OF assms, of c]
  by (cases c; simp add: cell_def n_par_def n_col_def set_par_def pc_parent_def pc_is_black_def
      or.assoc or.commute)+

lemma not_Black [simp]: "(c \<noteq> Black) = (c = Red)" "(c \<noteq> Red) = (c = Black)"
  by (cases c; simp)+

text \<open>Distinctness of the nodes as facts a rewriter can use, one for each pair.\<close>

lemmas sep_simps =
  wf_addrs_def distinct_append set_append Int_Un_distrib Int_Un_distrib2 Un_empty
  disjoint_insert insert_disjoint ball_Un inorder_plug

text \<open>Replacing the child a path hangs from, as \<open>hev_rbtree_change_child\<close> does.\<close>

fun set_hole :: "(ptr \<rightharpoonup> rbnode) \<Rightarrow> path \<Rightarrow> ptr \<Rightarrow> (ptr \<rightharpoonup> rbnode)" where
  "set_hole m [] x = m"
| "set_hole m (InL c a r # p) x = m(a \<mapsto> cell (top p) c x (rp r))"
| "set_hole m (InR c l a # p) x = m(a \<mapsto> cell (top p) c (rp l) x)"

lemma top_in: "p \<noteq> [] \<Longrightarrow> top p \<in> set (before p) \<union> set (after p)"
  by (cases p rule: top.cases) auto

lemma top_and_3: "\<forall>a\<in>set (before p). aligned a \<Longrightarrow> \<forall>a\<in>set (after p). aligned a \<Longrightarrow> top p AND 3 = 0"
  by (cases p rule: top.cases) (auto simp: aligned_def)

lemma set_hole_other: "x \<notin> set (before p) \<Longrightarrow> x \<notin> set (after p) \<Longrightarrow> set_hole m p y x = m x"
  by (cases p rule: top.cases) auto

lemma tree_at_set_hole [frame_simps]:
  "set (before p) \<inter> set (inorder t) = {} \<Longrightarrow> set (inorder t) \<inter> set (after p) = {} \<Longrightarrow>
     tree_at (set_hole m p y) par t = tree_at m par t"
  by (rule tree_at_cong, rule set_hole_other) (auto simp: disjoint_iff)

lemma path_at_set_hole:
  assumes "path_at m x p" and "wf_addrs (before p @ after p)"
  shows "path_at (set_hole m p y) y p"
  using assms by (cases p rule: top.cases) (auto simp: sep_simps frame_simps)

lemma change_child_path:
  assumes "path_at (rb_mem s) old p" and "old \<notin> set (before p)" and "old \<noteq> 0"
    and "\<forall>a\<in>set (before p @ after p). aligned a"
  shows "hev_rbtree_change_child s old new (top p) =
    Some (s\<lparr>rb_root := if p = [] then new else rb_root s, rb_mem := set_hole (rb_mem s) p new\<rparr>)"
proof (cases p rule: top.cases)
  case 1
  then show ?thesis by (simp add: hev_rbtree_change_child_def)
next
  case (2 c a r q)
  with assms show ?thesis
    by (auto simp: hev_rbtree_change_child_def cell_simps aligned_def)
next
  case (3 c l a q)
  have "rp l \<noteq> old"
    using assms(2,3) 3 by (cases l) auto
  with 3 assms show ?thesis
    by (auto simp: hev_rbtree_change_child_def cell_simps aligned_def)
qed

lemma rp_plug_cong: "rp t = rp t' \<Longrightarrow> rp (plug t q) = rp (plug t' q)"
proof (induction q arbitrary: t t')
  case Nil
  then show ?case by simp
next
  case (Cons s q)
  show ?case by (cases s) (auto intro: Cons.IH)
qed

lemma rp_plug_path: "q \<noteq> [] \<Longrightarrow> rp (plug t q) = rp (plug t' q)"
  by (cases q rule: top.cases) (auto intro: rp_plug_cong)

section \<open>Colour and height invariants\<close>

fun colour :: "rbt \<Rightarrow> rbcolor" where
  "colour Leaf = Black"
| "colour (Node c l a r) = c"

fun blacken :: "rbt \<Rightarrow> rbt" where
  "blacken Leaf = Leaf"
| "blacken (Node c l a r) = Node Black l a r"

fun bheight :: "rbt \<Rightarrow> nat" where
  "bheight Leaf = 0"
| "bheight (Node c l a r) = (if c = Black then Suc (bheight l) else bheight l)"

fun invc :: "rbt \<Rightarrow> bool" where
  "invc Leaf \<longleftrightarrow> True"
| "invc (Node c l a r) \<longleftrightarrow>
     (c = Red \<longrightarrow> colour l = Black \<and> colour r = Black) \<and> invc l \<and> invc r"

fun invh :: "rbt \<Rightarrow> bool" where
  "invh Leaf \<longleftrightarrow> True"
| "invh (Node c l a r) \<longleftrightarrow> bheight l = bheight r \<and> invh l \<and> invh r"

definition redblack :: "rbt \<Rightarrow> bool" where
  "redblack t \<longleftrightarrow> invc t \<and> invh t \<and> colour t = Black"

text \<open>The same invariants around a hole of a given colour and black height.\<close>

fun path_c :: "rbcolor \<Rightarrow> path \<Rightarrow> bool" where
  "path_c h [] \<longleftrightarrow> h = Black"
| "path_c h (InL c a r # p) \<longleftrightarrow>
     (c = Red \<longrightarrow> h = Black \<and> colour r = Black) \<and> invc r \<and> path_c c p"
| "path_c h (InR c l a # p) \<longleftrightarrow>
     (c = Red \<longrightarrow> h = Black \<and> colour l = Black) \<and> invc l \<and> path_c c p"

fun path_h :: "nat \<Rightarrow> path \<Rightarrow> bool" where
  "path_h n [] \<longleftrightarrow> True"
| "path_h n (InL c a r # p) \<longleftrightarrow>
     bheight r = n \<and> invh r \<and> path_h (if c = Black then Suc n else n) p"
| "path_h n (InR c l a # p) \<longleftrightarrow>
     bheight l = n \<and> invh l \<and> path_h (if c = Black then Suc n else n) p"

lemma redblack_plug:
  "redblack (plug t p) \<longleftrightarrow> invc t \<and> invh t \<and> path_c (colour t) p \<and> path_h (bheight t) p"
  by (induction t p rule: plug.induct) (auto simp: redblack_def)

lemma path_c_Black: "path_c c p \<Longrightarrow> path_c Black p"
  by (induction c p rule: path_c.induct) auto

lemma blacken_simps [simp]:
  "colour (blacken t) = Black" "rp (blacken t) = rp t" "inorder (blacken t) = inorder t"
  by (cases t; simp)+

lemma inv_blacken [simp]:
  "invc t \<Longrightarrow> invc (blacken t)" "invh t \<Longrightarrow> invh (blacken t)"
  by (cases t; simp)+

lemma blacken_id [simp]: "colour t = Black \<Longrightarrow> blacken t = t"
  by (cases t) auto

lemma bheight_blacken: "bheight (blacken t) = (if colour t = Red then Suc (bheight t) else bheight t)"
  by (cases t) auto

text \<open>
  A red-black tree is balanced: a path of length \<open>n\<close> has at least \<open>n div 2\<close> black nodes, so
  the loops that walk one path take at most twice the logarithm of the number of nodes.
\<close>

fun height :: "rbt \<Rightarrow> nat" where
  "height Leaf = 0"
| "height (Node c l a r) = Suc (max (height l) (height r))"

lemma height_bheight:
  "invc t \<Longrightarrow> invh t \<Longrightarrow> height t \<le> 2 * bheight t + (if colour t = Black then 0 else 1)"
  by (induction t) (auto split: if_split_asm)

lemma bheight_size: "invh t \<Longrightarrow> 2 ^ bheight t \<le> Suc (length (inorder t))"
proof (induction t)
  case Leaf
  then show ?case by simp
next
  case (Node c l a r)
  then have "2 ^ bheight l \<le> Suc (length (inorder l))"
    and "2 ^ bheight l \<le> Suc (length (inorder r))" by simp_all
  then show ?case by simp
qed

section \<open>Executing the pointer code symbolically\<close>

lemma change_child_root [simp]: "hev_rbtree_change_child s old new 0 = Some (s\<lparr>rb_root := new\<rparr>)"
  by (simp add: hev_rbtree_change_child_def)

definition same_outside :: "ptr list \<Rightarrow> rbtree \<Rightarrow> rbtree \<Rightarrow> bool" where
  "same_outside xs s s' \<longleftrightarrow> (\<forall>x. x \<notin> set xs \<longrightarrow> rb_mem s' x = rb_mem s x)"

lemma rbt_at_plug: "rbt_at s (plug t q) \<longleftrightarrow>
   rb_root s = rp (plug t q) \<and> tree_at (rb_mem s) (top q) t \<and> path_at (rb_mem s) (rp t) q \<and>
   wf_addrs (before q @ inorder t @ after q)"
  by (auto simp: rbt_at_def tree_at_plug inorder_plug)

lemma rp_sibling: "wf_addrs (before q @ inorder t @ after q) \<Longrightarrow> t \<noteq> Leaf \<Longrightarrow> 
  set (inorder s) \<subseteq> set (before q) \<union> set (after q) \<Longrightarrow> rp t \<noteq> rp s"
   by (cases t; cases s; auto simp: sep_simps aligned_def)

lemma rp_plug_Node: "q \<noteq> [] \<Longrightarrow> rp (plug (Node c l a r) q) = rp (plug Leaf q)"
  by (rule rp_plug_path)


text \<open>Rewriting the parent and colour of the root of a subtree.\<close>

fun paint :: "rbcolor \<Rightarrow> rbt \<Rightarrow> rbt" where
  "paint c Leaf = Leaf"
| "paint c (Node c' l a r) = Node c l a r"

fun re_root :: "(ptr \<rightharpoonup> rbnode) \<Rightarrow> ptr \<Rightarrow> rbcolor \<Rightarrow> rbt \<Rightarrow> (ptr \<rightharpoonup> rbnode)" where
  "re_root m par c Leaf = m"
| "re_root m par c (Node c' l a r) = m(a \<mapsto> cell par c (rp l) (rp r))"

lemma re_root_other [frame_simps]: "x \<notin> set (inorder t) \<Longrightarrow> re_root m par c t x = m x"
  by (cases t) auto

lemma tree_at_re_root [frame_simps]:
  "set (inorder t) \<inter> set (inorder t') = {} \<Longrightarrow>
     tree_at (re_root m par c t) par' t' = tree_at m par' t'"
  "set (inorder t') \<inter> set (inorder t) = {} \<Longrightarrow>
     tree_at (re_root m par c t) par' t' = tree_at m par' t'"
  by (cases t; simp add: tree_at_frame)+

lemma path_at_re_root [frame_simps]:
  "set (before p) \<inter> set (inorder t) = {} \<Longrightarrow> set (inorder t) \<inter> set (after p) = {} \<Longrightarrow>
     path_at (re_root m par c t) x p = path_at m x p"
  by (cases t) (auto simp: path_at_frame)

lemma re_root_paint [frame_simps]:
  "tree_at m par' t \<Longrightarrow> distinct (inorder t) \<Longrightarrow> tree_at (re_root m par c t) par (paint c t)"
  by (cases t) (auto simp: tree_at_frame)

lemma paint_simps [simp]:
  "paint Black t = blacken t" "rp (paint c t) = rp t" "inorder (paint c t) = inorder t"
  "paint (colour t) t = t"
  by (cases t; simp)+

lemmas re_root_blacken [frame_simps] = re_root_paint [where c = Black, simplified]

lemma set_black_under_tree [frame_simps]:
  "tree_at (rb_mem s) par' t \<Longrightarrow> \<forall>a\<in>set (inorder t). aligned a \<Longrightarrow>
     set_black_under s (rp t) par = Some (s\<lparr>rb_mem := re_root (rb_mem s) par Black t\<rparr>)"
  by (cases t) (auto simp: set_black_under_def cell_simps aligned_def)

lemmas exec_simps = cell_simps frame_simps hev_rbtree_rotate_set_parents_def
   alignedD top_and_3 change_child_path set_hole_other rbt_at_def tree_at_plug same_outside_def wp_simps
   sep_simps rp_plug_Node

lemmas focus_simps = rbt_at_def tree_at_plug sep_simps

lemma rp_neq: "rbt_at st (plug t q) \<Longrightarrow> t \<noteq> Leaf \<Longrightarrow> 
  set (inorder s) \<subseteq> set (before q) \<union> set (after q) \<Longrightarrow> rp t \<noteq> rp s"
  by (rule rp_sibling [of q]) (auto simp: rbt_at_def inorder_plug)

end
