(* ===== verification/Rbtree_Insert.thy ===== *)
theory Rbtree_Insert
  imports Rbtree_Shape
begin

text \<open>
  Insertion. \<open>ins_fix\<close> is the rebalancing of \<open>hev_rbtree_insert_color\<close> on the abstract tree: the
  subtree at the red node and the path to the root. The pointer code refines it, and it keeps
  the in-order sequence and establishes the red-black invariants.
\<close>

section \<open>Rebalancing on abstract trees\<close>

fun ins_fix :: "rbt \<Rightarrow> path \<Rightarrow> rbt" where
  "ins_fix t [] = blacken t"
| "ins_fix t (InL Black a s # q) = plug t (InL Black a s # q)"
| "ins_fix t (InR Black s a # q) = plug t (InR Black s a # q)"
| "ins_fix t (InL Red p s # InL gc g (Node Red ul u ur) # q) =
     ins_fix (Node Red (Node Black t p s) g (Node Black ul u ur)) q"
| "ins_fix t (InR Red s p # InL gc g (Node Red ul u ur) # q) =
     ins_fix (Node Red (Node Black s p t) g (Node Black ul u ur)) q"
| "ins_fix t (InL Red p s # InR gc (Node Red ul u ur) g # q) =
     ins_fix (Node Red (Node Black ul u ur) g (Node Black t p s)) q"
| "ins_fix t (InR Red s p # InR gc (Node Red ul u ur) g # q) =
     ins_fix (Node Red (Node Black ul u ur) g (Node Black s p t)) q"
| "ins_fix t (InL Red p s # InL gc g u # q) =
     plug (Node gc t p (Node Red (blacken s) g u)) q"
| "ins_fix (Node c nl n nr) (InR Red s p # InL gc g u # q) =
     plug (Node gc (Node Red s p (blacken nl)) n (Node Red (blacken nr) g u)) q"
| "ins_fix t (InR Red s p # InR gc u g # q) =
     plug (Node gc (Node Red u g (blacken s)) p t) q"
| "ins_fix (Node c nl n nr) (InL Red p s # InR gc u g # q) =
     plug (Node gc (Node Red u g (blacken nl)) n (Node Red (blacken nr) p s)) q"
| "ins_fix t q = plug t q"

lemma inorder_ins_fix: "inorder (ins_fix t p) = before p @ inorder t @ after p"
  by (induction t p rule: ins_fix.induct) (auto simp: inorder_plug)

lemma redblack_blacken: "invc t \<Longrightarrow> invh t \<Longrightarrow> redblack (blacken t)"
  by (simp add: redblack_def)

lemma redblack_ins_fix:
  "invc t \<Longrightarrow> invh t \<Longrightarrow> colour t = Red \<Longrightarrow> path_c Black p \<Longrightarrow> path_h (bheight t) p \<Longrightarrow>
     redblack (ins_fix t p)"
  by (induction t p rule: ins_fix.induct)
     (auto simp: redblack_plug redblack_blacken bheight_blacken path_c_Black)

section \<open>The pointer code on one rotation\<close>

lemma insert_rotate_right_single:
  assumes "rbt_at st (plug t (InL Red p s # InL gc g u # q))" and "rp t \<noteq> rp s"
  shows "wp (insert_rotate_right st (rp t) p g) (\<lambda>st'.
     rbt_at st' (plug (Node gc t p (Node Red (blacken s) g u)) q) \<and>
     same_outside (inorder (plug t (InL Red p s # InL gc g u # q))) st st')"
  by (cases "q = []"; insert assms; simp add: focus_simps del: if_split; elim conjE;
    simp add: insert_rotate_right_def exec_simps path_at_set_hole [where x = g] del: if_split)

lemma insert_rotate_left_single:
  assumes "rbt_at st (plug t (InR Red s p # InR gc u g # q))" and "rp t \<noteq> rp s"
  shows "wp (insert_rotate_left st (rp t) p g) (\<lambda>st'.
     rbt_at st' (plug (Node gc (Node Red u g (blacken s)) p t) q) \<and>
     same_outside (inorder (plug t (InR Red s p # InR gc u g # q))) st st')"
  by (cases "q = []"; insert assms; simp add: focus_simps del: if_split; elim conjE;
    simp add: insert_rotate_left_def exec_simps path_at_set_hole [where x = g] del: if_split)

lemma insert_rotate_right_double:
  assumes "rbt_at st (plug (Node c nl n nr) (InR Red s p # InL gc g u # q))"
  shows "wp (insert_rotate_right st n p g) (\<lambda>st'.
     rbt_at st' (plug (Node gc (Node Red s p (blacken nl)) n (Node Red (blacken nr) g u)) q) \<and>
     same_outside (inorder (plug (Node c nl n nr) (InR Red s p # InL gc g u # q))) st st')"
  by (cases "q = []"; insert assms; simp add: focus_simps del: if_split; elim conjE;
    simp add: insert_rotate_right_def exec_simps path_at_set_hole [where x = g] del: if_split)

lemma insert_rotate_left_double:
  assumes "rbt_at st (plug (Node c nl n nr) (InL Red p s # InR gc u g # q))"
  shows "wp (insert_rotate_left st n p g) (\<lambda>st'.
     rbt_at st' (plug (Node gc (Node Red u g (blacken nl)) n (Node Red (blacken nr) p s)) q) \<and>
     same_outside (inorder (plug (Node c nl n nr) (InL Red p s # InR gc u g # q))) st st')"
  by (cases "q = []"; insert assms; simp add: focus_simps del: if_split; elim conjE;
    simp add: insert_rotate_left_def exec_simps path_at_set_hole [where x = g] del: if_split)

section \<open>The pointer code on a recolouring\<close>

definition moved_up :: "rbtree \<Rightarrow> rbt \<Rightarrow> path \<Rightarrow> rbt \<Rightarrow> path \<Rightarrow> rbtree \<times> ptr \<times> ptr \<Rightarrow> bool" where
  "moved_up st t p t' q = (\<lambda>(st', node, parent). node = rp t' \<and> parent = top q \<and>
     rbt_at st' (plug t' q) \<and> same_outside (inorder (plug t p)) st st')"

lemma insert_flip_LL:
  assumes "rbt_at st (plug t (InL Red p s # InL gc g (Node Red ul u ur) # q))"
  shows "wp (insert_flip st p g u) (moved_up st t (InL Red p s # InL gc g (Node Red ul u ur) # q)
     (Node Red (Node Black t p s) g (Node Black ul u ur)) q)"
  by (insert assms; simp add: focus_simps del: if_split; elim conjE;
    simp add: insert_flip_def moved_up_def exec_simps del: if_split; rule rp_plug_cong; simp)

lemma insert_flip_RL:
  assumes "rbt_at st (plug t (InR Red s p # InL gc g (Node Red ul u ur) # q))"
  shows "wp (insert_flip st p g u) (moved_up st t (InR Red s p # InL gc g (Node Red ul u ur) # q)
     (Node Red (Node Black s p t) g (Node Black ul u ur)) q)"
  by (insert assms; simp add: focus_simps del: if_split; elim conjE;
    simp add: insert_flip_def moved_up_def exec_simps del: if_split; rule rp_plug_cong; simp)

lemma insert_flip_LR:
  assumes "rbt_at st (plug t (InL Red p s # InR gc (Node Red ul u ur) g # q))"
  shows "wp (insert_flip st p g u) (moved_up st t (InL Red p s # InR gc (Node Red ul u ur) g # q)
     (Node Red (Node Black ul u ur) g (Node Black t p s)) q)"
  by (insert assms; simp add: focus_simps del: if_split; elim conjE;
    simp add: insert_flip_def moved_up_def exec_simps del: if_split; rule rp_plug_cong; simp)

lemma insert_flip_RR:
  assumes "rbt_at st (plug t (InR Red s p # InR gc (Node Red ul u ur) g # q))"
  shows "wp (insert_flip st p g u) (moved_up st t (InR Red s p # InR gc (Node Red ul u ur) g # q)
     (Node Red (Node Black ul u ur) g (Node Black s p t)) q)"
  by (insert assms; simp add: focus_simps del: if_split; elim conjE;
    simp add: insert_flip_def moved_up_def exec_simps del: if_split; rule rp_plug_cong; simp)

lemmas insert_flips = insert_flip_LL insert_flip_RL insert_flip_LR insert_flip_RR

section \<open>The loop\<close>

lemma same_outside_trans:
  "same_outside xs a b \<Longrightarrow> same_outside ys b c \<Longrightarrow> set ys = set xs \<Longrightarrow> same_outside xs a c"
  by (simp add: same_outside_def)

definition refines_ins :: "rbtree \<Rightarrow> rbt \<Rightarrow> path \<Rightarrow> rbtree \<Rightarrow> bool" where
  "refines_ins st t p = (\<lambda>st'. rbt_at st' (ins_fix t p) \<and> same_outside (inorder (plug t p)) st st')"

lemma continue_loop:
  assumes "wp m (moved_up st t p t' q)"
    and "\<And>st'. rbt_at st' (plug t' q) \<Longrightarrow> wp (insert_color_loop st' (rp t') (top q)) (refines_ins st' t' q)"
    and "ins_fix t p = ins_fix t' q" and "set (inorder (plug t' q)) = set (inorder (plug t p))"
  shows "wp m (\<lambda>r. wp (case r of (st, node, parent) \<Rightarrow> insert_color_loop st node parent)
    (refines_ins st t p))"
  using assms(1)
proof (rule wp_mono, clarsimp simp: moved_up_def)
  fix st'
  assume st': "rbt_at st' (plug t' q)" "same_outside (inorder (plug t p)) st st'"
  show "wp (insert_color_loop st' (rp t') (top q)) (refines_ins st t p)"
    using assms(2) [OF st'(1)]
    by (rule wp_mono) (use assms(3,4) st'(2) in \<open>auto simp: refines_ins_def intro: same_outside_trans\<close>)
qed

text \<open>The uncle is red (one lemma for each position of the node), or it is not.\<close>

lemma insert_loop_LL:
  assumes "rbt_at st (plug t (InL Red p s # InL gc g (Node Red ul u ur) # q))"
    and "\<And>st'. rbt_at st' (plug (Node Red (Node Black t p s) g (Node Black ul u ur)) q) \<Longrightarrow>
      wp (insert_color_loop st' g (top q)) (refines_ins st' (Node Red (Node Black t p s) g (Node Black ul u ur)) q)"
  shows "wp (insert_color_loop st (rp t) p) (refines_ins st t (InL Red p s # InL gc g (Node Red ul u ur) # q))"
  using continue_loop [OF insert_flip_LL [OF assms(1)], simplified, OF assms(2), simplified] assms(1)
  by (subst insert_color_loop.simps; simp add: focus_simps inorder_plug del: if_split; elim conjE;
    simp add: exec_simps ptr_is_red_def)

lemma insert_loop_RL:
  assumes "rbt_at st (plug t (InR Red s p # InL gc g (Node Red ul u ur) # q))"
    and "\<And>st'. rbt_at st' (plug (Node Red (Node Black s p t) g (Node Black ul u ur)) q) \<Longrightarrow>
      wp (insert_color_loop st' g (top q)) (refines_ins st' (Node Red (Node Black s p t) g (Node Black ul u ur)) q)"
  shows "wp (insert_color_loop st (rp t) p) (refines_ins st t (InR Red s p # InL gc g (Node Red ul u ur) # q))"
  using continue_loop [OF insert_flip_RL [OF assms(1)], simplified, OF assms(2), simplified] assms(1)
  by (subst insert_color_loop.simps; simp add: focus_simps inorder_plug del: if_split; elim conjE;
    simp add: exec_simps ptr_is_red_def)

lemma insert_loop_LR:
  assumes "rbt_at st (plug t (InL Red p s # InR gc (Node Red ul u ur) g # q))"
    and "\<And>st'. rbt_at st' (plug (Node Red (Node Black ul u ur) g (Node Black t p s)) q) \<Longrightarrow>
      wp (insert_color_loop st' g (top q)) (refines_ins st' (Node Red (Node Black ul u ur) g (Node Black t p s)) q)"
  shows "wp (insert_color_loop st (rp t) p) (refines_ins st t (InL Red p s # InR gc (Node Red ul u ur) g # q))"
  using continue_loop [OF insert_flip_LR [OF assms(1)], simplified, OF assms(2), simplified] assms(1)
  by (subst insert_color_loop.simps; simp add: focus_simps inorder_plug del: if_split; elim conjE;
    simp add: exec_simps ptr_is_red_def)

lemma insert_loop_RR:
  assumes "rbt_at st (plug t (InR Red s p # InR gc (Node Red ul u ur) g # q))"
    and "\<And>st'. rbt_at st' (plug (Node Red (Node Black ul u ur) g (Node Black s p t)) q) \<Longrightarrow>
      wp (insert_color_loop st' g (top q)) (refines_ins st' (Node Red (Node Black ul u ur) g (Node Black s p t)) q)"
  shows "wp (insert_color_loop st (rp t) p) (refines_ins st t (InR Red s p # InR gc (Node Red ul u ur) g # q))"
  using continue_loop [OF insert_flip_RR [OF assms(1)], simplified, OF assms(2), simplified] assms(1)
  by (subst insert_color_loop.simps; simp add: focus_simps inorder_plug del: if_split; elim conjE;
    simp add: exec_simps ptr_is_red_def)

lemma ins_fix_rotations:
  assumes "colour u = Black"
  shows "ins_fix t (InL Red p s # InL gc g u # q) = plug (Node gc t p (Node Red (blacken s) g u)) q"
    and "ins_fix (Node c nl n nr) (InR Red s p # InL gc g u # q) =
     plug (Node gc (Node Red s p (blacken nl)) n (Node Red (blacken nr) g u)) q"
    and "ins_fix t (InR Red s p # InR gc u g # q) = plug (Node gc (Node Red u g (blacken s)) p t) q"
    and "ins_fix (Node c nl n nr) (InL Red p s # InR gc u g # q) =
     plug (Node gc (Node Red u g (blacken nl)) n (Node Red (blacken nr) p s)) q"
  using assms by (cases u; simp)+

lemma insert_loop_LL_black:
  assumes "rbt_at st (plug t (InL Red p s # InL gc g u # q))" and "rp t \<noteq> rp s" and "colour u = Black"
  shows "wp (insert_color_loop st (rp t) p) (refines_ins st t (InL Red p s # InL gc g u # q))"
  using insert_rotate_right_single [OF assms(1,2)] assms
  by (cases u; subst insert_color_loop.simps; simp add: focus_simps ins_fix_rotations refines_ins_def del: if_split;
    elim conjE; simp add: exec_simps ptr_is_red_def)

lemma insert_loop_RR_black:
  assumes "rbt_at st (plug t (InR Red s p # InR gc u g # q))" and "rp t \<noteq> rp s" and "colour u = Black"
  shows "wp (insert_color_loop st (rp t) p) (refines_ins st t (InR Red s p # InR gc u g # q))"
  using insert_rotate_left_single [OF assms(1,2)] assms
  by (cases u; subst insert_color_loop.simps; simp add: focus_simps ins_fix_rotations refines_ins_def del: if_split;
    elim conjE; simp add: exec_simps ptr_is_red_def)

lemma insert_loop_RL_black:
  assumes "rbt_at st (plug (Node c nl n nr) (InR Red s p # InL gc g u # q))" and "colour u = Black"
  shows "wp (insert_color_loop st n p) (refines_ins st (Node c nl n nr) (InR Red s p # InL gc g u # q))"
  using insert_rotate_right_double [OF assms(1)] assms
  by (cases u; subst insert_color_loop.simps; simp add: focus_simps ins_fix_rotations refines_ins_def del: if_split;
    elim conjE; simp add: exec_simps ptr_is_red_def)

lemma insert_loop_LR_black:
  assumes "rbt_at st (plug (Node c nl n nr) (InL Red p s # InR gc u g # q))" and "colour u = Black"
  shows "wp (insert_color_loop st n p) (refines_ins st (Node c nl n nr) (InL Red p s # InR gc u g # q))"
  using insert_rotate_left_double [OF assms(1)] assms
  by (cases u; subst insert_color_loop.simps; simp add: focus_simps ins_fix_rotations refines_ins_def del: if_split;
    elim conjE; simp add: exec_simps ptr_is_red_def)

lemma insert_loop_stop:
  assumes "rbt_at st (plug t p)" and "t \<noteq> Leaf" and "p = [] \<or> (\<exists>a s q. p = InL Black a s # q \<or> p = InR Black s a # q)"
  shows "wp (insert_color_loop st (rp t) (top p)) (refines_ins st t p)"
  using assms
  by (cases t; elim exE disjE; hypsubst; subst insert_color_loop.simps; simp add: focus_simps del: if_split; elim conjE; 
    simp add: exec_simps refines_ins_def)

lemma insert_loop_correct:
  "rbt_at st (plug t p) \<Longrightarrow> t \<noteq> Leaf \<Longrightarrow> path_c Black p \<Longrightarrow>
     wp (insert_color_loop st (rp t) (top p)) (refines_ins st t p)"
proof (induction "length p" arbitrary: st t p rule: less_induct)
  case less
  consider "p = [] \<or> (\<exists>a s q. p = InL Black a s # q \<or> p = InR Black s a # q)"
    | a s g gc u q where "p = InL Red a s # InL gc g u # q \<or> p = InR Red s a # InL gc g u # q
        \<or> p = InL Red a s # InR gc u g # q \<or> p = InR Red s a # InR gc u g # q"
  proof (cases p)
    case (Cons s1 p1)
    show ?thesis
    proof (cases "p1")
      case Nil
      then show ?thesis using less.prems(3) Cons that(1) by (cases s1) auto
    next
      case (Cons s2 p2)
      then show ?thesis using less.prems(3) \<open>p = s1 # p1\<close> that by (cases s1; cases s2; metis rbcolor.exhaust)
    qed
  qed auto
  then show ?case
  proof cases
    case 1
    with less.prems show ?thesis by (intro insert_loop_stop) auto
  next
    case 2
    have *: "rp t \<noteq> rp s" using less.prems(1,2) by (rule rp_neq) (use 2 in auto)
    have q: "path_c Black q" using less.prems(3) 2 by (auto dest: path_c_Black)
    have ih: "wp (insert_color_loop st' a' (top q)) (refines_ins st' (Node Red l' a' r') q)"
      if "rbt_at st' (plug (Node Red l' a' r') q)" for st' l' a' r'
      using less.hyps [of q st' "Node Red l' a' r'"] that q 2 by auto
    obtain c nl n nr where t: "t = Node c nl n nr" using less.prems(2) by (cases t) auto
    show ?thesis
    proof (cases u)
      case Leaf
      then show ?thesis
      using 2 less.prems * insert_loop_LL_black insert_loop_RR_black insert_loop_RL_black insert_loop_LR_black t
      by (fastforce)
    next
      case (Node uc ul x ur)
      show ?thesis
      proof (cases uc)
        case Red
        have "rbt_at st (plug t p)" by (rule less.prems)
        with 2 show ?thesis unfolding Node Red
          by (elim disjE) (simp_all del: plug.simps add: insert_loop_LL insert_loop_RR insert_loop_RL insert_loop_LR ih)
      next
        case Black
        then show ?thesis
      using Node 2 less.prems * insert_loop_LL_black insert_loop_RR_black insert_loop_RL_black insert_loop_LR_black t
      by (fastforce)
      qed
    qed
  qed
qed

section \<open>Linking a new node and rebalancing\<close>

fun hole :: "path \<Rightarrow> rblink" where
  "hole [] = RootLink"
| "hole (InL c a r # p) = LeftLink a"
| "hole (InR c l a # p) = RightLink a"

lemma fresh_cell: "set_pc nd par\<lparr>rb_right := 0\<rparr>\<lparr>rb_left := 0\<rparr> = cell par Red 0 0"
  by (simp add: set_pc_def cell_def)

lemma node_link_at:
  assumes "rbt_at st (plug Leaf p)" and "rb_mem st n \<noteq> None" and "aligned n"
    and "n \<notin> set (before p @ after p)"
  shows "wp (hev_rbtree_node_link st n (top p) (hole p)) (\<lambda>st'.
    rbt_at st' (plug (Node Red Leaf n Leaf) p) \<and> same_outside (n # before p @ after p) st st')"
proof -
  obtain nd where nd: "rb_mem st n = Some nd" using assms(2) by auto
  show ?thesis
  proof (cases p rule: top.cases)
    case 1
    with assms(1,3,4) nd show ?thesis
      by (simp add: hev_rbtree_node_link_def exec_simps fresh_cell del: if_split)
  next
    case (2 c a r q)
    from assms(1,3,4) nd show ?thesis unfolding 2
      by (simp add: focus_simps del: if_split) (elim conjE, simp add: hev_rbtree_node_link_def
      exec_simps fresh_cell del: if_split, rule rp_plug_cong, simp)
  next
    case (3 c l a q)
    from assms(1,3,4) nd show ?thesis unfolding 3
      by (simp add: focus_simps del: if_split) (elim conjE, simp add: hev_rbtree_node_link_def
      exec_simps fresh_cell del: if_split, rule rp_plug_cong, simp)
  qed
qed

theorem rbtree_insert_refines:
  assumes "rbt_at st (plug Leaf p)" and "redblack (plug Leaf p)"
    and "rb_mem st n \<noteq> None" and "aligned n" and "n \<notin> set (inorder (plug Leaf p))"
  shows "wp (do { st \<leftarrow> hev_rbtree_node_link st n (top p) (hole p); hev_rbtree_insert_color st n })
    (\<lambda>st'. \<exists>t'. rbt_at st' t' \<and> redblack t' \<and> inorder t' = before p @ n # after p \<and>
      same_outside (n # before p @ after p) st st')"
proof -
  let ?t = "Node Red Leaf n Leaf"
  have rb: "redblack (ins_fix ?t p)"
    using assms(2) by (intro redblack_ins_fix) (auto simp: redblack_plug)
  have "wp (hev_rbtree_insert_color st' n) (refines_ins st' ?t p)" if "rbt_at st' (plug ?t p)" for st'
  proof -
    have "hev_rbtree_node_red_parent st' n = Some (top p)"
      using that by (simp add: exec_simps)
    moreover have "path_c Black p"
      using assms(2) by (simp add: redblack_plug)
    ultimately show ?thesis
      using insert_loop_correct [OF that] by (simp add: hev_rbtree_insert_color_def)
  qed
  note color = this
  show ?thesis
    unfolding wp_bind
  proof (rule wp_mono [OF node_link_at])
    fix st'
    assume st': "rbt_at st' (plug ?t p) \<and> same_outside (n # before p @ after p) st st'"
    then have "wp (hev_rbtree_insert_color st' n) (refines_ins st' ?t p)"
      by (simp add: color)
    then show "wp (hev_rbtree_insert_color st' n) (\<lambda>st'. \<exists>t'. rbt_at st' t' \<and> redblack t' \<and>
        inorder t' = before p @ n # after p \<and> same_outside (n # before p @ after p) st st')"
      by (rule wp_mono)
         (use st' rb in \<open>auto simp: refines_ins_def inorder_plug inorder_ins_fix same_outside_def\<close>)
  qed (use assms in \<open>auto simp: inorder_plug\<close>)
qed

end
