(* ===== verification/Rbtree_Erase.thy ===== *)
theory Rbtree_Erase
  imports Rbtree_Insert
begin

text \<open>
  Removal. \<open>del_fix\<close> is the rebalancing of \<open>hev_rbtree_erase_color\<close> on abstract trees; the
  pointer code refines it, and it restores the red-black invariants after a black node is gone.
\<close>

section \<open>Rebalancing after a removal, on abstract trees\<close>

text \<open>
  \<open>t\<close> has one black node too few. With a black sibling the subtree is repaired in place, or the
  deficit moves up to the parent (the flag).
\<close>

fun bal_left :: "rbt \<Rightarrow> rbcolor \<Rightarrow> ptr \<Rightarrow> rbt \<Rightarrow> rbt \<times> bool" where
  "bal_left t c a Leaf = (Node c t a Leaf, False)"
| "bal_left t c a (Node sc sl x sr) =
     (if colour sr = Red then (Node c (Node Black t a sl) x (blacken sr), False)
      else case sl of
        Node Red sll y slr \<Rightarrow> (Node c (Node Black t a sll) y (Node Black (blacken slr) x sr), False)
      | _ \<Rightarrow> (Node Black t a (Node Red sl x sr), c = Black))"

fun bal_right :: "rbt \<Rightarrow> rbcolor \<Rightarrow> ptr \<Rightarrow> rbt \<Rightarrow> rbt \<times> bool" where
  "bal_right Leaf c a t = (Node c Leaf a t, False)"
| "bal_right (Node sc sl x sr) c a t =
     (if colour sl = Red then (Node c (blacken sl) x (Node Black sr a t), False)
      else case sr of
        Node Red srl y srr \<Rightarrow> (Node c (Node Black sl x (blacken srl)) y (Node Black srr a t), False)
      | _ \<Rightarrow> (Node Black (Node Red sl x sr) a t, c = Black))"

fun del_fix :: "rbt \<Rightarrow> path \<Rightarrow> rbt" where
  "del_fix t [] = t"
| "del_fix t (InL c a s # q) =
     (case s of
        Node Red sl x sr \<Rightarrow> plug (fst (bal_left t Red a sl)) (InL c x sr # q)
      | _ \<Rightarrow> (case bal_left t c a s of (t', d) \<Rightarrow> if d then del_fix t' q else plug t' q))"
| "del_fix t (InR c s a # q) =
     (case s of
        Node Red sl x sr \<Rightarrow> plug (fst (bal_right sr Red a t)) (InR c sl x # q)
      | _ \<Rightarrow> (case bal_right s c a t of (t', d) \<Rightarrow> if d then del_fix t' q else plug t' q))"

lemma inorder_bal [simp]:
  "inorder (fst (bal_left t c a s)) = inorder t @ a # inorder s"
  "inorder (fst (bal_right s c a t)) = inorder s @ a # inorder t"
  by (cases s; auto split: rbt.split rbcolor.split)+

lemma inorder_del_fix: "inorder (del_fix t p) = before p @ inorder t @ after p"
  by (induction t p rule: del_fix.induct)
     (auto simp: inorder_plug split: rbt.split rbcolor.split prod.split dest!: arg_cong [where f = fst])

text \<open>What one repair establishes.\<close>

lemma bal_left_inv:
  assumes "invc t" "invh t" "colour t = Black" "invc s" "invh s" "colour s = Black"
    and "bheight s = Suc (bheight t)" and "bal_left t c a s = (t', d)"
  shows "invc t'" "invh t'" "if d then c = Black \<and> colour t' = Black \<and> bheight t' = bheight s
     else (colour t' = Red \<longrightarrow> c = Red) \<and> bheight t' = (if c = Black then Suc (bheight s) else bheight s)"
  using assms by (cases s; auto split: rbt.splits rbcolor.splits if_splits simp: bheight_blacken)+

lemma bal_right_inv:
  assumes "invc t" "invh t" "colour t = Black" "invc s" "invh s" "colour s = Black"
    and "bheight s = Suc (bheight t)" and "bal_right s c a t = (t', d)"
  shows "invc t'" "invh t'" "if d then c = Black \<and> colour t' = Black \<and> bheight t' = bheight s
     else (colour t' = Red \<longrightarrow> c = Red) \<and> bheight t' = (if c = Black then Suc (bheight s) else bheight s)"
  using assms by (cases s; auto split: rbt.splits rbcolor.splits if_splits simp: bheight_blacken)+

lemma redblack_plug_weaken:
  assumes "invc t" "invh t" "colour t = Red \<longrightarrow> c = Red" "path_c c q" "path_h (bheight t) q"
  shows "redblack (plug t q)"
  using assms by (cases "colour t"; cases c) (auto simp: redblack_plug dest: path_c_Black)

lemma del_fix_black:
  "colour s = Black \<Longrightarrow> bal_left t c a s = (t', d) \<Longrightarrow>
     del_fix t (InL c a s # q) = (if d then del_fix t' q else plug t' q)"
  "colour s = Black \<Longrightarrow> bal_right s c a t = (t', d) \<Longrightarrow>
     del_fix t (InR c s a # q) = (if d then del_fix t' q else plug t' q)"
  by (cases s; auto)+

lemma redblack_del_fix:
  "invc t \<Longrightarrow> invh t \<Longrightarrow> colour t = Black \<Longrightarrow> path_c Black p \<Longrightarrow> path_h (Suc (bheight t)) p \<Longrightarrow>
     redblack (del_fix t p)"
proof (induction p arbitrary: t)
  case Nil
  then show ?case by (simp add: redblack_def)
next
  case (Cons st q)
  show ?case
  proof (cases st)
    case st: (InL c a s)
    show ?thesis
    proof (cases "colour s")
      case Red
      then obtain sl x sr where s: "s = Node Red sl x sr" by (cases s) auto
      obtain t' d where b: "bal_left t Red a sl = (t', d)" by force
      show ?thesis
        using bal_left_inv [OF _ _ _ _ _ _ _ b] Cons.prems st s b
        by (auto simp: redblack_plug split: if_splits)
    next
      case Black
      obtain t' d where b: "bal_left t c a s = (t', d)" by force
      show ?thesis
        unfolding st del_fix_black(1) [OF Black b]
        using bal_left_inv [OF _ _ _ _ _ _ _ b] Cons.prems Cons.IH [of t'] st Black
        by (cases c) (auto intro!: redblack_plug_weaken [where c = c and t = t'] dest: path_c_Black split: if_splits)
    qed
  next
    case st: (InR c s a)
    show ?thesis
    proof (cases "colour s")
      case Red
      then obtain sl x sr where s: "s = Node Red sl x sr" by (cases s) auto
      obtain t' d where b: "bal_right sr Red a t = (t', d)" by force
      show ?thesis
        using bal_right_inv [OF _ _ _ _ _ _ _ b] Cons.prems st s b
        by (auto simp: redblack_plug split: if_splits)
    next
      case Black
      obtain t' d where b: "bal_right s c a t = (t', d)" by force
      show ?thesis
        unfolding st del_fix_black(2) [OF Black b]
        using bal_right_inv [OF _ _ _ _ _ _ _ b] Cons.prems Cons.IH [of t'] st Black
        by (cases c) (auto intro!: redblack_plug_weaken [where c = c and t = t'] dest: path_c_Black split: if_splits)
    qed
  qed
qed

section \<open>The pointer code of one repair\<close>

lemma set_parent_tree [frame_simps]:
  assumes "tree_at (rb_mem s) par' t" and "par' AND 3 = 0" and "\<forall>a\<in>set (inorder t). aligned a"
  shows "t \<noteq> Leaf \<Longrightarrow> hev_rbtree_node_set_parent s (rp t) par =
      Some (s\<lparr>rb_mem := re_root (rb_mem s) par (colour t) t\<rparr>)"
    and "(if rp t \<noteq> 0 then hev_rbtree_node_set_parent s (rp t) par else Some s) =
      Some (s\<lparr>rb_mem := re_root (rb_mem s) par (colour t) t\<rparr>)"
  using assms by (cases t; simp add: cell_simps alignedD)+

lemma re_root_same [frame_simps]:
  "tree_at m par' t \<Longrightarrow> distinct (inorder t) \<Longrightarrow> tree_at (re_root m par (colour t) t) par t"
  using re_root_paint [of m par' t par "colour t"] by simp

lemma null_or_black_tree [frame_simps]:
  assumes "tree_at (rb_mem s) par t" and "par AND 3 = 0" and "\<forall>a\<in>set (inorder t). aligned a"
  shows "null_or_black s (rp t) = Some (colour t = Black)"
  using assms by (cases t) (simp_all add: null_or_black_def cell_simps alignedD)

lemma null_or_black_node [frame_simps]:
  "rb_mem s p = Some n \<Longrightarrow> p \<noteq> 0 \<Longrightarrow> null_or_black s p = Some (n_col n = Black)"
  by (simp add: null_or_black_def cell_simps)

lemma top_not_0 [frame_simps]:
  "q \<noteq> [] \<Longrightarrow> \<forall>a\<in>set (before q). aligned a \<Longrightarrow> \<forall>a\<in>set (after q). aligned a \<Longrightarrow> top q \<noteq> 0"
  by (cases q rule: top.cases) (auto simp: aligned_def)

lemma blacken_cell:
  "cell par Red l r\<lparr>rb_pc := par OR 1\<rparr> = cell par Black l r"
  "cell 0 Red l r\<lparr>rb_pc := 1\<rparr> = cell 0 Black l r"
  by (simp_all add: cell_def)

definition repaired :: "rbtree \<Rightarrow> ptr list \<Rightarrow> path \<Rightarrow> rbt \<times> bool \<Rightarrow> rbtree \<times> (ptr \<times> ptr) option \<Rightarrow> bool" where
  "repaired st xs q = (\<lambda>(t', d) (st', nx). nx = (if d \<and> q \<noteq> [] then Some (rp t', top q) else None) \<and>
     rbt_at st' (plug t' q) \<and> same_outside xs st st')"

lemma repair_left_far:
  assumes "rbt_at st (plug t (InL c a (Node Black sl x (Node Red srl z srr)) # q))"
  shows "wp (erase_black_right st a x)
    (repaired st (inorder (plug t (InL c a (Node Black sl x (Node Red srl z srr)) # q))) q
      (Node c (Node Black t a sl) x (Node Black srl z srr), False))"
  by (cases "q = []"; insert assms; simp add: focus_simps del: if_split; elim conjE;
    simp add: erase_black_right_def erase_rotate_left_def repaired_def frame_simps exec_simps
      path_at_set_hole [where x = a] del: if_split)

lemma repair_left_near:
  assumes "rbt_at st (plug t (InL c a (Node Black (Node Red sll y slr) x sr) # q))" and "colour sr = Black"
  shows "wp (erase_black_right st a x)
    (repaired st (inorder (plug t (InL c a (Node Black (Node Red sll y slr) x sr) # q))) q
      (Node c (Node Black t a sll) y (Node Black (blacken slr) x sr), False))"
  by (cases "q = []"; insert assms; simp add: focus_simps del: if_split; elim conjE;
    simp add: erase_black_right_def erase_rotate_left_def repaired_def frame_simps exec_simps
      path_at_set_hole [where x = a] del: if_split)

lemma repair_left_flip:
  assumes "rbt_at st (plug t (InL c a (Node Black sl x sr) # q))" and "colour sr = Black" and "colour sl = Black"
  shows "wp (erase_black_right st a x)
    (repaired st (inorder (plug t (InL c a (Node Black sl x sr) # q))) q
      (Node Black t a (Node Red sl x sr), c = Black))"
  by (cases "q = []"; cases c; insert assms; simp add: focus_simps del: if_split; elim conjE;
    simp add: erase_black_right_def erase_flip_def blacken_cell repaired_def frame_simps exec_simps
      path_at_set_hole [where x = a] del: if_split)

lemma repair_right_far:
  assumes "rbt_at st (plug t (InR c (Node Black (Node Red sll z slr) x sr) a # q))"
  shows "wp (erase_black_left st a x)
    (repaired st (inorder (plug t (InR c (Node Black (Node Red sll z slr) x sr) a # q))) q
      (Node c (Node Black sll z slr) x (Node Black sr a t), False))"
  by (cases "q = []"; insert assms; simp add: focus_simps del: if_split; elim conjE;
    simp add: erase_black_left_def erase_rotate_right_def repaired_def frame_simps exec_simps
      path_at_set_hole [where x = a] del: if_split)

lemma repair_right_near:
  assumes "rbt_at st (plug t (InR c (Node Black sl x (Node Red srl y srr)) a # q))" and "colour sl = Black"
  shows "wp (erase_black_left st a x)
    (repaired st (inorder (plug t (InR c (Node Black sl x (Node Red srl y srr)) a # q))) q
      (Node c (Node Black sl x (blacken srl)) y (Node Black srr a t), False))"
  by (cases "q = []"; insert assms; simp add: focus_simps del: if_split; elim conjE;
    simp add: erase_black_left_def erase_rotate_right_def repaired_def frame_simps exec_simps
      path_at_set_hole [where x = a] del: if_split)

lemma repair_right_flip:
  assumes "rbt_at st (plug t (InR c (Node Black sl x sr) a # q))" and "colour sl = Black" and "colour sr = Black"
  shows "wp (erase_black_left st a x)
    (repaired st (inorder (plug t (InR c (Node Black sl x sr) a # q))) q
      (Node Black (Node Red sl x sr) a t, c = Black))"
  by (cases "q = []"; cases c; insert assms; simp add: focus_simps del: if_split; elim conjE;
    simp add: erase_black_left_def erase_flip_def blacken_cell repaired_def frame_simps exec_simps
      path_at_set_hole [where x = a] del: if_split)

lemma repair_left:
  assumes "rbt_at st (plug t (InL c a s # q))" and "s \<noteq> Leaf" and "colour s = Black"
  shows "wp (erase_black_right st a (rp s)) (repaired st (inorder (plug t (InL c a s # q))) q (bal_left t c a s))"
proof -
  obtain sl x sr where s: "s = Node Black sl x sr" using assms(2,3) by (cases s) auto
  show ?thesis
    using assms(1) repair_left_far repair_left_near repair_left_flip unfolding s
    by (cases sr; cases sl; cases "colour sr"; cases "colour sl"; simp del: plug.simps inorder_plug)
qed

lemma repair_right:
  assumes "rbt_at st (plug t (InR c s a # q))" and "s \<noteq> Leaf" and "colour s = Black"
  shows "wp (erase_black_left st a (rp s)) (repaired st (inorder (plug t (InR c s a # q))) q (bal_right s c a t))"
proof -
  obtain sl x sr where s: "s = Node Black sl x sr" using assms(2,3) by (cases s) auto
  show ?thesis
    using assms(1) repair_right_far repair_right_near repair_right_flip unfolding s
    by (cases sr; cases sl; cases "colour sr"; cases "colour sl"; simp del: plug.simps inorder_plug)
qed

text \<open>A red sibling is rotated up first; its inner child becomes the sibling.\<close>

lemma red_right:
  assumes "rbt_at st (plug t (InL c a (Node Red sl x sr) # q))" and "sl \<noteq> Leaf" and "colour sl = Black"
  shows "wp (erase_red_right st a x) (\<lambda>(st', sib). sib = rp sl \<and>
    rbt_at st' (plug t (InL Red a sl # InL c x sr # q)) \<and>
    same_outside (inorder (plug t (InL c a (Node Red sl x sr) # q))) st st')"
  by (cases "q = []"; cases sl; insert assms; simp add: focus_simps del: if_split; elim conjE;
    simp add: erase_red_right_def frame_simps exec_simps path_at_set_hole [where x = a] del: if_split)

lemma red_left:
  assumes "rbt_at st (plug t (InR c (Node Red sl x sr) a # q))" and "sr \<noteq> Leaf" and "colour sr = Black"
  shows "wp (erase_red_left st a x) (\<lambda>(st', sib). sib = rp sr \<and>
    rbt_at st' (plug t (InR Red sr a # InR c sl x # q)) \<and>
    same_outside (inorder (plug t (InR c (Node Red sl x sr) a # q))) st st')"
  by (cases "q = []"; cases sr; insert assms; simp add: focus_simps del: if_split; elim conjE;
    simp add: erase_red_left_def frame_simps exec_simps path_at_set_hole [where x = a] del: if_split)

lemma black_right_stays:
  assumes "rbt_at st (plug t (InL c a (Node Black sl x sr) # q))"
  shows "erase_red_right st a x = Some (st, x)"
  by (insert assms; simp add: focus_simps del: if_split; elim conjE;
    simp add: erase_red_right_def frame_simps exec_simps del: if_split)

lemma black_left_stays:
  assumes "rbt_at st (plug t (InR c (Node Black sl x sr) a # q))"
  shows "erase_red_left st a x = Some (st, x)"
  by (insert assms; simp add: focus_simps del: if_split; elim conjE;
    simp add: erase_red_left_def frame_simps exec_simps del: if_split)

text \<open>
  One iteration: the loop ends with the rebalanced tree, or goes on at the parent with the
  repaired subtree \<open>u\<close>, whose deficit has moved up to it.
\<close>

definition stepped :: "rbtree \<Rightarrow> rbt \<Rightarrow> path \<Rightarrow> path \<Rightarrow> (rbt \<Rightarrow> bool) \<Rightarrow> rbtree \<times> (ptr \<times> ptr) option \<Rightarrow> bool" where
  "stepped st t p q up = (\<lambda>(st', nx). same_outside (inorder (plug t p)) st st' \<and>
     (case nx of
        None \<Rightarrow> rbt_at st' (del_fix t p)
      | Some (n, parent) \<Rightarrow> \<exists>u. rbt_at st' (plug u q) \<and> n = rp u \<and> parent = top q \<and> q \<noteq> [] \<and> up u))"

lemma step_left:
  assumes st: "rbt_at st (plug t (InL c a s # q))" and s: "s \<noteq> Leaf"
    and red: "\<And>sl x sr. s = Node Red sl x sr \<Longrightarrow> sl \<noteq> Leaf \<and> colour sl = Black"
  shows "wp (erase_step_left st a (rp s)) (stepped st t (InL c a s # q) q
    (\<lambda>u. c = Black \<and> colour s = Black \<and> bal_left t c a s = (u, True)))"
proof (cases "colour s")
  case Red
  then obtain sl x sr where s': "s = Node Red sl x sr" "sl \<noteq> Leaf" "colour sl = Black"
    using red by (cases s) auto
  obtain t' d where b: "bal_left t Red a sl = (t', d)" by force
  have d: "\<not> d" using b s'(2) by (cases sl) (auto split: if_splits rbt.splits rbcolor.splits)
  have "wp (erase_black_right st' a (rp sl)) (repaired st'
      (inorder (plug t (InL Red a sl # InL c x sr # q))) (hd (tl (InL Red a sl # InL c x sr # q)) # q) (t', d))"
    if "rbt_at st' (plug t (InL Red a sl # InL c x sr # q))" for st'
    using repair_left [OF that s'(2,3)] b by simp
  then show ?thesis
    unfolding s' erase_step_left_def wp_bind rp.simps
    by - (rule wp_mono [OF red_right [OF st [unfolded s'] s'(2,3)]], clarsimp simp del: plug.simps,
      rule wp_mono, assumption, use d b in \<open>auto simp: repaired_def stepped_def same_outside_def inorder_plug\<close>)
next
  case Black
  then obtain sl x sr where s': "s = Node Black sl x sr" using s by (cases s) auto
  obtain t' d where b: "bal_left t c a s = (t', d)" by force
  have dc: "d \<Longrightarrow> c = Black" using b s' by (auto split: if_splits rbt.splits rbcolor.splits)
  have "wp (erase_black_right st a x) (repaired st (inorder (plug t (InL c a s # q))) q (t', d))"
    using repair_left [OF st s Black] b s' by simp
  then show ?thesis
    unfolding s' erase_step_left_def wp_bind rp.simps black_right_stays [OF st [unfolded s']] wp_Some prod.case
    by (rule wp_mono) (cases "q = []"; cases d; insert dc b s' Black;
      auto simp: repaired_def stepped_def same_outside_def inorder_plug)
qed

lemma step_right:
  assumes st: "rbt_at st (plug t (InR c s a # q))" and s: "s \<noteq> Leaf"
    and red: "\<And>sl x sr. s = Node Red sl x sr \<Longrightarrow> sr \<noteq> Leaf \<and> colour sr = Black"
  shows "wp (erase_step_right st a (rp s)) (stepped st t (InR c s a # q) q
    (\<lambda>u. c = Black \<and> colour s = Black \<and> bal_right s c a t = (u, True)))"
proof (cases "colour s")
  case Red
  then obtain sl x sr where s': "s = Node Red sl x sr" "sr \<noteq> Leaf" "colour sr = Black"
    using red by (cases s) auto
  obtain t' d where b: "bal_right sr Red a t = (t', d)" by force
  have d: "\<not> d" using b s'(2) by (cases sr) (auto split: if_splits rbt.splits rbcolor.splits)
  have "wp (erase_black_left st' a (rp sr)) (repaired st'
      (inorder (plug t (InR Red sr a # InR c sl x # q))) (hd (tl (InR Red sr a # InR c sl x # q)) # q) (t', d))"
    if "rbt_at st' (plug t (InR Red sr a # InR c sl x # q))" for st'
    using repair_right [OF that s'(2,3)] b by simp
  then show ?thesis
    unfolding s' erase_step_right_def wp_bind rp.simps
    by - (rule wp_mono [OF red_left [OF st [unfolded s'] s'(2,3)]], clarsimp simp del: plug.simps,
      rule wp_mono, assumption, use d b in \<open>auto simp: repaired_def stepped_def same_outside_def inorder_plug\<close>)
next
  case Black
  then obtain sl x sr where s': "s = Node Black sl x sr" using s by (cases s) auto
  obtain t' d where b: "bal_right s c a t = (t', d)" by force
  have dc: "d \<Longrightarrow> c = Black" using b s' by (auto split: if_splits rbt.splits rbcolor.splits)
  have "wp (erase_black_left st a x) (repaired st (inorder (plug t (InR c s a # q))) q (t', d))"
    using repair_right [OF st s Black] b s' by simp
  then show ?thesis
    unfolding s' erase_step_right_def wp_bind rp.simps black_left_stays [OF st [unfolded s']] wp_Some prod.case
    by (rule wp_mono) (cases "q = []"; cases d; insert dc b s' Black;
      auto simp: repaired_def stepped_def same_outside_def inorder_plug)
qed

section \<open>The loop\<close>

definition refines_del :: "rbtree \<Rightarrow> rbt \<Rightarrow> path \<Rightarrow> rbtree \<Rightarrow> bool" where
  "refines_del st t p = (\<lambda>st'. rbt_at st' (del_fix t p) \<and> same_outside (inorder (plug t p)) st st')"

lemma rp_neq_right:
  assumes "rbt_at st (plug t q)" and "s \<noteq> Leaf" and "set (inorder s) \<subseteq> set (before q) \<union> set (after q)"
  shows "rp t \<noteq> rp s"
proof (cases t)
  case Leaf
  have "rp s \<in> set (before q) \<union> set (after q)" using assms(2,3) rp_in by blast
  then show ?thesis using assms(1) Leaf by (force simp: rbt_at_def inorder_plug wf_addrs_def aligned_def)
next
  case Node
  then show ?thesis using assms(1,3) rp_neq by blast
qed

lemma rd_children:
  "rbt_at st (plug t (InL c a s # q)) \<Longrightarrow> rd_right st a = Some (rp s)"
  "rbt_at st (plug t (InR c s a # q)) \<Longrightarrow> rd_right st a = Some (rp t) \<and> rd_left st a = Some (rp s)"
  by (auto simp: rbt_at_def tree_at_plug cell_simps)

lemma erase_loop_correct:
  "rbt_at st (plug t p) \<Longrightarrow> p \<noteq> [] \<Longrightarrow> invc t \<Longrightarrow> invh t \<Longrightarrow> colour t = Black \<Longrightarrow>
     path_c Black p \<Longrightarrow> path_h (Suc (bheight t)) p \<Longrightarrow>
     wp (erase_color_loop st (rp t) (top p)) (refines_del st t p)"
proof (induction p arbitrary: st t)
  case Nil
  then show ?case by simp
next
  case (Cons e q)
  have go: "wp (case r of (st', nx) \<Rightarrow> (case nx of None \<Rightarrow> Some st'
        | Some (n, parent) \<Rightarrow> erase_color_loop st' n parent)) (refines_del st t (e # q))"
    if "stepped st t (e # q) q up r" and "\<And>u. up u \<Longrightarrow> invc u \<and> invh u \<and> colour u = Black \<and>
      path_c Black q \<and> path_h (Suc (bheight u)) q \<and> del_fix t (e # q) = del_fix u q \<and>
      set (inorder (plug u q)) = set (inorder (plug t (e # q)))" for r up
    using that
    apply (cases r; cases "snd r")
    apply (auto simp: stepped_def refines_del_def)
    apply (rule wp_mono [OF Cons.IH])
    apply (auto simp: refines_del_def same_outside_def)
    done
  show ?case
  proof (cases e)
    case e: (InL c a s)
    have s: "s \<noteq> Leaf" using Cons.prems(7) e by auto
    have red: "sl \<noteq> Leaf \<and> colour sl = Black" if "s = Node Red sl x sr" for sl x sr
      using Cons.prems(6,7) that e by auto
    have ne: "rp t \<noteq> rp s"
      using Cons.prems(1) s by (rule rp_neq_right) (auto simp: e)
    have "wp (erase_step_left st a (rp s)) (\<lambda>r. wp (case r of (st', nx) \<Rightarrow> (case nx of None \<Rightarrow> Some st'
        | Some (n, parent) \<Rightarrow> erase_color_loop st' n parent)) (refines_del st t (e # q)))"
    proof (rule wp_mono [OF step_left [OF Cons.prems(1) [unfolded e] s]], erule red,
        unfold e [symmetric], erule go)
      fix u assume u: "c = Black \<and> colour s = Black \<and> bal_left t c a s = (u, True)"
      then show "invc u \<and> invh u \<and> colour u = Black \<and> path_c Black q \<and> path_h (Suc (bheight u)) q \<and>
          del_fix t (e # q) = del_fix u q \<and> set (inorder (plug u q)) = set (inorder (plug t (e # q)))"
        using bal_left_inv [of t s c a u True] arg_cong [where f = fst, of "bal_left t c a s" "(u, True)"]
          inorder_bal(1) [of t c a s] del_fix_black(1) [where s = s and t = t and c = c and a = a and t' = u and d = True and q = q] Cons.prems e
        by (auto simp: inorder_plug simp del: inorder_bal del_fix.simps)
    qed
    then show ?thesis
      using rd_children(1) [OF Cons.prems(1) [unfolded e]] ne
      by (subst erase_color_loop.simps) (simp add: e wp_simps case_prod_unfold)
  next
    case e: (InR c s a)
    have s: "s \<noteq> Leaf" using Cons.prems(7) e by auto
    have red: "sr \<noteq> Leaf \<and> colour sr = Black" if "s = Node Red sl x sr" for sl x sr
      using Cons.prems(6,7) that e by auto
    have "wp (erase_step_right st a (rp s)) (\<lambda>r. wp (case r of (st', nx) \<Rightarrow> (case nx of None \<Rightarrow> Some st'
        | Some (n, parent) \<Rightarrow> erase_color_loop st' n parent)) (refines_del st t (e # q)))"
    proof (rule wp_mono [OF step_right [OF Cons.prems(1) [unfolded e] s]], erule red,
        unfold e [symmetric], erule go)
      fix u assume u: "c = Black \<and> colour s = Black \<and> bal_right s c a t = (u, True)"
      then show "invc u \<and> invh u \<and> colour u = Black \<and> path_c Black q \<and> path_h (Suc (bheight u)) q \<and>
          del_fix t (e # q) = del_fix u q \<and> set (inorder (plug u q)) = set (inorder (plug t (e # q)))"
        using bal_right_inv [of t s c a u True] arg_cong [where f = fst, of "bal_right s c a t" "(u, True)"]
          inorder_bal(2) [of s c a t] del_fix_black(2) [where s = s and t = t and c = c and a = a and t' = u and d = True and q = q] Cons.prems e
        by (auto simp: inorder_plug simp del: inorder_bal del_fix.simps)
    qed
    then show ?thesis
      using rd_children(2) [OF Cons.prems(1) [unfolded e]]
      by (subst erase_color_loop.simps) (simp add: e wp_simps case_prod_unfold)
  qed
qed

section \<open>The successor\<close>

text \<open>A tree down to its leftmost node, and the path from there.\<close>

fun min_path :: "rbt \<Rightarrow> path" where
  "min_path Leaf = []"
| "min_path (Node c l a r) = (if l = Leaf then [] else min_path l @ [InL c a r])"

fun min_node :: "rbt \<Rightarrow> rbt" where
  "min_node Leaf = Leaf"
| "min_node (Node c l a r) = (if l = Leaf then Node c l a r else min_node l)"

lemma plug_min: "plug (min_node t) (min_path t) = t"
  by (induction t) (simp_all add: plug_append)

lemma min_node_cases: "t \<noteq> Leaf \<Longrightarrow> \<exists>c a r. min_node t = Node c Leaf a r"
  by (induction t) auto

lemma min_path_cases: "l \<noteq> Leaf \<Longrightarrow> \<exists>bc b br w. min_path (Node c l a r) = InL bc b br # w"
  by (induction l arbitrary: c a r) (auto, metis append_Cons append_Nil append_assoc)

lemma top_append: "top (p @ q) = (if p = [] then top q else top p)"
  by (cases p rule: top.cases) auto

lemma descend_left_min:
  "tree_at (rb_mem st) par (Node c l a r) \<Longrightarrow> \<forall>b\<in>set (inorder l). aligned b \<Longrightarrow> l \<noteq> Leaf \<Longrightarrow>
     descend_left st a (rp l) = Some (top (min_path (Node c l a r)), rp (min_node l))"
proof (induction l arbitrary: par c a r)
  case Leaf
  then show ?case by simp
next
  case (Node lc ll la lr)
  show ?case
  proof (cases "ll = Leaf")
    case True
    with Node.prems show ?thesis
      by (subst descend_left.simps) (simp add: cell_simps)
  next
    case False
    moreover have "rp ll \<noteq> 0"
      using False Node.prems(2) rp_in [OF False] by (auto simp: aligned_def)
    ultimately show ?thesis
      using Node.prems Node.IH(1) [of a lc la lr] min_path_cases [OF False, of lc la lr]
      by (subst descend_left.simps) (auto simp: cell_simps top_append)
  qed
qed

text \<open>A path that hangs below a given node.\<close>

definition top_below :: "ptr \<Rightarrow> path \<Rightarrow> ptr" where
  "top_below par w = (if w = [] then par else top w)"

fun seg_at :: "(ptr \<rightharpoonup> rbnode) \<Rightarrow> ptr \<Rightarrow> ptr \<Rightarrow> path \<Rightarrow> bool" where
  "seg_at m par x [] \<longleftrightarrow> True"
| "seg_at m par x (InL c a r # p) \<longleftrightarrow>
     m a = Some (cell (top_below par p) c x (rp r)) \<and> tree_at m a r \<and> seg_at m par a p"
| "seg_at m par x (InR c l a # p) \<longleftrightarrow>
     m a = Some (cell (top_below par p) c (rp l) x) \<and> tree_at m a l \<and> seg_at m par a p"

fun seg_root :: "ptr \<Rightarrow> path \<Rightarrow> ptr" where
  "seg_root x [] = x"
| "seg_root x (InL c a r # p) = seg_root a p"
| "seg_root x (InR c l a # p) = seg_root a p"

lemma rp_plug_seg: "rp (plug t w) = seg_root (rp t) w"
  by (induction t w rule: plug.induct) auto

lemma path_at_append:
  "path_at m x (w @ q) \<longleftrightarrow> seg_at m (top q) x w \<and> path_at m (seg_root x w) q"
  by (induction x w rule: seg_root.induct) (auto simp: top_append top_below_def)

lemma seg_at_frame [frame_simps]:
  "a \<notin> set (before w) \<Longrightarrow> a \<notin> set (after w) \<Longrightarrow> seg_at (m(a := v)) par x w = seg_at m par x w"
  by (induction m par x w rule: seg_at.induct) (auto simp: tree_at_frame)

lemma seg_root_in: "w \<noteq> [] \<Longrightarrow> seg_root x w \<in> set (before w) \<union> set (after w)"
  by (induction x w rule: seg_root.induct) (auto, (metis Un_iff seg_root.simps(1))+)

lemma before_append: "before (p @ q) = before q @ before p"
  by (induction p rule: before.induct) auto

lemma after_append: "after (p @ q) = after p @ after q"
  by (induction p rule: after.induct) auto

end
