(* ===== verification/Rbtree_Walk.thy ===== *)
theory Rbtree_Walk
  imports Rbtree_Shape
begin

text \<open>
  The iteration functions of \<open>hev-rbtree.c\<close> on a memory that holds a tree: first, last, next and
  previous walk the in-order sequence, and they return from every node.
\<close>

lemma go_left_min:
  "tree_at (rb_mem s) par (Node c l a r) \<Longrightarrow> \<forall>x\<in>set (inorder l). aligned x \<Longrightarrow>
     go_left s a = Some (hd (inorder (Node c l a r)))"
proof (induction l arbitrary: par c a r)
  case Leaf
  then show ?case by (subst go_left.simps) (simp add: cell_simps)
next
  case (Node c' l' a' r')
  show ?case
    using Node.prems Node.IH(1) [of a c' a' r']
    by (subst go_left.simps) (simp add: cell_simps alignedD hd_append)
qed

lemma go_right_max:
  "tree_at (rb_mem s) par (Node c l a r) \<Longrightarrow> \<forall>x\<in>set (inorder r). aligned x \<Longrightarrow>
     go_right s a = Some (last (inorder (Node c l a r)))"
proof (induction r arbitrary: par c a l)
  case Leaf
  then show ?case by (subst go_right.simps) (simp add: cell_simps)
next
  case (Node c' l' a' r')
  then show ?case
    using Node.IH(2) [of a c' l' a'] by (subst go_right.simps) (simp add: cell_simps alignedD)
qed

lemma climb_right_next:
  "rbt_at s (plug (Node c l a r) p) \<Longrightarrow>
     climb_right s a = Some (case after p of [] \<Rightarrow> 0 | x # _ \<Rightarrow> x)"
proof (induction p arbitrary: c l a r)
  case Nil
  then show ?case by (subst climb_right.simps) (simp add: rbt_at_def cell_simps)
next
  case (Cons e p)
  show ?case
  proof (cases e)
    case (InL c' a' r')
    have "rp r' \<noteq> a"
      using Cons.prems InL by (cases r') (auto simp: rbt_at_def inorder_plug wf_addrs_def)
    then show ?thesis
      using Cons.prems InL
      by (subst climb_right.simps)
        (auto simp: rbt_at_def tree_at_plug inorder_plug wf_addrs_def cell_simps aligned_def)
  next
    case (InR c' l' a')
    then show ?thesis
      using Cons.prems Cons.IH [of c' l' a' "Node c l a r"]
      by (subst climb_right.simps)
        (auto simp: rbt_at_def tree_at_plug inorder_plug wf_addrs_def cell_simps aligned_def)
  qed
qed

lemma climb_left_prev:
  "rbt_at s (plug (Node c l a r) p) \<Longrightarrow>
     climb_left s a = Some (if before p = [] then 0 else last (before p))"
proof (induction p arbitrary: c l a r)
  case Nil
  then show ?case by (subst climb_left.simps) (simp add: rbt_at_def cell_simps)
next
  case (Cons e p)
  show ?case
  proof (cases e)
    case (InR c' l' a')
    have "rp l' \<noteq> a"
      using Cons.prems InR by (cases l') (auto simp: rbt_at_def inorder_plug wf_addrs_def)
    then show ?thesis
      using Cons.prems InR
      by (subst climb_left.simps)
        (auto simp: rbt_at_def tree_at_plug inorder_plug wf_addrs_def cell_simps aligned_def)
  next
    case (InL c' a' r')
    then show ?thesis
      using Cons.prems Cons.IH [of c' "Node c l a r" a' r']
      by (subst climb_left.simps)
        (auto simp: rbt_at_def tree_at_plug inorder_plug wf_addrs_def cell_simps aligned_def)
  qed
qed

lemma rbtree_first_hd:
  "rbt_at s t \<Longrightarrow> hev_rbtree_first s = Some (case inorder t of [] \<Rightarrow> 0 | x # _ \<Rightarrow> x)"
  by (cases t)
    (auto simp: rbt_at_def hev_rbtree_first_def go_left_min wf_addrs_def aligned_def
      split: list.split dest: arg_cong [where f = hd])

text \<open>The successor and the predecessor in the in-order sequence, NULL at its ends.\<close>

lemma not_empty_at:
  assumes "rbt_at s (plug (Node c l a r) p)"
  shows "hev_rbtree_node_empty s a = Some False"
proof -
  have a: "rb_mem s a = Some (cell (top p) c (rp l) (rp r))"
    and al: "a AND 3 = 0" "a \<noteq> 0" "a \<notin> set (before p)" "a \<notin> set (after p)"
    and p: "top p AND 3 = 0"
    using assms by (auto simp: rbt_at_def tree_at_plug inorder_plug wf_addrs_def aligned_def intro!: top_and_3)
  have "top p \<noteq> a" using al(2,3,4) top_in [of p] by (cases p) auto
  moreover have "(top p OR 1) \<noteq> a" if "c = Black"
    using or_bit_and_1 [OF p, of Black] and_3_bit [OF al(1), of 0] by (auto simp: bit_simps)
  ultimately show ?thesis
    using a by (cases c) (auto simp: hev_rbtree_node_empty_def cell_simps cell_def)
qed

lemma rbtree_next_at:
  assumes "rbt_at s (plug (Node c l a r) p)"
  shows "hev_rbtree_node_next s a = Some (case inorder r @ after p of [] \<Rightarrow> 0 | x # _ \<Rightarrow> x)"
proof (cases r)
  case Leaf
  with assms climb_right_next [OF assms] not_empty_at [OF assms] show ?thesis
    by (simp add: hev_rbtree_node_next_def rbt_at_def tree_at_plug cell_simps)
next
  case (Node c' l' b r')
  with assms have "tree_at (rb_mem s) a r" "b \<noteq> 0" "\<forall>x\<in>set (inorder l'). aligned x"
    by (auto simp: rbt_at_def tree_at_plug inorder_plug wf_addrs_def aligned_def)
  moreover have "hd (inorder r) = (case inorder r @ after p of [] \<Rightarrow> 0 | x # _ \<Rightarrow> x)"
    using Node by (cases "inorder l'") auto
  ultimately show ?thesis
    using assms Node go_left_min [of s a c' l' b r'] not_empty_at [OF assms]
    by (simp add: hev_rbtree_node_next_def rbt_at_def tree_at_plug cell_simps)
qed

lemma rbtree_prev_at:
  assumes "rbt_at s (plug (Node c l a r) p)"
  shows "hev_rbtree_node_prev s a =
    Some (if before p @ inorder l = [] then 0 else last (before p @ inorder l))"
proof (cases l)
  case Leaf
  with assms climb_left_prev [OF assms] not_empty_at [OF assms] show ?thesis
    by (simp add: hev_rbtree_node_prev_def rbt_at_def tree_at_plug cell_simps)
next
  case (Node c' l' b r')
  with assms have "tree_at (rb_mem s) a l" "b \<noteq> 0" "\<forall>x\<in>set (inorder r'). aligned x"
    by (auto simp: rbt_at_def tree_at_plug inorder_plug wf_addrs_def aligned_def)
  then show ?thesis
    using assms Node go_right_max [of s a c' l' b r'] not_empty_at [OF assms]
    by (simp add: hev_rbtree_node_prev_def rbt_at_def tree_at_plug cell_simps)
qed

lemma focus_exists: "n \<in> set (inorder t) \<Longrightarrow> \<exists>c l r p. plug t q = plug (Node c l n r) p"
proof (induction t arbitrary: q)
  case (Node c l a r)
  then show ?case
    using Node.IH(1) [of "InL c a r # q"] Node.IH(2) [of "InR c l a # q"] by auto
qed simp

lemma focus_split:
  assumes "wf_addrs (inorder t)" and "inorder t = xs @ n # ys"
  obtains c l r p where "t = plug (Node c l n r) p" "xs = before p @ inorder l" "ys = inorder r @ after p"
proof -
  obtain c l r p where t: "t = plug (Node c l n r) p"
    using focus_exists [of n t "[]"] assms(2) by auto
  have "distinct (xs @ n # ys)" using assms by (simp add: wf_addrs_def)
  then have "n \<notin> set xs" "n \<notin> set ys" by simp_all
  moreover have "xs @ n # ys = (before p @ inorder l) @ n # (inorder r @ after p)"
    using assms(2) by (simp add: t inorder_plug)
  ultimately have "xs = before p @ inorder l" "ys = inorder r @ after p"
    using append_Cons_eq_iff [of n xs ys "before p @ inorder l" "inorder r @ after p"] by auto
  with t show ?thesis by (rule that)
qed

lemma rbtree_next_prev:
  assumes "rbt_at s t" and "inorder t = xs @ a # ys"
  shows "hev_rbtree_node_next s a = Some (if ys = [] then 0 else hd ys)"
    and "hev_rbtree_node_prev s a = Some (if xs = [] then 0 else last xs)"
proof -
  have "wf_addrs (inorder t)" using assms(1) by (simp add: rbt_at_def)
  then obtain c l r p where t: "t = plug (Node c l a r) p" "xs = before p @ inorder l" "ys = inorder r @ after p"
    using assms(2) by (rule focus_split)
  show "hev_rbtree_node_next s a = Some (if ys = [] then 0 else hd ys)"
    using rbtree_next_at [of s c l a r p] assms(1) t by (auto split: list.split)
  show "hev_rbtree_node_prev s a = Some (if xs = [] then 0 else last xs)"
    using rbtree_prev_at [of s c l a r p] assms(1) t by auto
qed

lemma rbtree_last_last:
  "rbt_at s t \<Longrightarrow> hev_rbtree_last s = Some (if inorder t = [] then 0 else last (inorder t))"
  by (cases t) (auto simp: rbt_at_def hev_rbtree_last_def go_right_max wf_addrs_def aligned_def)

end
