(* ===== verification/Rbtree_Unlink.thy ===== *)
theory Rbtree_Unlink
  imports Rbtree_Erase Rbtree_Walk "HOL-Library.Multiset"
begin

text \<open>
  The first half of removal, \<open>_hev_rbtree_erase\<close>: the node is taken out of the tree, a child or
  its successor takes its place, and the parent of a missing black node is reported. With the
  rebalancing it gives the theorem on \<open>hev_rbtree_erase\<close>.
\<close>


lemma seg_root_mapped:
  "seg_at m par z w \<Longrightarrow> w \<noteq> [] \<Longrightarrow> \<exists>c l r. m (seg_root z w) = Some (cell par c l r)"
proof (induction m par z w rule: seg_at.induct)
  case (2 m par x c a r p)
  then show ?case by (cases "p = []") (auto simp: top_below_def)
next
  case (3 m par x c l a p)
  then show ?case by (cases "p = []") (auto simp: top_below_def)
qed simp

lemma cell_inject:
  assumes "par AND 3 = 0" and "cell par c l r = cell par c' l' r'"
  shows "c = c'" "l = l'" "r = r'"
  using arg_cong [OF assms(2), of n_col] arg_cong [OF assms(2), of rb_left] arg_cong [OF assms(2), of rb_right]
  by (simp_all add: cell_packed(2) [OF assms(1)] cell_sel)

lemma seg_reroot [frame_simps]:
  "seg_at m par z w \<Longrightarrow> w \<noteq> [] \<Longrightarrow> m (seg_root z w) = Some (cell par c l r) \<Longrightarrow>
     distinct (before w @ after w) \<Longrightarrow> par AND 3 = 0 \<Longrightarrow> 
     seg_at (m(seg_root z w \<mapsto> cell x c l r)) x z w"
proof (induction m par z w rule: seg_at.induct)
  case (2 m par y c' a t p)
  show ?case
  proof (cases "p = []")
    case True
    with 2 show ?thesis
      by (auto simp: top_below_def tree_at_frame fun_upd_same simp del: fun_upd_apply dest: cell_inject)
  next
    case False
    have "seg_root a p \<in> set (before p) \<union> set (after p)" using False by (rule seg_root_in)
    then have "seg_root a p \<noteq> a" "seg_root a p \<notin> set (inorder t)" using 2(5) by auto
    with 2 False show ?thesis 
      by (auto simp: top_below_def tree_at_frame fun_upd_same fun_upd_other simp del: fun_upd_apply)
  qed
next
  case (3 m par y c' t a p)
  show ?case
  proof (cases "p = []")
    case True
    with 3 show ?thesis
      by (auto simp: top_below_def tree_at_frame fun_upd_same simp del: fun_upd_apply dest: cell_inject)
  next
    case False
    have "seg_root a p \<in> set (before p) \<union> set (after p)" using False by (rule seg_root_in)
    then have "seg_root a p \<noteq> a" "seg_root a p \<notin> set (inorder t)" using 3(5) by auto
    with 3 False show ?thesis 
      by (auto simp: top_below_def tree_at_frame fun_upd_same fun_upd_other simp del: fun_upd_apply)
  qed
qed simp

lemma red_pc [frame_simps]:
  "par AND 3 = 0 \<Longrightarrow> pc_parent par = par" "par AND 3 = 0 \<Longrightarrow> \<not> pc_is_black par"
  using cell_packed(5,6) [of par Red 0 0] by (simp_all add: cell_sel)

definition unlinked :: "rbtree \<Rightarrow> ptr list \<Rightarrow> rbt \<Rightarrow> ptr \<Rightarrow> rbtree \<times> ptr \<Rightarrow> bool" where
  "unlinked st xs t reb = (\<lambda>(st', r). rbt_at st' t \<and> r = reb \<and> same_outside xs st st')"

lemma set_pc_tree [frame_simps]:
  "tree_at (rb_mem s) par' t \<Longrightarrow> t \<noteq> Leaf \<Longrightarrow>
     wr_pc s (rp t) (rb_pc (cell par c l r)) = Some (s\<lparr>rb_mem := re_root (rb_mem s) par c t\<rparr>)"
  by (cases t) (simp_all add: cell_simps)

lemma unlink_no_left:
  assumes "rbt_at st (plug (Node c Leaf n r) p)"
  shows "wp (erase_unlink st n) (unlinked st (inorder (plug (Node c Leaf n r) p)) (plug (paint c r) p)
    (if r = Leaf \<and> c = Black then top p else 0))"
  by (cases "p = []"; cases r; insert assms; simp add: focus_simps del: if_split; elim conjE;
    simp add: erase_unlink_def erase_no_left_def unlinked_def Let_def frame_simps exec_simps path_at_set_hole [where x = n] del: if_split)

lemma unlink_no_right:
  assumes "rbt_at st (plug (Node c l n Leaf) p)" and "l \<noteq> Leaf"
  shows "wp (erase_unlink st n) (unlinked st (inorder (plug (Node c l n Leaf) p)) (plug (paint c l) p) 0)"
  by (cases "p = []"; cases l; insert assms; simp add: focus_simps del: if_split; elim conjE;
    simp add: erase_unlink_def erase_no_right_def unlinked_def Let_def frame_simps exec_simps path_at_set_hole [where x = n] del: if_split)

text \<open>Both children: the successor is the right child, or the leftmost node below it.\<close>

lemma unlink_two_near:
  assumes "rbt_at st (plug (Node c l n (Node sc Leaf x xr)) p)" and "l \<noteq> Leaf"
  shows "wp (erase_unlink st n) (unlinked st (inorder (plug (Node c l n (Node sc Leaf x xr)) p))
    (plug (Node c l x (blacken xr)) p) (if xr = Leaf \<and> sc = Black then x else 0))"
  by (cases "p = []"; cases l; cases xr; insert assms; simp add: focus_simps del: if_split; elim conjE;
    simp add: erase_unlink_def erase_two_def erase_successor_def unlinked_def Let_def frame_simps exec_simps
      path_at_set_hole [where x = n] del: if_split)

lemma unlink_two_mid:
  assumes "rbt_at st (plug (Node c l n (Node bc (Node sc Leaf x xr) b br)) p)" and "l \<noteq> Leaf"
  shows "wp (erase_unlink st n) (unlinked st (inorder (plug (Node c l n (Node bc (Node sc Leaf x xr) b br)) p))
    (plug (Node c l x (Node bc (blacken xr) b br)) p) (if xr = Leaf \<and> sc = Black then b else 0))"
proof -
  have d: "descend_left st b x = Some (b, x)" 
    using assms by (subst descend_left.simps) (simp add: rbt_at_def tree_at_plug cell_simps)
  show ?thesis
  by (cases "p = []"; cases l; cases xr; insert assms d; simp add: focus_simps del: if_split; elim conjE;
    simp add: erase_unlink_def erase_two_def erase_successor_def unlinked_def Let_def frame_simps exec_simps
      path_at_set_hole [where x = n] del: if_split)
qed

lemma exec_two_far:
  assumes m: "rb_mem st n = Some (cell (top p) c la y)" "rb_mem st x = Some (cell b sc 0 xa)"
      "rb_mem st b = Some (cell bpar bc x br)" "rb_mem st y = Some (cell n yc yl yr)"
      "rb_mem st la = Some (cell n lc ll lr)" 
      "xa \<noteq> 0 \<longrightarrow> rb_mem st xa = Some (cell x xc xl xrr)"
    and d: "descend_left st y yl = Some (b, x)" "yl \<noteq> 0"
    and p: "path_at (rb_mem st) n p" "n \<notin> set (before p)" "\<forall>a\<in>set (before p @ after p). aligned a"
    and al: "aligned n" "aligned x" "aligned b" "aligned y" "aligned la" "xa \<noteq> 0 \<longrightarrow> aligned xa"
    and sep: "distinct [n, x, b, y, la]" "xa \<notin> {n, x, b, y, la}" "set [n,x,b,y,la,xa] \<inter> set (before p @ after p) = {}"
  defines "m1 \<equiv> (rb_mem st)(b \<mapsto> cell bpar bc xa br, x \<mapsto> cell b sc la y, y \<mapsto> cell x yc yl yr, la \<mapsto> cell x lc ll lr)"
  shows "erase_unlink st n = Some (st\<lparr>rb_root := if p = [] then x else rb_root st, 
     rb_mem := (if xa = 0 then set_hole m1 p x else (set_hole m1 p x)(xa \<mapsto> cell b Black xl xrr))(x \<mapsto> cell (top p) c la y)\<rparr>,
     if xa = 0 \<and> sc = Black then b else 0)"
proof -
  have p': "path_at m1 n p" using p sep unfolding m1_def by (simp add: frame_simps)
  have "la \<noteq> 0" "y \<noteq> 0" using al by auto
  have ne: "n \<noteq> x" "x \<noteq> n" "n \<noteq> b" "b \<noteq> n" "n \<noteq> y" "y \<noteq> n" "n \<noteq> la" "la \<noteq> n" "x \<noteq> b" "b \<noteq> x" "x \<noteq> y" "y \<noteq> x" "x \<noteq> la" "la \<noteq> x" "b \<noteq> y" "y \<noteq> b" "b \<noteq> la" "la \<noteq> b" "y \<noteq> la" "la \<noteq> y"
    using sep(1) by auto
  have nx: "xa \<noteq> n" "n \<noteq> xa" "xa \<noteq> x" "x \<noteq> xa" "xa \<noteq> b" "b \<noteq> xa" "xa \<noteq> y" "y \<noteq> xa" "xa \<noteq> la" "la \<noteq> xa"
    using sep(2) by auto
  have cc: "hev_rbtree_change_child (st\<lparr>rb_mem := m1\<rparr>) n x (top p) =
      Some (st\<lparr>rb_root := if p = [] then x else rb_root st, rb_mem := set_hole m1 p x\<rparr>)"
    using p' p(2,3) al(1) by (subst change_child_path) (auto simp: aligned_def)
  have tp: "top p AND 3 = 0" using p(3) by (intro top_and_3) auto
  have s: "erase_successor st y = Some (st\<lparr>rb_mem := (rb_mem st)(b \<mapsto> cell bpar bc xa br, x \<mapsto> cell b sc 0 y, y \<mapsto> cell x yc yl yr)\<rparr>, b, x, xa)"
    using m d ne al by (simp add: erase_successor_def cell_simps alignedD fun_upd_twist)
  have t: "hev_rbtree_node_set_parent (st\<lparr>rb_mem := (rb_mem st)(b \<mapsto> cell bpar bc xa br, x \<mapsto> cell b sc la y, y \<mapsto> cell x yc yl yr)\<rparr>) la x = Some (st\<lparr>rb_mem := m1\<rparr>)"
    using m ne al by (simp add: m1_def cell_simps alignedD)
  have sh: "set_hole m1 p x v = m1 v" if "v \<in> {n, x, b, y, la, xa}" for v
    using sep(3) that by (intro set_hole_other) auto
  have look: "m1 n = Some (cell (top p) c la y)" "m1 x = Some (cell b sc la y)" "xa \<noteq> 0 \<Longrightarrow> m1 xa = Some (cell x xc xl xrr)"
    using m ne nx by (simp_all add: m1_def)
  have t2: "erase_two st n y = Some (st\<lparr>rb_root := if p = [] then x else rb_root st, 
     rb_mem := (if xa = 0 then set_hole m1 p x else (set_hole m1 p x)(xa \<mapsto> cell b Black xl xrr))(x \<mapsto> cell (top p) c la y)\<rparr>,
     if xa = 0 \<and> sc = Black then b else 0)"
    using m ne nx al tp
    by (simp add: erase_two_def s rd_wr_eqs cell_sel cell_upd fun_upd_twist [of y x] t look cc sh cell_packed [of "top p"] node_op_eqs(2,5) cell_packed [of b] alignedD)
  then show ?thesis
    using m al by (simp add: erase_unlink_def rd_wr_eqs cell_sel alignedD)
qed
lemma seg_at_cong:
  "(\<And>a. a \<in> set (before w) \<union> set (after w) \<Longrightarrow> m a = m' a) \<Longrightarrow> seg_at m par x w = seg_at m' par x w"
proof (induction m par x w rule: seg_at.induct)
  case (2 m par x c a r p)
  then show ?case using tree_at_cong [of r m m' a] by auto
next
  case (3 m par x c l a p)
  then show ?case using tree_at_cong [of l m m' a] by auto
qed simp

lemma seg_at_others [frame_simps]:
  "set (before w) \<inter> set (inorder t) = {} \<Longrightarrow> set (inorder t) \<inter> set (after w) = {} \<Longrightarrow>
     seg_at (re_root m par' c t) par x w = seg_at m par x w"
  "set (before p) \<inter> set (before w) = {} \<Longrightarrow> set (before p) \<inter> set (after w) = {} \<Longrightarrow>
     set (before w) \<inter> set (after p) = {} \<Longrightarrow> set (after w) \<inter> set (after p) = {} \<Longrightarrow>
     seg_at (set_hole m p y) par x w = seg_at m par x w"
  by (rule seg_at_cong; rule re_root_other set_hole_other; fastforce)+

lemma distinct_mid: "distinct (as @ bs @ cs) \<Longrightarrow> y \<in> set bs \<Longrightarrow> y \<notin> set as \<and> y \<notin> set cs"
  by auto

lemma unlink_two_far:
  assumes "rbt_at st (plug (Node sc Leaf x xr) (InL bc b br # w @ InR c l n # p))" and "l \<noteq> Leaf" and w: "w \<noteq> []"
    and d: "descend_left st (seg_root b w) yl = Some (b, x)" and y: "rb_mem st (seg_root b w) = Some (cell n yc yl yr)" "yl \<noteq> 0"
  shows "wp (erase_unlink st n) (unlinked st (inorder (plug (Node sc Leaf x xr) (InL bc b br # w @ InR c l n # p)))
    (plug (blacken xr) (InL bc b br # w @ InR c l x # p)) (if xr = Leaf \<and> sc = Black then b else 0))"
proof -
  have yin: "seg_root b w \<in> set (before w) \<union> set (after w)" using w by (rule seg_root_in)
  have wfa: "wf_addrs (before p @ inorder l @ [n] @ before w @ x # inorder xr @ b # inorder br @ after w @ after p)"
    using assms(1) by (simp add: rbt_at_def inorder_plug before_append after_append)
  have dw: "distinct (before p @ inorder l @ [n] @ before w @ x # inorder xr @ b # inorder br @ after w @ after p)"
    and ali: "\<forall>a\<in>set (before p @ inorder l @ [n] @ before w @ x # inorder xr @ b # inorder br @ after w @ after p). aligned a"
    using wfa unfolding wf_addrs_def by blast+
  have dist: "distinct ((before p @ inorder l @ [n]) @ before w @ x # inorder xr @ b # inorder br @ after w @ after p)"
      "distinct ((before p @ inorder l @ [n] @ before w @ x # inorder xr @ b # inorder br) @ after w @ after p)"
    using dw by (simp_all only: append_assoc append.simps)
  have others: "v \<notin> {n, x, b, 0} \<and> v \<notin> set (inorder xr @ inorder br @ inorder l @ before p @ after p)"
    if v: "v \<in> set (before w) \<union> set (after w)" for v
  proof -
    have "aligned v" using ali v by auto
    then show ?thesis
      using v distinct_mid [OF dist(1), of v] distinct_mid [OF dist(2), of v] by (elim UnE) auto
  qed
  note neq = others [OF yin]
  have aly: "aligned (seg_root b w)" using ali yin by auto
  obtain lc ll la lr where l: "l = Node lc ll la lr" using assms(2) by (cases l) auto
  let ?y = "seg_root b w" and ?xa = "rp xr" and ?m = "rb_mem st"
  have at: "?m n = Some (cell (top p) c la ?y)" "?m x = Some (cell b sc 0 ?xa)" 
      "?m b = Some (cell (top_below n w) bc x (rp br))" "?m la = Some (cell n lc (rp ll) (rp lr))"
      "tree_at ?m x xr" "tree_at ?m b br" "seg_at ?m n b w" "tree_at ?m la ll" "tree_at ?m la lr" "path_at ?m n p"
    using assms(1) unfolding l
    by (simp_all add: rbt_at_def tree_at_plug path_at_append top_append top_below_def)
  have root: "rb_root st = rp (plug (Node c l n (plug (Node bc (Node sc Leaf x xr) b br) w)) p)"
    using assms(1) by (simp add: rbt_at_def plug_append)
  note wf = dist(1) [unfolded l, simplified sep_simps inorder.simps]
  have al: "aligned n" "aligned x" "aligned b" "aligned ?y" "aligned la" "?xa \<noteq> 0 \<longrightarrow> aligned ?xa"
      "\<forall>a\<in>set (before p @ after p). aligned a"
    using ali aly by (simp_all add: l ball_Un) (cases xr; simp)
  have p3: "top p AND 3 = 0" using al(7) by (intro top_and_3) auto
  define m1 where "m1 = ?m(b \<mapsto> cell (top_below n w) bc ?xa (rp br), x \<mapsto> cell b sc la ?y, ?y \<mapsto> cell x yc yl yr, la \<mapsto> cell x lc (rp ll) (rp lr))"
  define F where "F = (re_root (set_hole m1 p x) b Black xr)(x \<mapsto> cell (top p) c la ?y)"
  note my = \<open>rb_mem st (seg_root b w) = Some (cell n yc yl yr)\<close>
  have nf: "b \<noteq> ?y" "x \<noteq> ?y" "n \<noteq> ?y" "la \<noteq> ?y" "?y \<noteq> b" "?y \<noteq> x" "?y \<noteq> n" "?y \<noteq> la"
    using neq l by auto
  have F1: "tree_at F b (blacken xr)" by (insert at(1-6,8-) wf neq nf al; elim conjE; simp add: re_root_blacken F_def m1_def tree_at_frame tree_at_re_root tree_at_set_hole re_root_other set_hole_other sep_simps)
  have bf: "b \<noteq> x" "b \<noteq> la" "b \<notin> set (inorder xr)" "b \<notin> set (before p)" "b \<notin> set (after p)"
    using wf by (elim conjE; simp)+
  have F2: "F b = Some (cell (top_below x w) bc (rp xr) (rp br))"
    using bf nf w by (simp add: F_def m1_def top_below_def re_root_other set_hole_other)
  have F3: "tree_at F b br" by (insert at(1-6,8-) wf neq nf al; elim conjE; simp add: F_def m1_def tree_at_frame tree_at_re_root tree_at_set_hole re_root_other set_hole_other sep_simps)
  have F4: "seg_at F x b w"
  proof -
    have "F v = (?m(?y \<mapsto> cell x yc yl yr)) v" if "v \<in> set (before w) \<union> set (after w)" for v
      using others [OF that] by (simp add: F_def m1_def l re_root_other set_hole_other)
    moreover have "seg_at (?m(?y \<mapsto> cell x yc yl yr)) x b w"
      using at(7) w my by (rule seg_reroot) (use dw al(1) in \<open>simp_all add: sep_simps alignedD\<close>)
    ultimately show ?thesis using seg_at_cong [of w F "?m(?y \<mapsto> cell x yc yl yr)" x b] by blast
  qed
  have F5: "F x = Some (cell (top p) c la ?y)" by (insert at(1-6,8-) wf neq nf al; elim conjE; simp add: F_def m1_def tree_at_frame tree_at_re_root tree_at_set_hole re_root_other set_hole_other sep_simps)
  have Fm: "F v = ?m v" if "v \<notin> {x, b, ?y, la}" "v \<notin> set (inorder xr)" "v \<notin> set (before p)" "v \<notin> set (after p)" for v
    using that by (simp add: F_def m1_def re_root_other set_hole_other)
  have F6: "tree_at F x l"
  proof -
    have lf: "v \<notin> {x, b, ?y} \<and> v \<notin> set (inorder xr) \<and> v \<notin> set (before p) \<and> v \<notin> set (after p)" if "v \<in> set (inorder l)" for v
      using distinct_mid [OF dw that] yin by auto
    have "F v = ?m v" if "v \<in> set (inorder ll) \<union> set (inorder lr)" for v
      using lf [of v] that dw by (intro Fm) (auto simp: l)
    moreover have "F la = Some (cell x lc (rp ll) (rp lr))"
      using lf [of la] nf by (simp add: F_def m1_def l re_root_other set_hole_other)
    ultimately show ?thesis
      using at(8,9) tree_at_cong [of ll F ?m la] tree_at_cong [of lr F ?m la] by (simp add: l)
  qed
  have F7: "path_at F x p" by (insert at(1-6,8-) wf neq nf al; elim conjE; simp add: F_def m1_def tree_at_frame tree_at_re_root tree_at_set_hole re_root_other set_hole_other sep_simps path_at_frame path_at_re_root path_at_set_hole [where x = n])
  have nD: "n \<notin> set (before p @ inorder l) \<and> n \<notin> set (before w @ x # inorder xr @ b # inorder br @ after w @ after p)"
    by (rule distinct_mid [where bs = "[n]"]) (use dw in \<open>simp_all only: append_assoc append.simps, simp\<close>)
  have xD: "x \<notin> set (before p @ inorder l @ [n] @ before w) \<and> x \<notin> set (inorder xr @ b # inorder br @ after w @ after p)"
    by (rule distinct_mid [where bs = "[x]"]) (use dw in \<open>simp_all only: append_assoc append.simps, simp\<close>)
  have rD: "v \<notin> set (before p @ inorder l @ [n] @ before w @ [x]) \<and> v \<notin> set (b # inorder br @ after w @ after p)"
    if "v \<in> set (inorder xr)" for v
    using that by (rule distinct_mid [rotated]) (use dw in \<open>simp_all only: append_assoc append.simps\<close>)
  have pf: "v \<notin> set (before p) \<and> v \<notin> set (after p)" if "v \<in> {n, x, b, ?y, la, ?xa}" for v
  proof -
    have "?xa \<in> set (inorder xr) \<or> ?xa = 0" by (cases xr) auto
    moreover have "0 \<notin> set (before p)" "0 \<notin> set (after p)" using al(7) aligned_0 by force+
    ultimately have "?xa \<notin> set (before p)" "?xa \<notin> set (after p)"
      using rD [of ?xa] al(7) aligned_0 by (auto simp: ball_Un)
    moreover have "la \<notin> set (before p)" "la \<notin> set (after p)"
      using distinct_mid [OF dw, of la] by (auto simp: l)
    ultimately show ?thesis using that bf neq nD xD by auto
  qed
  have sf: "distinct [n, x, b, ?y, la]" "?xa \<notin> {n, x, b, ?y, la}"
    "set [n, x, b, ?y, la, ?xa] \<inter> set (before p @ after p) = {}"
  proof -
    have d1: "n \<noteq> x" "n \<noteq> b" "n \<notin> set (inorder xr)" "x \<notin> set (inorder xr)"
      using nD xD by auto
    have d2: "la \<notin> {n, x, b} \<union> set (inorder xr)"
      using distinct_mid [OF dw, of la] by (simp add: l)
    have xa: "?xa \<in> set (inorder xr) \<or> ?xa = 0" by (cases xr) auto
    show "distinct [n, x, b, ?y, la]" using d1 d2 bf nf by auto
    show "?xa \<notin> {n, x, b, ?y, la}"
      using xa d1 d2 bf(3) neq al(1-5) by (auto simp: aligned_def)
    show "set [n, x, b, ?y, la, ?xa] \<inter> set (before p @ after p) = {}"
      using pf by auto
  qed
  have ex: "erase_unlink st n = Some (st\<lparr>rb_root := if p = [] then x else rb_root st, rb_mem := F\<rparr>,
     if xr = Leaf \<and> sc = Black then b else 0)"
  proof -
    obtain xc xl xrr where xr: "?xa \<noteq> 0 \<longrightarrow> ?m ?xa = Some (cell x xc xl xrr)"
      "re_root (set_hole m1 p x) b Black xr = (if ?xa = 0 then set_hole m1 p x else (set_hole m1 p x)(?xa \<mapsto> cell b Black xl xrr))"
      "?xa = 0 \<longleftrightarrow> xr = Leaf"
      using at(5) al(6) ali by (cases xr) (auto simp: aligned_def)
    have np: "n \<notin> set (before p)" using sf(3) by auto
    show ?thesis
      unfolding F_def m1_def xr(2)[unfolded m1_def]
      using exec_two_far [OF at(1-3) my at(4) xr(1) d \<open>yl \<noteq> 0\<close> at(10) np al(7) al(1-6) sf] by (simp add: xr(3))
  qed
  have rt: "(if p = [] then x else rb_root st) = rp (plug (blacken xr) (InL bc b br # w @ InR c l x # p))"
    using root by (auto simp: plug_append rp_plug_Node)
  have "mset (before p @ inorder l @ [n] @ before w @ x # inorder xr @ b # inorder br @ after w @ after p) =
      mset ([n] @ before p @ inorder l @ [x] @ before w @ inorder xr @ b # inorder br @ after w @ after p)"
    by simp
  then have "distinct ([n] @ before p @ inorder l @ [x] @ before w @ inorder xr @ b # inorder br @ after w @ after p)"
    using dw mset_eq_imp_distinct_iff by blast
  then have "distinct (before p @ inorder l @ [x] @ before w @ inorder xr @ b # inorder br @ after w @ after p)"
    by (simp only: append.simps distinct.simps)
  then have wf': "wf_addrs (before p @ inorder l @ [x] @ before w @ inorder xr @ b # inorder br @ after w @ after p)"
    using ali by (simp add: wf_addrs_def ball_Un)
  have so: "F v = ?m v" if "v \<notin> set (inorder (plug (Node sc Leaf x xr) (InL bc b br # w @ InR c l n # p)))" for v
    using that yin by (intro Fm) (auto simp: l inorder_plug before_append after_append)
  show ?thesis
    unfolding ex unlinked_def
    using F1 F2 F3 F4 F5 F6 F7 rt wf' so w
    by (simp add: rbt_at_def tree_at_plug path_at_append inorder_plug before_append after_append top_append top_below_def same_outside_def l)
qed

section \<open>Removal\<close>

lemma same_node_elsewhere:
  "redblack (plug t (w @ InR c l n # p)) \<longleftrightarrow> redblack (plug t (w @ InR c l x # p))"
  by (simp add: plug_append redblack_plug)

lemma missing_black:
  assumes "redblack (plug (Node sc Leaf x xr) P)"
  shows "xr \<noteq> Leaf \<or> sc = Red \<Longrightarrow> redblack (plug (paint sc xr) P)"
    and "xr \<noteq> Leaf \<Longrightarrow> sc = Black"
    and "sc = Black \<Longrightarrow> xr = Leaf \<Longrightarrow> path_c Black P \<and> path_h (Suc 0) P"
  using assms by (cases xr; cases sc; auto simp: redblack_plug split: if_splits dest: path_c_Black)+

definition erased :: "rbtree \<Rightarrow> ptr list \<Rightarrow> ptr list \<Rightarrow> rbtree \<Rightarrow> bool" where
  "erased st xs ys = (\<lambda>st'. \<exists>t'. rbt_at st' t' \<and> redblack t' \<and> inorder t' = ys \<and> same_outside xs st st')"

lemma erase_finish:
  assumes "wp (erase_unlink st n) (unlinked st xs (plug t P) (if deficit then top P else 0))"
    and "\<not> deficit \<Longrightarrow> redblack (plug t P)"
    and "deficit \<Longrightarrow> t = Leaf \<and> path_c Black P \<and> path_h (Suc 0) P"
    and "set (before P @ after P) \<subseteq> set xs"
  shows "wp (hev_rbtree_erase st n) (erased st xs (before P @ inorder t @ after P))"
  unfolding hev_rbtree_erase_def wp_bind
proof (rule wp_mono [OF assms(1)], clarify)
  fix st' reb
  assume u: "unlinked st xs (plug t P) (if deficit then top P else 0) (st', reb)"
  then have at: "rbt_at st' (plug t P)" and so: "same_outside xs st st'"
    by (simp_all add: unlinked_def)
  show "wp (if reb \<noteq> 0 then hev_rbtree_erase_color st' reb else Some st')
      (erased st xs (before P @ inorder t @ after P))"
  proof (cases "deficit \<and> P \<noteq> []")
    case True
    then have t: "t = Leaf" and P: "path_c Black P" "path_h (Suc 0) P" using assms(3) by auto
    have "top P \<noteq> 0" using at True by (intro top_not_0) (auto simp: rbt_at_def inorder_plug wf_addrs_def)
    then have "reb = top P" "reb \<noteq> 0" using u True by (simp_all add: unlinked_def)
    moreover have rb: "redblack (del_fix Leaf P)" using P by (intro redblack_del_fix) simp_all
    moreover have "wp (erase_color_loop st' (rp Leaf) (top P)) (erased st xs (before P @ inorder t @ after P))"
    proof (rule wp_mono [OF erase_loop_correct])
      show "rbt_at st' (plug Leaf P)" using at t by simp
      show "erased st xs (before P @ inorder t @ after P) st''" if "refines_del st' Leaf P st''" for st''
        using that so rb assms(4) t unfolding erased_def
        by (intro exI [of _ "del_fix Leaf P"]) (auto simp: refines_del_def inorder_del_fix inorder_plug same_outside_def)
    qed (use True P in simp_all)
    ultimately show ?thesis by (simp add: hev_rbtree_erase_color_def)
  next
    case False
    then have "reb = 0" using u by (auto simp: unlinked_def)
    moreover have "redblack (plug t P)" using False assms(2,3) by (cases deficit) (auto simp: redblack_def)
    ultimately show ?thesis using at so by (auto simp: erased_def inorder_plug)
  qed
qed

lemma before_min_path [simp]: "before (min_path t) = []"
  by (induction t) (simp_all add: before_append)

lemma min_path_InR: "min_path r = InR c l a # p \<Longrightarrow> r = Leaf"
proof (induction r arbitrary: p)
  case (Node c' l' a' r')
  then show ?case by (cases "l' = Leaf") (auto simp: append_eq_Cons_conv)
qed simp

lemma erase_at:
  assumes at: "rbt_at st (plug (Node c l n r) p)" and rb: "redblack (plug (Node c l n r) p)"
  shows "wp (hev_rbtree_erase st n) (erased st (inorder (plug (Node c l n r) p))
    (before p @ inorder l @ inorder r @ after p))"
proof (cases "l = Leaf")
  case True
  with erase_finish [OF unlink_no_left [OF at [unfolded True]]] missing_black [OF rb [unfolded True]]
  show ?thesis by (auto simp: inorder_plug)
next
  case l: False
  show ?thesis
  proof (cases "r = Leaf")
    case True
    have "redblack (plug (paint c l) p)"
      using rb l True by (cases l; cases c) (auto simp: redblack_plug split: if_splits dest: path_c_Black)
    note rb' = this
    have u: "wp (erase_unlink st n) (unlinked st (inorder (plug (Node c l n r) p))
        (plug (paint c l) p) (if False then top p else 0))"
      using unlink_no_right [OF at [unfolded True] l] True by simp
    show ?thesis
      using erase_finish [OF u] rb' True by (auto simp: inorder_plug)
  next
    case r: False
    obtain sc x xr where mn: "min_node r = Node sc Leaf x xr" using min_node_cases [OF r] by blast
    let ?w = "min_path r"
    have rw: "r = plug (Node sc Leaf x xr) ?w" using plug_min [of r] mn by simp
    have pr: "plug (Node c l n r) p = plug (Node sc Leaf x xr) (?w @ InR c l n # p)"
      by (simp add: plug_append flip: rw)
    let ?P = "?w @ InR c l x # p"
    have "wp (erase_unlink st n) (unlinked st (inorder (plug (Node c l n r) p)) (plug (blacken xr) ?P)
        (if xr = Leaf \<and> sc = Black then top ?P else 0))"
    proof (cases ?w rule: top.cases)
      case 1
      with unlink_two_near [of st c l n sc x xr p] at l rw show ?thesis
        by (cases "xr = Leaf"; cases sc; simp)
    next
      case (2 bc b br w')
      show ?thesis
      proof (cases "w' = []")
        case True
        with 2 unlink_two_mid [of st c l n bc sc x xr b br p] at l rw show ?thesis
          by (cases "xr = Leaf"; cases sc; simp)
      next
        case False
        obtain rc rl y rr where r': "r = Node rc rl y rr" using r by (cases r) auto
        have rl: "rl \<noteq> Leaf" using 2 r' by auto
        have y: "rb_mem st y = Some (cell n rc (rp rl) (rp rr))" "tree_at (rb_mem st) n r" 
          using at r' by (auto simp: rbt_at_def tree_at_plug)
        have al: "\<forall>a\<in>set (inorder rl). aligned a"
          using at r' by (auto simp: rbt_at_def inorder_plug wf_addrs_def)
        have yy: "y = seg_root b w'"
          using arg_cong [OF rw, of rp] r' 2 by (simp add: rp_plug_seg)
        have d: "descend_left st y (rp rl) = Some (b, x)"
          using descend_left_min [OF y(2) [unfolded r'] al rl] 2 mn r' rl by simp
        have "rp rl \<noteq> 0" using rl rp_in [OF rl] al by (auto simp: aligned_def)
        then show ?thesis
          using unlink_two_far [of st sc x xr bc b br w' c l n p] at l False d y(1) 2
          unfolding pr by (cases "xr = Leaf"; cases sc; simp add: yy top_append)
      qed
    next
      case (3 c' l' a p')
      then have "r = Leaf"
        using min_path_InR by blast
      then show ?thesis using r by simp
    qed
    moreover have "redblack (plug (Node sc Leaf x xr) ?P)"
      using rb unfolding pr by (simp only: same_node_elsewhere [where n = n and x = x])
    moreover have "set (before ?P @ after ?P) \<subseteq> set (inorder (plug (Node c l n r) p))"
      unfolding pr by (auto simp: inorder_plug before_append after_append)
    moreover have "inorder r = before ?w @ x # inorder xr @ after ?w"
      using arg_cong [OF rw, of inorder] by (simp add: inorder_plug)
    ultimately show ?thesis
      using erase_finish [of st n _ "blacken xr" ?P "xr = Leaf \<and> sc = Black"]
        missing_black [of sc x xr ?P]
      by (cases "xr = Leaf"; cases sc) (auto simp: before_append after_append)
  qed
qed

theorem rbtree_erase_refines:
  assumes "rbt_at st t" and "redblack t" and "inorder t = xs @ n # ys"
  shows "wp (hev_rbtree_erase st n) (\<lambda>st'. \<exists>t'. rbt_at st' t' \<and> redblack t' \<and> inorder t' = xs @ ys \<and>
    same_outside (inorder t) st st')"
proof -
  have "wf_addrs (inorder t)" using assms(1) by (simp add: rbt_at_def)
  then obtain c l r p where t: "t = plug (Node c l n r) p" "xs = before p @ inorder l" "ys = inorder r @ after p"
    using assms(3) by (rule focus_split)
  then show ?thesis
    using erase_at [of st c l n r p] assms(1,2) by (simp add: erased_def)
qed

end
