(* ===== verification/Rbtree_Index.thy ===== *)
theory Rbtree_Index
  imports Rbtree_Insert Rbtree_Unlink
begin

text \<open>
  The red-black tree as its clients use it. The authenticator and the mapped DNS cache embed a
  tree node in their own records and write the search loop themselves; this theory has that
  loop, the contract of an ordered index that the two clients rely on, and the proof that the
  pointer code keeps it.
\<close>

section \<open>The search loop of the clients\<close>

text \<open>
  \<open>cmp n\<close> is the comparison of the key stored with node \<open>n\<close> against the wanted one; the code
  goes left when it is negative. The loop that looks for a place to link a node keeps the
  address of the slot and the parent.
\<close>

partial_function (option) tree_slot ::
  "(ptr \<Rightarrow> int option) \<Rightarrow> rbtree \<Rightarrow> rblink \<Rightarrow> ptr \<Rightarrow> (ptr \<times> rblink + ptr) option" where
  "tree_slot cmp t new parent = do {
     n \<leftarrow> read_link t new;
     if n = 0 then Some (Inl (parent, new))
     else do {
       res \<leftarrow> cmp n;
       if res < 0 then tree_slot cmp t (LeftLink n) n
       else if res > 0 then tree_slot cmp t (RightLink n) n
       else Some (Inr n)
     }
   }"

partial_function (option) tree_find :: "(ptr \<Rightarrow> int option) \<Rightarrow> rbtree \<Rightarrow> ptr \<Rightarrow> ptr option" where
  "tree_find cmp t node = (if node = 0 then Some 0 else do {
     res \<leftarrow> cmp node;
     if res < 0 then do { l \<leftarrow> rd_left t node; tree_find cmp t l }
     else if res > 0 then do { r \<leftarrow> rd_right t node; tree_find cmp t r }
     else Some node
   })"

text \<open>
  What the loops need of the order: the nodes that compare positive come first, then at most one
  that compares equal, then those that compare negative.
\<close>

definition sides :: "(ptr \<Rightarrow> int option) \<Rightarrow> ptr list \<Rightarrow> ptr list \<Rightarrow> ptr list \<Rightarrow> bool" where
  "sides cmp gt eq lt \<longleftrightarrow> (\<forall>x\<in>set gt. \<exists>i>0. cmp x = Some i) \<and> (\<forall>x\<in>set eq. cmp x = Some 0) \<and>
     length eq \<le> 1 \<and> (\<forall>x\<in>set lt. \<exists>i<0. cmp x = Some i)"

lemma sides_left:
  assumes "sides cmp gt eq lt" and "xs @ a # ys = gt @ eq @ lt" and "cmp a = Some i" and "i < 0"
  shows "\<exists>lt'. lt = lt' @ a # ys \<and> xs = gt @ eq @ lt'"
proof -
  have "a \<notin> set (gt @ eq)" using assms(1,3,4) by (auto simp: sides_def)
  then show ?thesis
    using assms(2) by (auto simp: append_eq_append_conv2 append_eq_Cons_conv Cons_eq_append_conv
        simp flip: append_assoc)
qed

lemma sides_right:
  assumes "sides cmp gt eq lt" and "xs @ a # ys = gt @ eq @ lt" and "cmp a = Some i" and "i > 0"
  shows "\<exists>gt'. gt = xs @ a # gt' \<and> ys = gt' @ eq @ lt"
proof -
  have "a \<notin> set (eq @ lt)" using assms(1,3,4) by (auto simp: sides_def)
  then show ?thesis
    using assms(2) by (auto simp: append_eq_append_conv2 append_eq_Cons_conv Cons_eq_append_conv)
qed

lemma sides_mid:
  assumes "sides cmp gt eq lt" and "xs @ a # ys = gt @ eq @ lt" and "cmp a = Some 0"
  shows "eq = [a] \<and> xs = gt \<and> ys = lt"
proof -
  have n: "a \<notin> set gt" "a \<notin> set lt" using assms(1,3) by (auto simp: sides_def)
  moreover from assms(2) have "a \<in> set (gt @ eq @ lt)" by (metis in_set_conv_decomp)
  ultimately have "a \<in> set eq" by simp
  moreover from assms(1) have "length eq \<le> 1" by (simp add: sides_def)
  ultimately have "eq = [a]" by (cases eq) auto
  with assms(2) n show ?thesis
    by (auto simp: append_eq_append_conv2 append_eq_Cons_conv Cons_eq_append_conv)
qed

lemma sides_cmp:
  assumes "sides cmp gt eq lt" and "a \<in> set (gt @ eq @ lt)"
  obtains i where "cmp a = Some i"
  using assms by (auto simp: sides_def)

section \<open>Correctness of the loops\<close>

definition slot_of :: "rbt \<Rightarrow> ptr list \<Rightarrow> ptr list \<Rightarrow> ptr \<times> rblink \<Rightarrow> bool" where
  "slot_of t xs ys = (\<lambda>(par, link). \<exists>p. t = plug Leaf p \<and> before p = xs \<and> after p = ys \<and>
     par = top p \<and> link = hole p)"

lemma read_hole: "rbt_at s (plug t p) \<Longrightarrow> read_link s (hole p) = Some (rp t)"
  by (cases p rule: hole.cases) (auto simp: rbt_at_def tree_at_plug cell_simps)

lemma tree_slot_at:
  assumes "rbt_at s (plug u p)" and "sides cmp gt eq lt" and "inorder (plug u p) = gt @ eq @ lt"
    and "\<And>x. x \<in> set eq \<Longrightarrow> x \<in> set (inorder u)"
    and "\<exists>g l. before p @ g = gt \<and> l @ after p = lt"
  shows "wp (tree_slot cmp s (hole p) (top p))
     (\<lambda>r. case r of Inl h \<Rightarrow> eq = [] \<and> slot_of (plug u p) gt lt h | Inr n \<Rightarrow> eq = [n])"
  using assms
proof (induction u arbitrary: p)
  case Leaf
  have "read_link s (hole p) = Some 0" using read_hole [OF Leaf.prems(1)] by simp
  moreover have "eq = []" using Leaf.prems(4) by (cases eq) auto
  moreover from this Leaf.prems(3) have "before p @ after p = gt @ lt" by (simp add: inorder_plug)
  then have "before p = gt \<and> after p = lt"
    using Leaf.prems(5) by auto
  ultimately show ?case
    by (subst tree_slot.simps) (auto simp: slot_of_def)
next
  case (Node c l a r)
  have a: "read_link s (hole p) = Some a" using read_hole [OF Node.prems(1)] by simp
  have "wf_addrs (inorder (plug (Node c l a r) p))" using Node.prems(1) by (simp add: rbt_at_def)
  then have "a \<noteq> 0" by (simp add: inorder_plug wf_addrs_def aligned_def)
  have seq: "(before p @ inorder l) @ a # (inorder r @ after p) = gt @ eq @ lt"
    using Node.prems(3) by (simp add: inorder_plug)
  then have "a \<in> set (gt @ eq @ lt)" by (metis in_set_conv_decomp)
  with Node.prems(2) obtain i where i: "cmp a = Some i" by (rule sides_cmp)
  consider "i < 0" | "i > 0" | "i = 0" by linarith
  then show ?case
  proof cases
    case 1
    from sides_left [OF Node.prems(2) seq i 1] obtain lt' where
      lt: "lt = lt' @ a # inorder r @ after p" "before p @ inorder l = gt @ eq @ lt'" by blast
    from lt(2) Node.prems(5) have l: "\<exists>g. before p @ g = gt" by blast
    have "\<And>x. x \<in> set eq \<Longrightarrow> x \<in> set (inorder l)"
      using lt(2) l by auto
    moreover have "\<exists>g l'. before (InL c a r # p) @ g = gt \<and> l' @ after (InL c a r # p) = lt"
      using l lt(1) by auto
    ultimately show ?thesis
      using Node.IH(1) [of "InL c a r # p"] Node.prems(1,2,3) a i 1 \<open>a \<noteq> 0\<close>
      by (subst tree_slot.simps) simp
  next
    case 2
    from sides_right [OF Node.prems(2) seq i 2] obtain gt' where
      gt: "gt = (before p @ inorder l) @ a # gt'" "inorder r @ after p = gt' @ eq @ lt" by blast
    from Node.prems(5) obtain l' where l': "l' @ after p = lt" by blast
    with gt(2) have "inorder r = gt' @ eq @ l'" by auto
    then have "\<And>x. x \<in> set eq \<Longrightarrow> x \<in> set (inorder r)" by simp
    moreover have "\<exists>g l'. before (InR c l a # p) @ g = gt \<and> l' @ after (InR c l a # p) = lt"
      using l' gt(1) by auto
    ultimately show ?thesis
      using Node.IH(2) [of "InR c l a # p"] Node.prems(1,2,3) a i 2 \<open>a \<noteq> 0\<close>
      by (subst tree_slot.simps) simp
  next
    case 3
    with sides_mid [OF Node.prems(2) seq] i have "eq = [a]" by simp
    with a i 3 \<open>a \<noteq> 0\<close> show ?thesis by (subst tree_slot.simps) simp
  qed
qed

lemma tree_slot_correct:
  assumes "rbt_at s t" and "sides cmp gt eq lt" and "inorder t = gt @ eq @ lt"
  shows "wp (tree_slot cmp s RootLink 0)
     (\<lambda>r. case r of Inl h \<Rightarrow> eq = [] \<and> slot_of t gt lt h | Inr n \<Rightarrow> eq = [n])"
  using tree_slot_at [of s t "[]" cmp gt eq lt] assms by auto

lemma tree_find_at:
  assumes "tree_at (rb_mem s) par u" and "0 \<notin> set (inorder u)"
    and "sides cmp gt eq lt" and "inorder u = gt @ eq @ lt"
  shows "tree_find cmp s (rp u) = Some (case eq of [] \<Rightarrow> 0 | n # _ \<Rightarrow> n)"
  using assms
proof (induction u arbitrary: par gt lt)
  case Leaf
  then show ?case by (subst tree_find.simps) simp
next
  case (Node c l a r)
  then have "a \<in> set (gt @ eq @ lt)" by (metis in_set_conv_decomp inorder.simps(2))
  with Node.prems(3) obtain i where i: "cmp a = Some i" by (rule sides_cmp)
  have seq: "inorder l @ a # inorder r = gt @ eq @ lt" using Node.prems(4) by simp
  have rd: "rd_left s a = Some (rp l)" "rd_right s a = Some (rp r)" "a \<noteq> 0"
    using Node.prems(1,2) by (auto simp: cell_simps)
  consider "i < 0" | "i > 0" | "i = 0" by linarith
  then show ?case
  proof cases
    case 1
    from sides_left [OF Node.prems(3) seq i 1] obtain lt' where
      lt: "lt = lt' @ a # inorder r" "inorder l = gt @ eq @ lt'" by blast
    then have "sides cmp gt eq lt'" using Node.prems(3) by (auto simp: sides_def)
    with lt(2) Node.IH(1) [of a gt lt'] Node.prems(1,2) rd i 1 show ?thesis
      by (subst tree_find.simps) simp
  next
    case 2
    from sides_right [OF Node.prems(3) seq i 2] obtain gt' where
      gt: "gt = inorder l @ a # gt'" "inorder r = gt' @ eq @ lt" by blast
    then have "sides cmp gt' eq lt" using Node.prems(3) by (auto simp: sides_def)
    with gt(2) Node.IH(2) [of a gt' lt] Node.prems(1,2) rd i 2 show ?thesis
      by (subst tree_find.simps) simp
  next
    case 3
    with sides_mid [OF Node.prems(3) seq] i rd show ?thesis
      by (subst tree_find.simps) simp
  qed
qed

lemma tree_find_correct:
  assumes "rbt_at s t" and "sides cmp gt eq lt" and "inorder t = gt @ eq @ lt"
  shows "tree_find cmp s (rb_root s) = Some (case eq of [] \<Rightarrow> 0 | n # _ \<Rightarrow> n)"
proof -
  have "0 \<notin> set (inorder t)" using assms(1) by (auto simp: rbt_at_def wf_addrs_def aligned_def)
  with assms tree_find_at [of s 0 t cmp gt eq lt] show ?thesis by (simp add: rbt_at_def)
qed

section \<open>The contract of an ordered index\<close>

text \<open>
  \<open>holds s xs\<close>: the memory \<open>s\<close> holds an index of the nodes \<open>xs\<close>, in that order; \<open>spare s n\<close>: node
  \<open>n\<close> is allocated memory that an index may take over. The clients' lemmas follow from the laws.
\<close>

locale ordered_index =
  fixes holds :: "'s \<Rightarrow> ptr list \<Rightarrow> bool"
    and spare :: "'s \<Rightarrow> ptr \<Rightarrow> bool"
    and seek :: "(ptr \<Rightarrow> int option) \<Rightarrow> 's \<Rightarrow> ('h + ptr) option"
    and look :: "(ptr \<Rightarrow> int option) \<Rightarrow> 's \<Rightarrow> ptr option"
    and insert_at :: "'s \<Rightarrow> ptr \<Rightarrow> 'h \<Rightarrow> 's option"
    and erase :: "'s \<Rightarrow> ptr \<Rightarrow> 's option"
    and first :: "'s \<Rightarrow> ptr option"
    and slot :: "'s \<Rightarrow> ptr list \<Rightarrow> ptr list \<Rightarrow> 'h \<Rightarrow> bool"
  assumes holds_distinct: "holds s xs \<Longrightarrow> distinct xs \<and> 0 \<notin> set xs"
    and seek_law: "holds s (gt @ eq @ lt) \<Longrightarrow> sides cmp gt eq lt \<Longrightarrow>
      wp (seek cmp s) (\<lambda>r. case r of Inl h \<Rightarrow> eq = [] \<and> slot s gt lt h | Inr n \<Rightarrow> eq = [n])"
    and look_law: "holds s (gt @ eq @ lt) \<Longrightarrow> sides cmp gt eq lt \<Longrightarrow>
      look cmp s = Some (case eq of [] \<Rightarrow> 0 | n # _ \<Rightarrow> n)"
    and insert_law: "holds s (gt @ lt) \<Longrightarrow> slot s gt lt h \<Longrightarrow> spare s n \<Longrightarrow> n \<notin> set (gt @ lt) \<Longrightarrow>
      wp (insert_at s n h) (\<lambda>s'. holds s' (gt @ n # lt) \<and> (\<forall>m. m \<notin> set (n # gt @ lt) \<longrightarrow> spare s' m = spare s m))"
    and erase_law: "holds s (xs @ n # ys) \<Longrightarrow>
      wp (erase s n) (\<lambda>s'. holds s' (xs @ ys) \<and> (\<forall>m. m \<notin> set (xs @ n # ys) \<longrightarrow> spare s' m = spare s m))"
    and first_law: "holds s xs \<Longrightarrow> first s = Some (case xs of [] \<Rightarrow> 0 | x # _ \<Rightarrow> x)"
begin

text \<open>Insertion of a key that is not there, and the refusal of one that is.\<close>

lemma add_absent:
  assumes "holds s (gt @ lt)" and "sides cmp gt [] lt" and "spare s n" and "n \<notin> set (gt @ lt)"
  shows "wp (seek cmp s) (\<lambda>r. case r of Inr _ \<Rightarrow> False | Inl h \<Rightarrow>
     wp (insert_at s n h) (\<lambda>s'. holds s' (gt @ n # lt) \<and>
       (\<forall>m. m \<notin> set (n # gt @ lt) \<longrightarrow> spare s' m = spare s m)))"
proof (rule wp_mono)
  show "wp (seek cmp s) (\<lambda>r. case r of Inl h \<Rightarrow> ([] :: ptr list) = [] \<and> slot s gt lt h | Inr n \<Rightarrow> [] = [n])"
    by (rule seek_law) (use assms(1,2) in simp_all)
qed (use insert_law [OF assms(1) _ assms(3,4)] in \<open>auto split: sum.split\<close>)

lemma seek_present:
  assumes "holds s (gt @ n # lt)" and "sides cmp gt [n] lt"
  shows "seek cmp s = Some (Inr n)"
proof -
  have "wp (seek cmp s) (\<lambda>r. case r of Inl h \<Rightarrow> [n] = [] \<and> slot s gt lt h | Inr m \<Rightarrow> [n] = [m])"
    by (rule seek_law) (use assms in simp_all)
  then show ?thesis by (cases "seek cmp s") (auto split: sum.split_asm)
qed

text \<open>Erasing the first node until there is none: the loop of a destructor.\<close>

fun drain :: "nat \<Rightarrow> 's \<Rightarrow> ptr list \<Rightarrow> ('s \<times> ptr list) option" where
  "drain 0 s out = None"
| "drain (Suc k) s out = do {
     n \<leftarrow> first s;
     if n = 0 then Some (s, out) else do { s \<leftarrow> erase s n; drain k s (out @ [n]) }
   }"

lemma drain_all:
  "holds s xs \<Longrightarrow> length xs < k \<Longrightarrow> \<exists>s'. drain k s out = Some (s', out @ xs) \<and> holds s' []"
proof (induction xs arbitrary: k s out)
  case Nil
  then show ?case using first_law [of s "[]"] by (cases k) auto
next
  case (Cons x xs)
  then obtain k' where k: "k = Suc k'" by (cases k) auto
  have "x \<noteq> 0" using holds_distinct [OF Cons.prems(1)] by auto
  moreover from erase_law [of s "[]" x xs] Cons.prems(1) obtain s1 where
    "erase s x = Some s1" "holds s1 xs" by (auto simp: wp_def)
  ultimately show ?case
    using Cons.IH [of s1 k' "out @ [x]"] Cons.prems(2) first_law [OF Cons.prems(1)] k by simp
qed

end

section \<open>The pointer code keeps the contract\<close>

definition rb_holds :: "rbtree \<Rightarrow> ptr list \<Rightarrow> bool" where
  "rb_holds s xs \<longleftrightarrow> (\<exists>t. rbt_at s t \<and> redblack t \<and> inorder t = xs)"

definition rb_spare :: "rbtree \<Rightarrow> ptr \<Rightarrow> bool" where
  "rb_spare s n \<longleftrightarrow> rb_mem s n \<noteq> None \<and> aligned n"

definition rb_slot :: "rbtree \<Rightarrow> ptr list \<Rightarrow> ptr list \<Rightarrow> ptr \<times> rblink \<Rightarrow> bool" where
  "rb_slot s xs ys h \<longleftrightarrow> (\<exists>t. rbt_at s t \<and> redblack t \<and> slot_of t xs ys h)"

definition rb_seek :: "(ptr \<Rightarrow> int option) \<Rightarrow> rbtree \<Rightarrow> (ptr \<times> rblink + ptr) option" where
  "rb_seek cmp s = tree_slot cmp s RootLink 0"

definition rb_look :: "(ptr \<Rightarrow> int option) \<Rightarrow> rbtree \<Rightarrow> ptr option" where
  "rb_look cmp s = tree_find cmp s (rb_root s)"

definition rb_insert_at :: "rbtree \<Rightarrow> ptr \<Rightarrow> ptr \<times> rblink \<Rightarrow> rbtree option" where
  "rb_insert_at s n h = do {
     s \<leftarrow> hev_rbtree_node_link s n (fst h) (snd h);
     hev_rbtree_insert_color s n
   }"

lemma same_outside_spare:
  "same_outside xs s s' \<Longrightarrow> m \<notin> set xs \<Longrightarrow> rb_spare s' m = rb_spare s m"
  by (simp add: same_outside_def rb_spare_def)

interpretation rbi: ordered_index rb_holds rb_spare rb_seek rb_look rb_insert_at hev_rbtree_erase
  hev_rbtree_first rb_slot
proof unfold_locales
  show "distinct xs \<and> 0 \<notin> set xs" if "rb_holds s xs" for s xs
    using that by (auto simp: rb_holds_def rbt_at_def wf_addrs_def aligned_def)
next
  fix s gt eq lt cmp
  assume "rb_holds s (gt @ eq @ lt)" "sides cmp gt eq lt"
  then obtain t where t: "rbt_at s t" "redblack t" "inorder t = gt @ eq @ lt" "sides cmp gt eq lt"
    by (auto simp: rb_holds_def)
  show "wp (rb_seek cmp s) (\<lambda>r. case r of Inl h \<Rightarrow> eq = [] \<and> rb_slot s gt lt h | Inr n \<Rightarrow> eq = [n])"
    unfolding rb_seek_def
    by (rule wp_mono [OF tree_slot_correct [OF t(1,4,3)]])
      (use t in \<open>auto simp: rb_slot_def split: sum.splits\<close>)
  show "rb_look cmp s = Some (case eq of [] \<Rightarrow> 0 | n # _ \<Rightarrow> n)"
    unfolding rb_look_def by (rule tree_find_correct [OF t(1,4,3)])
next
  fix s gt lt h n
  assume a: "rb_slot s gt lt h" "rb_spare s n" "n \<notin> set (gt @ lt)"
  then obtain p where p: "rbt_at s (plug Leaf p)" "redblack (plug Leaf p)" "before p = gt" "after p = lt"
    "fst h = top p" "snd h = hole p"
    by (cases h) (auto simp: rb_slot_def slot_of_def)
  show "wp (rb_insert_at s n h) (\<lambda>s'. rb_holds s' (gt @ n # lt) \<and>
      (\<forall>m. m \<notin> set (n # gt @ lt) \<longrightarrow> rb_spare s' m = rb_spare s m))"
    unfolding rb_insert_at_def p(5,6)
    by (rule wp_mono [OF rbtree_insert_refines [OF p(1,2)]])
      (use a p in \<open>auto simp: rb_spare_def rb_holds_def inorder_plug same_outside_def\<close>)
next
  fix s xs n ys
  assume "rb_holds s (xs @ n # ys)"
  then obtain t where t: "rbt_at s t" "redblack t" "inorder t = xs @ n # ys" by (auto simp: rb_holds_def)
  show "wp (hev_rbtree_erase s n) (\<lambda>s'. rb_holds s' (xs @ ys) \<and>
      (\<forall>m. m \<notin> set (xs @ n # ys) \<longrightarrow> rb_spare s' m = rb_spare s m))"
    by (rule wp_mono [OF rbtree_erase_refines [OF t]])
      (use t(3) in \<open>auto simp: rb_holds_def same_outside_spare\<close>)
next
  show "hev_rbtree_first s = Some (case xs of [] \<Rightarrow> 0 | x # _ \<Rightarrow> x)" if "rb_holds s xs" for s xs
    using that rbtree_first_hd by (auto simp: rb_holds_def)
qed

end
