(* ===== verification/Rbtree_Props.thy ===== *)
theory Rbtree_Props
  imports Rbtree_Index
begin

text \<open>
  The properties of the red-black tree of \<open>core/src/hev-rbtree.c\<close>, over the clients' search
  loop: sorted insertion, erasure, enumeration, replacement and the depth bound.
\<close>

section \<open>Replacement of a node\<close>

lemma set_parent_of_subtree:
  assumes "tree_at (rb_mem s) par t" and "\<forall>a\<in>set (inorder t). aligned a" and "x AND 3 = 0" and "par AND 3 = 0"
  shows "(if rp t \<noteq> 0 then hev_rbtree_node_set_parent s (rp t) x else Some s) =
    Some (s\<lparr>rb_mem := re_root (rb_mem s) x (colour t) t\<rparr>)"
  using assms
  by (cases t) (auto simp: cell_simps aligned_def)

lemma rbtree_replace_at:
  assumes "rbt_at st (plug (Node c l v r) p)" and "rb_mem st n \<noteq> None" and "aligned n"
    and "n \<notin> set (inorder (plug (Node c l v r) p))"
  shows "wp (hev_rbtree_replace st v n) (\<lambda>st'. rbt_at st' (plug (Node c l n r) p) \<and>
     same_outside (n # inorder (plug (Node c l v r) p)) st st')"
proof -
  note d = assms(1) [unfolded rbt_at_plug]
  from d have w: "wf_addrs (before p @ inorder (Node c l v r) @ after p)" by simp
  from d have m: "rb_mem st v = Some (cell (top p) c (rp l) (rp r))" "tree_at (rb_mem st) v l"
    "tree_at (rb_mem st) v r" "path_at (rb_mem st) v p" by simp_all
  have n: "n \<noteq> v" "n \<notin> set (inorder l)" "n \<notin> set (inorder r)" "n \<notin> set (before p)" "n \<notin> set (after p)"
    using assms(4) by (auto simp: inorder_plug)
  have al: "\<forall>a\<in>set (inorder l). aligned a" "\<forall>a\<in>set (inorder r). aligned a" "aligned v"
    "\<forall>a\<in>set (before p). aligned a" "\<forall>a\<in>set (after p). aligned a"
    using w by (auto simp: wf_addrs_def)
  have k: "top p AND 3 = 0" "v AND 3 = 0" "n AND 3 = 0" "v \<noteq> 0"
    using top_and_3 [OF al(4,5)] al(3) assms(3) by (auto simp: aligned_def)
  have dj: "v \<notin> set (inorder l)" "v \<notin> set (inorder r)" "set (inorder l) \<inter> set (inorder r) = {}"
    "set (inorder r) \<inter> set (inorder l) = {}" "v \<notin> set (before p)" "v \<notin> set (after p)"
    "distinct (inorder l)" "distinct (inorder r)" "wf_addrs (before p @ after p)"
    "set (before p) \<inter> set (inorder l) = {}" "set (inorder l) \<inter> set (after p) = {}"
    "set (before p) \<inter> set (inorder r) = {}" "set (inorder r) \<inter> set (after p) = {}"
    using w by (auto simp: wf_addrs_def)
  let ?m1 = "(rb_mem st)(n \<mapsto> cell (top p) c (rp l) (rp r))"
  let ?m2 = "re_root ?m1 n (colour l) l"
  let ?m3 = "re_root ?m2 n (colour r) r"
  let ?s1 = "st\<lparr>rb_mem := ?m1\<rparr>" and ?s2 = "st\<lparr>rb_mem := ?m2\<rparr>" and ?s3 = "st\<lparr>rb_mem := ?m3\<rparr>"
  let ?s4 = "st\<lparr>rb_root := if p = [] then n else rb_root st, rb_mem := set_hole ?m3 p n\<rparr>"
  have l: "(if rp l \<noteq> 0 then hev_rbtree_node_set_parent ?s1 (rp l) n else Some ?s1) = Some ?s2"
    using set_parent_of_subtree [of ?s1 v l n] m(2) n(2) al(1) k by (simp add: frame_simps)
  have r: "(if rp r \<noteq> 0 then hev_rbtree_node_set_parent ?s2 (rp r) n else Some ?s2) = Some ?s3"
    using set_parent_of_subtree [of ?s2 v r n] m(3) n(3) al(2) k dj by (simp add: frame_simps)
  have "path_at ?m3 v p"
    using m(4) n(4,5) dj by (simp add: frame_simps)
  then have ch: "hev_rbtree_change_child ?s3 v n (top p) = Some ?s4"
    by (subst change_child_path [where p = p]) (use dj(5) k(4) al in auto)
  have "hev_rbtree_replace st v n = Some ?s4"
    using assms(2) m(1) n(1) k l r ch dj(1)
    by (auto simp: hev_rbtree_replace_def cell_simps frame_simps Let_def simp del: if_split)
  moreover have "rbt_at ?s4 (plug (Node c l n r) p)"
  proof -
    have "tree_at ?m3 n l" "tree_at ?m3 n r"
      using m(2,3) n dj re_root_paint [of ?m1 v l n "colour l"] re_root_paint [of ?m2 v r n "colour r"]
      by (simp_all add: frame_simps)
    moreover have "path_at (set_hole ?m3 p n) n p"
      by (rule path_at_set_hole [OF \<open>path_at ?m3 v p\<close> dj(9)])
    moreover have "set_hole ?m3 p n n = Some (cell (top p) c (rp l) (rp r))"
      using n by (simp add: set_hole_other re_root_other)
    moreover have "wf_addrs (before p @ inorder (Node c l n r) @ after p)"
      using w n assms(3) by (auto simp: wf_addrs_def)
    moreover have "(if p = [] then n else rb_root st) = rp (plug (Node c l n r) p)"
      using d rp_plug_path [of p "Node c l v r" "Node c l n r"] by simp
    ultimately show ?thesis
      using dj by (simp add: rbt_at_plug frame_simps)
  qed
  moreover have "same_outside (n # inorder (plug (Node c l v r) p)) st ?s4"
    by (auto simp: same_outside_def inorder_plug set_hole_other re_root_other)
  ultimately show ?thesis by simp
qed

text \<open>The loop \<open>for (n = first; n; n = next)\<close> of a client that visits every node.\<close>

partial_function (option) rb_visit :: "rbtree \<Rightarrow> ptr \<Rightarrow> ptr list option" where
  "rb_visit t n = (if n = 0 then Some [] else do {
     m \<leftarrow> hev_rbtree_node_next t n;
     ns \<leftarrow> rb_visit t m;
     Some (n # ns)
   })"

lemma rb_visit_from:
  assumes "rbt_at s t"
  shows "inorder t = xs @ ys \<Longrightarrow> rb_visit s (case ys of [] \<Rightarrow> 0 | y # _ \<Rightarrow> y) = Some ys"
proof (induction ys arbitrary: xs)
  case Nil
  then show ?case by (simp add: rb_visit.simps)
next
  case (Cons y ys)
  have "0 \<notin> set (inorder t)"
    using assms by (auto simp: rbt_at_def wf_addrs_def aligned_def)
  with Cons.prems have "y \<noteq> 0" by auto
  moreover have "hev_rbtree_node_next s y = Some (case ys of [] \<Rightarrow> 0 | y # _ \<Rightarrow> y)"
    using rbtree_next_prev(1) [OF assms Cons.prems] by (cases ys) auto
  ultimately show ?case
    using Cons.IH [of "xs @ [y]"] Cons.prems by (subst rb_visit.simps) simp
qed

section \<open>Properties\<close>

definition rb_one :: rbtree where
  "rb_one = \<lparr>rb_root = 16, rb_mem = [16 \<mapsto> cell 0 Black 0 0, 32 \<mapsto> cell 0 Red 0 0]\<rparr>"

lemma rb_one_at: "rbt_at rb_one (Node Black Leaf 16 Leaf)" "redblack (Node Black Leaf 16 Leaf)"
  "rb_spare rb_one 32"
  by (simp_all add: rb_one_def rbt_at_def wf_addrs_def aligned_def redblack_def rb_spare_def)

text \<open>
  C12: Searching the slot of a key that is not in the tree, linking the node there and rebalancing
  returns, keeps the red-black invariants, and puts the node between the nodes on its two sides.
  No node outside the tree is written.
\<close>

theorem rbtree_insert_sorted:
  assumes "rbt_at st t" and "redblack t" and "inorder t = gt @ lt" and "sides cmp gt [] lt"
    and "rb_spare st n" and "n \<notin> set (inorder t)"
  shows "\<exists>parent link st1 st' t'. tree_slot cmp st RootLink 0 = Some (Inl (parent, link)) \<and>
     hev_rbtree_node_link st n parent link = Some st1 \<and> hev_rbtree_insert_color st1 n = Some st' \<and>
     rbt_at st' t' \<and> redblack t' \<and> inorder t' = gt @ n # lt \<and> same_outside (n # inorder t) st st'"
proof -
  have "inorder t = gt @ [] @ lt" using assms(3) by simp
  from tree_slot_correct [OF assms(1,4) this] obtain parent link where
    sl: "tree_slot cmp st RootLink 0 = Some (Inl (parent, link))" "slot_of t gt lt (parent, link)"
    by (cases "tree_slot cmp st RootLink 0") (auto split: sum.split_asm)
  then obtain p where "t = plug Leaf p" "before p = gt" "after p = lt" "parent = top p" "link = hole p"
    by (auto simp: slot_of_def)
  note p = this
  have "wp (do { st \<leftarrow> hev_rbtree_node_link st n (top p) (hole p); hev_rbtree_insert_color st n })
    (\<lambda>st'. \<exists>t'. rbt_at st' t' \<and> redblack t' \<and> inorder t' = before p @ n # after p \<and>
      same_outside (n # before p @ after p) st st')"
    using assms(1,2,5,6) p by (intro rbtree_insert_refines) (auto simp: rb_spare_def)
  with p sl(1) assms(3) show ?thesis
    by (auto simp: wp_def split: bind_splits)
qed

lemma rbtree_insert_sorted_witness:
  "\<exists>parent link st1 st' t'. tree_slot (\<lambda>_. Some (- 1)) rb_one RootLink 0 = Some (Inl (parent, link)) \<and>
     hev_rbtree_node_link rb_one 32 parent link = Some st1 \<and> hev_rbtree_insert_color st1 32 = Some st' \<and>
     rbt_at st' t' \<and> redblack t' \<and> inorder t' = [] @ 32 # [16] \<and> same_outside (32 # inorder (Node Black Leaf 16 Leaf)) rb_one st'"
  by (rule rbtree_insert_sorted [OF rb_one_at(1,2)]) (simp_all add: sides_def rb_one_at)

text \<open>
  C11: Erasing any node returns, keeps the red-black invariants and removes exactly that node from
  the in-order sequence.
\<close>

theorem rbtree_erase_exact:
  assumes "rbt_at st t" and "redblack t" and "n \<in> set (inorder t)"
  shows "\<exists>st' t'. hev_rbtree_erase st n = Some st' \<and> rbt_at st' t' \<and> redblack t' \<and>
     inorder t' = filter (\<lambda>x. x \<noteq> n) (inorder t) \<and> same_outside (inorder t) st st'"
proof -
  from assms(3) obtain xs ys where s: "inorder t = xs @ n # ys" by (meson split_list)
  moreover have "distinct (inorder t)" using assms(1) by (simp add: rbt_at_def wf_addrs_def)
  ultimately have "filter (\<lambda>x. x \<noteq> n) (inorder t) = xs @ ys"
    by (auto intro: filter_True arg_cong2 [where f = append])
  then show ?thesis using wpD [OF rbtree_erase_refines [OF assms(1,2) s]] by simp
qed

lemma rbtree_erase_exact_witness:
  "\<exists>st' t'. hev_rbtree_erase rb_one 16 = Some st' \<and> rbt_at st' t' \<and> redblack t' \<and>
     inorder t' = filter (\<lambda>x. x \<noteq> 16) (inorder (Node Black Leaf 16 Leaf)) \<and>
     same_outside (inorder (Node Black Leaf 16 Leaf)) rb_one st'"
  by (rule rbtree_erase_exact [OF rb_one_at(1,2)]) simp

text \<open>
  C23: Starting at \<open>hev_rbtree_first\<close> and following \<open>hev_rbtree_node_next\<close> until NULL ends and visits
  the nodes in order, each once; \<open>hev_rbtree_node_prev\<close> undoes \<open>hev_rbtree_node_next\<close>.
\<close>

theorem rbtree_enumerates:
  assumes "rbt_at st t"
  shows "Option.bind (hev_rbtree_first st) (rb_visit st) = Some (inorder t) \<and>
     (\<forall>a b. hev_rbtree_node_next st a = Some b \<longrightarrow> a \<in> set (inorder t) \<longrightarrow> b \<noteq> 0 \<longrightarrow>
        hev_rbtree_node_prev st b = Some a)"
proof (intro conjI allI impI)
  show "Option.bind (hev_rbtree_first st) (rb_visit st) = Some (inorder t)"
    using rb_visit_from [OF assms, of "[]" "inorder t"] rbtree_first_hd [OF assms] by simp
next
  fix a b
  assume a: "hev_rbtree_node_next st a = Some b" "a \<in> set (inorder t)" "b \<noteq> 0"
  then obtain xs ys where s: "inorder t = xs @ a # ys" by (meson split_list)
  from rbtree_next_prev(1) [OF assms s] a obtain ys' where "ys = b # ys'" by (cases ys) auto
  with s have "inorder t = (xs @ [a]) @ b # ys'" by simp
  from rbtree_next_prev(2) [OF assms this] show "hev_rbtree_node_prev st b = Some a" by simp
qed

lemma rbtree_enumerates_witness:
  "Option.bind (hev_rbtree_first rb_one) (rb_visit rb_one) = Some [16]"
  using rbtree_enumerates [OF rb_one_at(1)] by simp

text \<open>
  \<open>hev_rbtree_replace\<close> puts the new node in the place of the victim, with its colour, parent and
  children, and changes nothing else of the tree.
\<close>

theorem rbtree_replace_in_place:
  assumes "rbt_at st (plug (Node c l v r) p)" and "rb_spare st n"
    and "n \<notin> set (inorder (plug (Node c l v r) p))"
  shows "\<exists>st'. hev_rbtree_replace st v n = Some st' \<and> rbt_at st' (plug (Node c l n r) p) \<and>
     same_outside (n # inorder (plug (Node c l v r) p)) st st'"
  using wpD [OF rbtree_replace_at [OF assms(1) _ _ assms(3)]] assms(2) by (simp add: rb_spare_def)

lemma rbtree_replace_in_place_witness:
  "\<exists>st'. hev_rbtree_replace rb_one 16 32 = Some st' \<and> rbt_at st' (plug (Node Black Leaf 32 Leaf) []) \<and>
     same_outside (32 # inorder (plug (Node Black Leaf 16 Leaf) [])) rb_one st'"
  by (rule rbtree_replace_in_place) (simp_all add: rb_one_at)

text \<open>
  The search loop inspects at most twice the binary logarithm of the number of nodes: a tree
  that satisfies the invariants and holds fewer than \<open>2 ^ k - 1\<close> nodes is at most \<open>2 * k\<close> deep, and a
  lookup returns the node whose key compares equal, or NULL when there is none.
\<close>

theorem rbtree_lookup_log:
  assumes "rbt_at st t" and "redblack t" and "sides cmp gt eq lt" and "inorder t = gt @ eq @ lt"
    and "Suc (length (inorder t)) < 2 ^ k"
  shows "tree_find cmp st (rb_root st) = Some (case eq of [] \<Rightarrow> 0 | n # _ \<Rightarrow> n) \<and> height t < 2 * k"
proof
  show "tree_find cmp st (rb_root st) = Some (case eq of [] \<Rightarrow> 0 | n # _ \<Rightarrow> n)"
    by (rule tree_find_correct [OF assms(1,3,4)])
  have "(2::nat) ^ bheight t < 2 ^ k"
    using bheight_size [of t] assms(2,5) by (auto simp only: redblack_def intro: le_less_trans)
  then have "bheight t < k" by simp
  with height_bheight [of t] assms(2) show "height t < 2 * k" by (simp add: redblack_def)
qed

lemma rbtree_lookup_log_witness:
  "tree_find (\<lambda>n. Some (if n = 16 then 0 else 1)) rb_one (rb_root rb_one) = Some 16 \<and>
     height (Node Black Leaf 16 Leaf) < 2 * 2"
  using rbtree_lookup_log [OF rb_one_at(1,2), of "\<lambda>n. Some (if n = 16 then 0 else 1)" "[]" "[16]" "[]" 2]
  by (simp add: sides_def)

end
