(* ===== verification/Ring_Buffer.thy ===== *)
theory Ring_Buffer
  imports Prelude
begin

text \<open>
  The ring buffer of \<open>misc/hev-ring-buffer.c\<close>: a cyclic byte array with bytes that were read but
  not released yet, bytes that can be read, and free space. The operations hand out segments of
  the array (\<open>struct iovec\<close>) that the caller fills or drains. The theory shows that the buffer
  is a queue with a window: what is read comes out in the order it was written, and the bytes
  handed out stay untouched until they are released.
\<close>

section \<open>The code\<close>

record ring =
  ring_rp :: nat
  ring_wp :: nat
  ring_rda_size :: nat
  ring_use_size :: nat
  ring_max_size :: nat
  ring_data :: "u8 list"

type_synonym iovec = "nat \<times> nat"

definition hev_ring_buffer_alloca :: "u8 list \<Rightarrow> ring" where
  "hev_ring_buffer_alloca mem =
     \<lparr>ring_rp = 0, ring_wp = 0, ring_rda_size = 0, ring_use_size = 0,
      ring_max_size = length mem, ring_data = mem\<rparr>"

definition hev_ring_buffer_get_max_size :: "ring \<Rightarrow> nat" where
  "hev_ring_buffer_get_max_size self = ring_max_size self"

definition hev_ring_buffer_get_use_size :: "ring \<Rightarrow> nat" where
  "hev_ring_buffer_get_use_size self = ring_use_size self"

text \<open>The segments: an offset into the array and a length. The C result is their number.\<close>

definition hev_ring_buffer_reading :: "ring \<Rightarrow> iovec list" where
  "hev_ring_buffer_reading self =
     (if 0 = ring_rda_size self then []
      else
        let upper_size = usub (ring_max_size self) (ring_rp self)
        in if ring_rda_size self \<le> upper_size then [(ring_rp self, ring_rda_size self)]
           else [(ring_rp self, upper_size), (0, usub (ring_rda_size self) upper_size)])"

definition hev_ring_buffer_read_finish :: "ring \<Rightarrow> nat \<Rightarrow> ring" where
  "hev_ring_buffer_read_finish self sz =
     self\<lparr>ring_rp := uadd (ring_rp self) sz mod ring_max_size self,
          ring_rda_size := usub (ring_rda_size self) sz\<rparr>"

definition hev_ring_buffer_read_release :: "ring \<Rightarrow> nat \<Rightarrow> ring" where
  "hev_ring_buffer_read_release self sz =
     (let self = self\<lparr>ring_use_size := usub (ring_use_size self) sz\<rparr>
      in if ring_use_size self = 0 then self\<lparr>ring_rp := 0, ring_wp := 0\<rparr> else self)"

definition hev_ring_buffer_writing :: "ring \<Rightarrow> iovec list" where
  "hev_ring_buffer_writing self =
     (if ring_use_size self = ring_max_size self then []
      else
        let upper_size = usub (ring_max_size self) (ring_wp self);
            spc_size = usub (ring_max_size self) (ring_use_size self)
        in if spc_size \<le> upper_size then [(ring_wp self, spc_size)]
           else [(ring_wp self, upper_size), (0, usub spc_size upper_size)])"

definition hev_ring_buffer_write_finish :: "ring \<Rightarrow> nat \<Rightarrow> ring" where
  "hev_ring_buffer_write_finish self sz =
     self\<lparr>ring_wp := uadd (ring_wp self) sz mod ring_max_size self,
          ring_use_size := uadd (ring_use_size self) sz,
          ring_rda_size := uadd (ring_rda_size self) sz\<rparr>"

text \<open>What \<open>readv\<close> and \<open>writev\<close> do with the segments.\<close>

fun iov_load :: "u8 list \<Rightarrow> iovec list \<Rightarrow> u8 list" where
  "iov_load mem [] = []"
| "iov_load mem ((off, len) # v) = take len (drop off mem) @ iov_load mem v"

fun splice :: "u8 list \<Rightarrow> nat \<Rightarrow> u8 list \<Rightarrow> u8 list" where
  "splice mem off bs = take off mem @ bs @ drop (off + length bs) mem"

fun iov_store :: "u8 list \<Rightarrow> iovec list \<Rightarrow> u8 list \<Rightarrow> u8 list" where
  "iov_store mem [] bs = mem"
| "iov_store mem ((off, len) # v) bs = iov_store (splice mem off (take len bs)) v (drop len bs)"

definition ring_fill :: "ring \<Rightarrow> u8 list \<Rightarrow> ring" where
  "ring_fill self bs =
     hev_ring_buffer_write_finish
       (self\<lparr>ring_data := iov_store (ring_data self) (hev_ring_buffer_writing self) bs\<rparr>) (length bs)"

definition ring_drain :: "ring \<Rightarrow> nat \<Rightarrow> u8 list \<times> ring" where
  "ring_drain self n =
     (take n (iov_load (ring_data self) (hev_ring_buffer_reading self)),
      hev_ring_buffer_read_finish self n)"

section \<open>The window it stands for\<close>

text \<open>
  \<open>ring_holds r us rd\<close>: the array holds, cyclically from some base, the bytes \<open>us\<close> that were read
  but not released and then the bytes \<open>rd\<close> that can be read.
\<close>

definition cyc :: "ring \<Rightarrow> nat \<Rightarrow> nat \<Rightarrow> u8 list" where
  "cyc r start n = map (\<lambda>i. ring_data r ! ((start + i) mod ring_max_size r)) [0..<n]"

definition ring_at :: "ring \<Rightarrow> nat \<Rightarrow> u8 list \<Rightarrow> u8 list \<Rightarrow> bool" where
  "ring_at r b us rd \<longleftrightarrow>
     0 < ring_max_size r \<and> 2 * ring_max_size r < usize_max \<and> length (ring_data r) = ring_max_size r \<and>
     ring_rp r = (b + length us) mod ring_max_size r \<and>
     ring_wp r = (b + length us + length rd) mod ring_max_size r \<and>
     ring_rda_size r = length rd \<and> ring_use_size r = length us + length rd \<and>
     length us + length rd \<le> ring_max_size r \<and> us @ rd = cyc r b (length us + length rd)"

definition ring_holds :: "ring \<Rightarrow> u8 list \<Rightarrow> u8 list \<Rightarrow> bool" where
  "ring_holds r us rd \<longleftrightarrow> (\<exists>b. ring_at r b us rd)"

lemma length_cyc [simp]: "length (cyc r s n) = n"
  by (simp add: cyc_def)

lemma nth_cyc: "i < n \<Longrightarrow> cyc r s n ! i = ring_data r ! ((s + i) mod ring_max_size r)"
  by (simp add: cyc_def)

lemma cyc_append: "cyc r s (n + k) = cyc r s n @ cyc r (s + n) k"
  by (rule nth_equalityI) (auto simp: cyc_def nth_append add.assoc)

lemma cyc_mod: "cyc r (s mod ring_max_size r) n = cyc r s n"
  by (simp add: cyc_def mod_simps)

lemma cyc_straight:
  "s + n \<le> length (ring_data r) \<Longrightarrow> ring_max_size r = length (ring_data r) \<Longrightarrow>
     cyc r s n = take n (drop s (ring_data r))"
  by (rule nth_equalityI) (auto simp: cyc_def)

lemma ring_at_parts:
  assumes "ring_at r b us rd"
  shows "us = cyc r b (length us)" and "rd = cyc r (b + length us) (length rd)"
  using assms by (simp_all add: ring_at_def cyc_append)

lemma ring_holds_alloca:
  "mem \<noteq> [] \<Longrightarrow> 2 * length mem < usize_max \<Longrightarrow> ring_holds (hev_ring_buffer_alloca mem) [] []"
  by (auto simp: ring_holds_def ring_at_def hev_ring_buffer_alloca_def cyc_def intro: exI [of _ 0])

section \<open>Reading and releasing\<close>

lemma reading_segments:
  assumes "ring_holds r us rd"
  shows "iov_load (ring_data r) (hev_ring_buffer_reading r) = rd"
proof -
  obtain b where at: "ring_at r b us rd" using assms by (auto simp: ring_holds_def)
  let ?m = "ring_max_size r"
  let ?u = "?m - ring_rp r"
  have rp: "ring_rp r < ?m" and m: "length (ring_data r) = ?m" "?m < usize_max"
    and rda: "ring_rda_size r = length rd" "length rd \<le> ?m"
    using at by (auto simp: ring_at_def)
  have u: "usub ?m (ring_rp r) = ?u" using rp m by (intro usub_small) auto
  have rd: "rd = cyc r (ring_rp r) (length rd)"
    using ring_at_parts(2) [OF at] at cyc_mod [of r "b + length us"] by (simp add: ring_at_def)
  show ?thesis
  proof (cases "length rd \<le> ?u")
    case True
    then have "cyc r (ring_rp r) (length rd) = take (length rd) (drop (ring_rp r) (ring_data r))"
      using rp m by (intro cyc_straight) auto
    with True u rda rd show ?thesis by (auto simp: hev_ring_buffer_reading_def)
  next
    case False
    have s: "usub (length rd) ?u = length rd - ?u"
      using False m rda by (intro usub_small) auto
    have "rd = cyc r (ring_rp r) ?u @ cyc r (ring_rp r + ?u) (length rd - ?u)"
      using rd False by (simp flip: cyc_append)
    also have "cyc r (ring_rp r + ?u) (length rd - ?u) = cyc r 0 (length rd - ?u)"
      using rp cyc_mod [of r "ring_rp r + ?u"] by simp
    also have "cyc r 0 (length rd - ?u) = take (length rd - ?u) (drop 0 (ring_data r))"
      using m rda by (intro cyc_straight) auto
    also have "cyc r (ring_rp r) ?u = take ?u (drop (ring_rp r) (ring_data r))"
      using m rp by (intro cyc_straight) auto
    finally have "take ?u (drop (ring_rp r) (ring_data r)) @ take (length rd - ?u) (drop 0 (ring_data r)) = rd"
      by (rule sym)
    moreover have "length rd \<noteq> 0" using False by auto
    ultimately show ?thesis using False u s rda(1) by (simp add: hev_ring_buffer_reading_def Let_def)
  qed
qed

lemma read_finish_window:
  assumes "ring_holds r us rd" and "n \<le> length rd"
  shows "ring_holds (hev_ring_buffer_read_finish r n) (us @ take n rd) (drop n rd)"
proof -
  obtain b where at: "ring_at r b us rd" using assms by (auto simp: ring_holds_def)
  let ?m = "ring_max_size r"
  have b: "ring_rp r < ?m" "length rd \<le> ?m" "ring_rda_size r = length rd" "2 * ?m < usize_max"
    using at by (auto simp: ring_at_def)
  have "usub (length rd) n = length rd - n" "uadd (ring_rp r) n = ring_rp r + n"
    using assms(2) b by (simp_all add: usub_small uadd_small)
  then have "ring_at (hev_ring_buffer_read_finish r n) b (us @ take n rd) (drop n rd)"
    using at assms(2)
    by (auto simp: ring_at_def hev_ring_buffer_read_finish_def cyc_def mod_simps add.assoc)
  then show ?thesis by (auto simp: ring_holds_def)
qed

lemma release_window:
  assumes "ring_holds r us rd" and "n \<le> length us"
  shows "ring_holds (hev_ring_buffer_read_release r n) (drop n us) rd"
proof -
  obtain b where at: "ring_at r b us rd" using assms by (auto simp: ring_holds_def)
  have use: "usub (ring_use_size r) n = length us + length rd - n"
    using at assms(2) by (subst usub_small) (auto simp: ring_at_def)
  show ?thesis
  proof (cases "length us + length rd = n")
    case True
    with assms(2) have "rd = []" "length us = n" by auto
    with at use have "ring_at (hev_ring_buffer_read_release r n) 0 [] []"
      by (simp add: ring_at_def hev_ring_buffer_read_release_def cyc_def)
    with \<open>rd = []\<close> \<open>length us = n\<close> show ?thesis by (auto simp: ring_holds_def)
  next
    case False
    then have r: "hev_ring_buffer_read_release r n = r\<lparr>ring_use_size := length us + length rd - n\<rparr>"
      using assms(2) by (simp add: hev_ring_buffer_read_release_def use)
    have "us @ rd = cyc r b n @ cyc r (b + n) (length us - n + length rd)"
      using at assms(2) by (simp add: ring_at_def flip: cyc_append)
    then have "drop n (us @ rd) = cyc r (b + n) (length us - n + length rd)"
      by (metis append_eq_conv_conj length_cyc)
    then have "ring_at (r\<lparr>ring_use_size := length us + length rd - n\<rparr>) (b + n) (drop n us) rd"
      using at assms(2) by (auto simp: ring_at_def cyc_def)
    then show ?thesis by (auto simp: ring_holds_def r)
  qed
qed

section \<open>Writing\<close>

lemma nth_splice:
  "off + length bs \<le> length mem \<Longrightarrow> i < length mem \<Longrightarrow>
     splice mem off bs ! i = (if off \<le> i \<and> i < off + length bs then bs ! (i - off) else mem ! i)"
  by (auto simp: nth_append min_def)

lemma length_splice: "off + length bs \<le> length mem \<Longrightarrow> length (splice mem off bs) = length mem"
  by simp

text \<open>Byte \<open>j\<close> behind the write position, for every \<open>j\<close> once around the array.\<close>

lemma write_segments:
  assumes at: "ring_at r b us rd" and len: "length us + length rd + length bs \<le> ring_max_size r"
  defines "mem \<equiv> iov_store (ring_data r) (hev_ring_buffer_writing r) bs"
  shows "length mem = ring_max_size r"
    and "j < ring_max_size r \<Longrightarrow> mem ! ((ring_wp r + j) mod ring_max_size r) =
      (if j < length bs then bs ! j else ring_data r ! ((ring_wp r + j) mod ring_max_size r))"
proof -
  let ?m = "ring_max_size r" and ?d = "ring_data r" and ?w = "ring_wp r"
  let ?u = "?m - ?w" and ?s = "?m - (length us + length rd)"
  have w: "?w < ?m" and m: "length ?d = ?m" "?m < usize_max" and use: "ring_use_size r = length us + length rd"
    using at by (auto simp: ring_at_def)
  have u: "usub ?m ?w = ?u" "usub ?m (ring_use_size r) = ?s"
    using w m use len by (auto intro: usub_small)
  have idx: "(?w + j) mod ?m = (if ?w + j < ?m then ?w + j else ?w + j - ?m)" if "j < ?m" for j
    using w that by (auto simp: mod_if)
  consider "?s = 0" | "0 < ?s" "?s \<le> ?u" | "?u < ?s" by linarith
  then have "length mem = ?m \<and> (j < ?m \<longrightarrow> mem ! ((?w + j) mod ?m) =
      (if j < length bs then bs ! j else ?d ! ((?w + j) mod ?m)))"
  proof cases
    case 1
    then have "?m = length us + length rd" using at by (simp add: ring_at_def)
    with len use have "length bs = 0" "ring_use_size r = ?m" by linarith+
    then show ?thesis using m by (simp add: mem_def hev_ring_buffer_writing_def)
  next
    case 2
    then have "mem = splice ?d ?w bs"
      using u use len by (simp add: mem_def hev_ring_buffer_writing_def)
    then show ?thesis
      using w m len 2 idx by (auto simp: nth_splice simp del: splice.simps intro: length_splice [THEN trans])
  next
    case 3
    have "usub ?s ?u = ?s - ?u" using 3 m by (intro usub_small) auto
    moreover have "?s \<noteq> 0" using 3 by linarith
    then have "length us + length rd \<noteq> ?m" by linarith
    ultimately have mem: "mem = splice (splice ?d ?w (take ?u bs)) 0 (take (?s - ?u) (drop ?u bs))"
      using u use len 3 by (simp add: mem_def hev_ring_buffer_writing_def Let_def del: splice.simps)
    have t: "take (?s - ?u) (drop ?u bs) = drop ?u bs" using len by simp
    have l1: "length (splice ?d ?w (take ?u bs)) = ?m"
      using w m by (subst length_splice) auto
    have l2: "0 + length (drop ?u bs) \<le> length (splice ?d ?w (take ?u bs))" using l1 len by simp
    have l3: "?w + length (take ?u bs) \<le> length ?d" using w m by auto
    have dw: "length bs - ?u \<le> ?w" using len w by linarith
    have "mem ! ((?w + j) mod ?m) = (if j < length bs then bs ! j else ?d ! ((?w + j) mod ?m))" if j: "j < ?m"
    proof (cases "?w + j < ?m")
      case True
      then have "(?w + j) mod ?m = ?w + j" "j < ?u" by auto
      moreover have "splice ?d ?w bs ! (?w + j) = ?d ! (?w + j)" if "length bs \<le> j"
        using that True m by (subst nth_splice) auto
      ultimately show ?thesis
        using dw l1 m w True j unfolding mem t
        by (subst nth_splice [OF l2]; simp del: splice.simps; subst nth_splice [OF l3]; simp del: splice.simps)
    next
      case False
      then have P: "(?w + j) mod ?m = j - ?u" "?u \<le> j" "j - ?u < ?w" using idx [OF j] w j by auto
      have "drop ?u bs ! (j - ?u) = bs ! j" if "j < length bs" using that P(2) by simp
      then show ?thesis
        using l1 m w P unfolding mem t P(1)
        by (subst nth_splice [OF l2]; simp del: splice.simps; subst nth_splice [OF l3]; simp del: splice.simps) linarith
    qed
    moreover have "length mem = ?m" unfolding mem t using length_splice [OF l2] l1 by (simp del: splice.simps)
    ultimately show ?thesis by blast
  qed
  then show "length mem = ?m" and "j < ?m \<Longrightarrow> mem ! ((?w + j) mod ?m) =
      (if j < length bs then bs ! j else ?d ! ((?w + j) mod ?m))" by auto
qed

lemma ring_fill_window:
  assumes "ring_holds r us rd" and "length us + length rd + length bs \<le> ring_max_size r"
  shows "ring_holds (ring_fill r bs) us (rd @ bs)"
proof -
  obtain b where at: "ring_at r b us rd" using assms by (auto simp: ring_holds_def)
  let ?m = "ring_max_size r" and ?use = "length us + length rd"
  let ?r = "ring_fill r bs"
  let ?mem = "iov_store (ring_data r) (hev_ring_buffer_writing r) bs"
  have w: "ring_wp r = (b + ?use) mod ?m" and m: "0 < ?m" "2 * ?m < usize_max"
    using at by (auto simp: ring_at_def add.assoc)
  have wm: "ring_wp r < ?m" using w m by simp
  have f: "?r = r\<lparr>ring_wp := (ring_wp r + length bs) mod ?m, ring_use_size := ?use + length bs,
      ring_rda_size := length rd + length bs, ring_data := ?mem\<rparr>"
  proof -
    have "uadd (ring_wp r) (length bs) = ring_wp r + length bs"
      using wm m assms(2) by (intro uadd_small) simp
    moreover have "uadd (ring_use_size r) (length bs) = ?use + length bs"
      "uadd (ring_rda_size r) (length bs) = length rd + length bs"
      using at m assms(2) by (auto simp: ring_at_def intro: uadd_small)
    ultimately show ?thesis by (simp add: ring_fill_def hev_ring_buffer_write_finish_def)
  qed
  have "cyc ?r b (?use + length bs) = (us @ rd) @ bs"
  proof (rule nth_equalityI)
    fix i assume "i < length (cyc ?r b (?use + length bs))"
    then have i: "i < ?use + length bs" by simp
    show "cyc ?r b (?use + length bs) ! i = ((us @ rd) @ bs) ! i"
    proof (cases "i < ?use")
      case True
      define j where "j = ?m - ?use + i"
      have j: "j < ?m" "\<not> j < length bs" using True assms(2) by (auto simp: j_def)
      have "(ring_wp r + j) mod ?m = (b + ?use + j) mod ?m" by (simp add: w mod_simps)
      also have "b + ?use + j = b + i + ?m" using assms(2) by (simp add: j_def)
      finally have "(ring_wp r + j) mod ?m = (b + i) mod ?m" by simp
      then show ?thesis
        using write_segments(2) [OF at assms(2), of j] j True i at
        by (simp add: nth_cyc f nth_append ring_at_def)
    next
      case False
      then obtain k where ik: "i = ?use + k" "k < length bs" using i by (metis less_diff_conv2 le_add_diff_inverse not_less add.commute)
      have "(ring_wp r + k) mod ?m = (b + ?use + k) mod ?m"
        by (simp only: w mod_add_left_eq)
      then have "(ring_wp r + k) mod ?m = (b + i) mod ?m" by (simp add: ik(1) add.assoc)
      moreover have "((us @ rd) @ bs) ! i = bs ! k"
        using nth_append_length_plus [of "us @ rd" bs k] by (simp add: ik(1))
      moreover have "k < ?m" using ik(2) assms(2) by simp
      ultimately show ?thesis
        using write_segments(2) [OF at assms(2), of k] ik(2) by (simp add: nth_cyc f ik(1))
    qed
  qed simp
  then have "ring_at ?r b us (rd @ bs)"
    using at assms(2) write_segments(1) [OF at assms(2)] w
    by (auto simp: ring_at_def f mod_simps add.assoc)
  then show ?thesis by (auto simp: ring_holds_def)
qed

lemma ring_drain_window:
  assumes "ring_holds r us rd" and "n \<le> length rd"
  shows "fst (ring_drain r n) = take n rd" and "ring_holds (snd (ring_drain r n)) (us @ take n rd) (drop n rd)"
  using reading_segments [OF assms(1)] read_finish_window [OF assms] by (simp_all add: ring_drain_def)

lemma writing_space:
  assumes "ring_holds r us rd"
  shows "sum_list (map snd (hev_ring_buffer_writing r)) = ring_max_size r - (length us + length rd)"
proof -
  obtain b where at: "ring_at r b us rd" using assms by (auto simp: ring_holds_def)
  let ?u = "ring_max_size r - ring_wp r" and ?s = "ring_max_size r - (length us + length rd)"
  have w: "ring_wp r < ring_max_size r" using at by (auto simp: ring_at_def)
  then have "usub (ring_max_size r) (ring_wp r) = ?u" using at by (intro usub_small) (auto simp: ring_at_def)
  moreover have "usub (ring_max_size r) (ring_use_size r) = ?s"
    using at by (subst usub_small) (auto simp: ring_at_def)
  moreover have "usub ?s ?u = ?s - ?u" if "\<not> ?s \<le> ?u"
    using at that by (intro usub_small) (auto simp: ring_at_def)
  moreover have "ring_use_size r = length us + length rd" using at by (simp add: ring_at_def)
  ultimately show ?thesis by (auto simp: hev_ring_buffer_writing_def Let_def)
qed

section \<open>The buffer as a queue with a window\<close>

text \<open>
  What the TCP session relies on: bytes are put at the end, handed out from the front, and kept
  until released. From these laws alone follows that a run of operations hands out exactly the
  bytes that were put, in order, and never more than the capacity.
\<close>

datatype 'b ring_op = Put "'b list" | Take nat | Ack nat

locale byte_window =
  fixes holds :: "'s \<Rightarrow> 'b list \<Rightarrow> 'b list \<Rightarrow> bool"
    and cap :: "'s \<Rightarrow> nat"
    and put :: "'s \<Rightarrow> 'b list \<Rightarrow> 's"
    and get :: "'s \<Rightarrow> nat \<Rightarrow> 'b list \<times> 's"
    and ack :: "'s \<Rightarrow> nat \<Rightarrow> 's"
  assumes put_law: "holds s us rd \<Longrightarrow> length us + length rd + length bs \<le> cap s \<Longrightarrow>
      holds (put s bs) us (rd @ bs) \<and> cap (put s bs) = cap s"
    and get_law: "holds s us rd \<Longrightarrow> n \<le> length rd \<Longrightarrow> get s n = (bs, s') \<Longrightarrow>
      bs = take n rd \<and> holds s' (us @ bs) (drop n rd) \<and> cap s' = cap s"
    and ack_law: "holds s us rd \<Longrightarrow> n \<le> length us \<Longrightarrow> holds (ack s n) (drop n us) rd \<and> cap (ack s n) = cap s"
begin

fun step :: "'s \<times> 'b list \<Rightarrow> 'b ring_op \<Rightarrow> 's \<times> 'b list" where
  "step (s, out) (Put bs) = (put s bs, out)"
| "step (s, out) (Take n) = (case get s n of (bs, s') \<Rightarrow> (s', out @ bs))"
| "step (s, out) (Ack n) = (ack s n, out)"

text \<open>A run that respects the sizes: \<open>k\<close> bytes unreleased, \<open>n\<close> readable.\<close>

fun allowed :: "nat \<Rightarrow> nat \<Rightarrow> nat \<Rightarrow> 'b ring_op list \<Rightarrow> bool" where
  "allowed c k n [] \<longleftrightarrow> True"
| "allowed c k n (Put bs # ops) \<longleftrightarrow> k + n + length bs \<le> c \<and> allowed c k (n + length bs) ops"
| "allowed c k n (Take m # ops) \<longleftrightarrow> m \<le> n \<and> allowed c (k + m) (n - m) ops"
| "allowed c k n (Ack m # ops) \<longleftrightarrow> m \<le> k \<and> allowed c (k - m) n ops"

fun puts :: "'b ring_op list \<Rightarrow> 'b list" where
  "puts [] = []"
| "puts (Put bs # ops) = bs @ puts ops"
| "puts (_ # ops) = puts ops"

lemma run_fifo:
  "holds s us rd \<Longrightarrow> allowed (cap s) (length us) (length rd) ops \<Longrightarrow>
     \<exists>s' us' rd' got. foldl step (s, out) ops = (s', out @ got) \<and> holds s' us' rd' \<and>
       got @ rd' = rd @ puts ops"
proof (induction ops arbitrary: s us rd out)
  case Nil
  then show ?case by auto
next
  case (Cons a ops)
  show ?case
  proof (cases a)
    case (Put bs)
    with Cons.prems put_law [of s us rd bs] show ?thesis
      using Cons.IH [of "put s bs" us "rd @ bs" out] by (auto simp: add.assoc)
  next
    case (Take n)
    obtain bs s1 where g: "get s n = (bs, s1)" by force
    with Take Cons.prems get_law [of s us rd n bs s1]
    have "holds s1 (us @ bs) (drop n rd)" "bs = take n rd" "cap s1 = cap s" "n \<le> length rd" by auto
    note h = this
    with Take Cons.prems(2) have "allowed (cap s1) (length (us @ bs)) (length (drop n rd)) ops"
      by (simp add: min_absorb2)
    from Cons.IH [OF h(1) this, of "out @ bs"] obtain s' us' rd' got where
      "foldl step (s1, out @ bs) ops = (s', (out @ bs) @ got)" "holds s' us' rd'" "got @ rd' = drop n rd @ puts ops"
      by blast
    with Take g h(2) show ?thesis
      by - (rule exI [of _ s'], rule exI [of _ us'], rule exI [of _ rd'], rule exI [of _ "bs @ got"], simp)
  next
    case (Ack n)
    with Cons.prems ack_law [of s us rd n] show ?thesis
      using Cons.IH [of "ack s n" "drop n us" rd out] by auto
  qed
qed

end

lemma ring_max_size_const [simp]:
  "ring_max_size (ring_fill r bs) = ring_max_size r"
  "ring_max_size (snd (ring_drain r n)) = ring_max_size r"
  "ring_max_size (hev_ring_buffer_read_release r n) = ring_max_size r"
  by (simp_all add: ring_fill_def hev_ring_buffer_write_finish_def ring_drain_def
      hev_ring_buffer_read_finish_def hev_ring_buffer_read_release_def Let_def)

interpretation ring: byte_window ring_holds hev_ring_buffer_get_max_size ring_fill ring_drain
  hev_ring_buffer_read_release
proof unfold_locales
  fix s us rd and bs :: "u8 list"
  assume "ring_holds s us rd" "length us + length rd + length bs \<le> hev_ring_buffer_get_max_size s"
  then show "ring_holds (ring_fill s bs) us (rd @ bs) \<and>
      hev_ring_buffer_get_max_size (ring_fill s bs) = hev_ring_buffer_get_max_size s"
    by (simp add: ring_fill_window hev_ring_buffer_get_max_size_def)
next
  fix s us rd n bs s'
  assume "ring_holds s us rd" "n \<le> length rd" "ring_drain s n = (bs, s')"
  then show "bs = take n rd \<and> ring_holds s' (us @ bs) (drop n rd) \<and>
      hev_ring_buffer_get_max_size s' = hev_ring_buffer_get_max_size s"
    using ring_drain_window [of s us rd n] ring_max_size_const(2) [of s n]
    by (simp add: hev_ring_buffer_get_max_size_def)
next
  fix s us rd n
  assume "ring_holds s us rd" "n \<le> length us"
  then show "ring_holds (hev_ring_buffer_read_release s n) (drop n us) rd \<and>
      hev_ring_buffer_get_max_size (hev_ring_buffer_read_release s n) = hev_ring_buffer_get_max_size s"
    by (simp add: release_window hev_ring_buffer_get_max_size_def)
qed

section \<open>Properties\<close>

text \<open>A session's use of the buffer: the bytes handed out and the state after a run.\<close>

fun ring_exec :: "ring \<Rightarrow> u8 ring_op list \<Rightarrow> ring \<times> u8 list" where
  "ring_exec r [] = (r, [])"
| "ring_exec r (Put bs # ops) = ring_exec (ring_fill r bs) ops"
| "ring_exec r (Take n # ops) =
     (let (bs, r) = ring_drain r n; (r', out) = ring_exec r ops in (r', bs @ out))"
| "ring_exec r (Ack n # ops) = ring_exec (hev_ring_buffer_read_release r n) ops"

fun ring_fits :: "nat \<Rightarrow> nat \<Rightarrow> nat \<Rightarrow> u8 ring_op list \<Rightarrow> bool" where
  "ring_fits c k n [] \<longleftrightarrow> True"
| "ring_fits c k n (Put bs # ops) \<longleftrightarrow> k + n + length bs \<le> c \<and> ring_fits c k (n + length bs) ops"
| "ring_fits c k n (Take m # ops) \<longleftrightarrow> m \<le> n \<and> ring_fits c (k + m) (n - m) ops"
| "ring_fits c k n (Ack m # ops) \<longleftrightarrow> m \<le> k \<and> ring_fits c (k - m) n ops"

fun ring_puts :: "u8 ring_op list \<Rightarrow> u8 list" where
  "ring_puts [] = []"
| "ring_puts (Put bs # ops) = bs @ ring_puts ops"
| "ring_puts (_ # ops) = ring_puts ops"

lemma ring_fits_allowed: "ring_fits c k n ops = ring.allowed c k n ops"
  by (induction c k n ops rule: ring_fits.induct) simp_all

lemma ring_puts_puts: "ring_puts ops = ring.puts ops"
  by (induction ops rule: ring_puts.induct) simp_all

lemma ring_exec_steps:
  "foldl ring.step (r, out) ops = (fst (ring_exec r ops), out @ snd (ring_exec r ops))"
proof (induction ops arbitrary: r out)
  case Nil
  then show ?case by simp
next
  case (Cons a ops)
  show ?case by (cases a) (simp_all add: Cons.IH split_beta Let_def)
qed

text \<open>
  C22: Whatever sequence of fills, reads and releases a session makes, as long as it never writes
  more than the free space, takes more than is readable or releases more than it took, the bytes
  read from a fresh buffer followed by those still in it are exactly the bytes written, in order,
  across every wrap-around of the array.
\<close>

theorem ring_buffer_fifo:
  assumes "buf \<noteq> []" and "2 * length buf < usize_max" and "ring_fits (length buf) 0 0 ops"
  shows "\<exists>r out us rest. ring_exec (hev_ring_buffer_alloca buf) ops = (r, out) \<and> ring_holds r us rest \<and>
     out @ rest = ring_puts ops"
proof -
  have "ring_holds (hev_ring_buffer_alloca buf) [] []" using assms(1,2) by (rule ring_holds_alloca)
  moreover have "hev_ring_buffer_get_max_size (hev_ring_buffer_alloca buf) = length buf"
    by (simp add: hev_ring_buffer_get_max_size_def hev_ring_buffer_alloca_def)
  ultimately show ?thesis
    using ring.run_fifo [of "hev_ring_buffer_alloca buf" "[]" "[]" ops "[]"] assms(3)
    by (force simp: ring_fits_allowed ring_puts_puts ring_exec_steps)
qed

lemma ring_buffer_fifo_witness:
  "let ops = [Put [1, 2, 3], Take 2, Ack 2, Put [4, 5], Take 3] in
     \<exists>r out us rest. ring_exec (hev_ring_buffer_alloca [0, 0, 0, 0]) ops = (r, out) \<and>
       ring_holds r us rest \<and> out @ rest = ring_puts ops"
  unfolding Let_def by (rule ring_buffer_fifo) (simp_all add: usize_max_def)

lemma writing_in_bounds:
  assumes "ring_holds r us rd" and "(off, len) \<in> set (hev_ring_buffer_writing r)"
  shows "off + len \<le> length (ring_data r)"
proof -
  obtain b where at: "ring_at r b us rd" using assms by (auto simp: ring_holds_def)
  then have w: "ring_wp r < ring_max_size r" "length (ring_data r) = ring_max_size r"
    "ring_max_size r < usize_max" "ring_use_size r \<le> ring_max_size r"
    by (auto simp: ring_at_def)
  then have "usub (ring_max_size r) (ring_wp r) = ring_max_size r - ring_wp r"
    "usub (ring_max_size r) (ring_use_size r) = ring_max_size r - ring_use_size r"
    by (auto intro: usub_small)
  moreover have "usub (ring_max_size r - ring_use_size r) (ring_max_size r - ring_wp r) =
      (ring_max_size r - ring_use_size r) - (ring_max_size r - ring_wp r)"
    if "\<not> ring_max_size r - ring_use_size r \<le> ring_max_size r - ring_wp r"
    using that w by (intro usub_small) auto
  ultimately show ?thesis using assms(2) w
    by (auto simp: hev_ring_buffer_writing_def Let_def split: if_splits)
qed

lemma reading_in_bounds:
  assumes "ring_holds r us rd" and "(off, len) \<in> set (hev_ring_buffer_reading r)"
  shows "off + len \<le> length (ring_data r)"
proof -
  obtain b where at: "ring_at r b us rd" using assms by (auto simp: ring_holds_def)
  then have w: "ring_rp r < ring_max_size r" "length (ring_data r) = ring_max_size r"
    "ring_max_size r < usize_max" "ring_rda_size r \<le> ring_max_size r"
    by (auto simp: ring_at_def)
  then have "usub (ring_max_size r) (ring_rp r) = ring_max_size r - ring_rp r"
    by (auto intro: usub_small)
  moreover have "usub (ring_rda_size r) (ring_max_size r - ring_rp r) =
      ring_rda_size r - (ring_max_size r - ring_rp r)"
    if "\<not> ring_rda_size r \<le> ring_max_size r - ring_rp r"
    using that w by (intro usub_small) auto
  ultimately show ?thesis using assms(2) w
    by (auto simp: hev_ring_buffer_reading_def Let_def split: if_splits)
qed

text \<open>
  Every segment handed out for reading or writing lies inside the array, the readable segments
  hold the readable bytes in order, and the writable ones offer exactly the free space.
\<close>

theorem ring_segments_safe:
  assumes "ring_holds r us rd"
  shows "(\<forall>(off, len) \<in> set (hev_ring_buffer_reading r) \<union> set (hev_ring_buffer_writing r).
            off + len \<le> length (ring_data r)) \<and>
     iov_load (ring_data r) (hev_ring_buffer_reading r) = rd \<and>
     sum_list (map snd (hev_ring_buffer_writing r)) = hev_ring_buffer_get_max_size r - hev_ring_buffer_get_use_size r"
proof -
  have "ring_use_size r = length us + length rd"
    using assms by (auto simp: ring_holds_def ring_at_def)
  then show ?thesis
    using assms writing_space [OF assms] reading_segments [OF assms]
    by (auto dest: writing_in_bounds reading_in_bounds
        simp: hev_ring_buffer_get_max_size_def hev_ring_buffer_get_use_size_def)
qed

definition ring_wrapped :: ring where
  "ring_wrapped = \<lparr>ring_rp = 3, ring_wp = 1, ring_rda_size = 2, ring_use_size = 3, ring_max_size = 4,
     ring_data = [8, 0, 6, 7]\<rparr>"

lemma ring_segments_safe_witness:
  "iov_load (ring_data ring_wrapped) (hev_ring_buffer_reading ring_wrapped) = [7, 8] \<and>
     sum_list (map snd (hev_ring_buffer_writing ring_wrapped)) = 1"
proof -
  have "ring_holds ring_wrapped [6] [7, 8]"
    by (auto simp: ring_holds_def ring_at_def ring_wrapped_def cyc_def usize_max_def upt_rec
        intro!: exI [of _ "2::nat"])
  from ring_segments_safe [OF this] show ?thesis
    by (simp add: hev_ring_buffer_get_max_size_def hev_ring_buffer_get_use_size_def ring_wrapped_def)
qed

end
