(* ===== verification/Hev_List.thy ===== *)
theory Hev_List
  imports Prelude
begin

text \<open>
  The doubly linked list of \<open>misc/hev-list.c\<close>, in memory: nodes with a next and a previous
  pointer, and the head and tail of the list. A memory that holds the sequence \<open>xs\<close> of node
  addresses is refined by \<open>xs @ [n]\<close> and by removal from \<open>xs\<close>. The sessions of the tunnel and
  the names of the mapped DNS cache are kept in such lists.
\<close>

section \<open>The code\<close>

record dnode =
  ln_next :: ptr
  ln_prev :: ptr

record dlist =
  l_head :: ptr
  l_tail :: ptr
  l_mem :: "ptr \<rightharpoonup> dnode"

definition hev_list_node_prev :: "dlist \<Rightarrow> ptr \<Rightarrow> ptr option" where
  "hev_list_node_prev self node = map_option ln_prev (l_mem self node)"

definition hev_list_node_next :: "dlist \<Rightarrow> ptr \<Rightarrow> ptr option" where
  "hev_list_node_next self node = map_option ln_next (l_mem self node)"

definition hev_list_first :: "dlist \<Rightarrow> ptr" where
  "hev_list_first self = l_head self"

definition hev_list_last :: "dlist \<Rightarrow> ptr" where
  "hev_list_last self = l_tail self"

definition set_next :: "dlist \<Rightarrow> ptr \<Rightarrow> ptr \<Rightarrow> dlist option" where
  "set_next self p v = map_option (\<lambda>n. self\<lparr>l_mem := (l_mem self)(p \<mapsto> n\<lparr>ln_next := v\<rparr>)\<rparr>) (l_mem self p)"

definition set_prev :: "dlist \<Rightarrow> ptr \<Rightarrow> ptr \<Rightarrow> dlist option" where
  "set_prev self p v = map_option (\<lambda>n. self\<lparr>l_mem := (l_mem self)(p \<mapsto> n\<lparr>ln_prev := v\<rparr>)\<rparr>) (l_mem self p)"

definition hev_list_add_tail :: "dlist \<Rightarrow> ptr \<Rightarrow> dlist option" where
  "hev_list_add_tail self new = do {
     self \<leftarrow> set_prev self new (l_tail self);
     self \<leftarrow> set_next self new 0;
     self \<leftarrow> (if l_tail self \<noteq> 0 then set_next self (l_tail self) new
             else Some (self\<lparr>l_head := new\<rparr>));
     Some (self\<lparr>l_tail := new\<rparr>)
   }"

definition hev_list_del :: "dlist \<Rightarrow> ptr \<Rightarrow> dlist option" where
  "hev_list_del self node = do {
     prev \<leftarrow> hev_list_node_prev self node;
     next \<leftarrow> hev_list_node_next self node;
     self \<leftarrow> (if prev \<noteq> 0 then set_next self prev next else Some (self\<lparr>l_head := next\<rparr>));
     next \<leftarrow> hev_list_node_next self node;
     prev \<leftarrow> hev_list_node_prev self node;
     (if next \<noteq> 0 then set_prev self next prev else Some (self\<lparr>l_tail := prev\<rparr>))
   }"

section \<open>The sequence a memory holds\<close>

definition first0 :: "ptr list \<Rightarrow> ptr \<Rightarrow> ptr" where
  "first0 xs nx = (case xs of [] \<Rightarrow> nx | x # _ \<Rightarrow> x)"

definition last0 :: "ptr \<Rightarrow> ptr list \<Rightarrow> ptr" where
  "last0 pv xs = (if xs = [] then pv else last xs)"

fun chain :: "(ptr \<rightharpoonup> dnode) \<Rightarrow> ptr \<Rightarrow> ptr list \<Rightarrow> ptr \<Rightarrow> bool" where
  "chain m pv [] nx \<longleftrightarrow> True"
| "chain m pv (x # xs) nx \<longleftrightarrow> m x = Some \<lparr>ln_next = first0 xs nx, ln_prev = pv\<rparr> \<and> chain m x xs nx"

definition list_at :: "dlist \<Rightarrow> ptr list \<Rightarrow> bool" where
  "list_at s xs \<longleftrightarrow> distinct xs \<and> 0 \<notin> set xs \<and> l_head s = first0 xs 0 \<and> l_tail s = last0 0 xs \<and>
     chain (l_mem s) 0 xs 0"

lemma first0_simps [simp]: "first0 [] nx = nx" "first0 (x # xs) nx = x"
  by (simp_all add: first0_def)

lemma last0_simps [simp]: "last0 pv [] = pv" "last0 pv (x # xs) = last0 x xs" "last0 pv (xs @ [x]) = x"
  by (simp_all add: last0_def)

lemma last0_in: "xs \<noteq> [] \<Longrightarrow> last0 pv xs \<in> set xs"
  by (simp add: last0_def)

lemma first0_append: "first0 (xs @ ys) nx = first0 xs (first0 ys nx)"
  by (cases xs) simp_all

lemma chain_append: "chain m pv (xs @ ys) nx \<longleftrightarrow> chain m pv xs (first0 ys nx) \<and> chain m (last0 pv xs) ys nx"
  by (induction xs arbitrary: pv) (auto simp: first0_append)

lemma chain_frame [frame_simps]: "a \<notin> set xs \<Longrightarrow> chain (m(a := v)) pv xs nx = chain m pv xs nx"
  by (induction xs arbitrary: pv) auto

lemma chain_cong: "(\<And>a. a \<in> set xs \<Longrightarrow> m a = m' a) \<Longrightarrow> chain m pv xs nx = chain m' pv xs nx"
  by (induction xs arbitrary: pv) auto

text \<open>The end of a chain is rewritten when the neighbour changes.\<close>

lemma chain_set_next:
  assumes "chain m pv xs nx" and "distinct xs" and "xs \<noteq> []"
  shows "\<exists>n. m (last0 pv xs) = Some n \<and> chain (m(last0 pv xs \<mapsto> n\<lparr>ln_next := v\<rparr>)) pv xs v"
proof -
  obtain ys y where xs: "xs = ys @ [y]" using assms(3) by (cases xs rule: rev_cases) auto
  then show ?thesis
    using assms by (auto simp: chain_append frame_simps)
qed

lemma chain_set_prev:
  assumes "chain m pv xs nx" and "distinct xs" and "xs \<noteq> []"
  shows "\<exists>n. m (first0 xs nx) = Some n \<and> chain (m(first0 xs nx \<mapsto> n\<lparr>ln_prev := v\<rparr>)) v xs nx"
  using assms by (cases xs) (auto simp: frame_simps)

definition same_nodes :: "ptr set \<Rightarrow> dlist \<Rightarrow> dlist \<Rightarrow> bool" where
  "same_nodes A s s' \<longleftrightarrow> (\<forall>a. a \<notin> A \<longrightarrow> l_mem s' a = l_mem s a)"

lemma list_add_tail_refines:
  assumes "list_at s xs" and "l_mem s n \<noteq> None" and "n \<notin> set xs" and "n \<noteq> 0"
  shows "wp (hev_list_add_tail s n) (\<lambda>s'. list_at s' (xs @ [n]) \<and> same_nodes (set (n # xs)) s s')"
proof -
  obtain a b where nd: "l_mem s n = Some \<lparr>ln_next = a, ln_prev = b\<rparr>"
    using assms(2) by (metis dnode.surjective old.unit.exhaust option.exhaust)
  show ?thesis
  proof (cases "xs = []")
    case True
    with assms nd show ?thesis
      by (simp add: hev_list_add_tail_def set_prev_def set_next_def wp_simps list_at_def same_nodes_def)
  next
    case False
    let ?l = "last0 0 xs"
    have l: "?l \<in> set xs" using False by (rule last0_in)
    then have ln: "?l \<noteq> n" "?l \<noteq> 0" using assms by (auto simp: list_at_def)
    let ?m = "(l_mem s)(n \<mapsto> \<lparr>ln_next = 0, ln_prev = ?l\<rparr>)"
    have "chain ?m 0 xs 0" using assms by (simp add: list_at_def frame_simps)
    then obtain n' where n': "?m ?l = Some n'" "chain (?m(?l \<mapsto> n'\<lparr>ln_next := n\<rparr>)) 0 xs n"
      using chain_set_next [of ?m 0 xs 0 n] assms(1) False by (auto simp: list_at_def)
    let ?s = "s\<lparr>l_mem := ?m(?l \<mapsto> n'\<lparr>ln_next := n\<rparr>), l_tail := n\<rparr>"
    have "l_tail s = ?l" using assms(1) by (simp add: list_at_def)
    then have "hev_list_add_tail s n = Some ?s"
      using nd n'(1) ln by (simp add: hev_list_add_tail_def set_prev_def set_next_def)
    moreover have "list_at ?s (xs @ [n])"
      using assms(1,3,4) n'(2) ln False by (simp add: list_at_def chain_append first0_append first0_def split: list.split)
    moreover have "same_nodes (set (n # xs)) s ?s"
      using l by (auto simp: same_nodes_def)
    ultimately show ?thesis by simp
  qed
qed

lemma list_del_refines:
  assumes "list_at s (xs @ n # ys)"
  shows "wp (hev_list_del s n) (\<lambda>s'. list_at s' (xs @ ys) \<and> same_nodes (set (xs @ ys)) s s')"
proof -
  let ?p = "last0 0 xs" and ?q = "first0 ys 0"
  have ch: "chain (l_mem s) 0 xs n" "chain (l_mem s) n ys 0"
    and n: "l_mem s n = Some \<lparr>ln_next = ?q, ln_prev = ?p\<rparr>"
    and d: "distinct xs" "distinct ys" "n \<notin> set xs" "n \<notin> set ys" "set xs \<inter> set ys = {}"
      "0 \<notin> set xs" "0 \<notin> set ys" "n \<noteq> 0"
    and ht: "l_head s = first0 (xs @ n # ys) 0" "l_tail s = last0 0 (xs @ n # ys)"
    using assms by (auto simp: list_at_def chain_append)
  have p: "?p = 0 \<longleftrightarrow> xs = []" using d(6) last0_in [of xs 0] by (cases "xs = []") auto
  have q: "?q = 0 \<longleftrightarrow> ys = []" using d(7) by (cases ys) auto
  obtain m1 where m1: "(if ?p \<noteq> 0 then set_next s ?p ?q else Some (s\<lparr>l_head := ?q\<rparr>)) =
      Some (s\<lparr>l_head := first0 (xs @ ys) 0, l_mem := m1\<rparr>)"
    "chain m1 0 xs ?q" "\<forall>a. a \<notin> set xs \<longrightarrow> m1 a = l_mem s a"
  proof (cases "xs = []")
    case True
    then show ?thesis using that [of "l_mem s"] p by simp
  next
    case False
    then obtain n' where "l_mem s ?p = Some n'" "chain ((l_mem s)(?p \<mapsto> n'\<lparr>ln_next := ?q\<rparr>)) 0 xs ?q"
      using chain_set_next [OF ch(1) d(1), of ?q] by auto
    moreover have "s = s\<lparr>l_head := first0 (xs @ ys) 0\<rparr>"
      using ht(1) False by (cases s; cases xs) simp_all
    then have "s\<lparr>l_mem := m\<rparr> = s\<lparr>l_head := first0 (xs @ ys) 0, l_mem := m\<rparr>" for m
      by (metis dlist.update_convs(1,3))
    ultimately show ?thesis
      using that [of "(l_mem s)(?p \<mapsto> n'\<lparr>ln_next := ?q\<rparr>)"] False p last0_in [OF False, of 0]
      by (auto simp: set_next_def)
  qed
  let ?s = "s\<lparr>l_head := first0 (xs @ ys) 0, l_mem := m1\<rparr>"
  have n1: "m1 n = Some \<lparr>ln_next = ?q, ln_prev = ?p\<rparr>" using m1(3) n d(3) by simp
  have ch1: "chain m1 n ys 0"
    using ch(2) chain_cong [of ys m1 "l_mem s" n 0] m1(3) d(5) by blast
  obtain m2 where m2: "(if ?q \<noteq> 0 then set_prev ?s ?q ?p else Some (?s\<lparr>l_tail := ?p\<rparr>)) =
      Some (?s\<lparr>l_tail := last0 0 (xs @ ys), l_mem := m2\<rparr>)"
    "chain m2 ?p ys 0" "\<forall>a. a \<notin> set ys \<longrightarrow> m2 a = m1 a"
  proof (cases "ys = []")
    case True
    then show ?thesis using that [of m1] q by simp
  next
    case False
    then obtain n' where "m1 ?q = Some n'" "chain (m1(?q \<mapsto> n'\<lparr>ln_prev := ?p\<rparr>)) ?p ys 0"
      using chain_set_prev [OF ch1 d(2), of ?p] by auto
    then show ?thesis
      using that [of "m1(?q \<mapsto> n'\<lparr>ln_prev := ?p\<rparr>)"] False q ht(2)
      by (auto simp: set_prev_def last0_def first0_def split: list.split)
  qed
  have "hev_list_del s n = Some (?s\<lparr>l_tail := last0 0 (xs @ ys), l_mem := m2\<rparr>)"
    using n n1 m1(1) m2(1) by (simp add: hev_list_del_def hev_list_node_prev_def hev_list_node_next_def)
  moreover have "chain m2 0 xs ?q"
    using m1(2) chain_cong [of xs m2 m1 0 ?q] m2(3) d(5) by (auto simp: disjoint_iff)
  then have "list_at (?s\<lparr>l_tail := last0 0 (xs @ ys), l_mem := m2\<rparr>) (xs @ ys)"
    using d m2(2) by (simp add: list_at_def chain_append)
  moreover have "same_nodes (set (xs @ ys)) s (?s\<lparr>l_tail := last0 0 (xs @ ys), l_mem := m2\<rparr>)"
    using m1(3) m2(3) by (simp add: same_nodes_def)
  ultimately show ?thesis by simp
qed

section \<open>The list as an interface\<close>

text \<open>
  The clients keep a sequence of nodes: new ones at the end, any one removed, the ends read.
  A loop that deletes the first node until there is none empties the sequence.
\<close>

locale node_list =
  fixes holds :: "'s \<Rightarrow> ptr list \<Rightarrow> bool"
    and first :: "'s \<Rightarrow> ptr"
    and last :: "'s \<Rightarrow> ptr"
    and add :: "'s \<Rightarrow> ptr \<Rightarrow> 's option"
    and del :: "'s \<Rightarrow> ptr \<Rightarrow> 's option"
    and succ :: "'s \<Rightarrow> ptr \<Rightarrow> ptr option"
    and mapped :: "'s \<Rightarrow> ptr \<Rightarrow> bool"
  assumes nonnull: "holds s xs \<Longrightarrow> 0 \<notin> set xs \<and> distinct xs"
    and first_law: "holds s xs \<Longrightarrow> first s = (if xs = [] then 0 else hd xs)"
    and last_law: "holds s xs \<Longrightarrow> last s = (if xs = [] then 0 else List.last xs)"
    and add_law: "holds s xs \<Longrightarrow> mapped s n \<Longrightarrow> n \<notin> set xs \<Longrightarrow> n \<noteq> 0 \<Longrightarrow>
      wp (add s n) (\<lambda>s'. holds s' (xs @ [n]))"
    and del_law: "holds s (xs @ n # ys) \<Longrightarrow> wp (del s n) (\<lambda>s'. holds s' (xs @ ys))"
    and next_law: "holds s (xs @ n # ys) \<Longrightarrow> succ s n = Some (if ys = [] then 0 else hd ys)"
    and mapped_add: "add s n = Some s' \<Longrightarrow> mapped s' a = mapped s a"
    and mapped_del: "del s n = Some s' \<Longrightarrow> mapped s' a = mapped s a"
begin

lemma mem_del: "holds s xs \<Longrightarrow> n \<in> set xs \<Longrightarrow> wp (del s n) (\<lambda>s'. holds s' (remove1 n xs))"
proof -
  assume h: "holds s xs" and n: "n \<in> set xs"
  then obtain ys zs where xs: "xs = ys @ n # zs" "n \<notin> set ys" by (metis split_list_first)
  then have "remove1 n xs = ys @ zs" by (simp add: remove1_append)
  then show ?thesis using del_law [of s ys n zs] h xs(1) by simp
qed

lemma move_to_tail:
  assumes h: "holds s xs" and n: "n \<in> set xs" and m: "mapped s n"
  shows "wp (do { s \<leftarrow> del s n; add s n }) (\<lambda>s'. holds s' (remove1 n xs @ [n]))"
proof -
  obtain s1 where s1: "del s n = Some s1" "holds s1 (remove1 n xs)"
    using mem_del [OF h n] by (auto simp: wp_def)
  have "n \<notin> set (remove1 n xs)" "n \<noteq> 0" using nonnull [OF h] n by auto
  moreover have "mapped s1 n" using mapped_del [OF s1(1)] m by simp
  ultimately show ?thesis using add_law [OF s1(2)] s1(1) by simp
qed

end

lemma list_next_at:
  assumes "list_at s (xs @ n # ys)"
  shows "hev_list_node_next s n = Some (if ys = [] then 0 else hd ys)"
  using assms by (cases ys) (auto simp: list_at_def chain_append hev_list_node_next_def)

lemma mapped_writes:
  "set_next s p v = Some s' \<Longrightarrow> dom (l_mem s') = dom (l_mem s)"
  "set_prev s p v = Some s' \<Longrightarrow> dom (l_mem s') = dom (l_mem s)"
  by (auto simp: set_next_def set_prev_def split: if_splits)

interpretation dl: node_list list_at hev_list_first hev_list_last hev_list_add_tail hev_list_del
  hev_list_node_next "\<lambda>s a. a \<in> dom (l_mem s)"
proof unfold_locales
  fix s xs assume "list_at s xs"
  then show "0 \<notin> set xs \<and> distinct xs" "hev_list_first s = (if xs = [] then 0 else hd xs)"
    "hev_list_last s = (if xs = [] then 0 else last xs)"
    by (auto simp: list_at_def hev_list_first_def hev_list_last_def first0_def last0_def split: list.split)
next
  fix s xs n assume "list_at s xs" "n \<in> dom (l_mem s)" "n \<notin> set xs" "n \<noteq> 0"
  then show "wp (hev_list_add_tail s n) (\<lambda>s'. list_at s' (xs @ [n]))"
    by (intro wp_mono [OF list_add_tail_refines]) auto
next
  fix s xs n ys assume at: "list_at s (xs @ n # ys)"
  then show "wp (hev_list_del s n) (\<lambda>s'. list_at s' (xs @ ys))"
    by (intro wp_mono [OF list_del_refines]) auto
  show "hev_list_node_next s n = Some (if ys = [] then 0 else hd ys)"
    using at by (rule list_next_at)
next
  fix s n s' a assume "hev_list_add_tail s n = Some s'"
  then have "dom (l_mem s') = dom (l_mem s)"
    by (clarsimp simp: hev_list_add_tail_def bind_eq_Some_conv split: if_splits)
      (elim disjE conjE; clarsimp; simp add: mapped_writes)+
  then show "(a \<in> dom (l_mem s')) = (a \<in> dom (l_mem s))" by simp
next
  fix s n s' a assume "hev_list_del s n = Some s'"
  then have "dom (l_mem s') = dom (l_mem s)"
    by (clarsimp simp: hev_list_del_def bind_eq_Some_conv split: if_splits)
      (elim disjE conjE; clarsimp; simp add: mapped_writes)+
  then show "(a \<in> dom (l_mem s')) = (a \<in> dom (l_mem s))" by simp
qed

section \<open>Properties\<close>

text \<open>The loop that visits a list from its head.\<close>

partial_function (option) list_visit :: "dlist \<Rightarrow> ptr \<Rightarrow> ptr list option" where
  "list_visit s n = (if n = 0 then Some [] else do {
     m \<leftarrow> hev_list_node_next s n;
     ns \<leftarrow> list_visit s m;
     Some (n # ns)
   })"

lemma list_visit_from:
  assumes "list_at s zs"
  shows "zs = xs @ ys \<Longrightarrow> list_visit s (if ys = [] then 0 else hd ys) = Some ys"
proof (induction ys arbitrary: xs)
  case Nil
  then show ?case by (simp add: list_visit.simps)
next
  case (Cons y ys)
  then have "y \<noteq> 0" using dl.nonnull [OF assms] by auto
  moreover have "hev_list_node_next s y = Some (if ys = [] then 0 else hd ys)"
    using Cons.prems assms by (intro list_next_at) auto
  ultimately show ?case
    using Cons.IH [of "xs @ [y]"] Cons.prems by (subst list_visit.simps) simp
qed

text \<open>
  Appending a node to a list and later deleting any node keep the list intact: a visit from the
  head ends and sees the old nodes without the deleted one, then the new node.
\<close>

theorem list_add_del_visit:
  assumes "list_at s xs" and "n \<in> dom (l_mem s)" and "n \<notin> set xs" and "n \<noteq> 0" and "d \<in> set xs"
  shows "\<exists>s1 s2. hev_list_add_tail s n = Some s1 \<and> hev_list_del s1 d = Some s2 \<and>
     list_visit s2 (hev_list_first s2) = Some (remove1 d xs @ [n]) \<and> hev_list_last s2 = n"
proof -
  obtain s1 where s1: "hev_list_add_tail s n = Some s1" "list_at s1 (xs @ [n])"
    using wpD [OF dl.add_law [OF assms(1-4)]] by auto
  then obtain s2 where s2: "hev_list_del s1 d = Some s2" "list_at s2 (remove1 d xs @ [n])"
    using wpD [OF dl.mem_del [OF s1(2), of d]] assms(5) by (auto simp: remove1_append)
  moreover have "list_visit s2 (hev_list_first s2) = Some (remove1 d xs @ [n])"
    using list_visit_from [OF s2(2), of "[]"] dl.first_law [OF s2(2)] by simp
  moreover have "hev_list_last s2 = n"
    using dl.last_law [OF s2(2)] by simp
  ultimately show ?thesis using s1 by blast
qed

lemma list_add_del_visit_witness:
  "let s = \<lparr>l_head = 8, l_tail = 8, l_mem = [8 \<mapsto> \<lparr>ln_next = 0, ln_prev = 0\<rparr>, 16 \<mapsto> \<lparr>ln_next = 7, ln_prev = 9\<rparr>]\<rparr>
   in \<exists>s1 s2. hev_list_add_tail s 16 = Some s1 \<and> hev_list_del s1 8 = Some s2 \<and>
     list_visit s2 (hev_list_first s2) = Some (remove1 8 [8] @ [16]) \<and> hev_list_last s2 = 16"
  unfolding Let_def by (rule list_add_del_visit) (simp_all add: list_at_def)

text \<open>
  Deleting a node and appending it again, the step by which the mapped DNS cache marks a name as
  just used, moves it to the end of the list and keeps the order of the others.
\<close>

theorem list_touch:
  assumes "list_at s xs" and "n \<in> set xs" and "n \<in> dom (l_mem s)"
  shows "\<exists>s'. Option.bind (hev_list_del s n) (\<lambda>s. hev_list_add_tail s n) = Some s' \<and>
     list_at s' (remove1 n xs @ [n])"
  using wpD [OF dl.move_to_tail [OF assms]] by simp

lemma list_touch_witness:
  "let s = \<lparr>l_head = 8, l_tail = 8, l_mem = [8 \<mapsto> \<lparr>ln_next = 0, ln_prev = 0\<rparr>]\<rparr>
   in \<exists>s'. Option.bind (hev_list_del s 8) (\<lambda>s. hev_list_add_tail s 8) = Some s' \<and>
     list_at s' (remove1 8 [8] @ [8])"
  unfolding Let_def by (rule list_touch) (simp_all add: list_at_def)

end
