(* ===== verification/C_String.thy ===== *)
theory C_String
  imports Prelude "HOL-Library.List_Lexorder" "HOL-Library.Product_Lexorder"
begin

text \<open>
  The functions of \<open>string.h\<close> the program uses, on byte lists that stand for the rest of an
  object from a pointer on. Reading past the end of the object is \<open>None\<close>. Of the results of
  \<open>memcmp\<close> and \<open>strcmp\<close> only the sign is meaningful.
\<close>

fun memcmp :: "u8 list \<Rightarrow> u8 list \<Rightarrow> nat \<Rightarrow> int option" where
  "memcmp a b 0 = Some 0"
| "memcmp (x # a) (y # b) (Suc n) =
     (if x = y then memcmp a b n else Some (uint x - uint y))"
| "memcmp _ _ (Suc n) = None"

fun strcmp :: "u8 list \<Rightarrow> u8 list \<Rightarrow> int option" where
  "strcmp (x # a) (y # b) =
     (if x \<noteq> y then Some (uint x - uint y) else if x = 0 then Some 0 else strcmp a b)"
| "strcmp _ _ = None"

text \<open>The string in front of a buffer, without its terminator.\<close>

fun cstr :: "u8 list \<Rightarrow> u8 list option" where
  "cstr [] = None"
| "cstr (x # a) = (if x = 0 then Some [] else map_option ((#) x) (cstr a))"

definition strlen :: "u8 list \<Rightarrow> nat option" where
  "strlen a = map_option length (cstr a)"

definition strdup :: "u8 list \<Rightarrow> u8 list option" where
  "strdup a = map_option (\<lambda>s. s @ [0]) (cstr a)"

text \<open>\<open>memcpy\<close> to offset \<open>off\<close> of an object.\<close>

definition memput :: "u8 list \<Rightarrow> nat \<Rightarrow> u8 list \<Rightarrow> u8 list option" where
  "memput mem off bs =
     (if off + length bs \<le> length mem then Some (take off mem @ bs @ drop (off + length bs) mem) else None)"

definition memget :: "u8 list \<Rightarrow> nat \<Rightarrow> nat \<Rightarrow> u8 list option" where
  "memget mem off n = (if off + n \<le> length mem then Some (take n (drop off mem)) else None)"

text \<open>\<open>strncpy (dst, s, n)\<close> for a fresh \<open>dst\<close>: the string, cut or padded with zeros to \<open>n\<close>.\<close>

fun strncpy :: "u8 list \<Rightarrow> nat \<Rightarrow> u8 list option" where
  "strncpy s 0 = Some []"
| "strncpy [] (Suc n) = None"
| "strncpy (x # s) (Suc n) =
     (if x = 0 then Some (replicate (Suc n) 0) else map_option ((#) x) (strncpy s n))"

section \<open>Order\<close>

definition cmp_sign :: "'k::linorder \<Rightarrow> 'k \<Rightarrow> int" where
  "cmp_sign a b = (if a < b then - 1 else if a = b then 0 else 1)"

lemma cmp_sign_simps [simp]:
  "cmp_sign a b = 0 \<longleftrightarrow> a = b" "cmp_sign a b = 1 \<longleftrightarrow> b < a" "cmp_sign a b = - 1 \<longleftrightarrow> a < b"
  by (auto simp: cmp_sign_def)

lemma uint_diff_sgn: "x \<noteq> y \<Longrightarrow> sgn (uint x - uint y) = cmp_sign x (y :: u8)"
  by (auto simp: cmp_sign_def word_less_def word_uint_eq_iff)

lemma cmp_sign_Cons:
  "cmp_sign (x # a) (y # b) = (if x = y then cmp_sign a b else cmp_sign x (y :: u8))"
  by (auto simp: cmp_sign_def)

lemma memcmp_sgn:
  "n \<le> length a \<Longrightarrow> n \<le> length b \<Longrightarrow>
     \<exists>i. memcmp a b n = Some i \<and> sgn i = cmp_sign (take n a) (take n b)"
  by (induction a b n rule: memcmp.induct) (auto simp: uint_diff_sgn cmp_sign_Cons)

lemma strcmp_sgn:
  "cstr a = Some s \<Longrightarrow> cstr b = Some t \<Longrightarrow> \<exists>i. strcmp a b = Some i \<and> sgn i = cmp_sign s t"
proof (induction a b arbitrary: s t rule: strcmp.induct)
  case (1 x a y b)
  show ?case
  proof (cases "x = y")
    case True
    with 1 show ?thesis by (auto split: if_splits simp: cmp_sign_Cons)
  next
    case False
    then have "sgn (uint x - uint y) = cmp_sign x y" by (rule uint_diff_sgn)
    with False 1(2,3) show ?thesis
      by (auto split: if_splits simp: cmp_sign_Cons cmp_sign_def word_gt_0)
  qed
qed auto

lemma cstr_append: "cstr a = Some s \<Longrightarrow> cstr (a @ r) = Some s"
  by (induction a arbitrary: s) (auto split: if_splits)

lemma cstr_terminated [simp]: "0 \<notin> set s \<Longrightarrow> cstr (s @ 0 # r) = Some s"
  by (induction s) auto

lemma cstr_no_nul: "cstr a = Some s \<Longrightarrow> 0 \<notin> set s"
  by (induction a arbitrary: s) (auto split: if_splits)

lemma cstr_take: "cstr a = Some s \<Longrightarrow> length s < length a \<and> take (length s) a = s \<and> a ! length s = 0"
  by (induction a arbitrary: s) (auto split: if_splits)

lemma cstr_strdup: "cstr a = Some s \<Longrightarrow> strdup a = Some (s @ [0]) \<and> cstr (s @ [0]) = Some s"
  using cstr_no_nul by (auto simp: strdup_def)

lemma cstr_exists: "0 \<in> set a \<Longrightarrow> \<exists>s. cstr a = Some s"
  by (induction a) auto

lemma strncpy_short:
  "cstr a = Some s \<Longrightarrow> length s < n \<Longrightarrow> strncpy a n = Some (s @ replicate (n - length s) 0)"
  by (induction a n arbitrary: s rule: strncpy.induct) (auto split: if_splits)

lemma strncpy_long:
  "cstr a = Some s \<Longrightarrow> n \<le> length s \<Longrightarrow> strncpy a n = Some (take n s)"
  by (induction a n arbitrary: s rule: strncpy.induct) (auto split: if_splits)

lemma memput_length: "memput mem off bs = Some mem' \<Longrightarrow> length mem' = length mem"
  by (auto simp: memput_def split: if_splits)

end
