(* ===== verification/Keyed_Index.thy ===== *)
theory Keyed_Index
  imports Rbtree_Index C_String
begin

text \<open>
  An ordered index whose nodes carry keys: the contract the authenticator and the mapped DNS
  cache share. It extends the ordered index by allocation and release of nodes, and by the key
  order: the clients' loops send a node with a smaller key to the left, so the in-order sequence
  is strictly decreasing.
\<close>

section \<open>Strictly decreasing keys\<close>

definition keyed :: "(ptr \<Rightarrow> 'k::linorder) \<Rightarrow> ptr list \<Rightarrow> bool" where
  "keyed k xs \<longleftrightarrow> sorted_wrt (\<lambda>a b. k b < k a) xs"

definition above :: "(ptr \<Rightarrow> 'k::linorder) \<Rightarrow> 'k \<Rightarrow> ptr list \<Rightarrow> ptr list" where
  "above k v xs = filter (\<lambda>n. v < k n) xs"

definition below :: "(ptr \<Rightarrow> 'k::linorder) \<Rightarrow> 'k \<Rightarrow> ptr list \<Rightarrow> ptr list" where
  "below k v xs = filter (\<lambda>n. k n < v) xs"

definition equal_to :: "(ptr \<Rightarrow> 'k::linorder) \<Rightarrow> 'k \<Rightarrow> ptr list \<Rightarrow> ptr list" where
  "equal_to k v xs = filter (\<lambda>n. k n = v) xs"

lemma keyed_append: "keyed k (xs @ ys) \<longleftrightarrow> keyed k xs \<and> keyed k ys \<and> (\<forall>x\<in>set xs. \<forall>y\<in>set ys. k y < k x)"
  by (simp add: keyed_def sorted_wrt_append)

lemma keyed_Cons [simp]: "keyed k (x # xs) \<longleftrightarrow> (\<forall>y\<in>set xs. k y < k x) \<and> keyed k xs"
  by (simp add: keyed_def)

lemma keyed_Nil [simp]: "keyed k []"
  by (simp add: keyed_def)

lemma keyed_inj: "keyed k xs \<Longrightarrow> a \<in> set xs \<Longrightarrow> b \<in> set xs \<Longrightarrow> k a = k b \<Longrightarrow> a = b"
  by (induction xs) (simp, metis keyed_Cons less_irrefl set_ConsD)

lemma keyed_filter: "keyed k xs \<Longrightarrow> keyed k (filter P xs)"
  by (simp add: keyed_def sorted_wrt_filter)

lemma keyed_cong: "(\<And>x. x \<in> set xs \<Longrightarrow> k x = k' x) \<Longrightarrow> keyed k xs = keyed k' xs"
  by (induction xs) auto

lemma parts_cong:
  assumes "\<And>x. x \<in> set xs \<Longrightarrow> k x = k' x"
  shows "above k v xs = above k' v xs" and "below k v xs = below k' v xs" and "equal_to k v xs = equal_to k' v xs"
  using assms by (simp_all add: above_def below_def equal_to_def cong: filter_cong)

lemma keyed_split: "keyed k xs \<Longrightarrow> xs = above k v xs @ equal_to k v xs @ below k v xs"
proof (induction xs)
  case Nil
  then show ?case by (simp add: above_def below_def equal_to_def)
next
  case (Cons x xs)
  then have s: "xs = above k v xs @ equal_to k v xs @ below k v xs"
    and lt: "\<forall>y\<in>set xs. k y < k x" by auto
  consider "v < k x" | "v = k x" | "k x < v" by (metis linorder_neqE)
  then show ?case
  proof cases
    case 1
    with s show ?thesis by (auto simp: above_def below_def equal_to_def)
  next
    case 2
    with lt have "above k v xs = []" "equal_to k v xs = []"
      by (auto simp: above_def equal_to_def filter_empty_conv)
    with s 2 show ?thesis by (auto simp: above_def below_def equal_to_def)
  next
    case 3
    with lt have "above k v xs = []" "equal_to k v xs = []"
      by (auto simp: above_def equal_to_def filter_empty_conv)
    with s 3 show ?thesis by (auto simp: above_def below_def equal_to_def)
  qed
qed

lemma keyed_equal: "keyed k xs \<Longrightarrow> n \<in> set xs \<Longrightarrow> equal_to k (k n) xs = [n]"
  by (induction xs) (auto simp: equal_to_def filter_empty_conv)

lemma keyed_insert:
  "keyed k xs \<Longrightarrow> equal_to k (k n) xs = [] \<Longrightarrow> keyed k (above k (k n) xs @ n # below k (k n) xs)"
  by (auto simp: keyed_append above_def below_def keyed_filter)

definition compares :: "(ptr \<Rightarrow> 'k::linorder) \<Rightarrow> 'k \<Rightarrow> (ptr \<Rightarrow> int option) \<Rightarrow> ptr list \<Rightarrow> bool" where
  "compares k v cmp xs \<longleftrightarrow> (\<forall>n\<in>set xs. \<exists>i. cmp n = Some i \<and> sgn i = cmp_sign (k n) v)"

lemma compares_sides:
  assumes "keyed k xs" and "compares k v cmp xs"
  shows "sides cmp (above k v xs) (equal_to k v xs) (below k v xs)"
proof -
  have "length (equal_to k v xs) \<le> 1"
  proof (cases "equal_to k v xs")
    case (Cons n ns)
    then have "n \<in> set xs" "k n = v"
      using filter_set [of "\<lambda>n. k n = v" xs] by (auto simp: equal_to_def filter_eq_Cons_iff)
    with keyed_equal [OF assms(1), of n] show ?thesis by simp
  qed simp
  then show ?thesis
    using assms(2) by (force simp: sides_def compares_def above_def equal_to_def below_def sgn_if
        cmp_sign_def split: if_splits)
qed

section \<open>The contract\<close>

locale keyed_index = ordered_index holds spare seek look insert_at erase first slot
  for holds :: "'s \<Rightarrow> ptr list \<Rightarrow> bool" and spare seek look
    and insert_at :: "'s \<Rightarrow> ptr \<Rightarrow> 'h \<Rightarrow> 's option" and erase first slot +
  fixes obtain_node :: "'s \<Rightarrow> ptr \<Rightarrow> 's"
    and drop_node :: "'s \<Rightarrow> ptr \<Rightarrow> 's"
  assumes obtain_law: "holds s xs \<Longrightarrow> n \<notin> set xs \<Longrightarrow> holds (obtain_node s n) xs"
    and obtain_spare: "aligned n \<Longrightarrow> spare (obtain_node s n) n"
    and drop_law: "holds s xs \<Longrightarrow> n \<notin> set xs \<Longrightarrow> holds (drop_node s n) xs"
    and drop_spare: "m \<noteq> n \<Longrightarrow> spare (drop_node s n) m = spare s m"
    and obtain_other: "m \<noteq> n \<Longrightarrow> spare (obtain_node s n) m = spare s m"
    and obtain_slot: "slot s gt lt h \<Longrightarrow> n \<notin> set (gt @ lt) \<Longrightarrow> slot (obtain_node s n) gt lt h"
begin

lemma look_key:
  assumes "holds s xs" and "keyed k xs" and "compares k v cmp xs"
  shows "look cmp s = Some (case equal_to k v xs of [] \<Rightarrow> 0 | n # _ \<Rightarrow> n)"
  using look_law [OF _ compares_sides [OF assms(2,3)]] assms(1) keyed_split [OF assms(2)] by metis

lemma look_member:
  assumes "holds s xs" and "keyed k xs" and "compares k (k n) cmp xs" and "n \<in> set xs"
  shows "look cmp s = Some n"
  using look_key [OF assms(1-3)] keyed_equal [OF assms(2,4)] by simp

lemma seek_key:
  assumes "holds s xs" and "keyed k xs" and "compares k v cmp xs"
  shows "wp (seek cmp s) (\<lambda>r. case r of Inl h \<Rightarrow> equal_to k v xs = [] \<and> slot s (above k v xs) (below k v xs) h
     | Inr n \<Rightarrow> equal_to k v xs = [n])"
  using seek_law [OF _ compares_sides [OF assms(2,3)]] assms(1) keyed_split [OF assms(2)] by metis

lemma insert_key:
  assumes "holds s xs" and "keyed k xs" and "equal_to k (k n) xs = []"
    and "slot s (above k (k n) xs) (below k (k n) xs) h" and "spare s n" and "n \<notin> set xs"
  shows "wp (insert_at s n h) (\<lambda>s'. \<exists>xs'. holds s' xs' \<and> keyed k xs' \<and> set xs' = insert n (set xs) \<and>
     (\<forall>m. m \<notin> set xs' \<longrightarrow> spare s' m = spare s m))"
proof -
  let ?g = "above k (k n) xs" and ?l = "below k (k n) xs"
  have xs: "xs = ?g @ ?l" using keyed_split [OF assms(2), of "k n"] assms(3) by simp
  with assms(1) have "holds s (?g @ ?l)" by simp
  moreover from xs assms(6) have "n \<notin> set (?g @ ?l)" by simp
  ultimately have "wp (insert_at s n h) (\<lambda>s'. holds s' (?g @ n # ?l) \<and>
      (\<forall>m. m \<notin> set (n # ?g @ ?l) \<longrightarrow> spare s' m = spare s m))"
    using insert_law assms(4,5) by blast
  moreover have "keyed k (?g @ n # ?l)" using assms(2,3) by (rule keyed_insert)
  moreover have "set (?g @ n # ?l) = insert n (set xs)" using arg_cong [OF xs, of set] by auto
  ultimately show ?thesis
    by (elim wp_mono) (metis list.simps(15) set_append Un_insert_right)
qed

lemma erase_key:
  assumes "holds s xs" and "keyed k xs" and "n \<in> set xs"
  shows "wp (erase s n) (\<lambda>s'. holds s' (remove1 n xs) \<and> keyed k (remove1 n xs) \<and>
     set (remove1 n xs) = set xs - {n} \<and> (\<forall>m. m \<notin> set xs \<longrightarrow> spare s' m = spare s m))"
proof -
  from assms(3) obtain ys zs where xs: "xs = ys @ n # zs" "n \<notin> set ys" by (metis split_list_first)
  then have r: "remove1 n xs = ys @ zs" by (simp add: remove1_append)
  moreover have "keyed k (ys @ zs)" using assms(2) xs(1) by (auto simp: keyed_append)
  moreover have "set (remove1 n xs) = set xs - {n}"
    using holds_distinct [OF assms(1)] by simp
  ultimately show ?thesis
    using erase_law [of s ys n zs] assms(1) xs(1) by (auto elim!: wp_mono)
qed

end

section \<open>The pointer code keeps it\<close>

definition rb_obtain :: "rbtree \<Rightarrow> ptr \<Rightarrow> rbtree" where
  "rb_obtain s n = s\<lparr>rb_mem := (rb_mem s)(n \<mapsto> \<lparr>rb_pc = 0, rb_right = 0, rb_left = 0\<rparr>)\<rparr>"

definition rb_drop :: "rbtree \<Rightarrow> ptr \<Rightarrow> rbtree" where
  "rb_drop s n = s\<lparr>rb_mem := (rb_mem s)(n := None)\<rparr>"

interpretation rbk: keyed_index rb_holds rb_spare rb_seek rb_look rb_insert_at hev_rbtree_erase
  hev_rbtree_first rb_slot rb_obtain rb_drop
proof unfold_locales
  fix s xs n
  assume "rb_holds s xs" "n \<notin> set xs"
  then show "rb_holds (rb_obtain s n) xs" "rb_holds (rb_drop s n) xs"
    by (auto simp: rb_holds_def rbt_at_def rb_obtain_def rb_drop_def tree_at_frame)
next
  fix s gt lt h n
  assume a: "rb_slot s gt lt h" "n \<notin> set (gt @ lt)"
  then obtain t where t: "rbt_at s t" "redblack t" "slot_of t gt lt h" by (auto simp: rb_slot_def)
  then have "inorder t = gt @ lt" by (auto simp: slot_of_def inorder_plug split: prod.splits)
  with t a(2) show "rb_slot (rb_obtain s n) gt lt h"
    by (auto simp: rb_slot_def rbt_at_def rb_obtain_def tree_at_frame)
qed (auto simp: rb_spare_def rb_obtain_def rb_drop_def)

end
