(* ===== verification/Socks5_Auth.thy ===== *)
theory Socks5_Auth
  imports Keyed_Index
begin

text \<open>
  Users and the authenticator: \<open>core/src/hev-socks5-user.c\<close> and \<open>hev-socks5-authenticator.c\<close>.
  A user is a reference-counted object with a name, a password and a tree node; a user is named
  by the address of its tree node, so \<open>container_of\<close> is the identity. The authenticator is the
  root of the tree. Freeing a user unmaps it, so a later access would be \<open>None\<close>. The theory
  shows that the authenticator is a map from names to users.
\<close>

section \<open>Users\<close>

record user =
  u_ref :: u32
  u_name :: "u8 list"
  u_pass :: "u8 list"
  u_name_len :: u32
  u_pass_len :: u32

record auth =
  a_tree :: rbtree
  a_users :: "ptr \<rightharpoonup> user"

text \<open>\<open>malloc (len + 1)\<close>, the copy and the terminator; the sum is an \<open>unsigned int\<close>.\<close>

definition dup_bytes :: "u8 list \<Rightarrow> u32 \<Rightarrow> u8 list option" where
  "dup_bytes bs len = do {
     let buf = replicate (unat (len + 1)) 0;
     src \<leftarrow> memget bs 0 (unat len);
     buf \<leftarrow> memput buf 0 src;
     memput buf (unat len) [0]
   }"

text \<open>
  The outcome of each allocation is an argument: \<open>p\<close> is what \<open>calloc\<close> returned (0 for NULL),
  \<open>m1\<close> and \<open>m2\<close> tell whether the two \<open>malloc\<close>s succeeded.
\<close>

definition hev_socks5_user_construct ::
  "auth \<Rightarrow> ptr \<Rightarrow> bool \<Rightarrow> bool \<Rightarrow> u8 list \<Rightarrow> u32 \<Rightarrow> u8 list \<Rightarrow> u32 \<Rightarrow> (int \<times> auth) option" where
  "hev_socks5_user_construct a self m1 m2 name name_len pass pass_len = do {
     u \<leftarrow> a_users a self;
     let u = u\<lparr>u_ref := 1\<rparr>;
     if \<not> m1 then Some (- 1, a\<lparr>a_users := (a_users a)(self \<mapsto> u)\<rparr>)
     else do {
       nm \<leftarrow> dup_bytes name name_len;
       let u = u\<lparr>u_name := nm, u_name_len := name_len\<rparr>;
       if \<not> m2 then Some (- 1, a\<lparr>a_users := (a_users a)(self \<mapsto> u\<lparr>u_name := []\<rparr>)\<rparr>)
       else do {
         pw \<leftarrow> dup_bytes pass pass_len;
         Some (0, a\<lparr>a_users := (a_users a)(self \<mapsto> u\<lparr>u_pass := pw, u_pass_len := pass_len\<rparr>)\<rparr>)
       }
     }
   }"

definition user_free :: "auth \<Rightarrow> ptr \<Rightarrow> auth" where
  "user_free a self = a\<lparr>a_users := (a_users a)(self := None), a_tree := rb_drop (a_tree a) self\<rparr>"

definition hev_socks5_user_new ::
  "auth \<Rightarrow> ptr \<Rightarrow> bool \<Rightarrow> bool \<Rightarrow> u8 list \<Rightarrow> u32 \<Rightarrow> u8 list \<Rightarrow> u32 \<Rightarrow> (ptr \<times> auth) option" where
  "hev_socks5_user_new a p m1 m2 name name_len pass pass_len =
     (if p = 0 then Some (0, a)
      else do {
        let zero = \<lparr>u_ref = 0, u_name = [], u_pass = [], u_name_len = 0, u_pass_len = 0\<rparr>;
        let a = a\<lparr>a_users := (a_users a)(p \<mapsto> zero), a_tree := rb_obtain (a_tree a) p\<rparr>;
        (res, a) \<leftarrow> hev_socks5_user_construct a p m1 m2 name name_len pass pass_len;
        if res < 0 then Some (0, user_free a p) else Some (p, a)
      })"

definition hev_socks5_user_checker :: "user \<Rightarrow> u8 list \<Rightarrow> u32 \<Rightarrow> int option" where
  "hev_socks5_user_checker self pass pass_len =
     (if u_pass_len self \<noteq> pass_len then Some (- 1)
      else do {
        r \<leftarrow> memcmp (u_pass self) pass (unat pass_len);
        if r \<noteq> 0 then Some (- 1) else Some 0
      })"

text \<open>The class of a user, with its one virtual method.\<close>

record user_class =
  checker :: "user \<Rightarrow> u8 list \<Rightarrow> u32 \<Rightarrow> int option"

definition hev_socks5_user_class :: user_class where
  "hev_socks5_user_class = \<lparr>checker = hev_socks5_user_checker\<rparr>"

definition hev_socks5_user_check :: "user_class \<Rightarrow> auth \<Rightarrow> ptr \<Rightarrow> u8 list \<Rightarrow> u32 \<Rightarrow> int option" where
  "hev_socks5_user_check klass a self pass pass_len = do {
     u \<leftarrow> a_users a self;
     checker klass u pass pass_len
   }"

definition hev_socks5_user_destruct :: "auth \<Rightarrow> ptr \<Rightarrow> auth option" where
  "hev_socks5_user_destruct a self = do { _ \<leftarrow> a_users a self; Some (user_free a self) }"

text \<open>\<open>hev_object_ref\<close> and \<open>hev_object_unref\<close> of an atomic object.\<close>

definition user_ref :: "auth \<Rightarrow> ptr \<Rightarrow> auth option" where
  "user_ref a self = do {
     u \<leftarrow> a_users a self;
     Some (a\<lparr>a_users := (a_users a)(self \<mapsto> u\<lparr>u_ref := u_ref u + 1\<rparr>)\<rparr>)
   }"

definition user_unref :: "auth \<Rightarrow> ptr \<Rightarrow> auth option" where
  "user_unref a self = do {
     u \<leftarrow> a_users a self;
     let rc = u_ref u;
     let a = a\<lparr>a_users := (a_users a)(self \<mapsto> u\<lparr>u_ref := rc - 1\<rparr>)\<rparr>;
     if rc > 1 then Some a else hev_socks5_user_destruct a self
   }"

section \<open>The authenticator\<close>

text \<open>The construction of the base, an atomic object, always returns 0.\<close>

definition hev_socks5_authenticator_construct :: "auth \<Rightarrow> int \<times> auth" where
  "hev_socks5_authenticator_construct self = (0, self)"

text \<open>\<open>ok\<close> tells whether \<open>calloc\<close> succeeded; \<open>None\<close> is the NULL that is returned.\<close>

definition hev_socks5_authenticator_new :: "bool \<Rightarrow> auth \<Rightarrow> auth option" where
  "hev_socks5_authenticator_new ok heap =
     (if \<not> ok then None
      else let self = heap\<lparr>a_tree := (a_tree heap)\<lparr>rb_root := 0\<rparr>\<rparr>;
               (res, self) = hev_socks5_authenticator_construct self
           in if res < 0 then None else Some self)"

definition cmp_name :: "auth \<Rightarrow> u8 list \<Rightarrow> u32 \<Rightarrow> ptr \<Rightarrow> int option" where
  "cmp_name a name name_len n = do {
     this \<leftarrow> a_users a n;
     if u_name_len this < name_len then Some (- 1)
     else if u_name_len this > name_len then Some 1
     else memcmp (u_name this) name (unat (u_name_len this))
   }"

definition hev_socks5_authenticator_add :: "auth \<Rightarrow> ptr \<Rightarrow> (int \<times> auth) option" where
  "hev_socks5_authenticator_add self user = do {
     u \<leftarrow> a_users self user;
     r \<leftarrow> tree_slot (cmp_name self (u_name u) (u_name_len u)) (a_tree self) RootLink 0;
     case r of
       Inr _ \<Rightarrow> Some (- 1, self)
     | Inl (parent, link) \<Rightarrow> do {
         t \<leftarrow> hev_rbtree_node_link (a_tree self) user parent link;
         t \<leftarrow> hev_rbtree_insert_color t user;
         Some (0, self\<lparr>a_tree := t\<rparr>)
       }
   }"

definition hev_socks5_authenticator_get :: "auth \<Rightarrow> u8 list \<Rightarrow> u32 \<Rightarrow> ptr option" where
  "hev_socks5_authenticator_get self name name_len =
     tree_find (cmp_name self name name_len) (a_tree self) (rb_root (a_tree self))"

definition hev_socks5_authenticator_del :: "auth \<Rightarrow> u8 list \<Rightarrow> u32 \<Rightarrow> (int \<times> auth) option" where
  "hev_socks5_authenticator_del self name name_len = do {
     node \<leftarrow> tree_find (cmp_name self name name_len) (a_tree self) (rb_root (a_tree self));
     if node = 0 then Some (- 1, self)
     else do {
       t \<leftarrow> hev_rbtree_erase (a_tree self) node;
       self \<leftarrow> user_unref (self\<lparr>a_tree := t\<rparr>) node;
       Some (0, self)
     }
   }"

partial_function (option) hev_socks5_authenticator_clear :: "auth \<Rightarrow> auth option" where
  "hev_socks5_authenticator_clear self = do {
     n \<leftarrow> hev_rbtree_first (a_tree self);
     if n = 0 then Some self
     else do {
       t \<leftarrow> hev_rbtree_erase (a_tree self) n;
       self \<leftarrow> user_unref (self\<lparr>a_tree := t\<rparr>) n;
       hev_socks5_authenticator_clear self
     }
   }"

definition hev_socks5_authenticator_destruct :: "auth \<Rightarrow> auth option" where
  "hev_socks5_authenticator_destruct self = hev_socks5_authenticator_clear self"

section \<open>The invariant\<close>

definition user_ok :: "user \<Rightarrow> bool" where
  "user_ok u \<longleftrightarrow> unat (u_name_len u) < length (u_name u) \<and> unat (u_pass_len u) < length (u_pass u) \<and> 0 < u_ref u"

definition name_of :: "user \<Rightarrow> u8 list" where
  "name_of u = take (unat (u_name_len u)) (u_name u)"

definition pass_of :: "user \<Rightarrow> u8 list" where
  "pass_of u = take (unat (u_pass_len u)) (u_pass u)"

definition user_at :: "auth \<Rightarrow> ptr \<Rightarrow> user" where
  "user_at a n = the (a_users a n)"

text \<open>The order of the tree: by length, then by bytes.\<close>

definition user_key :: "auth \<Rightarrow> ptr \<Rightarrow> nat \<times> u8 list" where
  "user_key a n = (length (name_of (user_at a n)), name_of (user_at a n))"

definition auth_inv :: "auth \<Rightarrow> ptr list \<Rightarrow> bool" where
  "auth_inv a xs \<longleftrightarrow> rb_holds (a_tree a) xs \<and> keyed (user_key a) xs \<and>
     (\<forall>n\<in>set xs. \<exists>u. a_users a n = Some u \<and> user_ok u)"

definition fresh_user :: "auth \<Rightarrow> ptr list \<Rightarrow> ptr \<Rightarrow> bool" where
  "fresh_user a xs n \<longleftrightarrow> n \<notin> set xs \<and> rb_spare (a_tree a) n \<and> (\<exists>u. a_users a n = Some u \<and> user_ok u)"

lemma length_name_of: "user_ok u \<Longrightarrow> length (name_of u) = unat (u_name_len u)"
  by (simp add: user_ok_def name_of_def)

lemma cmp_name_compares:
  assumes "auth_inv a xs" and "unat len \<le> length nm"
  shows "compares (user_key a) (unat len, take (unat len) nm) (cmp_name a nm len) xs"
  unfolding compares_def
proof
  fix n assume "n \<in> set xs"
  then obtain u where u: "a_users a n = Some u" "user_ok u" using assms(1) by (auto simp: auth_inv_def)
  let ?l = "unat (u_name_len u)"
  have k: "user_key a n = (?l, take ?l (u_name u))"
    using u by (simp add: user_key_def user_at_def length_name_of) (simp add: name_of_def)
  consider "u_name_len u < len" | "len < u_name_len u" | "u_name_len u = len" by (metis linorder_neqE)
  then show "\<exists>i. cmp_name a nm len n = Some i \<and> sgn i = cmp_sign (user_key a n) (unat len, take (unat len) nm)"
  proof cases
    case 1
    with u k show ?thesis
      by (auto simp: cmp_name_def cmp_sign_def word_less_nat_alt less_prod_def)
  next
    case 2
    with u k show ?thesis
      by (auto simp: cmp_name_def cmp_sign_def word_less_nat_alt less_prod_def)
  next
    case 3
    with u memcmp_sgn [of ?l "u_name u" nm] assms(2) obtain i where
      "memcmp (u_name u) nm ?l = Some i" "sgn i = cmp_sign (take ?l (u_name u)) (take ?l nm)"
      by (auto simp: user_ok_def)
    with u k 3 show ?thesis
      by (auto simp: cmp_name_def cmp_sign_def less_prod_def)
  qed
qed

text \<open>What the authenticator knows: the member with a given name.\<close>

definition member :: "auth \<Rightarrow> ptr list \<Rightarrow> u8 list \<Rightarrow> ptr" where
  "member a xs nm = (case filter (\<lambda>n. name_of (user_at a n) = nm) xs of [] \<Rightarrow> 0 | n # _ \<Rightarrow> n)"

lemma equal_to_name:
  "equal_to (user_key a) (length nm, nm) xs = filter (\<lambda>n. name_of (user_at a n) = nm) xs"
  unfolding equal_to_def user_key_def by (rule filter_cong) auto

lemma name_key: "unat len \<le> length nm \<Longrightarrow> (unat len, take (unat len) nm) = (length (take (unat len) nm), take (unat len) nm)"
  by simp

lemma auth_get_member:
  assumes "auth_inv a xs" and "unat len \<le> length nm"
  shows "hev_socks5_authenticator_get a nm len = Some (member a xs (take (unat len) nm))"
proof -
  have "rb_holds (a_tree a) xs" "keyed (user_key a) xs" using assms(1) by (simp_all add: auth_inv_def)
  from rbk.look_key [OF this cmp_name_compares [OF assms]] show ?thesis
    using name_key [OF assms(2)] equal_to_name [of a "take (unat len) nm" xs]
    by (simp add: hev_socks5_authenticator_get_def rb_look_def member_def)
qed

lemma member_nonzero:
  assumes "auth_inv a xs"
  shows "member a xs nm \<noteq> 0 \<longleftrightarrow> (\<exists>n\<in>set xs. name_of (user_at a n) = nm)"
proof -
  have "0 \<notin> set xs" using assms rbi.holds_distinct by (auto simp: auth_inv_def)
  then show ?thesis
    by (auto simp: member_def filter_empty_conv split: list.split)
      (metis (mono_tags, lifting) filter_eq_ConsD in_set_conv_decomp)+
qed

lemma member_unique:
  assumes "auth_inv a xs" and "n \<in> set xs"
  shows "member a xs (name_of (user_at a n)) = n"
proof -
  have "equal_to (user_key a) (user_key a n) xs = [n]"
    using assms by (intro keyed_equal) (auto simp: auth_inv_def)
  then show ?thesis
    using equal_to_name [of a "name_of (user_at a n)" xs] by (simp add: member_def user_key_def)
qed

section \<open>Correctness of the operations\<close>

lemma auth_add_absent:
  assumes "auth_inv a xs" and "fresh_user a xs n" and "member a xs (name_of (user_at a n)) = 0"
  shows "wp (hev_socks5_authenticator_add a n) (\<lambda>(r, a'). r = 0 \<and> a_users a' = a_users a \<and>
     (\<exists>xs'. auth_inv a' xs' \<and> set xs' = insert n (set xs)))"
proof -
  obtain u where u: "a_users a n = Some u" "user_ok u" using assms(2) by (auto simp: fresh_user_def)
  have ln: "unat (u_name_len u) \<le> length (u_name u)" using u(2) by (simp add: user_ok_def)
  have at: "user_at a n = u" using u(1) by (simp add: user_at_def)
  have key: "(unat (u_name_len u), take (unat (u_name_len u)) (u_name u)) = user_key a n"
    using u(2) at by (simp add: user_key_def length_name_of) (simp add: name_of_def)
  have h: "rb_holds (a_tree a) xs" "keyed (user_key a) xs" "\<forall>m\<in>set xs. \<exists>u. a_users a m = Some u \<and> user_ok u"
    using assms(1) by (simp_all add: auth_inv_def)
  have e: "equal_to (user_key a) (user_key a n) xs = []"
  proof -
    have "filter (\<lambda>m. name_of (user_at a m) = name_of (user_at a n)) xs = []"
      using assms(1,3) member_nonzero by (auto simp: filter_empty_conv)
    then show ?thesis using equal_to_name [of a "name_of (user_at a n)" xs] by (simp add: user_key_def)
  qed
  obtain par link where s: "tree_slot (cmp_name a (u_name u) (u_name_len u)) (a_tree a) RootLink 0 = Some (Inl (par, link))"
    "rb_slot (a_tree a) (above (user_key a) (user_key a n) xs) (below (user_key a) (user_key a n) xs) (par, link)"
    using rbk.seek_key [OF h(1,2) cmp_name_compares [OF assms(1) ln, unfolded key]] e
    by (cases "rb_seek (cmp_name a (u_name u) (u_name_len u)) (a_tree a)")
      (auto simp: rb_seek_def split: sum.split_asm)
  have "wp (rb_insert_at (a_tree a) n (par, link))
    (\<lambda>t. \<exists>xs'. rb_holds t xs' \<and> keyed (user_key a) xs' \<and> set xs' = insert n (set xs))"
    using rbk.insert_key [OF h(1,2) e s(2)] assms(2) by (auto simp: fresh_user_def elim!: wp_mono)
  then obtain t xs' where t: "rb_insert_at (a_tree a) n (par, link) = Some t" "rb_holds t xs'"
    "keyed (user_key a) xs'" "set xs' = insert n (set xs)" by (auto simp: wp_def)
  then have "hev_socks5_authenticator_add a n = Some (0, a\<lparr>a_tree := t\<rparr>)"
    using u(1) s(1) by (auto simp: hev_socks5_authenticator_add_def rb_insert_at_def split: bind_splits)
  moreover have "keyed (user_key (a\<lparr>a_tree := t\<rparr>)) xs'"
    using t(3) by (simp add: user_key_def user_at_def keyed_def)
  then have "auth_inv (a\<lparr>a_tree := t\<rparr>) xs'"
    using t h(3) u by (simp add: auth_inv_def)
  ultimately show ?thesis using t(4) by auto
qed

lemma auth_add_present:
  assumes "auth_inv a xs" and "fresh_user a xs n" and "member a xs (name_of (user_at a n)) \<noteq> 0"
  shows "hev_socks5_authenticator_add a n = Some (- 1, a)"
proof -
  obtain u where u: "a_users a n = Some u" "user_ok u" using assms(2) by (auto simp: fresh_user_def)
  have ln: "unat (u_name_len u) \<le> length (u_name u)" using u(2) by (simp add: user_ok_def)
  have at: "user_at a n = u" using u(1) by (simp add: user_at_def)
  have key: "(unat (u_name_len u), take (unat (u_name_len u)) (u_name u)) = user_key a n"
    using u(2) at by (simp add: user_key_def length_name_of) (simp add: name_of_def)
  from assms(1,3) obtain m where m: "m \<in> set xs" "name_of (user_at a m) = name_of (user_at a n)"
    using member_nonzero by blast
  then have "user_key a m = user_key a n" by (simp add: user_key_def)
  then have "equal_to (user_key a) (user_key a n) xs = [m]"
    using keyed_equal [of "user_key a" xs m] assms(1) m(1) by (simp add: auth_inv_def)
  moreover have "rb_holds (a_tree a) xs" "keyed (user_key a) xs" using assms(1) by (simp_all add: auth_inv_def)
  note this = rbk.seek_key [OF this cmp_name_compares [OF assms(1) ln, unfolded key]]
  ultimately have "\<exists>m. rb_seek (cmp_name a (u_name u) (u_name_len u)) (a_tree a) = Some (Inr m)"
    by (cases "rb_seek (cmp_name a (u_name u) (u_name_len u)) (a_tree a)") (auto split: sum.split_asm)
  then show ?thesis using u(1) by (auto simp: hev_socks5_authenticator_add_def rb_seek_def)
qed

lemma user_unref_drops:
  assumes "a_users a n = Some u"
  shows "\<exists>a'. user_unref a n = Some a' \<and>
     a_users a' = (a_users a)(n := if u_ref u > 1 then Some (u\<lparr>u_ref := u_ref u - 1\<rparr>) else None) \<and>
     (a_tree a' = a_tree a \<or> a_tree a' = rb_drop (a_tree a) n)"
  using assms by (auto simp: user_unref_def hev_socks5_user_destruct_def user_free_def Let_def)

lemma auth_unlink_unref:
  assumes "auth_inv a xs" and "n \<in> set xs"
  shows "\<exists>t a' u. hev_rbtree_erase (a_tree a) n = Some t \<and> user_unref (a\<lparr>a_tree := t\<rparr>) n = Some a' \<and>
     auth_inv a' (remove1 n xs) \<and> a_users a n = Some u \<and>
     a_users a' = (a_users a)(n := if u_ref u > 1 then Some (u\<lparr>u_ref := u_ref u - 1\<rparr>) else None)"
proof -
  have h: "rb_holds (a_tree a) xs" "keyed (user_key a) xs" "\<forall>m\<in>set xs. \<exists>u. a_users a m = Some u \<and> user_ok u"
    using assms(1) by (simp_all add: auth_inv_def)
  from rbk.erase_key [OF h(1,2) assms(2)] obtain t where t: "hev_rbtree_erase (a_tree a) n = Some t"
    "rb_holds t (remove1 n xs)" "keyed (user_key a) (remove1 n xs)" "set (remove1 n xs) = set xs - {n}"
    by (auto simp: wp_def)
  from h(3) assms(2) obtain u where u: "a_users a n = Some u" by blast
  then obtain a' where a': "user_unref (a\<lparr>a_tree := t\<rparr>) n = Some a'"
    "a_users a' = (a_users a)(n := if u_ref u > 1 then Some (u\<lparr>u_ref := u_ref u - 1\<rparr>) else None)"
    "a_tree a' = t \<or> a_tree a' = rb_drop t n"
    using user_unref_drops [of "a\<lparr>a_tree := t\<rparr>" n u] by auto
  have "rb_holds (a_tree a') (remove1 n xs)"
    using a'(3) t(2,4) rbk.drop_law by auto
  moreover have "user_at a' m = user_at a m" if "m \<noteq> n" for m
    using a'(2) that by (simp add: user_at_def)
  then have "keyed (user_key a') (remove1 n xs)"
    using t(3,4) keyed_cong [of "remove1 n xs" "user_key a'" "user_key a"] by (auto simp: user_key_def)
  ultimately have "auth_inv a' (remove1 n xs)"
    using h(3) a'(2) t(4) by (auto simp: auth_inv_def)
  with t(1) a'(1,2) u show ?thesis by blast
qed

lemma auth_del_member:
  assumes "auth_inv a xs" and "unat len \<le> length nm" and "member a xs (take (unat len) nm) = n" and "n \<noteq> 0"
  shows "\<exists>a'. hev_socks5_authenticator_del a nm len = Some (0, a') \<and> auth_inv a' (remove1 n xs) \<and>
     (\<exists>u. a_users a n = Some u \<and> user_ok u \<and>
        a_users a' = (a_users a)(n := if u_ref u > 1 then Some (u\<lparr>u_ref := u_ref u - 1\<rparr>) else None))"
proof -
  have n: "n \<in> set xs" using assms(3,4)
    by (auto simp: member_def split: list.split_asm dest!: filter_eq_ConsD)
  from auth_unlink_unref [OF assms(1) this] obtain t a' u where
    "hev_rbtree_erase (a_tree a) n = Some t" "user_unref (a\<lparr>a_tree := t\<rparr>) n = Some a'"
    "auth_inv a' (remove1 n xs)" and u: "a_users a n = Some u"
    "a_users a' = (a_users a)(n := if u_ref u > 1 then Some (u\<lparr>u_ref := u_ref u - 1\<rparr>) else None)" by blast
  moreover have "user_ok u" using assms(1) n u(1) by (fastforce simp: auth_inv_def)
  moreover have "hev_socks5_authenticator_get a nm len = Some n"
    using auth_get_member [OF assms(1,2)] assms(3) by simp
  ultimately show ?thesis
    using assms(4) by (auto simp: hev_socks5_authenticator_del_def hev_socks5_authenticator_get_def)
qed

lemma one_or_more: "0 < (x :: u32) \<Longrightarrow> x > 1 \<longleftrightarrow> x \<noteq> 1"
  by (metis word_gt_0 word_le_less_eq word_less_1 word_not_simps(2) linorder_neqE)

lemma auth_del_absent:
  assumes "auth_inv a xs" and "unat len \<le> length nm" and "member a xs (take (unat len) nm) = 0"
  shows "hev_socks5_authenticator_del a nm len = Some (- 1, a)"
  using auth_get_member [OF assms(1,2)] assms(3)
  by (simp add: hev_socks5_authenticator_del_def hev_socks5_authenticator_get_def)

lemma auth_clear_all:
  "auth_inv a xs \<Longrightarrow> \<exists>a'. hev_socks5_authenticator_clear a = Some a' \<and> auth_inv a' [] \<and>
     (\<forall>n. a_users a' n = (if n \<in> set xs then Option.bind (a_users a n)
        (\<lambda>u. if u_ref u > 1 then Some (u\<lparr>u_ref := u_ref u - 1\<rparr>) else None) else a_users a n))"
proof (induction "length xs" arbitrary: a xs)
  case 0
  then have "hev_rbtree_first (a_tree a) = Some 0"
    using rbi.first_law by (fastforce simp: auth_inv_def)
  with 0 show ?case by (subst hev_socks5_authenticator_clear.simps) auto
next
  case (Suc k)
  then obtain x ys where xs: "xs = x # ys" "length ys = k" by (cases xs) auto
  then have f: "hev_rbtree_first (a_tree a) = Some x" "x \<noteq> 0" "x \<notin> set ys"
    using Suc.prems rbi.first_law [of "a_tree a" xs] rbi.holds_distinct [of "a_tree a" xs]
    by (auto simp: auth_inv_def)
  from auth_unlink_unref [OF Suc.prems, of x] xs obtain t a1 u where
    a1: "hev_rbtree_erase (a_tree a) x = Some t" "user_unref (a\<lparr>a_tree := t\<rparr>) x = Some a1"
    "auth_inv a1 ys" "a_users a x = Some u"
    "a_users a1 = (a_users a)(x := if u_ref u > 1 then Some (u\<lparr>u_ref := u_ref u - 1\<rparr>) else None)"
    by auto
  from Suc.hyps(1) [OF xs(2) [symmetric] a1(3)] obtain a' where
    a': "hev_socks5_authenticator_clear a1 = Some a'" "auth_inv a' []"
    "\<forall>n. a_users a' n = (if n \<in> set ys then Option.bind (a_users a1 n)
        (\<lambda>u. if u_ref u > 1 then Some (u\<lparr>u_ref := u_ref u - 1\<rparr>) else None) else a_users a1 n)" by blast
  have "hev_socks5_authenticator_clear a = Some a'"
    using f a1(1,2) a'(1) by (subst hev_socks5_authenticator_clear.simps) simp
  moreover have "\<forall>n. a_users a' n = (if n \<in> set xs then Option.bind (a_users a n)
        (\<lambda>u. if u_ref u > 1 then Some (u\<lparr>u_ref := u_ref u - 1\<rparr>) else None) else a_users a n)"
    using a'(3) a1(4,5) f(3) xs(1) by auto
  ultimately show ?case using a'(2) by blast
qed

lemma dup_bytes_ok:
  assumes "unat len \<le> length bs" and "len \<noteq> - 1"
  shows "dup_bytes bs len = Some (take (unat len) bs @ [0])"
proof -
  have "unat (len + 1) = Suc (unat len)"
    using assms(2) by (metis unatSuc add.commute eq_neg_iff_add_eq_0)
  then show ?thesis using assms(1) by (auto simp: dup_bytes_def memget_def memput_def)
qed

lemma user_new_ok:
  assumes "p \<noteq> 0" and "unat nl \<le> length nm" and "unat pl \<le> length pw" and "nl \<noteq> - 1" and "pl \<noteq> - 1"
  shows "\<exists>a'. hev_socks5_user_new a p True True nm nl pw pl = Some (p, a') \<and> a_tree a' = rb_obtain (a_tree a) p \<and>
     a_users a' = (a_users a)(p \<mapsto> \<lparr>u_ref = 1, u_name = take (unat nl) nm @ [0], u_pass = take (unat pl) pw @ [0],
       u_name_len = nl, u_pass_len = pl\<rparr>)"
  using assms dup_bytes_ok [of nl nm] dup_bytes_ok [of pl pw]
  by (auto simp: hev_socks5_user_new_def hev_socks5_user_construct_def Let_def)

lemma memcmp_take_eq: "n \<le> length a \<Longrightarrow> n \<le> length b \<Longrightarrow>
   \<exists>i. memcmp a b n = Some i \<and> (i = 0 \<longleftrightarrow> take n a = take n b)"
  using memcmp_sgn [of n a b] by (metis cmp_sign_simps(1) sgn_0_0)

lemma user_check_exact:
  assumes "a_users a n = Some u" and "user_ok u" and "unat pl \<le> length pw"
  shows "hev_socks5_user_check hev_socks5_user_class a n pw pl =
     Some (if pass_of u = take (unat pl) pw then 0 else - 1)"
proof -
  have l: "length (pass_of u) = unat (u_pass_len u)" using assms(2) by (simp add: pass_of_def user_ok_def)
  show ?thesis
  proof (cases "u_pass_len u = pl")
    case True
    with memcmp_take_eq [of "unat pl" "u_pass u" pw] assms show ?thesis
      by (auto simp: hev_socks5_user_check_def hev_socks5_user_class_def hev_socks5_user_checker_def
          user_ok_def pass_of_def)
  next
    case False
    then have "unat (u_pass_len u) \<noteq> unat pl" by (simp add: word_unat_eq_iff)
    then have "pass_of u \<noteq> take (unat pl) pw" using l assms(3) by (metis length_take min.absorb2)
    with False assms(1) show ?thesis
      by (simp add: hev_socks5_user_check_def hev_socks5_user_class_def hev_socks5_user_checker_def)
  qed
qed

section \<open>Properties\<close>

lemma auth_add_cases:
  assumes "auth_inv a xs" and "fresh_user a xs n"
  shows "\<exists>r a' xs'. hev_socks5_authenticator_add a n = Some (r, a') \<and> auth_inv a' xs' \<and>
     a_users a' = a_users a \<and>
     (if member a xs (name_of (user_at a n)) = 0 then r = 0 \<and> set xs' = insert n (set xs)
      else r = - 1 \<and> a' = a \<and> xs' = xs)"
  using auth_add_absent [OF assms] auth_add_present [OF assms] assms(1)
  by (cases "member a xs (name_of (user_at a n)) = 0") (force simp: wp_def)+

lemma member_insert:
  assumes "auth_inv a xs" and "auth_inv a' xs'" and "a_users a' = a_users a" and "set xs' = insert n (set xs)"
  shows "member a' xs' nm = (if name_of (user_at a n) = nm then n else member a xs nm)"
proof -
  have u: "user_at a' m = user_at a m" for m using assms(3) by (simp add: user_at_def)
  show ?thesis
  proof (cases "name_of (user_at a n) = nm")
    case True
    then show ?thesis using member_unique [OF assms(2), of n] assms(4) u by simp
  next
    case False
    show ?thesis
    proof (cases "member a xs nm = 0")
      case True
      then show ?thesis
        using member_nonzero [OF assms(1), of nm] member_nonzero [OF assms(2), of nm] assms(4) False u
        by auto
    next
      case f: False
      then obtain m where m: "m \<in> set xs" "name_of (user_at a m) = nm"
        using member_nonzero [OF assms(1)] by blast
      then show ?thesis
        using member_unique [OF assms(1), of m] member_unique [OF assms(2), of m] assms(4) u False by auto
    qed
  qed
qed

text \<open>One user \<open>root\<close> with password \<open>pw\<close>, at 16, and a second one, \<open>bob\<close>, at 32.\<close>

definition auth_one :: auth where
  "auth_one = \<lparr>a_tree = \<lparr>rb_root = 16, rb_mem = [16 \<mapsto> cell 0 Black 0 0, 32 \<mapsto> cell 0 Red 0 0]\<rparr>,
     a_users = [16 \<mapsto> \<lparr>u_ref = 1, u_name = [114, 111, 111, 116, 0], u_pass = [112, 119, 0], u_name_len = 4, u_pass_len = 2\<rparr>,
       32 \<mapsto> \<lparr>u_ref = 1, u_name = [98, 111, 98, 0], u_pass = [120, 0], u_name_len = 3, u_pass_len = 1\<rparr>]\<rparr>"

lemma auth_one_inv: "auth_inv auth_one [16]" "fresh_user auth_one [16] 32"
proof -
  have "rbt_at (a_tree auth_one) (Node Black Leaf 16 Leaf)" "redblack (Node Black Leaf 16 Leaf)"
    by (simp_all add: auth_one_def rbt_at_def wf_addrs_def aligned_def redblack_def)
  then have "rb_holds (a_tree auth_one) [16]" unfolding rb_holds_def
    by (intro exI [of _ "Node Black Leaf 16 Leaf"]) simp
  then show "auth_inv auth_one [16]"
    by (simp add: auth_inv_def) (simp add: auth_one_def user_ok_def)
  show "fresh_user auth_one [16] 32"
    by (simp add: fresh_user_def auth_one_def user_ok_def rb_spare_def aligned_def)
qed

lemma authenticator_new_inv: "hev_socks5_authenticator_new True heap = Some a \<Longrightarrow> auth_inv a []"
proof -
  assume "hev_socks5_authenticator_new True heap = Some a"
  then have "rbt_at (a_tree a) Leaf"
    by (auto simp: hev_socks5_authenticator_new_def hev_socks5_authenticator_construct_def rbt_at_def wf_addrs_def)
  moreover have "redblack Leaf" by (simp add: redblack_def)
  ultimately have "rb_holds (a_tree a) []" unfolding rb_holds_def by (intro exI [of _ Leaf]) simp
  then show ?thesis by (simp add: auth_inv_def keyed_def)
qed

text \<open>
  C24: Adding a user fails exactly when its name is taken, and then changes nothing; otherwise a
  lookup of its name returns it afterwards, and a lookup of any other name is unaffected.
\<close>

theorem authenticator_add_get:
  assumes "auth_inv a xs" and "fresh_user a xs n" and "unat len \<le> length nm"
  shows "\<exists>r a' xs'. hev_socks5_authenticator_add a n = Some (r, a') \<and> auth_inv a' xs' \<and>
     (if (\<exists>m\<in>set xs. name_of (user_at a m) = name_of (user_at a n)) then r = - 1 \<and> a' = a
      else r = 0 \<and> hev_socks5_authenticator_get a' nm len =
        (if take (unat len) nm = name_of (user_at a n) then Some n else hev_socks5_authenticator_get a nm len))"
proof -
  from auth_add_cases [OF assms(1,2)] obtain r a' xs' where r: "hev_socks5_authenticator_add a n = Some (r, a')"
    "auth_inv a' xs'" "a_users a' = a_users a"
    "if member a xs (name_of (user_at a n)) = 0 then r = 0 \<and> set xs' = insert n (set xs)
      else r = - 1 \<and> a' = a \<and> xs' = xs" by blast
  show ?thesis
  proof (intro exI conjI)
    show "if (\<exists>m\<in>set xs. name_of (user_at a m) = name_of (user_at a n)) then r = - 1 \<and> a' = a
      else r = 0 \<and> hev_socks5_authenticator_get a' nm len =
        (if take (unat len) nm = name_of (user_at a n) then Some n else hev_socks5_authenticator_get a nm len)"
      using r(4) member_nonzero [OF assms(1), of "name_of (user_at a n)"] member_insert [OF assms(1) r(2,3)]
        auth_get_member [OF assms(1,3)] auth_get_member [OF r(2) assms(3)]
      by (auto split: if_split_asm)
  qed (use r in auto)
qed

lemma authenticator_add_get_witness:
  "\<exists>r a' xs'. hev_socks5_authenticator_add auth_one 32 = Some (r, a') \<and> auth_inv a' xs' \<and> r = 0 \<and>
     hev_socks5_authenticator_get a' [98, 111, 98] 3 = Some 32"
  using authenticator_add_get [OF auth_one_inv, of 3 "[98, 111, 98]"]
  by (simp add: auth_one_def user_at_def name_of_def)

text \<open>
  C25: Deleting a name that is known returns 0, unlinks its user and drops the tree's reference to it: a
  user nobody else holds is freed, one that a session still holds stays with one reference less, and no
  other user changes. A lookup of the name returns NULL afterwards and other names are unaffected.
  Deleting an unknown name returns -1 and changes nothing.
\<close>

theorem authenticator_del_get:
  assumes "auth_inv a xs" and "unat len \<le> length nm" and "unat len' \<le> length nm'"
  shows "\<exists>r a' xs'. hev_socks5_authenticator_del a nm len = Some (r, a') \<and> auth_inv a' xs' \<and>
     hev_socks5_authenticator_get a' nm' len' =
       (if take (unat len') nm' = take (unat len) nm then Some 0 else hev_socks5_authenticator_get a nm' len') \<and>
     (case hev_socks5_authenticator_get a nm len of
        None \<Rightarrow> False
      | Some n \<Rightarrow>
          if n = 0 then r = - 1 \<and> a' = a
          else r = 0 \<and> (\<exists>u. a_users a n = Some u \<and>
            a_users a' = (a_users a)(n := if u_ref u = 1 then None else Some (u\<lparr>u_ref := u_ref u - 1\<rparr>))))"
proof (cases "member a xs (take (unat len) nm) = 0")
  case True
  from auth_del_absent [OF assms(1,2) True] assms(1) True auth_get_member [OF assms(1,2)]
    auth_get_member [OF assms(1,3)] show ?thesis by auto
next
  case False
  let ?n = "member a xs (take (unat len) nm)"
  from auth_del_member [OF assms(1,2) refl False] obtain a' v where
    a': "hev_socks5_authenticator_del a nm len = Some (0, a')" "auth_inv a' (remove1 ?n xs)"
    and v: "a_users a ?n = Some v" "user_ok v"
      "a_users a' = (a_users a)(?n := if u_ref v > 1 then Some (v\<lparr>u_ref := u_ref v - 1\<rparr>) else None)" by blast
  have a'3: "\<forall>m. m \<noteq> ?n \<longrightarrow> a_users a' m = a_users a m" using v(3) by simp
  have drop: "a_users a' = (a_users a)(?n := if u_ref v = 1 then None else Some (v\<lparr>u_ref := u_ref v - 1\<rparr>))"
    using v(2,3) one_or_more [of "u_ref v"] by (auto simp: user_ok_def)
  have u: "user_at a' m = user_at a m" if "m \<noteq> ?n" for m using a'3 that by (simp add: user_at_def)
  obtain n where n: "n \<in> set xs" "name_of (user_at a n) = take (unat len) nm"
    using False member_nonzero [OF assms(1)] by blast
  then have ne: "?n = n" using member_unique [OF assms(1)] by metis
  have d: "set (remove1 n xs) = set xs - {n}"
    using assms(1) rbi.holds_distinct by (auto simp: auth_inv_def)
  have "member a' (remove1 n xs) (take (unat len') nm') =
    (if take (unat len') nm' = take (unat len) nm then 0 else member a xs (take (unat len') nm'))"
  proof (cases "take (unat len') nm' = take (unat len) nm")
    case True
    have "\<not> (\<exists>m\<in>set (remove1 n xs). name_of (user_at a' m) = take (unat len) nm)"
      using d u ne n member_unique [OF assms(1)] by (metis DiffD1 DiffD2 singletonI)
    then show ?thesis using True member_nonzero [OF a'(2)] ne by metis
  next
    case f: False
    show ?thesis
    proof (cases "\<exists>m\<in>set xs. name_of (user_at a m) = take (unat len') nm'")
      case True
      then obtain m where m: "m \<in> set xs" "name_of (user_at a m) = take (unat len') nm'" by blast
      with f n have "m \<noteq> n" by auto
      with m d u ne have "m \<in> set (remove1 n xs)" "name_of (user_at a' m) = take (unat len') nm'" by auto
      with m f ne show ?thesis using member_unique [OF a'(2), of m] member_unique [OF assms(1), of m] by simp
    next
      case False
      then have "\<not> (\<exists>m\<in>set (remove1 n xs). name_of (user_at a' m) = take (unat len') nm')"
        using d u ne by auto
      with False f show ?thesis
        using member_nonzero [OF assms(1), of "take (unat len') nm'"]
          member_nonzero [OF a'(2), of "take (unat len') nm'"] ne by auto
    qed
  qed
  then show ?thesis
    using a' ne auth_get_member [OF a'(2) assms(3)] auth_get_member [OF assms(1,3)]
      auth_get_member [OF assms(1,2)] False v(1) drop by auto
qed

lemma authenticator_del_get_witness:
  "\<exists>r a' xs'. hev_socks5_authenticator_del auth_one [114, 111, 111, 116] 4 = Some (r, a') \<and> auth_inv a' xs' \<and>
     hev_socks5_authenticator_get a' [114, 111, 111, 116, 0] 4 = Some 0 \<and> r = 0 \<and> a_users a' 16 = None \<and> a_users a' 32 \<noteq> None"
proof -
  have "hev_socks5_authenticator_get auth_one [114, 111, 111, 116] 4 = Some 16"
    using auth_get_member [OF auth_one_inv(1), of 4 "[114, 111, 111, 116]"]
    by (simp add: member_def) (simp add: auth_one_def user_at_def name_of_def)
  moreover have "\<exists>u. a_users auth_one 16 = Some u \<and> u_ref u = 1" "a_users auth_one 32 \<noteq> None" by (simp_all add: auth_one_def)
  ultimately show ?thesis
    using authenticator_del_get [OF auth_one_inv(1), of 4 "[114, 111, 111, 116]" 4 "[114, 111, 111, 116, 0]"] by auto
qed

text \<open>
  C26: Destroying the authenticator ends, never touches a freed user, and drops exactly one
  reference of each: a user nobody else holds is freed, one that a session still holds stays.
\<close>

theorem authenticator_destruct_releases:
  assumes "auth_inv a xs"
  shows "\<exists>a'. hev_socks5_authenticator_destruct a = Some a' \<and> rb_root (a_tree a') = 0 \<and>
     (\<forall>n u. a_users a n = Some u \<longrightarrow> a_users a' n =
        (if n \<notin> set xs then Some u
         else if u_ref u = 1 then None else Some (u\<lparr>u_ref := u_ref u - 1\<rparr>)))"
proof -
  from auth_clear_all [OF assms] obtain a' where a': "hev_socks5_authenticator_clear a = Some a'" "auth_inv a' []"
    "\<forall>n. a_users a' n = (if n \<in> set xs then Option.bind (a_users a n)
        (\<lambda>u. if u_ref u > 1 then Some (u\<lparr>u_ref := u_ref u - 1\<rparr>) else None) else a_users a n)" by blast
  from a'(2) obtain t where "rbt_at (a_tree a') t" "inorder t = []"
    by (auto simp: auth_inv_def rb_holds_def)
  then have "rb_root (a_tree a') = 0" by (cases t) (auto simp: rbt_at_def)
  moreover have "u_ref u > 1 \<longleftrightarrow> u_ref u \<noteq> 1" if "n \<in> set xs" "a_users a n = Some u" for n u
  proof -
    have "0 < u_ref u" using that assms by (auto simp: auth_inv_def user_ok_def)
    then show ?thesis by (rule one_or_more)
  qed
  ultimately show ?thesis using a'(1,3) by (auto simp: hev_socks5_authenticator_destruct_def)
qed

lemma authenticator_destruct_releases_witness:
  "\<exists>a'. hev_socks5_authenticator_destruct auth_one = Some a' \<and> a_users a' 16 = None \<and> a_users a' 32 \<noteq> None"
proof -
  from authenticator_destruct_releases [OF auth_one_inv(1)] obtain a' where
    "hev_socks5_authenticator_destruct auth_one = Some a'"
    "\<forall>n u. a_users auth_one n = Some u \<longrightarrow> a_users a' n =
        (if n \<notin> set [16] then Some u
         else if u_ref u = 1 then None else Some (u\<lparr>u_ref := u_ref u - 1\<rparr>))" by blast
  then show ?thesis by (intro exI [of _ a']) (auto simp: auth_one_def)
qed

text \<open>
  A user created from a name and a password and added to the authenticator is found under its
  name, and its check accepts a password exactly when it is byte for byte the one it was created
  with.
\<close>

theorem user_login_roundtrip:
  assumes "auth_inv a xs" and "p \<noteq> 0" and "aligned p" and "p \<notin> set xs"
    and "unat nl \<le> length nm" and "unat pl \<le> length pw" and "nl \<noteq> - 1" and "pl \<noteq> - 1"
    and "\<forall>m\<in>set xs. name_of (user_at a m) \<noteq> take (unat nl) nm" and "unat ql \<le> length qw"
  shows "\<exists>a1 a2. hev_socks5_user_new a p True True nm nl pw pl = Some (p, a1) \<and>
     hev_socks5_authenticator_add a1 p = Some (0, a2) \<and>
     hev_socks5_authenticator_get a2 nm nl = Some p \<and>
     hev_socks5_user_check hev_socks5_user_class a2 p qw ql =
       Some (if take (unat ql) qw = take (unat pl) pw then 0 else - 1)"
proof -
  let ?u = "\<lparr>u_ref = 1, u_name = take (unat nl) nm @ [0], u_pass = take (unat pl) pw @ [0],
       u_name_len = nl, u_pass_len = pl\<rparr>"
  from user_new_ok [OF assms(2,5-8), of a] obtain a1 where a1:
    "hev_socks5_user_new a p True True nm nl pw pl = Some (p, a1)" "a_tree a1 = rb_obtain (a_tree a) p"
    "a_users a1 = (a_users a)(p \<mapsto> ?u)" by blast
  have ok: "user_ok ?u" "name_of ?u = take (unat nl) nm" "pass_of ?u = take (unat pl) pw"
    using assms(5,6) by (simp_all add: user_ok_def name_of_def pass_of_def)
  have same: "user_at a1 m = user_at a m" if "m \<in> set xs" for m
    using a1(3) that assms(4) by (auto simp: user_at_def)
  have "keyed (user_key a1) xs"
    using assms(1) same keyed_cong [of xs "user_key a1" "user_key a"] by (simp add: auth_inv_def user_key_def)
  then have inv: "auth_inv a1 xs"
    using assms(1,4) a1(2,3) rbk.obtain_law by (auto simp: auth_inv_def)
  have fresh: "fresh_user a1 xs p"
    using assms(3,4) a1(2,3) ok rbk.obtain_spare by (simp add: fresh_user_def)
  have p: "user_at a1 p = ?u" using a1(3) by (simp add: user_at_def)
  have "member a1 xs (take (unat nl) nm) = 0"
    using member_nonzero [OF inv] assms(9) same by auto
  with auth_add_cases [OF inv fresh] p ok(2) obtain a2 xs' where a2: "hev_socks5_authenticator_add a1 p = Some (0, a2)"
    "auth_inv a2 xs'" "a_users a2 = a_users a1" "set xs' = insert p (set xs)" by auto
  have "hev_socks5_authenticator_get a2 nm nl = Some p"
    using auth_get_member [OF a2(2) assms(5)] member_insert [OF inv a2(2,3,4)] p ok(2) by simp
  moreover have "a_users a2 p = Some ?u" using a2(3) a1(3) by simp
  ultimately show ?thesis
    using a1(1) a2(1) user_check_exact [of a2 p ?u ql qw] ok assms(10) by auto
qed

lemma user_login_roundtrip_witness:
  "\<exists>a1 a2. hev_socks5_user_new auth_one 48 True True [97, 98] 2 [99] 1 = Some (48, a1) \<and>
     hev_socks5_authenticator_add a1 48 = Some (0, a2) \<and>
     hev_socks5_authenticator_get a2 [97, 98] 2 = Some 48 \<and>
     hev_socks5_user_check hev_socks5_user_class a2 48 [99, 100] 2 = Some (- 1)"
  using user_login_roundtrip [OF auth_one_inv(1), of 48 2 "[97, 98]" 1 "[99]" 2 "[99, 100]"]
  by (simp add: aligned_def) (simp add: auth_one_def user_at_def name_of_def)

end
