(* ===== verification/Mapped_Dns.thy ===== *)
theory Mapped_Dns
  imports Keyed_Index Hev_List
begin

text \<open>
  The mapped DNS cache of \<open>hev-mapped-dns.c\<close>: names that clients resolve are given addresses of
  a private network, the least recently used name loses its address when the table is full, and
  a connection to such an address is later turned back into the name. A node is in the tree (by
  name), in the list (by use) and in the table (by address); it is named by one address, so the
  two \<open>container_of\<close> are the identity.
\<close>

section \<open>The cache\<close>

record dns_node =
  dn_name :: "u8 list"
  dn_idx :: int

text \<open>
  \<open>m_alloc\<close> holds the outcomes of the allocations to come: the address \<open>malloc\<close> returns (0 when
  it fails) and whether \<open>strdup\<close> succeeds.
\<close>

record mdns =
  m_use :: int
  m_max :: int
  m_net :: u32
  m_mask :: u32
  m_list :: dlist
  m_tree :: rbtree
  m_records :: "ptr list"
  m_nodes :: "ptr \<rightharpoonup> dns_node"
  m_alloc :: "(ptr \<times> bool) list"

definition hev_mapped_dns_construct :: "mdns \<Rightarrow> u32 \<Rightarrow> u32 \<Rightarrow> int \<Rightarrow> int \<times> mdns" where
  "hev_mapped_dns_construct self net msk mx =
     (if mx > sint (NOT msk) then (- 1, self)
      else (0, self\<lparr>m_max := mx, m_net := net, m_mask := msk\<rparr>))"

text \<open>\<open>ok\<close>: the allocation of the cache succeeds. The memory is zeroed and holds \<open>max\<close> slots.\<close>

definition hev_mapped_dns_new :: "bool \<Rightarrow> (ptr \<times> bool) list \<Rightarrow> u32 \<Rightarrow> u32 \<Rightarrow> int \<Rightarrow> mdns option" where
  "hev_mapped_dns_new ok allocs net msk mx =
     (if \<not> ok then None
      else
        let self = \<lparr>m_use = 0, m_max = 0, m_net = 0, m_mask = 0,
              m_list = \<lparr>l_head = 0, l_tail = 0, l_mem = Map.empty\<rparr>,
              m_tree = \<lparr>rb_root = 0, rb_mem = Map.empty\<rparr>,
              m_records = replicate (nat mx) 0, m_nodes = Map.empty, m_alloc = allocs\<rparr>;
            (res, self) = hev_mapped_dns_construct self net msk mx
        in if res < 0 then None else Some self)"

definition node_free :: "mdns \<Rightarrow> ptr \<Rightarrow> mdns" where
  "node_free d p = d\<lparr>m_nodes := (m_nodes d)(p := None), m_tree := rb_drop (m_tree d) p,
     m_list := (m_list d)\<lparr>l_mem := (l_mem (m_list d))(p := None)\<rparr>\<rparr>"

definition hev_mapped_dns_node_free :: "mdns \<Rightarrow> ptr \<Rightarrow> mdns option" where
  "hev_mapped_dns_node_free d p = do { _ \<leftarrow> m_nodes d p; Some (node_free d p) }"

definition hev_mapped_dns_node_alloc :: "mdns \<Rightarrow> u8 list \<Rightarrow> (ptr \<times> mdns) option" where
  "hev_mapped_dns_node_alloc d name =
     (case m_alloc d of
        [] \<Rightarrow> Some (0, d)
      | (p, ok) # rest \<Rightarrow>
          let d = d\<lparr>m_alloc := rest\<rparr>
          in if p = 0 then Some (0, d)
             else do {
               s \<leftarrow> strdup name;
               let d = d\<lparr>m_nodes := (m_nodes d)(p \<mapsto> \<lparr>dn_name = s, dn_idx = 0\<rparr>),
                         m_tree := rb_obtain (m_tree d) p,
                         m_list := (m_list d)\<lparr>l_mem := (l_mem (m_list d))(p \<mapsto> \<lparr>ln_next = 0, ln_prev = 0\<rparr>)\<rparr>\<rparr>;
               if \<not> ok then Some (0, node_free d p) else Some (p, d)
             })"

definition cmp_dns :: "mdns \<Rightarrow> u8 list \<Rightarrow> ptr \<Rightarrow> int option" where
  "cmp_dns d name n = do { node \<leftarrow> m_nodes d n; strcmp (dn_name node) name }"

text \<open>Marking a node as just used.\<close>

definition touch :: "mdns \<Rightarrow> ptr \<Rightarrow> mdns option" where
  "touch d node = do {
     l \<leftarrow> hev_list_del (m_list d) node;
     l \<leftarrow> hev_list_add_tail l node;
     Some (d\<lparr>m_list := l\<rparr>)
   }"

text \<open>The least recently used node is unlinked and freed, and its slot is reused.\<close>

definition evict :: "mdns \<Rightarrow> (int \<times> mdns) option" where
  "evict d = do {
     let nl = hev_list_first (m_list d);
     nf \<leftarrow> m_nodes d nl;
     let idx = dn_idx nf;
     t \<leftarrow> hev_rbtree_erase (m_tree d) nl;
     l \<leftarrow> hev_list_del (m_list d) nl;
     d \<leftarrow> hev_mapped_dns_node_free (d\<lparr>m_tree := t, m_list := l\<rparr>) nl;
     Some (idx, d)
   }"

definition set_record :: "mdns \<Rightarrow> int \<Rightarrow> ptr \<Rightarrow> mdns option" where
  "set_record d idx node =
     (if 0 \<le> idx \<and> nat idx < length (m_records d) then do {
        nd \<leftarrow> m_nodes d node;
        Some (d\<lparr>m_records := (m_records d)[nat idx := node],
               m_nodes := (m_nodes d)(node \<mapsto> nd\<lparr>dn_idx := idx\<rparr>)\<rparr>)
      } else None)"

definition hev_mapped_dns_find :: "mdns \<Rightarrow> u8 list \<Rightarrow> (int \<times> mdns) option" where
  "hev_mapped_dns_find self name = do {
     let idx = m_use self;
     r \<leftarrow> tree_slot (cmp_dns self name) (m_tree self) RootLink 0;
     case r of
       Inr node \<Rightarrow> do {
         self \<leftarrow> touch self node;
         nd \<leftarrow> m_nodes self node;
         Some (dn_idx nd, self)
       }
     | Inl (parent, new) \<Rightarrow> do {
         (node, self) \<leftarrow> hev_mapped_dns_node_alloc self name;
         if node = 0 then Some (- 1, self)
         else do {
           t \<leftarrow> hev_rbtree_node_link (m_tree self) node parent new;
           t \<leftarrow> hev_rbtree_insert_color t node;
           l \<leftarrow> hev_list_add_tail (m_list self) node;
           let self = self\<lparr>m_tree := t, m_list := l\<rparr>;
           (idx, self) \<leftarrow> (if m_use self < m_max self then Some (idx, self\<lparr>m_use := m_use self + 1\<rparr>)
                          else evict self);
           self \<leftarrow> set_record self idx node;
           Some (idx, self)
         }
       }
   }"

definition hev_mapped_dns_lookup :: "mdns \<Rightarrow> u32 \<Rightarrow> (u8 list option \<times> mdns) option" where
  "hev_mapped_dns_lookup self ip = do {
     let idx = sint (ip AND NOT (m_mask self));
     if idx \<ge> m_max self then Some (None, self)
     else if 0 \<le> idx \<and> nat idx < length (m_records self) then do {
       let node = m_records self ! nat idx;
       if node = 0 then Some (None, self)
       else do {
         self \<leftarrow> touch self node;
         nd \<leftarrow> m_nodes self node;
         Some (Some (dn_name nd), self)
       }
     } else None
   }"

partial_function (option) destruct_loop :: "mdns \<Rightarrow> ptr \<Rightarrow> mdns option" where
  "destruct_loop d n = (if n = 0 then Some d else do {
     m \<leftarrow> hev_list_node_next (m_list d) n;
     d \<leftarrow> hev_mapped_dns_node_free d n;
     destruct_loop d m
   })"

definition hev_mapped_dns_destruct :: "mdns \<Rightarrow> mdns option" where
  "hev_mapped_dns_destruct d = destruct_loop d (hev_list_first (m_list d))"

section \<open>The DNS messages\<close>

definition read_u16 :: "u8 list \<Rightarrow> nat \<Rightarrow> u16 option" where
  "read_u16 b off = (if off + 1 < length b then Some (word16 (b ! off) (b ! (off + 1))) else None)"

definition write_u16 :: "u8 list \<Rightarrow> nat \<Rightarrow> u16 \<Rightarrow> u8 list option" where
  "write_u16 b off v = memput b off [hi8 v, lo8 v]"

definition write_u32 :: "u8 list \<Rightarrow> nat \<Rightarrow> u32 \<Rightarrow> u8 list option" where
  "write_u32 b off v =
     memput b off [ucast (drop_bit 24 v), ucast (drop_bit 16 v), ucast (drop_bit 8 v), ucast v]"

text \<open>A \<open>uint16_t\<close> field of the header, in memory order.\<close>

definition field16 :: "u8 list \<Rightarrow> nat \<Rightarrow> u16 option" where
  "field16 b off = load16 (drop off b)"

definition set_field16 :: "u8 list \<Rightarrow> nat \<Rightarrow> u16 \<Rightarrow> u8 list option" where
  "set_field16 b off v = memput b off (store16 v)"

text \<open>
  The labels of one name: every length byte is replaced by a dot. The outcome is the buffer and
  the offset of the terminating zero, or \<open>None\<close> for the return of \<open>-1\<close>.
\<close>

function dns_labels :: "u8 list \<Rightarrow> nat \<Rightarrow> nat \<Rightarrow> (u8 list \<times> nat option) option" where
  "dns_labels rb qlen off =
     (if off \<ge> length rb then None
      else if rb ! off = 0 then Some (rb, Some off)
      else let poff = off; off = off + 1 + unat (rb ! off)
           in if off \<ge> qlen then Some (rb, None)
              else dns_labels (rb[poff := 46]) qlen off)"
  by auto

termination by (relation "measure (\<lambda>(rb, qlen, off). length rb - off)") auto

declare dns_labels.simps [simp del]

text \<open>
  The loop over the questions. \<open>n\<close> is the number still to read, \<open>ans\<close> the pairs of \<open>ips\<close> and \<open>ipo\<close>
  so far; both arrays have 32 entries.
\<close>

fun dns_questions :: "nat \<Rightarrow> mdns \<Rightarrow> u8 list \<Rightarrow> nat \<Rightarrow> nat \<Rightarrow> (u32 \<times> nat) list \<Rightarrow>
    (mdns \<times> u8 list \<times> (nat \<times> (u32 \<times> nat) list) option) option" where
  "dns_questions 0 d rb qlen off ans = Some (d, rb, Some (off, ans))"
| "dns_questions (Suc n) d rb qlen off ans =
     (if length ans \<ge> 32 then None
      else if off \<ge> qlen then Some (d, rb, None)
      else do {
        let start = off;
        (rb, r) \<leftarrow> dns_labels rb qlen off;
        case r of
          None \<Rightarrow> Some (d, rb, None)
        | Some off \<Rightarrow> do {
            let off = off + 1;
            if off + 3 \<ge> qlen then Some (d, rb, None)
            else do {
              t \<leftarrow> read_u16 rb off;
              c \<leftarrow> (if t = 1 then read_u16 rb (off + 2) else Some 0);
              (d, ans) \<leftarrow> (if t = 1 \<and> c = 1 then do {
                  (idx, d) \<leftarrow> hev_mapped_dns_find d (drop (start + 1) rb);
                  Some (d, if idx \<ge> 0 then ans @ [(m_net d OR word_of_int idx, start)] else ans)
                } else Some (d, ans));
              dns_questions n d rb qlen (off + 4) ans
            }
          }
      })"

definition write_answer :: "u8 list \<Rightarrow> nat \<Rightarrow> u32 \<times> nat \<Rightarrow> u8 list option" where
  "write_answer sb off a = do {
     sb \<leftarrow> write_u16 sb off (0xc000 OR of_nat (snd a));
     sb \<leftarrow> write_u16 sb (off + 2) 1;
     sb \<leftarrow> write_u16 sb (off + 4) 1;
     sb \<leftarrow> write_u32 sb (off + 6) 1;
     sb \<leftarrow> write_u16 sb (off + 10) 4;
     write_u32 sb (off + 12) (fst a)
   }"

fun dns_answers :: "(u32 \<times> nat) list \<Rightarrow> u8 list \<Rightarrow> nat \<Rightarrow> nat \<Rightarrow> (u8 list \<times> nat option) option" where
  "dns_answers [] sb slen off = Some (sb, Some off)"
| "dns_answers (a # as) sb slen off =
     (if off + 15 \<ge> slen then Some (sb, None)
      else do {
        sb \<leftarrow> write_answer sb off a;
        dns_answers as sb slen (off + 16)
      })"

text \<open>
  The handler. The result is the length of the response or \<open>-1\<close>, with the cache, the request
  buffer, which it overwrites, and the response buffer.
\<close>

definition hev_mapped_dns_handle ::
  "mdns \<Rightarrow> u8 list \<Rightarrow> nat \<Rightarrow> u8 list \<Rightarrow> nat \<Rightarrow> (int \<times> mdns \<times> u8 list \<times> u8 list) option" where
  "hev_mapped_dns_handle self req qlen res slen =
     (if slen < qlen then Some (- 1, self, req, res)
      else if qlen < 12 then Some (- 1, self, req, res)
      else do {
        q \<leftarrow> memget req 0 qlen;
        sb \<leftarrow> memput res 0 q;
        qd \<leftarrow> field16 req 4;
        rb \<leftarrow> set_field16 req 4 (ntohs qd);
        fl \<leftarrow> field16 sb 2;
        sb \<leftarrow> set_field16 sb 2 (ntohs fl);
        sb \<leftarrow> set_field16 sb 8 0;
        sb \<leftarrow> set_field16 sb 6 0;
        sb \<leftarrow> set_field16 sb 10 0;
        if ntohs qd > 32 then Some (- 1, self, rb, sb)
        else do {
          (self, rb, r) \<leftarrow> dns_questions (unat (ntohs qd)) self rb qlen 12 [];
          case r of
            None \<Rightarrow> Some (- 1, self, rb, sb)
          | Some (off, ans) \<Rightarrow> do {
              (sb, r) \<leftarrow> dns_answers ans sb slen off;
              case r of
                None \<Rightarrow> Some (- 1, self, rb, sb)
              | Some off \<Rightarrow> do {
                  fl \<leftarrow> field16 sb 2;
                  sb \<leftarrow> set_field16 sb 2 (htons (fl OR 0x8000 OR drop_bit 1 (fl AND 0x100)));
                  sb \<leftarrow> set_field16 sb 6 (htons (of_nat (length ans)));
                  Some (int off, self, rb, sb)
                }
            }
        }
      })"

section \<open>The invariant\<close>

definition dn_str :: "mdns \<Rightarrow> ptr \<Rightarrow> u8 list" where
  "dn_str d n = the (cstr (dn_name (the (m_nodes d n))))"

definition dn_slot :: "mdns \<Rightarrow> ptr \<Rightarrow> nat" where
  "dn_slot d n = nat (dn_idx (the (m_nodes d n)))"

text \<open>The tree and the list hold the same nodes, and every node has a name.\<close>

definition linked :: "mdns \<Rightarrow> ptr list \<Rightarrow> ptr list \<Rightarrow> bool" where
  "linked d xs ls \<longleftrightarrow> rb_holds (m_tree d) xs \<and> keyed (dn_str d) xs \<and> list_at (m_list d) ls \<and> set xs = set ls \<and>
     (\<forall>n\<in>set ls. \<exists>nd s. m_nodes d n = Some nd \<and> cstr (dn_name nd) = Some s)"

text \<open>The table and the indices of the nodes are inverse to each other.\<close>

definition indexed :: "mdns \<Rightarrow> ptr list \<Rightarrow> bool" where
  "indexed d ls \<longleftrightarrow>
     (\<forall>n\<in>set ls. \<exists>nd. m_nodes d n = Some nd \<and> 0 \<le> dn_idx nd \<and> nat (dn_idx nd) < length ls \<and>
        m_records d ! nat (dn_idx nd) = n) \<and>
     (\<forall>i<length (m_records d). if i < length ls then m_records d ! i \<in> set ls \<and> dn_slot d (m_records d ! i) = i
        else m_records d ! i = 0)"

definition dns_inv :: "mdns \<Rightarrow> ptr list \<Rightarrow> ptr list \<Rightarrow> bool" where
  "dns_inv d xs ls \<longleftrightarrow> linked d xs ls \<and> indexed d ls \<and> m_use d = int (length ls) \<and>
     m_max d = int (length (m_records d)) \<and> length ls \<le> length (m_records d) \<and> 0 < length (m_records d)"

lemma list_mapped: "list_at l ls \<Longrightarrow> n \<in> set ls \<Longrightarrow> n \<in> dom (l_mem l)"
  by (auto simp: list_at_def chain_append dest!: split_list)

lemma touch_moves:
  assumes "list_at (m_list d) ls" and "n \<in> set ls"
  shows "\<exists>l. touch d n = Some (d\<lparr>m_list := l\<rparr>) \<and> list_at l (remove1 n ls @ [n])"
  using dl.move_to_tail [OF assms list_mapped [OF assms]] by (auto simp: touch_def wp_def split: bind_splits)

lemma set_move: "distinct ls \<Longrightarrow> n \<in> set ls \<Longrightarrow> set (remove1 n ls @ [n]) = set ls"
  by auto

lemma length_move: "n \<in> set ls \<Longrightarrow> length (remove1 n ls @ [n]) = length ls"
  by (simp add: length_remove1) (metis Suc_pred length_pos_if_in_set)

lemma list_frame:
  assumes "list_at l ls" and "n \<notin> set ls"
  shows "list_at (l\<lparr>l_mem := (l_mem l)(n := v)\<rparr>) ls"
  using assms by (simp add: list_at_def chain_frame)

lemma touch_inv:
  assumes "dns_inv d xs ls" and "n \<in> set ls"
  shows "\<exists>l. touch d n = Some (d\<lparr>m_list := l\<rparr>) \<and> dns_inv (d\<lparr>m_list := l\<rparr>) xs (remove1 n ls @ [n])"
proof -
  have ls: "list_at (m_list d) ls" using assms(1) by (simp add: dns_inv_def linked_def)
  then have d: "distinct ls" by (simp add: list_at_def)
  from touch_moves [OF ls assms(2)] obtain l where
    l: "touch d n = Some (d\<lparr>m_list := l\<rparr>)" "list_at l (remove1 n ls @ [n])" by blast
  have k: "dn_str (d\<lparr>m_list := l\<rparr>) = dn_str d" "dn_slot (d\<lparr>m_list := l\<rparr>) = dn_slot d"
    by (auto simp: dn_str_def dn_slot_def)
  have "linked (d\<lparr>m_list := l\<rparr>) xs (remove1 n ls @ [n])"
    using assms(1) l(2) k set_move [OF d assms(2)] unfolding dns_inv_def linked_def by simp
  moreover have "indexed (d\<lparr>m_list := l\<rparr>) (remove1 n ls @ [n])"
    using assms(1) k set_move [OF d assms(2)] length_move [OF assms(2)]
    unfolding dns_inv_def indexed_def by (simp del: set_append length_append)
  ultimately show ?thesis
    using l(1) assms length_move [OF assms(2)]
    unfolding dns_inv_def by (auto simp del: set_append length_append)
qed

lemma cmp_dns_compares:
  assumes "linked d xs ls" and "cstr name = Some nm"
  shows "compares (dn_str d) nm (cmp_dns d name) xs"
  unfolding compares_def
proof
  fix n assume "n \<in> set xs"
  then obtain nd s where n: "m_nodes d n = Some nd" "cstr (dn_name nd) = Some s"
    using assms(1) by (auto simp: linked_def)
  from strcmp_sgn [OF n(2) assms(2)] show "\<exists>i. cmp_dns d name n = Some i \<and> sgn i = cmp_sign (dn_str d n) nm"
    using n by (simp add: cmp_dns_def dn_str_def)
qed

text \<open>A search hits the node with the name, or gives the slot to link a new one.\<close>

lemma dns_search:
  assumes "linked d xs ls" and "cstr name = Some nm"
  shows "wp (tree_slot (cmp_dns d name) (m_tree d) RootLink 0) (\<lambda>r. case r of
      Inl h \<Rightarrow> equal_to (dn_str d) nm xs = [] \<and> rb_slot (m_tree d) (above (dn_str d) nm xs) (below (dn_str d) nm xs) h
    | Inr n \<Rightarrow> n \<in> set ls \<and> dn_str d n = nm)"
proof -
  have "rb_holds (m_tree d) xs" "keyed (dn_str d) xs" using assms(1) by (simp_all add: linked_def)
  note rbk.seek_key [OF this cmp_dns_compares [OF assms]]
  moreover have "n \<in> set ls \<and> dn_str d n = nm" if "equal_to (dn_str d) nm xs = [n]" for n
  proof -
    have "n \<in> set (equal_to (dn_str d) nm xs)" using that by simp
    then show ?thesis using assms(1) by (auto simp: equal_to_def linked_def)
  qed
  ultimately show ?thesis
    unfolding rb_seek_def by (elim wp_mono) (auto split: sum.splits)
qed

text \<open>A fresh address for a new node.\<close>

definition fresh_node :: "mdns \<Rightarrow> ptr \<Rightarrow> bool" where
  "fresh_node d p \<longleftrightarrow> aligned p \<and> m_nodes d p = None"

lemma fresh_not_in: "linked d xs ls \<Longrightarrow> fresh_node d p \<Longrightarrow> p \<notin> set ls \<and> p \<noteq> 0"
  by (auto simp: linked_def fresh_node_def aligned_def)

definition same_table :: "mdns \<Rightarrow> mdns \<Rightarrow> bool" where
  "same_table d d' \<longleftrightarrow> m_use d' = m_use d \<and> m_max d' = m_max d \<and> m_records d' = m_records d \<and>
     m_net d' = m_net d \<and> m_mask d' = m_mask d"

lemma link_new:
  assumes "linked d xs ls" and "cstr name = Some nm" and "m_alloc d = (p, True) # rest" and "fresh_node d p"
    and "equal_to (dn_str d) nm xs = []"
    and "rb_slot (m_tree d) (above (dn_str d) nm xs) (below (dn_str d) nm xs) (parent, link)"
  shows "\<exists>d1 t l xs'. hev_mapped_dns_node_alloc d name = Some (p, d1) \<and>
     same_table d d1 \<and> m_alloc d1 = rest \<and>
     m_nodes d1 = (m_nodes d)(p \<mapsto> \<lparr>dn_name = nm @ [0], dn_idx = 0\<rparr>) \<and>
     rb_insert_at (m_tree d1) p (parent, link) = Some t \<and> hev_list_add_tail (m_list d1) p = Some l \<and>
     linked (d1\<lparr>m_tree := t, m_list := l\<rparr>) xs' (ls @ [p])"
proof -
  note L = assms(1) [unfolded linked_def]
  have p: "p \<notin> set ls" "p \<noteq> 0" "aligned p" using fresh_not_in [OF assms(1,4)] assms(4) by (auto simp: fresh_node_def)
  have px: "p \<notin> set xs" using p L by simp
  let ?m = "(m_list d)\<lparr>l_mem := (l_mem (m_list d))(p \<mapsto> \<lparr>ln_next = 0, ln_prev = 0\<rparr>)\<rparr>"
  let ?n = "(m_nodes d)(p \<mapsto> \<lparr>dn_name = nm @ [0], dn_idx = 0\<rparr>)"
  let ?d1 = "d\<lparr>m_alloc := rest, m_nodes := ?n, m_tree := rb_obtain (m_tree d) p, m_list := ?m\<rparr>"
  have al: "hev_mapped_dns_node_alloc d name = Some (p, ?d1)"
    using assms(3) p(2) cstr_strdup [OF assms(2)] by (simp add: hev_mapped_dns_node_alloc_def)
  let ?k = "dn_str ?d1"
  have nul: "0 \<notin> set nm" using assms(2) by (rule cstr_no_nul)
  have kp: "?k p = nm" using nul by (simp add: dn_str_def)
  have kx: "?k m = dn_str d m" if "m \<noteq> p" for m using that by (simp add: dn_str_def)
  have "keyed ?k xs = keyed (dn_str d) xs" by (rule keyed_cong, rule kx) (use px in auto)
  then have kxs: "keyed ?k xs" using L by simp
  have sides: "equal_to ?k (?k p) xs = []" "above ?k (?k p) xs = above (dn_str d) nm xs"
    "below ?k (?k p) xs = below (dn_str d) nm xs"
  proof -
    have "?k x = dn_str d x" if "x \<in> set xs" for x
      by (rule kx) (use px that in auto)
    note parts_cong [where k = ?k and k' = "dn_str d" and v = nm, OF this]
    then show "equal_to ?k (?k p) xs = []" "above ?k (?k p) xs = above (dn_str d) nm xs"
      "below ?k (?k p) xs = below (dn_str d) nm xs"
      using assms(5) kp by simp_all
  qed
  have "rb_holds (rb_obtain (m_tree d) p) xs" using L px rbk.obtain_law by blast
  moreover have "rb_slot (rb_obtain (m_tree d) p) (above ?k (?k p) xs) (below ?k (?k p) xs) (parent, link)"
    using assms(6) px sides by (intro rbk.obtain_slot) (auto simp: above_def below_def)
  moreover have "rb_spare (rb_obtain (m_tree d) p) p" using p(3) by (rule rbk.obtain_spare)
  ultimately obtain t xs' where t: "rb_insert_at (rb_obtain (m_tree d) p) p (parent, link) = Some t"
    "rb_holds t xs'" "keyed ?k xs'" "set xs' = insert p (set xs)"
    using rbk.insert_key [OF _ kxs sides(1)] px by (fastforce simp: wp_def)
  have "list_at ?m ls" using L p(1) by (intro list_frame) auto
  then obtain l where l: "hev_list_add_tail ?m p = Some l" "list_at l (ls @ [p])"
    using dl.add_law [of ?m ls p] p by (auto simp: wp_def)
  have "linked (?d1\<lparr>m_tree := t, m_list := l\<rparr>) xs' (ls @ [p])"
    using t l(2) L nul by (auto simp: linked_def dn_str_def keyed_def)
  moreover have "same_table d ?d1" by (simp add: same_table_def)
  ultimately show ?thesis using al t(1) l(1) by fastforce
qed

lemma evict_head:
  assumes "linked d xs (n # ls)" and "m_nodes d n = Some nd"
  shows "\<exists>d' xs'. evict d = Some (dn_idx nd, d') \<and> linked d' xs' ls \<and> m_nodes d' = (m_nodes d)(n := None) \<and>
     same_table d d' \<and> m_alloc d' = m_alloc d"
proof -
  note L = assms(1) [unfolded linked_def]
  have f: "hev_list_first (m_list d) = n" using dl.first_law L by fastforce
  have nls: "n \<notin> set ls" using L by (auto simp: list_at_def)
  obtain t where t: "hev_rbtree_erase (m_tree d) n = Some t" "rb_holds t (remove1 n xs)"
    "keyed (dn_str d) (remove1 n xs)" "set (remove1 n xs) = set xs - {n}"
    using rbk.erase_key [of "m_tree d" xs "dn_str d" n] L by (auto simp: wp_def)
  have "list_at (m_list d) ([] @ n # ls)" using L by simp
  from dl.del_law [OF this] obtain l where l: "hev_list_del (m_list d) n = Some l" "list_at l ls"
    by (auto simp: wp_def)
  let ?d = "node_free (d\<lparr>m_tree := t, m_list := l\<rparr>) n"
  have ev: "evict d = Some (dn_idx nd, ?d)"
    using f assms(2) t(1) l(1) by (simp add: evict_def hev_mapped_dns_node_free_def)
  have s: "set (remove1 n xs) = set ls" using t(4) L nls by auto
  have "keyed (dn_str ?d) (remove1 n xs)"
    using t(3,4) keyed_cong [of "remove1 n xs" "dn_str ?d" "dn_str d"] by (auto simp: dn_str_def node_free_def)
  then have "linked ?d (remove1 n xs) ls"
    using t(2) s l(2) L nls list_frame [OF l(2) nls, of None] rbk.drop_law [of t "remove1 n xs" n]
    by (auto simp: linked_def node_free_def)
  with ev show ?thesis by (fastforce simp: node_free_def same_table_def)
qed

section \<open>The cache as an LRU list\<close>

text \<open>
  The abstract cache: the names with their slots, least recently used first. A miss takes the next
  free slot, or the slot of the first entry when the cache is full.
\<close>

fun lru_find :: "nat \<Rightarrow> (u8 list \<times> nat) list \<Rightarrow> u8 list \<Rightarrow> nat \<times> (u8 list \<times> nat) list" where
  "lru_find cap c nm = (case map_of c nm of
      Some i \<Rightarrow> (i, remove1 (nm, i) c @ [(nm, i)])
    | None \<Rightarrow> if length c < cap then (length c, c @ [(nm, length c)])
              else (snd (hd c), drop 1 c @ [(nm, snd (hd c))]))"

fun lru_lookup :: "(u8 list \<times> nat) list \<Rightarrow> nat \<Rightarrow> u8 list option \<times> (u8 list \<times> nat) list" where
  "lru_lookup c i = (case map_of (map (\<lambda>(nm, i). (i, nm)) c) i of
      Some nm \<Rightarrow> (Some nm, remove1 (nm, i) c @ [(nm, i)])
    | None \<Rightarrow> (None, c))"

definition dns_view :: "mdns \<Rightarrow> ptr list \<Rightarrow> (u8 list \<times> nat) list" where
  "dns_view d ls = map (\<lambda>n. (dn_str d n, dn_slot d n)) ls"

lemma linked_names: "linked d xs ls \<Longrightarrow> inj_on (dn_str d) (set ls)"
  using keyed_inj unfolding linked_def inj_on_def by metis

lemma indexed_slots: "indexed d ls \<Longrightarrow> inj_on (dn_slot d) (set ls)"
  unfolding indexed_def inj_on_def dn_slot_def by (metis option.sel)

lemma map_of_image:
  "inj_on f (set ls) \<Longrightarrow> map_of (map (\<lambda>n. (f n, g n)) ls) k =
     (if k \<in> f ` set ls then Some (g (THE n. n \<in> set ls \<and> f n = k)) else None)"
proof (induction ls)
  case Nil
  then show ?case by simp
next
  case (Cons x ls)
  show ?case
  proof (cases "f x = k")
    case True
    then have "(THE n. n \<in> set (x # ls) \<and> f n = k) = x"
      using Cons.prems by (intro the_equality) (auto simp: inj_on_def)
    with True show ?thesis by auto
  next
    case False
    then have "(\<lambda>n. n \<in> set (x # ls) \<and> f n = k) = (\<lambda>n. n \<in> set ls \<and> f n = k)" by auto
    with False Cons show ?thesis by auto
  qed
qed

lemma map_of_member: "inj_on f (set ls) \<Longrightarrow> n \<in> set ls \<Longrightarrow> map_of (map (\<lambda>n. (f n, g n)) ls) (f n) = Some (g n)"
  by (induction ls) (auto simp: inj_on_def)

lemma map_of_absent: "k \<notin> f ` set ls \<Longrightarrow> map_of (map (\<lambda>n. (f n, g n)) ls) k = None"
  by (induction ls) auto

lemma map_remove1_inj: "inj_on f (set ls) \<Longrightarrow> n \<in> set ls \<Longrightarrow> map f (remove1 n ls) = remove1 (f n) (map f ls)"
  by (induction ls) (auto simp: inj_on_def)

lemma view_move:
  assumes "linked d xs ls" and "n \<in> set ls"
  shows "dns_view d (remove1 n ls @ [n]) = remove1 (dn_str d n, dn_slot d n) (dns_view d ls) @ [(dn_str d n, dn_slot d n)]"
proof -
  have "inj_on (\<lambda>n. (dn_str d n, dn_slot d n)) (set ls)"
    using linked_names [OF assms(1)] by (auto simp: inj_on_def)
  from map_remove1_inj [OF this assms(2)] show ?thesis by (simp add: dns_view_def)
qed

lemma find_hit:
  assumes "dns_inv d xs ls" and "cstr name = Some nm" and "n \<in> set ls" and "dn_str d n = nm"
    and "tree_slot (cmp_dns d name) (m_tree d) RootLink 0 = Some (Inr n)"
  shows "\<exists>d' ls'. hev_mapped_dns_find d name = Some (int (dn_slot d n), d') \<and> dns_inv d' xs ls' \<and>
     (dn_slot d n, dns_view d' ls') = lru_find (length (m_records d)) (dns_view d ls) nm \<and>
     m_alloc d' = m_alloc d \<and> m_nodes d' = m_nodes d \<and> m_records d' = m_records d \<and> m_net d' = m_net d \<and> m_mask d' = m_mask d"
proof -
  have L: "linked d xs ls" and I: "indexed d ls" using assms(1) by (simp_all add: dns_inv_def)
  from I assms(3) obtain nd where nd: "m_nodes d n = Some nd" "0 \<le> dn_idx nd" by (auto simp: indexed_def)
  from touch_inv [OF assms(1,3)] obtain l where
    l: "touch d n = Some (d\<lparr>m_list := l\<rparr>)" "dns_inv (d\<lparr>m_list := l\<rparr>) xs (remove1 n ls @ [n])" by blast
  have "hev_mapped_dns_find d name = Some (int (dn_slot d n), d\<lparr>m_list := l\<rparr>)"
    using assms(5) l(1) nd by (simp add: hev_mapped_dns_find_def dn_slot_def)
  moreover have "dns_view (d\<lparr>m_list := l\<rparr>) ls' = dns_view d ls'" for ls'
    by (simp add: dns_view_def dn_str_def dn_slot_def)
  moreover have "map_of (dns_view d ls) nm = Some (dn_slot d n)"
    using map_of_member [OF linked_names [OF L] assms(3), of "dn_slot d"] assms(4) by (simp add: dns_view_def)
  ultimately show ?thesis
    using l(2) view_move [OF L assms(3)] assms(4) by fastforce
qed

text \<open>Storing the new node in the table, after the slot was chosen.\<close>

lemma store_new:
  assumes "linked d xs (ls @ [p])" and "m_nodes d p = Some nd" and "i < length (m_records d)"
    and "p \<notin> set ls"
  shows "\<exists>d'. set_record d (int i) p = Some d' \<and> linked d' xs (ls @ [p]) \<and>
     d' = d\<lparr>m_records := (m_records d)[i := p], m_nodes := (m_nodes d)(p \<mapsto> nd\<lparr>dn_idx := int i\<rparr>)\<rparr>"
proof -
  let ?d = "d\<lparr>m_records := (m_records d)[i := p], m_nodes := (m_nodes d)(p \<mapsto> nd\<lparr>dn_idx := int i\<rparr>)\<rparr>"
  have "dn_str ?d = dn_str d" using assms(2) by (auto simp: dn_str_def)
  then have "linked ?d xs (ls @ [p])"
    using assms(1,2) unfolding linked_def by auto
  with assms show ?thesis by (simp add: set_record_def)
qed

lemma find_miss_free:
  assumes "dns_inv d xs ls" and "cstr name = Some nm" and "m_alloc d = (p, True) # rest" and "fresh_node d p"
    and "equal_to (dn_str d) nm xs = []" and "length ls < length (m_records d)"
    and "tree_slot (cmp_dns d name) (m_tree d) RootLink 0 = Some (Inl (parent, link))"
    and "rb_slot (m_tree d) (above (dn_str d) nm xs) (below (dn_str d) nm xs) (parent, link)"
  shows "\<exists>d' xs'. hev_mapped_dns_find d name = Some (int (length ls), d') \<and> dns_inv d' xs' (ls @ [p]) \<and>
     dns_view d' (ls @ [p]) = dns_view d ls @ [(nm, length ls)] \<and> m_alloc d' = rest \<and>
     dom (m_nodes d') = insert p (dom (m_nodes d)) \<and> m_net d' = m_net d \<and> m_mask d' = m_mask d \<and>
     length (m_records d') = length (m_records d)"
proof -
  have L: "linked d xs ls" and I: "indexed d ls" and sz: "m_use d = int (length ls)"
    "m_max d = int (length (m_records d))" using assms(1) by (simp_all add: dns_inv_def)
  from fresh_not_in [OF L assms(4)] have p: "p \<notin> set ls" "p \<noteq> 0" by auto
  from link_new [OF L assms(2,3,4,5,8)] obtain d1 t l xs' where
    d1: "hev_mapped_dns_node_alloc d name = Some (p, d1)"
    "same_table d d1" "m_alloc d1 = rest"
    "m_nodes d1 = (m_nodes d)(p \<mapsto> \<lparr>dn_name = nm @ [0], dn_idx = 0\<rparr>)"
    "rb_insert_at (m_tree d1) p (parent, link) = Some t" "hev_list_add_tail (m_list d1) p = Some l"
    "linked (d1\<lparr>m_tree := t, m_list := l\<rparr>) xs' (ls @ [p])" by blast
  from d1(2,3) have f: "m_use d1 = m_use d" "m_max d1 = m_max d" "m_records d1 = m_records d" "m_alloc d1 = rest"
    "m_net d1 = m_net d" "m_mask d1 = m_mask d" by (auto simp: same_table_def)
  let ?d2 = "d1\<lparr>m_tree := t, m_list := l, m_use := m_use d1 + 1\<rparr>"
  have "linked ?d2 xs' (ls @ [p])"
    using d1(7) by (simp add: linked_def dn_str_def keyed_def)
  from store_new [OF this, of "\<lparr>dn_name = nm @ [0], dn_idx = 0\<rparr>" "length ls"] obtain d3 where
    d3: "set_record ?d2 (int (length ls)) p = Some d3" "linked d3 xs' (ls @ [p])"
    "d3 = ?d2\<lparr>m_records := (m_records d)[length ls := p],
      m_nodes := (m_nodes d1)(p \<mapsto> \<lparr>dn_name = nm @ [0], dn_idx = int (length ls)\<rparr>)\<rparr>"
    using d1(4) p assms(6) f by auto
  have find: "hev_mapped_dns_find d name = Some (int (length ls), d3)"
    using assms(6,7) d1(1,5,6) d3(1) p(2) f sz
    by (auto simp: hev_mapped_dns_find_def rb_insert_at_def Let_def split: bind_splits)
  have nodes: "m_nodes d3 = (m_nodes d)(p \<mapsto> \<lparr>dn_name = nm @ [0], dn_idx = int (length ls)\<rparr>)"
    "m_records d3 = (m_records d)[length ls := p]" using d3(3) d1(4) by simp_all
  have "0 \<notin> set nm" using assms(2) by (rule cstr_no_nul)
  then have v: "dn_str d3 p = nm" "dn_slot d3 p = length ls" "\<And>n. n \<noteq> p \<Longrightarrow> dn_str d3 n = dn_str d n \<and> dn_slot d3 n = dn_slot d n"
    using nodes by (simp_all add: dn_str_def dn_slot_def)
  have pn: "m_nodes d p = None" using assms(4) by (simp add: fresh_node_def)
  have "indexed d3 (ls @ [p])"
    unfolding indexed_def
  proof (intro conjI ballI allI impI)
    fix n assume n: "n \<in> set (ls @ [p])"
    show "\<exists>nd. m_nodes d3 n = Some nd \<and> 0 \<le> dn_idx nd \<and> nat (dn_idx nd) < length (ls @ [p]) \<and>
      m_records d3 ! nat (dn_idx nd) = n"
    proof (cases "n = p")
      case True then show ?thesis using nodes assms(6) by simp
    next
      case False
      with n I obtain nd where "m_nodes d n = Some nd" "0 \<le> dn_idx nd" "nat (dn_idx nd) < length ls"
        "m_records d ! nat (dn_idx nd) = n" by (auto simp: indexed_def)
      with False nodes show ?thesis by (intro exI [of _ nd]) simp
    qed
  next
    fix i assume i: "i < length (m_records d3)"
    show "if i < length (ls @ [p]) then m_records d3 ! i \<in> set (ls @ [p]) \<and> dn_slot d3 (m_records d3 ! i) = i
        else m_records d3 ! i = 0"
    proof (cases "i = length ls")
      case True then show ?thesis using nodes(2) i v by simp
    next
      case False
      with I i nodes(2) have "if i < length ls then m_records d ! i \<in> set ls \<and> dn_slot d (m_records d ! i) = i
        else m_records d ! i = 0" by (simp add: indexed_def)
      then show ?thesis using nodes(2) False v(3) [of "m_records d ! i"] p(1) by (auto split: if_splits)
    qed
  qed
  moreover have "m_use d3 = int (length (ls @ [p]))" "m_max d3 = int (length (m_records d3))"
    using d3(3) f sz nodes(2) by simp_all
  ultimately have "dns_inv d3 xs' (ls @ [p])"
    using d3(2) nodes(2) assms(6) by (auto simp: dns_inv_def)
  moreover have "dns_view d3 (ls @ [p]) = dns_view d ls @ [(nm, length ls)]"
    using v p(1) by (simp add: dns_view_def) metis
  ultimately show ?thesis
    using find nodes d3(3) f by fastforce
qed

lemma find_miss_full:
  assumes "dns_inv d xs (n # ls)" and "cstr name = Some nm" and "m_alloc d = (p, True) # rest" and "fresh_node d p"
    and "equal_to (dn_str d) nm xs = []" and "length (n # ls) = length (m_records d)"
    and "tree_slot (cmp_dns d name) (m_tree d) RootLink 0 = Some (Inl (parent, link))"
    and "rb_slot (m_tree d) (above (dn_str d) nm xs) (below (dn_str d) nm xs) (parent, link)"
  shows "\<exists>d' xs'. hev_mapped_dns_find d name = Some (int (dn_slot d n), d') \<and> dns_inv d' xs' (ls @ [p]) \<and>
     dns_view d' (ls @ [p]) = dns_view d ls @ [(nm, dn_slot d n)] \<and> m_alloc d' = rest \<and>
     dom (m_nodes d') = insert p (dom (m_nodes d)) - {n} \<and> m_net d' = m_net d \<and> m_mask d' = m_mask d \<and>
     length (m_records d') = length (m_records d)"
proof -
  have L: "linked d xs (n # ls)" and I: "indexed d (n # ls)" and sz: "m_use d = int (length (m_records d))"
    "m_max d = int (length (m_records d))" using assms(1,6) by (simp_all add: dns_inv_def)
  from fresh_not_in [OF L assms(4)] have p: "p \<notin> set ls" "p \<noteq> 0" "p \<noteq> n" by auto
  have nls: "n \<notin> set ls" using L by (auto simp: linked_def list_at_def)
  from I obtain nd where nd: "m_nodes d n = Some nd" "0 \<le> dn_idx nd" "nat (dn_idx nd) < length (m_records d)"
    "m_records d ! nat (dn_idx nd) = n" using assms(6) by (auto simp: indexed_def)
  let ?i = "dn_slot d n"
  have i: "int ?i = dn_idx nd" "?i < length (m_records d)" "m_records d ! ?i = n"
    using nd by (simp_all add: dn_slot_def)
  from link_new [OF L assms(2,3,4,5,8)] obtain d1 t l xs1 where
    d1: "hev_mapped_dns_node_alloc d name = Some (p, d1)" "same_table d d1" "m_alloc d1 = rest"
    "m_nodes d1 = (m_nodes d)(p \<mapsto> \<lparr>dn_name = nm @ [0], dn_idx = 0\<rparr>)"
    "rb_insert_at (m_tree d1) p (parent, link) = Some t" "hev_list_add_tail (m_list d1) p = Some l"
    "linked (d1\<lparr>m_tree := t, m_list := l\<rparr>) xs1 (n # (ls @ [p]))" by auto
  let ?d1 = "d1\<lparr>m_tree := t, m_list := l\<rparr>"
  have "m_nodes ?d1 n = Some nd" using d1(4) nd(1) p(3) by simp
  from evict_head [OF d1(7) this] obtain d2 xs2 where d2: "evict ?d1 = Some (int ?i, d2)" "linked d2 xs2 (ls @ [p])"
    "m_nodes d2 = (m_nodes d1)(n := None)" "same_table ?d1 d2" "m_alloc d2 = rest"
    using i(1) d1(3) by auto
  have f: "m_use d2 = m_use d" "m_max d2 = m_max d" "m_records d2 = m_records d" "m_net d2 = m_net d" "m_mask d2 = m_mask d"
    using d1(2) d2(4) by (simp_all add: same_table_def)
  have f1: "m_use d1 = m_use d" "m_max d1 = m_max d" using d1(2) by (simp_all add: same_table_def)
  from store_new [OF d2(2), of "\<lparr>dn_name = nm @ [0], dn_idx = 0\<rparr>" ?i] obtain d3 where
    d3: "set_record d2 (int ?i) p = Some d3" "linked d3 xs2 (ls @ [p])"
    "d3 = d2\<lparr>m_records := (m_records d)[?i := p],
      m_nodes := (m_nodes d2)(p \<mapsto> \<lparr>dn_name = nm @ [0], dn_idx = int ?i\<rparr>)\<rparr>"
    using d2(3) d1(4) p i(2) f by auto
  have find: "hev_mapped_dns_find d name = Some (int ?i, d3)"
    using assms(7) d1(1,5,6) d2(1) d3(1) p(2) f1 sz
    by (auto simp: hev_mapped_dns_find_def rb_insert_at_def Let_def split: bind_splits)
  have nodes: "m_nodes d3 = (m_nodes d)(n := None, p \<mapsto> \<lparr>dn_name = nm @ [0], dn_idx = int ?i\<rparr>)"
    "m_records d3 = (m_records d)[?i := p]" using d3(3) d2(3) d1(4) p(3) by (simp_all add: fun_upd_twist)
  have "0 \<notin> set nm" using assms(2) by (rule cstr_no_nul)
  then have v: "dn_str d3 p = nm" "dn_slot d3 p = ?i"
    "\<And>m. m \<noteq> p \<Longrightarrow> m \<noteq> n \<Longrightarrow> dn_str d3 m = dn_str d m \<and> dn_slot d3 m = dn_slot d m"
    using nodes by (simp_all add: dn_str_def dn_slot_def)
  have "indexed d3 (ls @ [p])"
    unfolding indexed_def
  proof (intro conjI ballI allI impI)
    fix m assume m: "m \<in> set (ls @ [p])"
    show "\<exists>nd. m_nodes d3 m = Some nd \<and> 0 \<le> dn_idx nd \<and> nat (dn_idx nd) < length (ls @ [p]) \<and>
      m_records d3 ! nat (dn_idx nd) = m"
    proof (cases "m = p")
      case True then show ?thesis using nodes i(2) assms(6) by simp
    next
      case False
      with m I obtain nd' where nd': "m_nodes d m = Some nd'" "0 \<le> dn_idx nd'" "nat (dn_idx nd') < length (n # ls)"
        "m_records d ! nat (dn_idx nd') = m" by (auto simp: indexed_def)
      moreover have "m \<noteq> n" using False m nls by auto
      moreover from this have "nat (dn_idx nd') \<noteq> ?i" using nd'(4) i(3) by auto
      ultimately show ?thesis using False nodes by (intro exI [of _ nd']) simp
    qed
  next
    fix j assume j: "j < length (m_records d3)"
    show "if j < length (ls @ [p]) then m_records d3 ! j \<in> set (ls @ [p]) \<and> dn_slot d3 (m_records d3 ! j) = j
        else m_records d3 ! j = 0"
    proof (cases "j = ?i")
      case True then show ?thesis using nodes(2) j v assms(6) by simp
    next
      case False
      have "j < length (n # ls)" using j nodes(2) assms(6) by simp
      then have r: "m_records d ! j \<in> set (n # ls)" "dn_slot d (m_records d ! j) = j"
        using I assms(6) by (auto simp: indexed_def)
      moreover from r(2) False have "m_records d ! j \<noteq> n" by auto
      moreover from r(1) p have "m_records d ! j \<noteq> p" by auto
      ultimately show ?thesis using nodes(2) False v(3) [of "m_records d ! j"] j assms(6) by auto
    qed
  qed
  moreover have "m_use d3 = int (length (ls @ [p]))" "m_max d3 = int (length (m_records d3))"
    "length (ls @ [p]) = length (m_records d3)" "0 < length (m_records d3)"
    using d3(3) f sz nodes(2) assms(6) by auto
  ultimately have "dns_inv d3 xs2 (ls @ [p])" using d3(2) by (auto simp: dns_inv_def)
  moreover have "dns_view d3 (ls @ [p]) = dns_view d ls @ [(nm, ?i)]"
    using v p(1) nls by (simp add: dns_view_def) metis
  moreover have "dom (m_nodes d3) = insert p (dom (m_nodes d)) - {n}" using nodes(1) p(3) by auto
  moreover have "m_alloc d3 = rest" "m_net d3 = m_net d" "m_mask d3 = m_mask d"
    "length (m_records d3) = length (m_records d)" using d3(3) f d2(5) by simp_all
  ultimately show ?thesis using find by blast
qed

text \<open>The find operation implements the abstract cache.\<close>

lemma hd_view: "ls \<noteq> [] \<Longrightarrow> snd (hd (dns_view d ls)) = dn_slot d (hd ls)"
  by (cases ls) (simp_all add: dns_view_def)

lemma find_refines:
  assumes "dns_inv d xs ls" and "cstr name = Some nm" and "m_alloc d = (p, True) # rest" and "fresh_node d p"
  shows "\<exists>i d' xs' ls'. hev_mapped_dns_find d name = Some (int i, d') \<and> dns_inv d' xs' ls' \<and>
     (i, dns_view d' ls') = lru_find (length (m_records d)) (dns_view d ls) nm \<and>
     (m_alloc d' = m_alloc d \<and> m_nodes d' = m_nodes d \<or> m_alloc d' = rest \<and> dom (m_nodes d') \<subseteq> insert p (dom (m_nodes d))) \<and>
     m_net d' = m_net d \<and> m_mask d' = m_mask d \<and> length (m_records d') = length (m_records d)"
proof -
  have L: "linked d xs ls" and sz: "length ls \<le> length (m_records d)" "0 < length (m_records d)"
    using assms(1) by (simp_all add: dns_inv_def)
  from wpD [OF dns_search [OF L assms(2)]] obtain r where
    r: "tree_slot (cmp_dns d name) (m_tree d) RootLink 0 = Some r"
    "case r of Inl h \<Rightarrow> equal_to (dn_str d) nm xs = [] \<and> rb_slot (m_tree d) (above (dn_str d) nm xs) (below (dn_str d) nm xs) h
     | Inr n \<Rightarrow> n \<in> set ls \<and> dn_str d n = nm" by blast
  show ?thesis
  proof (cases r)
    case (Inr n)
    with r find_hit [OF assms(1,2), of n] show ?thesis by fastforce
  next
    case (Inl h)
    obtain parent link where h: "h = (parent, link)" by force
    have e: "equal_to (dn_str d) nm xs = []"
      and sl: "rb_slot (m_tree d) (above (dn_str d) nm xs) (below (dn_str d) nm xs) (parent, link)"
      and tr: "tree_slot (cmp_dns d name) (m_tree d) RootLink 0 = Some (Inl (parent, link))"
      using r Inl h by simp_all
    have "nm \<notin> dn_str d ` set ls" using e L by (auto simp: equal_to_def filter_empty_conv linked_def)
    then have none: "map_of (dns_view d ls) nm = None" unfolding dns_view_def by (rule map_of_absent)
    have len: "length (dns_view d ls) = length ls" by (simp add: dns_view_def)
    show ?thesis
    proof (cases "length ls < length (m_records d)")
      case True
      from find_miss_free [OF assms e True tr sl] none len True show ?thesis by fastforce
    next
      case False
      with sz obtain n ls0 where ls: "ls = n # ls0" "length (n # ls0) = length (m_records d)" by (cases ls) auto
      have "dns_view d ls0 = drop 1 (dns_view d ls)" "snd (hd (dns_view d ls)) = dn_slot d n"
        using ls by (simp_all add: dns_view_def)
      with find_miss_full [OF assms(1) [unfolded ls(1)] assms(2-4) e ls(2) tr sl] none len False show ?thesis
        by fastforce
    qed
  qed
qed

text \<open>Turning an address back into a name implements the lookup by slot.\<close>

lemma lookup_refines:
  assumes "dns_inv d xs ls" and "0 \<le> sint (ip AND NOT (m_mask d))"
  defines "i \<equiv> nat (sint (ip AND NOT (m_mask d)))"
  shows "\<exists>r d' ls'. hev_mapped_dns_lookup d ip = Some (r, d') \<and> dns_inv d' xs ls' \<and>
     (Option.bind r cstr, dns_view d' ls') = lru_lookup (dns_view d ls) i \<and>
     (r = None \<longleftrightarrow> i \<notin> snd ` set (dns_view d ls)) \<and>
     m_alloc d' = m_alloc d \<and> m_nodes d' = m_nodes d \<and> m_records d' = m_records d \<and> m_net d' = m_net d \<and> m_mask d' = m_mask d"
proof -
  have L: "linked d xs ls" and I: "indexed d ls" and sz: "m_max d = int (length (m_records d))"
    using assms(1) by (simp_all add: dns_inv_def)
  have mv: "map (\<lambda>(nm, i). (i, nm)) (dns_view d ls) = map (\<lambda>n. (dn_slot d n, dn_str d n)) ls"
    by (simp add: dns_view_def)
  have snds: "snd ` set (dns_view d ls) = dn_slot d ` set ls" by (simp add: dns_view_def image_image)
  have si: "sint (ip AND NOT (m_mask d)) = int i" using assms(2) by (simp add: i_def)
  have absent: "map_of (map (\<lambda>n. (dn_slot d n, dn_str d n)) ls) i = None" if "i \<notin> dn_slot d ` set ls"
    using that by (rule map_of_absent)
  show ?thesis
  proof (cases "i < length ls")
    case False
    then have "i \<notin> dn_slot d ` set ls" using I by (auto simp: indexed_def dn_slot_def)
    moreover have "m_records d ! i = 0" if "i < length (m_records d)"
      using I False that by (auto simp: indexed_def)
    then have "hev_mapped_dns_lookup d ip = Some (None, d)"
      using si sz by (simp add: hev_mapped_dns_lookup_def Let_def)
    ultimately show ?thesis using absent assms(1) mv snds by auto
  next
    case True
    let ?n = "m_records d ! i"
    have i: "i < length (m_records d)" using True assms(1) by (simp add: dns_inv_def)
    with I True have n: "?n \<in> set ls" "dn_slot d ?n = i" by (auto simp: indexed_def)
    have "?n \<noteq> 0" using n(1) L dl.nonnull by (auto simp: linked_def)
    from touch_inv [OF assms(1) n(1)] obtain l where
      l: "touch d ?n = Some (d\<lparr>m_list := l\<rparr>)" "dns_inv (d\<lparr>m_list := l\<rparr>) xs (remove1 ?n ls @ [?n])" by blast
    from L n(1) obtain nd s where nd: "m_nodes d ?n = Some nd" "cstr (dn_name nd) = Some s"
      by (auto simp: linked_def)
    then have s: "dn_str d ?n = s" by (simp add: dn_str_def)
    have lk: "hev_mapped_dns_lookup d ip = Some (Some (dn_name nd), d\<lparr>m_list := l\<rparr>)"
      using i si sz \<open>?n \<noteq> 0\<close> l(1) nd(1) by (simp add: hev_mapped_dns_lookup_def Let_def)
    have "map_of (map (\<lambda>n. (dn_slot d n, dn_str d n)) ls) i = Some s"
      using map_of_member [OF indexed_slots [OF I] n(1), of "dn_str d"] n(2) s by simp
    then have lru: "(Option.bind (Some (dn_name nd)) cstr, dns_view d (remove1 ?n ls @ [?n])) = lru_lookup (dns_view d ls) i"
      using nd(2) mv view_move [OF L n(1)] n(2) s by simp
    have vw: "dns_view (d\<lparr>m_list := l\<rparr>) ls' = dns_view d ls'" for ls'
      by (simp add: dns_view_def dn_str_def dn_slot_def)
    have mem: "i \<in> snd ` set (dns_view d ls)" unfolding snds using imageI [OF n(1), of "dn_slot d"] n(2) by simp
    show ?thesis
    proof (intro exI conjI)
      show "(Option.bind (Some (dn_name nd)) cstr, dns_view (d\<lparr>m_list := l\<rparr>) (remove1 ?n ls @ [?n])) =
          lru_lookup (dns_view d ls) i" unfolding vw by (rule lru)
      show "(Some (dn_name nd) = None) = (i \<notin> snd ` set (dns_view d ls))" using mem by blast
    qed (simp_all add: lk l(2) del: append.simps)
  qed
qed

end
