(* ===== verification/Mapped_Dns_Msg.thy ===== *)
theory Mapped_Dns_Msg
  imports Mapped_Dns
begin

text \<open>
  The DNS side of the mapped cache: the handler of \<open>hev-mapped-dns.c\<close> neither reads nor writes
  outside the two buffers for any request, and answers a well-formed address query with the
  record it should.
\<close>

section \<open>Allocation failures\<close>

definition allocs_ok :: "mdns \<Rightarrow> bool" where
  "allocs_ok d \<longleftrightarrow> distinct (filter (\<lambda>p. p \<noteq> 0) (map fst (m_alloc d))) \<and>
     (\<forall>(p, ok)\<in>set (m_alloc d). p \<noteq> 0 \<longrightarrow> aligned p \<and> m_nodes d p = None)"

lemma alloc_fails:
  assumes "dns_inv d xs ls" and "cstr name = Some nm" and "allocs_ok d"
    and "\<not> (\<exists>p rest. m_alloc d = (p, True) # rest \<and> p \<noteq> 0)"
  shows "\<exists>d'. hev_mapped_dns_node_alloc d name = Some (0, d') \<and> dns_inv d' xs ls \<and> allocs_ok d' \<and>
     same_table d d'"
proof (cases "m_alloc d")
  case Nil
  then show ?thesis using assms by (simp add: hev_mapped_dns_node_alloc_def same_table_def)
next
  case (Cons a rest)
  obtain p ok where a: "a = (p, ok)" by force
  have k: "dn_str (d\<lparr>m_alloc := rest\<rparr>) = dn_str d" "dn_slot (d\<lparr>m_alloc := rest\<rparr>) = dn_slot d"
    by (auto simp: dn_str_def dn_slot_def)
  show ?thesis
  proof (cases "p = 0")
    case True
    have "dns_inv (d\<lparr>m_alloc := rest\<rparr>) xs ls" using assms(1) k
      unfolding dns_inv_def linked_def indexed_def by simp
    with True Cons a assms(3) show ?thesis
      by (auto simp: hev_mapped_dns_node_alloc_def same_table_def allocs_ok_def)
  next
    case False
    with Cons a assms(4) have nok: "\<not> ok" by auto
    from Cons a assms(3) False have p: "m_nodes d p = None" "aligned p" by (auto simp: allocs_ok_def)
    then have pl: "p \<notin> set ls" using assms(1) by (auto simp: dns_inv_def linked_def)
    have L: "rb_holds (m_tree d) xs" "list_at (m_list d) ls" "p \<notin> set xs"
      using assms(1) pl by (simp_all add: dns_inv_def linked_def)
    let ?d = "d\<lparr>m_alloc := rest, m_nodes := (m_nodes d)(p := None), m_tree := rb_drop (rb_obtain (m_tree d) p) p,
        m_list := (m_list d)\<lparr>l_mem := (l_mem (m_list d))(p := None)\<rparr>\<rparr>"
    have al: "hev_mapped_dns_node_alloc d name = Some (0, ?d)"
      using Cons a nok False cstr_strdup [OF assms(2)]
      by (simp add: hev_mapped_dns_node_alloc_def node_free_def)
    have n: "(m_nodes d)(p := None) = m_nodes d" using p(1) by (simp add: fun_upd_idem)
    then have k2: "dn_str ?d = dn_str d" "dn_slot ?d = dn_slot d" by (auto simp: dn_str_def dn_slot_def)
    have "rb_holds (rb_drop (rb_obtain (m_tree d) p) p) xs"
      using L(1,3) rbk.obtain_law rbk.drop_law by blast
    moreover have "list_at ((m_list d)\<lparr>l_mem := (l_mem (m_list d))(p := None)\<rparr>) ls"
      using L(2) pl by (rule list_frame)
    ultimately have "dns_inv ?d xs ls"
      using assms(1) k2 n unfolding dns_inv_def linked_def indexed_def by simp
    moreover have "allocs_ok ?d" using assms(3) Cons a n False by (auto simp: allocs_ok_def)
    ultimately show ?thesis using al by (auto simp: same_table_def)
  qed
qed

lemma find_total:
  assumes "dns_inv d xs ls" and "cstr name = Some nm" and "allocs_ok d"
  shows "\<exists>r d' xs' ls'. hev_mapped_dns_find d name = Some (r, d') \<and> dns_inv d' xs' ls' \<and> allocs_ok d' \<and>
     (r = - 1 \<or> 0 \<le> r \<and> r < m_max d) \<and> m_net d' = m_net d \<and> m_mask d' = m_mask d \<and> m_max d' = m_max d"
proof (cases "\<exists>p rest. m_alloc d = (p, True) # rest \<and> p \<noteq> 0")
  case True
  then obtain p rest where a: "m_alloc d = (p, True) # rest" "p \<noteq> 0" by blast
  have f: "fresh_node d p" using a assms(3) by (auto simp: allocs_ok_def fresh_node_def)
  from find_refines [OF assms(1,2) a(1) f] obtain i d' xs' ls' where
    r: "hev_mapped_dns_find d name = Some (int i, d')" "dns_inv d' xs' ls'"
    "(i, dns_view d' ls') = lru_find (length (m_records d)) (dns_view d ls) nm"
    "m_alloc d' = m_alloc d \<and> m_nodes d' = m_nodes d \<or> m_alloc d' = rest \<and> dom (m_nodes d') \<subseteq> insert p (dom (m_nodes d))"
    "m_net d' = m_net d" "m_mask d' = m_mask d" "length (m_records d') = length (m_records d)" by blast
  have "allocs_ok d'"
  proof -
    have "m_nodes d' q = None" if "m_alloc d' = rest" "dom (m_nodes d') \<subseteq> insert p (dom (m_nodes d))"
      "(q, ok) \<in> set rest" "q \<noteq> 0" for q ok
    proof -
      have "q \<noteq> p" using assms(3) a that(3,4) by (force simp: allocs_ok_def image_iff)
      moreover have "m_nodes d q = None" using assms(3) a that(3,4) by (auto simp: allocs_ok_def)
      ultimately show ?thesis using that(2) by (auto simp: dom_def)
    qed
    then show ?thesis using r(4) assms(3) a by (auto simp: allocs_ok_def)
  qed
  moreover have "i < length (m_records d)"
  proof -
    have "(nm', i) \<in> set (dns_view d' ls') \<Longrightarrow> i < length (m_records d')" for nm'
      using r(2) by (auto simp: dns_inv_def indexed_def dns_view_def dn_slot_def)
    moreover have "(nm, i) \<in> set (dns_view d' ls')"
      using r(3) by (auto simp del: remove1.simps split: option.split_asm if_split_asm)
    ultimately show ?thesis using r(7) by metis
  qed
  moreover have "m_max d = int (length (m_records d))" "m_max d' = int (length (m_records d'))"
    using assms(1) r(2) by (simp_all add: dns_inv_def)
  ultimately show ?thesis using r(1,2,5,6,7) by auto
next
  case False
  have L: "linked d xs ls" using assms(1) by (simp add: dns_inv_def)
  from wpD [OF dns_search [OF L assms(2)]] obtain r where
    r: "tree_slot (cmp_dns d name) (m_tree d) RootLink 0 = Some r"
    "case r of Inl h \<Rightarrow> equal_to (dn_str d) nm xs = [] \<and> rb_slot (m_tree d) (above (dn_str d) nm xs) (below (dn_str d) nm xs) h
     | Inr n \<Rightarrow> n \<in> set ls \<and> dn_str d n = nm" by blast
  have mx: "m_max d = int (length (m_records d))" using assms(1) by (simp add: dns_inv_def)
  show ?thesis
  proof (cases r)
    case (Inl h)
    from alloc_fails [OF assms False] obtain d' where d': "hev_mapped_dns_node_alloc d name = Some (0, d')"
      "dns_inv d' xs ls" "allocs_ok d'" "same_table d d'" by blast
    then have "hev_mapped_dns_find d name = Some (- 1, d')"
      using r(1) Inl by (cases h) (simp add: hev_mapped_dns_find_def)
    with d' show ?thesis by (auto simp: same_table_def)
  next
    case (Inr n)
    with r have n: "n \<in> set ls" "dn_str d n = nm" by simp_all
    with r Inr find_hit [OF assms(1,2) n] obtain d' ls' where
      f: "hev_mapped_dns_find d name = Some (int (dn_slot d n), d')" "dns_inv d' xs ls'"
      "m_alloc d' = m_alloc d" "m_nodes d' = m_nodes d" "m_records d' = m_records d" "m_net d' = m_net d" "m_mask d' = m_mask d"
      by blast
    moreover have "dn_slot d n < length (m_records d)"
      using assms(1) n(1) by (fastforce simp: dns_inv_def indexed_def dn_slot_def)
    moreover have "allocs_ok d'" using f(3,4) assms(3) by (simp add: allocs_ok_def)
    moreover have "m_max d' = m_max d" using f(2,5) mx by (simp add: dns_inv_def)
    ultimately show ?thesis using mx by auto
  qed
qed

section \<open>Bounds of the handler\<close>

lemma dns_labels_safe:
  assumes "off < qlen" and "qlen \<le> length rb"
  shows "\<exists>rb' r. dns_labels rb qlen off = Some (rb', r) \<and> length rb' = length rb \<and>
     (case r of None \<Rightarrow> True | Some e \<Rightarrow> off \<le> e \<and> e < qlen \<and> rb' ! e = 0)"
  using assms
proof (induction rb qlen off rule: dns_labels.induct)
  case (1 rb qlen off)
  show ?case
  proof (cases "rb ! off = 0")
    case True
    then show ?thesis using 1(2,3) by (subst dns_labels.simps) simp
  next
    case False
    show ?thesis
    proof (cases "qlen \<le> off + 1 + unat (rb ! off)")
      case True
      then show ?thesis using False 1(2,3) by (subst dns_labels.simps) simp
    next
      case lt: False
      from 1(1) [OF _ False refl refl lt] 1(2,3) lt obtain rb' r where
        "dns_labels (rb[off := 46]) qlen (off + 1 + unat (rb ! off)) = Some (rb', r)" "length rb' = length rb"
        "case r of None \<Rightarrow> True | Some e \<Rightarrow> off + 1 + unat (rb ! off) \<le> e \<and> e < qlen \<and> rb' ! e = 0"
        by auto
      then show ?thesis using False lt 1(2,3)
        by (subst dns_labels.simps) (auto split: option.splits)
    qed
  qed
qed

lemma memput_ok: "off + length bs \<le> length mem \<Longrightarrow>
   \<exists>mem'. memput mem off bs = Some mem' \<and> length mem' = length mem"
  by (simp add: memput_def)

lemma nul_below: "i \<le> e \<Longrightarrow> e < length b \<Longrightarrow> b ! e = 0 \<Longrightarrow> \<exists>s. cstr (drop i b) = Some s"
  using nth_mem [of "e - i" "drop i b"] by (intro cstr_exists) auto

lemma dns_questions_safe:
  assumes "dns_inv d xs ls" and "allocs_ok d" and "qlen \<le> length rb" and "n + length ans \<le> 32" and "off \<ge> 12"
  shows "\<exists>d' rb' r xs' ls'. dns_questions n d rb qlen off ans = Some (d', rb', r) \<and> dns_inv d' xs' ls' \<and> allocs_ok d' \<and>
     length rb' = length rb \<and> (case r of None \<Rightarrow> True | Some (e, ans') \<Rightarrow> off \<le> e \<and> (off \<le> qlen \<longrightarrow> e \<le> qlen) \<and> length ans' \<le> length ans + n)"
  using assms
proof (induction n arbitrary: d xs ls rb off ans)
  case 0
  then show ?case by fastforce
next
  case (Suc n)
  have len: "\<not> 32 \<le> length ans" using Suc.prems(4) by simp
  show ?case
  proof (cases "off \<ge> qlen")
    case True
    then show ?thesis using Suc.prems len by auto
  next
    case False
    with dns_labels_safe [of off qlen rb] Suc.prems(3) obtain rb1 r where
      lb: "dns_labels rb qlen off = Some (rb1, r)" "length rb1 = length rb"
      "case r of None \<Rightarrow> True | Some e \<Rightarrow> off \<le> e \<and> e < qlen \<and> rb1 ! e = 0" by auto
    show ?thesis
    proof (cases r)
      case None
      then show ?thesis using lb False len Suc.prems by auto
    next
      case (Some e)
      with lb(3) have e: "off \<le> e" "e < qlen" "rb1 ! e = 0" by simp_all
      show ?thesis
      proof (cases "e + 1 + 3 \<ge> qlen")
        case True
        then show ?thesis using lb(1,2) Some False len Suc.prems by auto
      next
        case q: False
        let ?t = "word16 (rb1 ! (e + 1)) (rb1 ! (e + 2))"
        let ?c = "word16 (rb1 ! (e + 3)) (rb1 ! (e + 4))"
        have rd: "read_u16 rb1 (e + 1) = Some ?t" "read_u16 rb1 (e + 1 + 2) = Some ?c"
          using q lb(2) Suc.prems(3) by (auto simp: read_u16_def eval_nat_numeral)
        have go: "dns_questions (Suc n) d rb qlen off ans =
          (if ?t = 1 \<and> ?c = 1 then Option.bind (hev_mapped_dns_find d (drop (off + 1) rb1))
             (\<lambda>(idx, d). dns_questions n d rb1 qlen (e + 5) (if idx \<ge> 0 then ans @ [(m_net d OR word_of_int idx, off)] else ans))
           else dns_questions n d rb1 qlen (e + 5) ans)"
          using lb(1) Some False len q rd by (cases "hev_mapped_dns_find d (drop (off + 1) rb1)") (auto simp: split_beta Let_def eval_nat_numeral)
        show ?thesis
        proof (cases "?t = 1 \<and> ?c = 1")
          case True
          then have "hi8 ?t = 0" by (simp add: hi8_def)
          then have "rb1 ! (e + 1) = 0" by simp
          then have "\<exists>s. cstr (drop (off + 1) rb1) = Some s"
            using e q lb(2) Suc.prems(3) nul_below [of "off + 1" "e + 1" rb1] by auto
          then obtain s where s: "cstr (drop (off + 1) rb1) = Some s" by blast
          from find_total [OF Suc.prems(1) s Suc.prems(2)] obtain i d1 xs1 ls1 where
            f: "hev_mapped_dns_find d (drop (off + 1) rb1) = Some (i, d1)" "dns_inv d1 xs1 ls1" "allocs_ok d1" by blast
          let ?a = "if i \<ge> 0 then ans @ [(m_net d1 OR word_of_int i, off)] else ans"
          have "n + length ?a \<le> 32" "length ?a \<le> Suc (length ans)" using Suc.prems(4) by auto
          with Suc.IH [OF f(2,3), of rb1 ?a "e + 5"] lb(2) Suc.prems(3,5) e obtain d' rb' r' xs' ls' where
            "dns_questions n d1 rb1 qlen (e + 5) ?a = Some (d', rb', r')" "dns_inv d' xs' ls'" "allocs_ok d'"
            "length rb' = length rb1" "case r' of None \<Rightarrow> True | Some (e', ans') \<Rightarrow> e + 5 \<le> e' \<and> (e + 5 \<le> qlen \<longrightarrow> e' \<le> qlen) \<and> length ans' \<le> length ?a + n"
            by auto
          then show ?thesis using go True f(1) lb(2) e q \<open>length ?a \<le> _\<close>
            by (auto split: option.splits prod.splits)
        next
          case f: False
          from Suc.IH [OF Suc.prems(1,2), of rb1 ans "e + 5"] lb(2) Suc.prems(3,4,5) e obtain d' rb' r' xs' ls' where
            "dns_questions n d rb1 qlen (e + 5) ans = Some (d', rb', r')" "dns_inv d' xs' ls'" "allocs_ok d'"
            "length rb' = length rb1" "case r' of None \<Rightarrow> True | Some (e', ans') \<Rightarrow> e + 5 \<le> e' \<and> (e + 5 \<le> qlen \<longrightarrow> e' \<le> qlen) \<and> length ans' \<le> length ans + n"
            by auto
          then show ?thesis using go f lb(2) e q by (auto split: option.splits prod.splits)
        qed
      qed
    qed
  qed
qed

lemma write_answer_ok:
  assumes "off + 16 \<le> length sb"
  shows "\<exists>sb'. write_answer sb off a = Some sb' \<and> length sb' = length sb"
  using assms by (auto simp: write_answer_def write_u16_def write_u32_def memput_def)

lemma dns_answers_safe:
  assumes "slen \<le> length sb"
  shows "\<exists>sb' r. dns_answers as sb slen off = Some (sb', r) \<and> length sb' = length sb \<and>
     (case r of None \<Rightarrow> True | Some e \<Rightarrow> e = off + 16 * length as \<and> (as = [] \<or> e \<le> slen))"
  using assms
proof (induction as arbitrary: sb off)
  case Nil
  then show ?case by simp
next
  case (Cons a as)
  show ?case
  proof (cases "off + 15 \<ge> slen")
    case False
    with Cons.prems have "off + 16 \<le> length sb" by simp
    from write_answer_ok [OF this] obtain sb1 where sb1: "write_answer sb off a = Some sb1" "length sb1 = length sb" by blast
    from Cons.IH [of sb1 "off + 16"] Cons.prems sb1(2) obtain sb' r where
      "dns_answers as sb1 slen (off + 16) = Some (sb', r)" "length sb' = length sb1"
      "case r of None \<Rightarrow> True | Some e \<Rightarrow> e = off + 16 + 16 * length as \<and> (as = [] \<or> e \<le> slen)" by auto
    then show ?thesis using False sb1 by (auto split: option.splits)
  qed simp
qed

lemma field_ok: "off + 2 \<le> length b \<Longrightarrow> \<exists>v. field16 b off = Some v"
  by (cases "drop off b" rule: load16.cases) (auto simp: field16_def dest: arg_cong [where f = length])

lemma set_field_ok: "off + 2 \<le> length b \<Longrightarrow> \<exists>b'. set_field16 b off v = Some b' \<and> length b' = length b"
  by (simp add: set_field16_def memput_def store16_def)

lemma dns_handle_bounds:
  assumes "dns_inv d xs ls" and "allocs_ok d" and "qlen \<le> length req" and "slen \<le> length res"
  shows "\<exists>r d' rb sb xs' ls'. hev_mapped_dns_handle d req qlen res slen = Some (r, d', rb, sb) \<and>
     dns_inv d' xs' ls' \<and> allocs_ok d' \<and> length rb = length req \<and> length sb = length res \<and>
     (r = - 1 \<or> 12 \<le> r \<and> r \<le> int slen)"
proof (cases "slen < qlen \<or> qlen < 12")
  case True
  then show ?thesis using assms by (auto simp: hev_mapped_dns_handle_def)
next
  case False
  then have sz: "qlen \<le> slen" "12 \<le> qlen" "12 \<le> length req" "qlen \<le> length res" "12 \<le> length res"
    using assms(3,4) by auto
  obtain q where q: "memget req 0 qlen = Some q" "length q = qlen" using assms(3) by (simp add: memget_def)
  obtain sb0 where sb0: "memput res 0 q = Some sb0" "length sb0 = length res"
    using memput_ok [of 0 q res] q(2) sz by auto
  obtain qd where qd: "field16 req 4 = Some qd" using field_ok [of 4 req] sz by auto
  obtain rb1 where rb1: "set_field16 req 4 (ntohs qd) = Some rb1" "length rb1 = length req"
    using set_field_ok [of 4 req "ntohs qd"] sz by auto
  have ok: "\<exists>b'. set_field16 b off v = Some b' \<and> length b' = length res" if "length b = length res" "off \<le> 10" for b off v
    using set_field_ok [of off b v] that sz by auto
  obtain fl where fl: "field16 sb0 2 = Some fl" using field_ok [of 2 sb0] sb0 sz by auto
  obtain sb1 where sb1: "set_field16 sb0 2 (ntohs fl) = Some sb1" "length sb1 = length res" using ok [OF sb0(2), of 2] by auto
  obtain sb2 where sb2: "set_field16 sb1 8 0 = Some sb2" "length sb2 = length res" using ok [OF sb1(2), of 8] by auto
  obtain sb3 where sb3: "set_field16 sb2 6 0 = Some sb3" "length sb3 = length res" using ok [OF sb2(2), of 6] by auto
  obtain sb4 where sb4: "set_field16 sb3 10 0 = Some sb4" "length sb4 = length res" using ok [OF sb3(2), of 10] by auto
  note pre = q(1) sb0(1) qd rb1(1) fl sb1(1) sb2(1) sb3(1) sb4(1)
  show ?thesis
  proof (cases "ntohs qd > 32")
    case True
    then show ?thesis using False pre rb1(2) sb4(2) assms by (auto simp: hev_mapped_dns_handle_def)
  next
    case small: False
    then have "unat (ntohs qd) \<le> 32" by (simp add: word_le_nat_alt not_less)
    with dns_questions_safe [OF assms(1,2), of qlen rb1 "unat (ntohs qd)" "[]" 12] assms(3) rb1(2) obtain d' rb' r xs' ls' where
      qs: "dns_questions (unat (ntohs qd)) d rb1 qlen 12 [] = Some (d', rb', r)" "dns_inv d' xs' ls'" "allocs_ok d'"
      "length rb' = length req" "case r of None \<Rightarrow> True | Some (e, ans') \<Rightarrow> 12 \<le> e \<and> (12 \<le> qlen \<longrightarrow> e \<le> qlen)"
      by (auto split: option.splits)
    show ?thesis
    proof (cases r)
      case None
      then show ?thesis using False pre small qs sb4(2) by (auto simp: hev_mapped_dns_handle_def)
    next
      case (Some ea)
      obtain e ans where ea: "ea = (e, ans)" by force
      with Some qs(5) sz have e: "12 \<le> e" "e \<le> qlen" by simp_all
      from dns_answers_safe [of slen sb4 ans e] assms(4) sb4(2) obtain sb' r' where
        an: "dns_answers ans sb4 slen e = Some (sb', r')" "length sb' = length res"
        "case r' of None \<Rightarrow> True | Some e' \<Rightarrow> e' = e + 16 * length ans \<and> (ans = [] \<or> e' \<le> slen)" by auto
      show ?thesis
      proof (cases r')
        case None
        then show ?thesis using False pre small qs Some ea an by (auto simp: hev_mapped_dns_handle_def)
      next
        case (Some e')
        with an(3) e sz have e': "12 \<le> e'" "e' \<le> slen" by (cases "ans = []"; simp)+
        obtain f2 where f2: "field16 sb' 2 = Some f2" using field_ok [of 2 sb'] an(2) sz by auto
        obtain sb5 where sb5: "set_field16 sb' 2 (htons (f2 OR 0x8000 OR drop_bit 1 (f2 AND 0x100))) = Some sb5" "length sb5 = length res"
          using ok [OF an(2), of 2] by auto
        obtain sb6 where sb6: "set_field16 sb5 6 (htons (of_nat (length ans))) = Some sb6" "length sb6 = length res"
          using ok [OF sb5(2), of 6] by auto
        have "hev_mapped_dns_handle d req qlen res slen = Some (int e', d', rb', sb6)"
          using False pre small qs(1) \<open>r = Some ea\<close> ea an(1) Some f2 sb5(1) sb6(1)
          by (simp add: hev_mapped_dns_handle_def)
        then show ?thesis using qs e' sb6(2) by auto
      qed
    qed
  qed
qed

section \<open>A well-formed query\<close>

text \<open>A name on the wire, and the dotted name the handler reads from it.\<close>

definition wire_name :: "u8 list list \<Rightarrow> u8 list" where
  "wire_name labels = concat (map (\<lambda>l. of_nat (length l) # l) labels) @ [0]"

definition dots :: "u8 list list \<Rightarrow> u8 list" where
  "dots labels = concat (map (\<lambda>l. 46 # l) labels)"

definition dotted :: "u8 list list \<Rightarrow> u8 list" where
  "dotted labels = drop 1 (dots labels)"

definition label_ok :: "u8 list \<Rightarrow> bool" where
  "label_ok l \<longleftrightarrow> l \<noteq> [] \<and> length l < 64 \<and> 0 \<notin> set l"

lemma label_len: "label_ok l \<Longrightarrow> unat (of_nat (length l) :: u8) = length l \<and> (of_nat (length l) :: u8) \<noteq> 0"
  by (auto simp: label_ok_def unat_of_nat of_nat_eq_0_iff word_of_nat_eq_0_iff dest: nat_dvd_not_less)

lemma length_dots: "length (wire_name labels) = length (dots labels) + 1"
  by (simp add: wire_name_def dots_def length_concat comp_def)

lemma dots_nonzero: "\<forall>l\<in>set labels. label_ok l \<Longrightarrow> 0 \<notin> set (dots labels)"
  by (auto simp: dots_def label_ok_def)

lemma dns_labels_name:
  assumes "\<forall>l\<in>set labels. label_ok l" and "length pre + length (wire_name labels) \<le> qlen"
  shows "dns_labels (pre @ wire_name labels @ post) qlen (length pre) =
    Some (pre @ dots labels @ 0 # post, Some (length pre + length (dots labels)))"
  using assms
proof (induction labels arbitrary: pre)
  case Nil
  then show ?case by (subst dns_labels.simps) (simp add: wire_name_def dots_def)
next
  case (Cons l ls)
  have l: "unat (of_nat (length l) :: u8) = length l" "(of_nat (length l) :: u8) \<noteq> 0"
    using label_len Cons.prems(1) by auto
  have w: "wire_name (l # ls) = of_nat (length l) # l @ wire_name ls" by (simp add: wire_name_def)
  have "length pre + 1 + length l < qlen"
    using Cons.prems(2) w length_dots [of ls] by simp
  moreover have "dns_labels ((pre @ 46 # l) @ wire_name ls @ post) qlen (length (pre @ 46 # l)) =
     Some ((pre @ 46 # l) @ dots ls @ 0 # post, Some (length (pre @ 46 # l) + length (dots ls)))"
    using Cons.IH [of "pre @ 46 # l"] Cons.prems w by simp
  moreover have "(pre @ wire_name (l # ls) @ post)[length pre := 46] = (pre @ 46 # l) @ wire_name ls @ post"
    using w by simp
  ultimately show ?case
    using l w by (subst dns_labels.simps) (simp add: nth_append dots_def)
qed

text \<open>What one question of type A and class IN does to the loop.\<close>

lemma dns_question_one:
  assumes "\<forall>l\<in>set labels. label_ok l" and "labels \<noteq> []" and "length pre + length (wire_name labels) + 4 \<le> qlen"
    and "hev_mapped_dns_find d (dotted labels @ 0 # [0, 1, 0, 1] @ post) = Some (idx, d')"
    and off: "off = length pre"
  shows "dns_questions (Suc 0) d (pre @ wire_name labels @ [0, 1, 0, 1] @ post) qlen off [] =
    Some (d', pre @ dots labels @ 0 # [0, 1, 0, 1] @ post,
      Some (off + length (wire_name labels) + 4,
        if idx \<ge> 0 then [(m_net d' OR word_of_int idx, off)] else []))"
proof -
  let ?rb = "pre @ dots labels @ 0 # [0, 1, 0, 1] @ post"
  have lb: "dns_labels (pre @ wire_name labels @ [0, 1, 0, 1] @ post) qlen (length pre) =
    Some (?rb, Some (length pre + length (dots labels)))"
    using dns_labels_name [OF assms(1), of pre qlen "[0, 1, 0, 1] @ post"] assms(3) by simp
  obtain l ls where ls: "labels = l # ls" using assms(2) by (cases labels) auto
  then have dr: "drop (length pre + 1) ?rb = dotted labels @ 0 # [0, 1, 0, 1] @ post"
    by (simp add: dotted_def dots_def)
  have w1: "word16 0 1 = 1" by (simp add: word16_def)
  have e: "length pre + length (dots labels) + 1 + 3 < qlen" "length pre < qlen"
    using assms(3) length_dots [of labels] by simp_all
  have rd: "read_u16 ?rb (length pre + length (dots labels) + 1) = Some 1"
    "read_u16 ?rb (length pre + length (dots labels) + 1 + 2) = Some 1"
    using w1 by (simp_all add: read_u16_def nth_append)
  show ?thesis
    using lb e rd dr assms(4) off length_dots [of labels]
    by (simp add: Let_def split_beta eval_nat_numeral)
qed

text \<open>The answer record of an address.\<close>

definition answer_bytes :: "u32 \<Rightarrow> nat \<Rightarrow> u8 list" where
  "answer_bytes ip ipo = [hi8 (0xc000 OR of_nat ipo), lo8 (0xc000 OR of_nat ipo), 0, 1, 0, 1, 0, 0, 0, 1, 0, 4,
     ucast (drop_bit 24 ip), ucast (drop_bit 16 ip), ucast (drop_bit 8 ip), ucast ip]"

lemma memput_mid: "length old = length bs \<Longrightarrow> memput (a @ old @ b) (length a) bs = Some (a @ bs @ b)"
  by (simp add: memput_def)

lemma write_answer_bytes:
  assumes "length old = 16"
  shows "write_answer (a @ old @ b) (length a) (ip, ipo) = Some (a @ answer_bytes ip ipo @ b)"
proof -
  obtain x0 x1 x2 x3 x4 x5 x6 x7 x8 x9 xa xb xc xd xe xf where
    old: "old = [x0, x1, x2, x3, x4, x5, x6, x7, x8, x9, xa, xb, xc, xd, xe, xf]"
    using assms by (auto simp: length_Suc_conv eval_nat_numeral)
  have b1: "hi8 1 = 0" "lo8 1 = 1" "hi8 4 = 0" "lo8 4 = 4"
    by (simp_all add: hi8_def lo8_def)
  show ?thesis
    unfolding old by (simp add: write_answer_def write_u16_def write_u32_def memput_def b1 answer_bytes_def)
qed

definition dns_hdr :: "u8 list \<Rightarrow> bool" where
  "dns_hdr h \<longleftrightarrow> length h = 12 \<and> h ! 4 = 0 \<and> h ! 5 = 1"

definition reply_flags :: "u16 \<Rightarrow> u16" where
  "reply_flags fl = fl OR 0x8000 OR drop_bit 1 (fl AND 0x100)"

definition reply_hdr :: "u8 list \<Rightarrow> u8 list" where
  "reply_hdr h = (let fl = reply_flags (word16 (h ! 2) (h ! 3))
     in [h ! 0, h ! 1, hi8 fl, lo8 fl, 0, 1, 0, 1, 0, 0, 0, 0])"

lemma ntohs_store: "word16 (lo8 (word16 a b)) (hi8 (word16 a b)) = word16 b a"
  by simp

lemma handle_answer:
  assumes "dns_hdr h" and "\<forall>l\<in>set labels. label_ok l" and "labels \<noteq> []"
    and "req = h @ wire_name labels @ [0, 1, 0, 1] @ post" and "length req \<le> length res"
    and "length (h @ wire_name labels) + 20 \<le> length res"
    and "hev_mapped_dns_find d (dotted labels @ 0 # [0, 1, 0, 1] @ post) = Some (int i, d')"
  shows "\<exists>rb sb. hev_mapped_dns_handle d req (length req) res (length res) =
       Some (int (length (h @ wire_name labels) + 20), d', rb, sb) \<and>
     take (length (h @ wire_name labels) + 20) sb =
       reply_hdr h @ wire_name labels @ [0, 1, 0, 1] @ answer_bytes (m_net d' OR word_of_int (int i)) 12"
proof -
  obtain i0 i1 f0 f1 a0 a1 n0 n1 r0 r1 where h: "h = [i0, i1, f0, f1, 0, 1, a0, a1, n0, n1, r0, r1]"
    using assms(1) by (auto simp: dns_hdr_def length_Suc_conv eval_nat_numeral)
  let ?q = "wire_name labels @ [0, 1, 0, 1]"
  let ?tail = "post @ drop (length req) res"
  have len: "length req = 12 + length ?q + length post" using assms(4) h by simp
  have tl: "16 \<le> length ?tail" using assms(5,6) len h by simp
  have put: "memput res 0 req = Some (h @ ?q @ ?tail)"
    using assms(4,5) by (simp add: memput_def)
  have w: "htons (word16 1 0) = 1" "load16 (0 # 1 # x) = Some (word16 1 0)" for x
    by (simp_all add: htons_def word16_def lo8_def hi8_def)
  let ?pre = "[i0, i1, f0, f1, 1, 0, a0, a1, n0, n1, r0, r1] :: u8 list"
  have rb: "set_field16 req 4 (htons (word16 1 0)) = Some (?pre @ ?q @ post)"
    using assms(4) h by (simp add: set_field16_def memput_def w(1) store16_def lo8_def hi8_def)
  have qs: "dns_questions (Suc 0) d (?pre @ ?q @ post) (length req) 12 [] =
    Some (d', ?pre @ dots labels @ 0 # [0, 1, 0, 1] @ post, Some (12 + length ?q, [(m_net d' OR word_of_int (int i), 12)]))"
    using dns_question_one [OF assms(2,3), of ?pre "length req" d post "int i" d' 12] len assms(7)
    by (simp del: dns_questions.simps add: ac_simps)
  let ?fl = "word16 f0 f1"
  let ?sb = "[i0, i1, lo8 ?fl, hi8 ?fl, 0, 1, 0, 0, 0, 0, 0, 0] @ ?q @ ?tail"
  have flags: "field16 (h @ ?q @ ?tail) 2 = Some (word16 f1 f0)" "htons (word16 f1 f0) = ?fl"
    using h by (simp_all add: field16_def htons_def)
  have s1: "set_field16 (h @ ?q @ ?tail) 2 ?fl = Some ([i0, i1, lo8 ?fl, hi8 ?fl, 0, 1, a0, a1, n0, n1, r0, r1] @ ?q @ ?tail)"
    using h by (simp add: set_field16_def memput_def store16_def)
  have s2: "set_field16 ([i0, i1, lo8 ?fl, hi8 ?fl, 0, 1, a0, a1, n0, n1, r0, r1] @ ?q @ ?tail) 8 0 =
    Some ([i0, i1, lo8 ?fl, hi8 ?fl, 0, 1, a0, a1, 0, 0, r0, r1] @ ?q @ ?tail)"
    by (simp add: set_field16_def memput_def store16_def lo8_def hi8_def)
  have s3: "set_field16 ([i0, i1, lo8 ?fl, hi8 ?fl, 0, 1, a0, a1, 0, 0, r0, r1] @ ?q @ ?tail) 6 0 =
    Some ([i0, i1, lo8 ?fl, hi8 ?fl, 0, 1, 0, 0, 0, 0, r0, r1] @ ?q @ ?tail)"
    by (simp add: set_field16_def memput_def store16_def lo8_def hi8_def)
  have s4: "set_field16 ([i0, i1, lo8 ?fl, hi8 ?fl, 0, 1, 0, 0, 0, 0, r0, r1] @ ?q @ ?tail) 10 0 = Some ?sb"
    by (simp add: set_field16_def memput_def store16_def lo8_def hi8_def)
  let ?an = "answer_bytes (m_net d' OR word_of_int (int i)) 12"
  let ?sb2 = "[i0, i1, lo8 ?fl, hi8 ?fl, 0, 1, 0, 0, 0, 0, 0, 0] @ ?q @ ?an @ drop 16 ?tail"
  have hdr_len: "length ([i0, i1, lo8 ?fl, hi8 ?fl, 0, 1, 0, 0, 0, 0, 0, 0] @ ?q) = 12 + length ?q"
    by simp
  have "write_answer (([i0, i1, lo8 ?fl, hi8 ?fl, 0, 1, 0, 0, 0, 0, 0, 0] @ ?q) @ take 16 ?tail @ drop 16 ?tail)
      (length ([i0, i1, lo8 ?fl, hi8 ?fl, 0, 1, 0, 0, 0, 0, 0, 0] @ ?q)) (m_net d' OR word_of_int (int i), 12) =
      Some (([i0, i1, lo8 ?fl, hi8 ?fl, 0, 1, 0, 0, 0, 0, 0, 0] @ ?q) @ ?an @ drop 16 ?tail)"
    by (rule write_answer_bytes) (use tl in simp)
  moreover have "([i0, i1, lo8 ?fl, hi8 ?fl, 0, 1, 0, 0, 0, 0, 0, 0] @ ?q) @ take 16 ?tail @ drop 16 ?tail = ?sb"
    by (simp only: append_take_drop_id append_assoc)
  ultimately have "write_answer ?sb (12 + length ?q) (m_net d' OR word_of_int (int i), 12) = Some ?sb2"
    by (simp only: append_assoc hdr_len)
  then have an: "dns_answers [(m_net d' OR word_of_int (int i), 12)] ?sb (length res) (12 + length ?q) =
      Some (?sb2, Some (12 + length ?q + 16))"
    using assms(6) h by (simp del: take_append drop_append)
  have fl2: "field16 ?sb2 2 = Some ?fl" by (simp add: field16_def)
  let ?rf = "reply_flags ?fl"
  have s5: "set_field16 ?sb2 2 (htons ?rf) =
    Some ([i0, i1, hi8 ?rf, lo8 ?rf, 0, 1, 0, 0, 0, 0, 0, 0] @ ?q @ ?an @ drop 16 ?tail)"
    by (simp add: set_field16_def memput_def store16_htons)
  let ?sb6 = "[i0, i1, hi8 ?rf, lo8 ?rf, 0, 1, 0, 1, 0, 0, 0, 0] @ ?q @ ?an @ drop 16 ?tail"
  have s6: "set_field16 ([i0, i1, hi8 ?rf, lo8 ?rf, 0, 1, 0, 0, 0, 0, 0, 0] @ ?q @ ?an @ drop 16 ?tail) 6 (htons 1) = Some ?sb6"
    by (simp add: set_field16_def memput_def store16_htons lo8_def hi8_def)
  have qd: "field16 req 4 = Some (word16 1 0)" using assms(4) h by (simp add: field16_def)
  have "hev_mapped_dns_handle d req (length req) res (length res) =
    Some (int (12 + length ?q + 16), d', ?pre @ dots labels @ 0 # [0, 1, 0, 1] @ post, ?sb6)"
    using len assms(5) put qd rb flags s1 s2 s3 s4 qs an fl2 s5 s6
    by (simp add: hev_mapped_dns_handle_def memget_def w(1) reply_flags_def del: dns_questions.simps dns_answers.simps take_append drop_append)
  moreover have "take (length (h @ wire_name labels) + 20) ?sb6 =
       reply_hdr h @ wire_name labels @ [0, 1, 0, 1] @ ?an"
  proof -
    let ?x = "reply_hdr h @ wire_name labels @ [0, 1, 0, 1] @ ?an"
    have "?sb6 = ?x @ drop 16 ?tail" using h by (simp add: reply_hdr_def Let_def)
    moreover have "length ?x = length (h @ wire_name labels) + 20"
      using h by (simp add: reply_hdr_def Let_def answer_bytes_def)
    ultimately show ?thesis by (metis append_eq_conv_conj)
  qed
  ultimately show ?thesis using h by auto
qed

section \<open>From the address back to the name\<close>

lemma host_bits:
  assumes "msk = NOT (Bit_Operations.mask k)" and "net AND Bit_Operations.mask k = (0 :: u32)" and "i < 2 ^ k" and "k < 31"
  shows "sint ((net OR word_of_int (int i)) AND NOT msk) = int i"
proof -
  have "(net OR word_of_int (int i)) AND NOT msk = (net AND Bit_Operations.mask k) OR (word_of_int (int i) AND Bit_Operations.mask k)"
    using assms(1) by (simp add: bit.conj_disj_distrib2)
  also have "\<dots> = take_bit k (word_of_int (int i))"
    using assms(2) by (simp add: take_bit_eq_mask)
  also have "take_bit k (word_of_int (int i) :: u32) = word_of_int (int i)"
    using assms(3,4) by (simp add: word_unat_eq_iff unsigned_take_bit_eq take_bit_nat_eq_self_iff unat_of_nat)
  also have "sint (word_of_int (int i) :: u32) = int i"
  proof -
    have "(2::nat) ^ k \<le> 2 ^ 30" using assms(4) by (intro power_increasing) auto
    with assms(3) have "int i < 2 ^ 31" by simp
    then show ?thesis using signed_take_bit_int_eq_self [of 31 "int i"] by (simp add: signed_of_nat)
  qed
  finally show ?thesis .
qed

lemma net_bits:
  assumes "msk = NOT (Bit_Operations.mask k)" and "net AND Bit_Operations.mask k = (0 :: u32)" and "i < 2 ^ k" and "k < 31"
  shows "(net OR word_of_int (int i)) AND msk = net"
proof -
  have t: "take_bit k (word_of_int (int i) :: u32) = word_of_int (int i)"
    using assms(3,4) by (simp add: word_unat_eq_iff unsigned_take_bit_eq take_bit_nat_eq_self_iff unat_of_nat)
  have "(word_of_int (int i) :: u32) AND msk = take_bit k (word_of_int (int i)) AND msk" by (simp only: t)
  also have "\<dots> = 0" using assms(1) by (simp add: take_bit_eq_mask and.assoc)
  finally have "(word_of_int (int i) :: u32) AND msk = 0" .
  moreover have "net AND msk = net"
  proof -
    have "net = (net AND Bit_Operations.mask k) OR (net AND NOT (Bit_Operations.mask k))"
      by (simp flip: bit.conj_disj_distrib)
    then show ?thesis using assms(1,2) by simp
  qed
  ultimately show ?thesis by (simp add: bit.conj_disj_distrib2)
qed

lemma lookup_slot:
  assumes "dns_inv d xs ls" and "(nm, i) \<in> set (dns_view d ls)" and "sint (ip AND NOT (m_mask d)) = int i"
  shows "\<exists>name d' ls'. hev_mapped_dns_lookup d ip = Some (Some name, d') \<and> cstr name = Some nm \<and> dns_inv d' xs ls'"
proof -
  have I: "indexed d ls" using assms(1) by (simp add: dns_inv_def)
  from assms(2) obtain n where n: "n \<in> set ls" "dn_str d n = nm" "dn_slot d n = i" by (auto simp: dns_view_def)
  have "map_of (map (\<lambda>(nm, i). (i, nm)) (dns_view d ls)) i = Some nm"
    using map_of_member [OF indexed_slots [OF I] n(1), of "dn_str d"] n(2,3) by (simp add: dns_view_def comp_def)
  moreover have "0 \<le> sint (ip AND NOT (m_mask d))" using assms(3) by simp
  from lookup_refines [OF assms(1) this] obtain r d' ls' where r: "hev_mapped_dns_lookup d ip = Some (r, d')" "dns_inv d' xs ls'"
    "(Option.bind r cstr, dns_view d' ls') = lru_lookup (dns_view d ls) i" using assms(3) by auto
  ultimately have "Option.bind r cstr = Some nm" by simp
  then show ?thesis using r(1,2) by (auto simp: bind_eq_Some_conv)
qed

lemma lru_find_member: "lru_find cap c nm = (i, c') \<Longrightarrow> (nm, i) \<in> set c'"
  by (auto split: option.split_asm if_split_asm)

section \<open>Destruction\<close>

lemma destruct_loop_frees:
  assumes "chain (l_mem (m_list d)) pv ls 0" and "distinct ls" and "0 \<notin> set ls" and "\<forall>n\<in>set ls. m_nodes d n \<noteq> None"
  shows "\<exists>d'. destruct_loop d (first0 ls 0) = Some d' \<and> m_nodes d' = m_nodes d |` (- set ls)"
  using assms
proof (induction ls arbitrary: d pv)
  case Nil
  then show ?case by (subst destruct_loop.simps) (simp add: restrict_map_def)
next
  case (Cons n ls)
  then obtain nd where nd: "m_nodes d n = Some nd" by auto
  let ?d = "node_free d n"
  have "chain (l_mem (m_list ?d)) n ls 0" "\<forall>m\<in>set ls. m_nodes ?d m \<noteq> None"
    using Cons.prems by (auto simp: node_free_def frame_simps)
  from Cons.IH [OF this(1) _ _ this(2)] Cons.prems obtain d' where
    d': "destruct_loop ?d (first0 ls 0) = Some d'" "m_nodes d' = m_nodes ?d |` (- set ls)" by auto
  have "destruct_loop d n = Some d'"
    using Cons.prems nd d'(1) by (subst destruct_loop.simps) (auto simp: hev_list_node_next_def hev_mapped_dns_node_free_def)
  moreover have "m_nodes d' = m_nodes d |` (- set (n # ls))"
    using d'(2) by (auto simp: node_free_def restrict_map_def fun_eq_iff)
  ultimately show ?case by simp
qed

section \<open>Properties\<close>

definition dns_one :: mdns where
  "dns_one = \<lparr>m_use = 1, m_max = 2, m_net = 0x64400000, m_mask = 0xFFFFFFFE,
     m_list = \<lparr>l_head = 16, l_tail = 16, l_mem = [16 \<mapsto> \<lparr>ln_next = 0, ln_prev = 0\<rparr>]\<rparr>,
     m_tree = \<lparr>rb_root = 16, rb_mem = [16 \<mapsto> cell 0 Black 0 0]\<rparr>,
     m_records = [16, 0], m_nodes = [16 \<mapsto> \<lparr>dn_name = [97, 0], dn_idx = 0\<rparr>], m_alloc = [(32, True)]\<rparr>"

lemma dns_one_inv: "dns_inv dns_one [16] [16]" "fresh_node dns_one 32" "allocs_ok dns_one"
  "m_alloc dns_one = (32, True) # []"
proof -
  have "rbt_at (m_tree dns_one) (Node Black Leaf 16 Leaf)" "redblack (Node Black Leaf 16 Leaf)"
    by (simp_all add: dns_one_def rbt_at_def wf_addrs_def aligned_def redblack_def)
  then have "rb_holds (m_tree dns_one) [16]" unfolding rb_holds_def
    by (intro exI [of _ "Node Black Leaf 16 Leaf"]) simp
  then show "dns_inv dns_one [16] [16]"
    by (auto simp: dns_inv_def linked_def indexed_def)
      (auto simp: dns_one_def list_at_def dn_slot_def less_Suc_eq)
qed (simp_all add: dns_one_def fresh_node_def aligned_def allocs_ok_def)

text \<open>
  C17: Looking a name up in the cache behaves like the abstract least-recently-used list: a known name
  keeps its slot and becomes the most recent one, a new name gets the next free slot, and when the
  cache is full the slot of the name that was not used for the longest time. Tree, list and table
  stay consistent.
\<close>

theorem mapped_dns_find_lru:
  assumes "dns_inv d xs ls" and "cstr name = Some nm" and "m_alloc d = (p, True) # rest" and "fresh_node d p"
  shows "\<exists>i d' xs' ls'. hev_mapped_dns_find d name = Some (int i, d') \<and> dns_inv d' xs' ls' \<and>
     (i, dns_view d' ls') = lru_find (length (m_records d)) (dns_view d ls) nm"
  using find_refines [OF assms] by blast

lemma mapped_dns_find_lru_witness:
  "\<exists>i d' xs' ls'. hev_mapped_dns_find dns_one [98, 0] = Some (int i, d') \<and> dns_inv d' xs' ls' \<and>
     (i, dns_view d' ls') = (1, [([97], 0), ([98], 1)])"
  using mapped_dns_find_lru [OF dns_one_inv(1) _ dns_one_inv(4,2), of "[98, 0]" "[98]"]
  by (simp add: dns_one_def dns_view_def dn_str_def dn_slot_def)

text \<open>
  C18: Whatever the request contains, the DNS handler returns without reading or writing outside the
  request and the response buffer or the 32-entry answer tables, keeps the cache consistent, and
  reports a length between the header size and the size of the response buffer, or failure.
\<close>

theorem mapped_dns_handle_safe:
  assumes "dns_inv d xs ls" and "allocs_ok d" and "qlen \<le> length req" and "slen \<le> length res"
  shows "\<exists>r d' rb sb xs' ls'. hev_mapped_dns_handle d req qlen res slen = Some (r, d', rb, sb) \<and>
     dns_inv d' xs' ls' \<and> length rb = length req \<and> length sb = length res \<and>
     (r = - 1 \<or> 12 \<le> r \<and> r \<le> int slen)"
  using dns_handle_bounds [OF assms] by blast

lemma mapped_dns_handle_safe_witness:
  "let req = [0, 1, 1, 0, 0, 1, 0, 0, 0, 0, 0, 0, 200, 98, 0, 0, 1, 0, 1]; res = replicate 40 0 in
   \<exists>r d' rb sb xs' ls'. hev_mapped_dns_handle dns_one req 19 res 40 = Some (r, d', rb, sb) \<and>
     dns_inv d' xs' ls' \<and> length rb = length req \<and> length sb = length res \<and>
     (r = - 1 \<or> 12 \<le> r \<and> r \<le> int 40)"
  unfolding Let_def by (rule mapped_dns_handle_safe [OF dns_one_inv(1,3)]) simp_all

lemma query_resolves:
  assumes "dns_inv d xs ls" and "m_alloc d = (p, True) # rest" and "fresh_node d p"
    and "m_mask d = NOT (Bit_Operations.mask k)" and "m_net d AND Bit_Operations.mask k = 0" and "length (m_records d) \<le> 2 ^ k" and "k < 31"
    and "dns_hdr h" and "\<forall>l\<in>set labels. label_ok l" and "labels \<noteq> []"
    and "length (h @ wire_name labels @ [0, 1, 0, 1] @ post) \<le> length res"
    and "length (h @ wire_name labels) + 20 \<le> length res"
  shows "\<exists>ip d1 rb sb name d2.
     hev_mapped_dns_handle d (h @ wire_name labels @ [0, 1, 0, 1] @ post)
       (length (h @ wire_name labels @ [0, 1, 0, 1] @ post)) res (length res) =
       Some (int (length (h @ wire_name labels) + 20), d1, rb, sb) \<and>
     take (length (h @ wire_name labels) + 20) sb =
       reply_hdr h @ wire_name labels @ [0, 1, 0, 1] @ answer_bytes ip 12 \<and>
     ip AND m_mask d = m_net d \<and>
     hev_mapped_dns_lookup d1 ip = Some (Some name, d2) \<and> cstr name = Some (dotted labels)"
proof -
  let ?name = "dotted labels @ 0 # [0, 1, 0, 1] @ post"
  have "0 \<notin> set (dotted labels)"
    using dots_nonzero [OF assms(9)] by (auto simp: dotted_def dest: in_set_dropD)
  then have nm: "cstr ?name = Some (dotted labels)" by (rule cstr_terminated)
  from find_refines [OF assms(1) nm assms(2,3)] obtain i d1 xs1 ls1 where
    f: "hev_mapped_dns_find d ?name = Some (int i, d1)" "dns_inv d1 xs1 ls1"
    "(i, dns_view d1 ls1) = lru_find (length (m_records d)) (dns_view d ls) (dotted labels)"
    "m_net d1 = m_net d" "m_mask d1 = m_mask d" "length (m_records d1) = length (m_records d)" by blast
  have mem: "(dotted labels, i) \<in> set (dns_view d1 ls1)" by (rule lru_find_member) (rule f(3) [symmetric])
  then obtain n where n: "n \<in> set ls1" "dn_slot d1 n = i" by (auto simp: dns_view_def)
  with f(2) have "i < length ls1" "length ls1 \<le> length (m_records d)"
    using f(6) by (auto simp: dns_inv_def indexed_def dn_slot_def)
  then have i: "i < 2 ^ k" using assms(6) by simp
  let ?ip = "m_net d OR word_of_int (int i)"
  from handle_answer [OF assms(8-10) refl assms(11,12) f(1)] obtain rb sb where
    h: "hev_mapped_dns_handle d (h @ wire_name labels @ [0, 1, 0, 1] @ post)
       (length (h @ wire_name labels @ [0, 1, 0, 1] @ post)) res (length res) =
       Some (int (length (h @ wire_name labels) + 20), d1, rb, sb)"
    "take (length (h @ wire_name labels) + 20) sb =
       reply_hdr h @ wire_name labels @ [0, 1, 0, 1] @ answer_bytes ?ip 12"
    unfolding f(4) by blast
  have "sint (?ip AND NOT (m_mask d1)) = int i"
    unfolding f(5) by (rule host_bits [OF assms(4,5) i assms(7)])
  from lookup_slot [OF f(2) mem this] obtain name d2 where
    "hev_mapped_dns_lookup d1 ?ip = Some (Some name, d2)" "cstr name = Some (dotted labels)" by blast
  moreover have "?ip AND m_mask d = m_net d" by (rule net_bits [OF assms(4,5) i assms(7)])
  ultimately show ?thesis using h by blast
qed

text \<open>
  C3: An address query for a name of valid labels is answered with a response that echoes the
  question, sets the response flag and carries one A record whose address lies in the mapped
  network; looking that address up afterwards gives back the queried name.
\<close>

theorem mapped_dns_resolves:
  assumes "dns_inv d xs ls" and "m_alloc d = (p, True) # rest" and "fresh_node d p"
    and "m_mask d = NOT (Bit_Operations.mask k)" and "m_net d AND Bit_Operations.mask k = 0" and "length (m_records d) \<le> 2 ^ k" and "k < 31"
    and "dns_hdr h" and "\<forall>l\<in>set labels. label_ok l" and "labels \<noteq> []"
    and "length (h @ wire_name labels @ [0, 1, 0, 1] @ post) \<le> length res"
    and "length (h @ wire_name labels) + 20 \<le> length res"
  shows "\<exists>ip d1 rb sb name d2.
     hev_mapped_dns_handle d (h @ wire_name labels @ [0, 1, 0, 1] @ post)
       (length (h @ wire_name labels @ [0, 1, 0, 1] @ post)) res (length res) =
       Some (int (length (h @ wire_name labels) + 20), d1, rb, sb) \<and>
     take (length (h @ wire_name labels) + 20) sb =
       reply_hdr h @ wire_name labels @ [0, 1, 0, 1] @ answer_bytes ip 12 \<and>
     ip AND m_mask d = m_net d \<and>
     hev_mapped_dns_lookup d1 ip = Some (Some name, d2) \<and> cstr name = Some (dotted labels)"
  using assms by (rule query_resolves)

lemma mapped_dns_resolves_witness:
  "let h = [0, 1, 1, 0, 0, 1, 0, 0, 0, 0, 0, 0]; w = wire_name [[98]]; res = replicate 40 0 in
   \<exists>ip d1 rb sb name d2.
     hev_mapped_dns_handle dns_one (h @ w @ [0, 1, 0, 1] @ []) (length (h @ w @ [0, 1, 0, 1] @ [])) res (length res) =
       Some (int (length (h @ w) + 20), d1, rb, sb) \<and>
     take (length (h @ w) + 20) sb = reply_hdr h @ w @ [0, 1, 0, 1] @ answer_bytes ip 12 \<and>
     ip AND m_mask dns_one = m_net dns_one \<and>
     hev_mapped_dns_lookup d1 ip = Some (Some name, d2) \<and> cstr name = Some (dotted [[98]])"
  unfolding Let_def
  by (rule mapped_dns_resolves [OF dns_one_inv(1,4,2), where k = 1])
    (simp_all add: dns_one_def dns_hdr_def label_ok_def wire_name_def)

text \<open>
  The lookup looks only at the host bits: any address with the host bits of a mapped one, also one
  outside the mapped network, is turned into the name. The code never compares the network bits.
\<close>

theorem mapped_dns_lookup_ignores_network:
  assumes "m_net d AND NOT (m_mask d) = 0"
  shows "hev_mapped_dns_lookup d ip = hev_mapped_dns_lookup d (m_net d OR (ip AND NOT (m_mask d)))"
  using assms by (simp add: hev_mapped_dns_lookup_def bit.conj_disj_distrib2 and.assoc)

lemma mapped_dns_lookup_ignores_network_witness:
  "hev_mapped_dns_lookup dns_one 0x08080808 = hev_mapped_dns_lookup dns_one 0x64400000 \<and>
     (0x08080808 :: u32) AND m_mask dns_one \<noteq> m_net dns_one"
  using mapped_dns_lookup_ignores_network [of dns_one "0x08080808"] by (simp add: dns_one_def)

text \<open>
  C27: Destroying the cache frees every node exactly once and reads no node after it was freed.
\<close>

theorem mapped_dns_destruct_frees:
  assumes "dns_inv d xs ls"
  shows "\<exists>d'. hev_mapped_dns_destruct d = Some d' \<and> m_nodes d' = m_nodes d |` (- set ls)"
proof -
  have "linked d xs ls" using assms by (simp add: dns_inv_def)
  then have l: "list_at (m_list d) ls" "\<forall>n\<in>set ls. m_nodes d n \<noteq> None" by (auto simp: linked_def)
  then have "hev_list_first (m_list d) = first0 ls 0" by (simp add: list_at_def hev_list_first_def)
  with destruct_loop_frees [of d 0 ls] l show ?thesis by (simp add: hev_mapped_dns_destruct_def list_at_def)
qed

lemma mapped_dns_destruct_frees_witness:
  "\<exists>d'. hev_mapped_dns_destruct dns_one = Some d' \<and> m_nodes d' = Map.empty"
  using mapped_dns_destruct_frees [OF dns_one_inv(1)] by (auto simp: dns_one_def)

end
