(* ===== verification/Socks5_Addr.thy ===== *)
theory Socks5_Addr
  imports Mapped_Dns
begin

text \<open>
  Socks5 addresses: the packed structures of \<open>core/src/hev-socks5-proto.h\<close>, the conversions of
  \<open>hev-socks5-misc.c\<close> and those of \<open>misc/hev-utils.c\<close>. A structure is the list of its bytes; the
  port is kept in network order, as in the code. An abstract address is what the bytes stand for,
  and the theory relates each conversion to it.
\<close>

section \<open>Constants of the protocol\<close>

abbreviation (input) VERSION_5 :: u8 where "VERSION_5 \<equiv> 5"
abbreviation (input) AUTH_METHOD_NONE :: u8 where "AUTH_METHOD_NONE \<equiv> 0"
abbreviation (input) AUTH_METHOD_USER :: u8 where "AUTH_METHOD_USER \<equiv> 2"
abbreviation (input) AUTH_METHOD_DENY :: u8 where "AUTH_METHOD_DENY \<equiv> 255"
abbreviation (input) AUTH_VERSION_1 :: u8 where "AUTH_VERSION_1 \<equiv> 1"
abbreviation (input) REQ_CMD_CONNECT :: u8 where "REQ_CMD_CONNECT \<equiv> 1"
abbreviation (input) REQ_CMD_UDP_ASC :: u8 where "REQ_CMD_UDP_ASC \<equiv> 3"
abbreviation (input) REQ_CMD_FWD_UDP :: u8 where "REQ_CMD_FWD_UDP \<equiv> 5"
abbreviation (input) RES_REP_SUCC :: u8 where "RES_REP_SUCC \<equiv> 0"
abbreviation (input) RES_REP_FAIL :: u8 where "RES_REP_FAIL \<equiv> 1"
abbreviation (input) RES_REP_HOST :: u8 where "RES_REP_HOST \<equiv> 4"
abbreviation (input) RES_REP_IMPL :: u8 where "RES_REP_IMPL \<equiv> 7"
abbreviation (input) RES_REP_ADDR :: u8 where "RES_REP_ADDR \<equiv> 8"
abbreviation (input) ADDR_TYPE_IPV4 :: u8 where "ADDR_TYPE_IPV4 \<equiv> 1"
abbreviation (input) ADDR_TYPE_NAME :: u8 where "ADDR_TYPE_NAME \<equiv> 3"
abbreviation (input) ADDR_TYPE_IPV6 :: u8 where "ADDR_TYPE_IPV6 \<equiv> 4"

abbreviation (input) AF_UNSPEC :: int where "AF_UNSPEC \<equiv> 0"
abbreviation (input) AF_INET :: int where "AF_INET \<equiv> 2"
abbreviation (input) AF_INET6 :: int where "AF_INET6 \<equiv> 10"

section \<open>The structures\<close>

text \<open>\<open>HevSocks5Addr\<close>: the type, then an IPv4 address and port, an IPv6 address and port, or a length
  and \<open>256 + 2\<close> bytes of name and port. It is 260 bytes long.\<close>

definition addr_size :: nat where
  "addr_size = 260"

definition byte_at :: "u8 list \<Rightarrow> nat \<Rightarrow> u8 option" where
  "byte_at b i = (if i < length b then Some (b ! i) else None)"

definition addr_atype :: "u8 list \<Rightarrow> u8 option" where
  "addr_atype addr = byte_at addr 0"

definition addr_name_len :: "u8 list \<Rightarrow> u8 option" where
  "addr_name_len addr = byte_at addr 1"

record sockaddr6 =
  sin6_family :: int
  sin6_port :: u16
  sin6_addr :: "u8 list"

text \<open>The address of lwIP: its type and its bytes, IPv4 in the first four.\<close>

datatype ip_type = IPADDR_V4 | IPADDR_V6 | IPADDR_ANY

record lwip_addr =
  ip_type :: ip_type
  ip_bytes :: "u8 list"

section \<open>Text forms\<close>

text \<open>\<open>inet_pton (AF_INET, ...)\<close>: four decimal numbers below 256 without leading zeros.\<close>

fun pton4_loop :: "u8 list \<Rightarrow> u8 list \<Rightarrow> bool \<Rightarrow> nat \<Rightarrow> u8 list option" where
  "pton4_loop [] done saw cur = (if saw \<and> length done = 3 then Some (done @ [of_nat cur]) else None)"
| "pton4_loop (c # s) done saw cur =
     (if 48 \<le> c \<and> c \<le> 57 then
        (let v = cur * 10 + unat (c - 48)
         in if saw \<and> cur = 0 \<or> v > 255 then None else pton4_loop s done True v)
      else if c = 46 \<and> saw then
        (if length done \<ge> 3 then None else pton4_loop s (done @ [of_nat cur]) False 0)
      else None)"

definition inet_pton4 :: "u8 list \<Rightarrow> u8 list option" where
  "inet_pton4 s = pton4_loop s [] False 0"

text \<open>
  What comes from outside: the text form of IPv6 addresses, the printing of addresses, and the
  resolver, which is asked with a family and answers with a family and an address.
\<close>

record libc =
  inet_pton6 :: "u8 list \<Rightarrow> u8 list option"
  inet_ntop :: "int \<Rightarrow> u8 list \<Rightarrow> u8 list"
  getaddrinfo :: "u8 list \<Rightarrow> int \<Rightarrow> (int \<times> u8 list) option"

fun decimal :: "nat \<Rightarrow> u8 list" where
  "decimal n = (if n < 10 then [48 + of_nat n] else decimal (n div 10) @ [48 + of_nat (n mod 10)])"

declare decimal.simps [simp del]

section \<open>Conversions\<close>

definition hev_socks5_addr_len :: "u8 list \<Rightarrow> int option" where
  "hev_socks5_addr_len addr = do {
     t \<leftarrow> addr_atype addr;
     if t = ADDR_TYPE_IPV4 then Some 7
     else if t = ADDR_TYPE_IPV6 then Some 19
     else if t = ADDR_TYPE_NAME then do { l \<leftarrow> addr_name_len addr; Some (4 + int (unat l)) }
     else Some (- 1)
   }"

definition hev_socks5_addr_into_str :: "libc \<Rightarrow> u8 list \<Rightarrow> nat \<Rightarrow> u8 list option option" where
  "hev_socks5_addr_into_str lc addr len = do {
     t \<leftarrow> addr_atype addr;
     r \<leftarrow> (if t = ADDR_TYPE_IPV4 then do {
              a \<leftarrow> memget addr 1 4;
              p \<leftarrow> load16 (drop 5 addr);
              Some (Some (inet_ntop lc AF_INET a, ntohs p))
            } else if t = ADDR_TYPE_IPV6 then do {
              a \<leftarrow> memget addr 1 16;
              p \<leftarrow> load16 (drop 17 addr);
              Some (Some (inet_ntop lc AF_INET6 a, ntohs p))
            } else if t = ADDR_TYPE_NAME then do {
              l \<leftarrow> addr_name_len addr;
              sa \<leftarrow> memget addr 2 (unat l);
              s \<leftarrow> cstr (sa @ [0]);
              p \<leftarrow> load16 (drop (2 + unat l) addr);
              Some (Some (s, ntohs p))
            } else Some None);
     case r of
       None \<Rightarrow> Some None
     | Some (sa, port) \<Rightarrow>
         Some (Some (if len = 0 then [] else take (len - 1) ([91] @ sa @ [93, 58] @ decimal (unat port)) @ [0]))
   }"

definition hev_socks5_addr_from_name :: "u8 list \<Rightarrow> u8 list \<Rightarrow> u16 \<Rightarrow> (int \<times> u8 list) option" where
  "hev_socks5_addr_from_name addr name port = do {
     addr \<leftarrow> memput addr 0 [ADDR_TYPE_NAME];
     s \<leftarrow> strncpy name 256;
     addr \<leftarrow> memput addr 2 s;
     n \<leftarrow> strlen (drop 2 addr);
     addr \<leftarrow> memput addr 1 [of_nat n];
     l \<leftarrow> addr_name_len addr;
     addr \<leftarrow> memput addr (2 + unat l) (store16 port);
     Some (4 + int (unat l), addr)
   }"

definition hev_socks5_addr_from_ipv4 :: "u8 list \<Rightarrow> u8 list \<Rightarrow> u16 \<Rightarrow> (int \<times> u8 list) option" where
  "hev_socks5_addr_from_ipv4 addr ipv4 port = do {
     addr \<leftarrow> memput addr 0 [ADDR_TYPE_IPV4];
     a \<leftarrow> memget ipv4 0 4;
     addr \<leftarrow> memput addr 1 a;
     addr \<leftarrow> memput addr 5 (store16 port);
     Some (7, addr)
   }"

definition hev_socks5_addr_from_ipv6 :: "u8 list \<Rightarrow> u8 list \<Rightarrow> u16 \<Rightarrow> (int \<times> u8 list) option" where
  "hev_socks5_addr_from_ipv6 addr ipv6 port = do {
     addr \<leftarrow> memput addr 0 [ADDR_TYPE_IPV6];
     a \<leftarrow> memget ipv6 0 16;
     addr \<leftarrow> memput addr 1 a;
     addr \<leftarrow> memput addr 17 (store16 port);
     Some (19, addr)
   }"

definition v4mapped :: "u8 list \<Rightarrow> bool" where
  "v4mapped a \<longleftrightarrow> take 12 a = replicate 10 0 @ [255, 255]"

definition hev_socks5_addr_from_sockaddr6 :: "u8 list \<Rightarrow> sockaddr6 \<Rightarrow> (int \<times> u8 list) option" where
  "hev_socks5_addr_from_sockaddr6 addr saddr =
     (if v4mapped (sin6_addr saddr) then do {
        addr \<leftarrow> memput addr 0 [ADDR_TYPE_IPV4];
        addr \<leftarrow> memput addr 5 (store16 (sin6_port saddr));
        a \<leftarrow> memget (sin6_addr saddr) 12 4;
        addr \<leftarrow> memput addr 1 a;
        Some (7, addr)
      } else do {
        addr \<leftarrow> memput addr 0 [ADDR_TYPE_IPV6];
        addr \<leftarrow> memput addr 17 (store16 (sin6_port saddr));
        a \<leftarrow> memget (sin6_addr saddr) 0 16;
        addr \<leftarrow> memput addr 1 a;
        Some (19, addr)
      })"

definition hev_socks5_ipv4_into_sockaddr6 :: "u8 list \<Rightarrow> sockaddr6 \<Rightarrow> sockaddr6 option" where
  "hev_socks5_ipv4_into_sockaddr6 addr saddr = do {
     p \<leftarrow> load16 (drop 5 addr);
     a \<leftarrow> memget addr 1 4;
     Some (saddr\<lparr>sin6_family := AF_INET6, sin6_port := p,
                sin6_addr := replicate 10 0 @ [255, 255] @ a\<rparr>)
   }"

definition hev_socks5_ipv6_into_sockaddr6 :: "u8 list \<Rightarrow> sockaddr6 \<Rightarrow> sockaddr6 option" where
  "hev_socks5_ipv6_into_sockaddr6 addr saddr = do {
     p \<leftarrow> load16 (drop 17 addr);
     a \<leftarrow> memget addr 1 16;
     Some (saddr\<lparr>sin6_family := AF_INET6, sin6_port := p, sin6_addr := a\<rparr>)
   }"

definition hev_socks5_name_resolve_ipv4 :: "u8 list \<Rightarrow> sockaddr6 \<Rightarrow> int \<times> sockaddr6" where
  "hev_socks5_name_resolve_ipv4 name saddr =
     (let saddr = saddr\<lparr>sin6_addr := replicate 10 0 @ drop 10 (sin6_addr saddr)\<rparr>
      in case inet_pton4 name of
           None \<Rightarrow> (- 1, saddr)
         | Some a \<Rightarrow> (0, saddr\<lparr>sin6_addr := replicate 10 0 @ [255, 255] @ a\<rparr>))"

definition hev_socks5_name_resolve_ipv6 :: "libc \<Rightarrow> u8 list \<Rightarrow> sockaddr6 \<Rightarrow> int \<times> sockaddr6" where
  "hev_socks5_name_resolve_ipv6 lc name saddr =
     (case inet_pton6 lc name of
        None \<Rightarrow> (- 1, saddr)
      | Some a \<Rightarrow> (0, saddr\<lparr>sin6_addr := a\<rparr>))"

definition hev_socks5_name_resolve_name ::
  "libc \<Rightarrow> u8 list \<Rightarrow> sockaddr6 \<Rightarrow> int \<Rightarrow> int \<times> sockaddr6 \<times> int" where
  "hev_socks5_name_resolve_name lc name saddr family =
     (case getaddrinfo lc name family of
        None \<Rightarrow> (- 1, saddr, family)
      | Some (fam, a) \<Rightarrow>
          if fam = AF_INET then
            (0, saddr\<lparr>sin6_addr := replicate 10 0 @ [255, 255] @ take 4 a\<rparr>, AF_INET)
          else if fam = AF_INET6 then (0, saddr\<lparr>sin6_addr := take 16 a\<rparr>, AF_INET6)
          else (- 1, saddr, family))"

definition hev_socks5_name_into_sockaddr6 ::
  "libc \<Rightarrow> u8 list \<Rightarrow> u16 \<Rightarrow> sockaddr6 \<Rightarrow> int \<Rightarrow> int \<times> sockaddr6 \<times> int" where
  "hev_socks5_name_into_sockaddr6 lc name port saddr family =
     (let saddr = saddr\<lparr>sin6_family := AF_INET6, sin6_port := htons port\<rparr>;
          (res, saddr) = hev_socks5_name_resolve_ipv4 name saddr
      in if res = 0 then (0, saddr, AF_INET)
         else let (res, saddr) = hev_socks5_name_resolve_ipv6 lc name saddr
              in if res = 0 then (0, saddr, AF_INET6)
                 else hev_socks5_name_resolve_name lc name saddr family)"

definition hev_socks5_addr_into_sockaddr6 ::
  "libc \<Rightarrow> u8 list \<Rightarrow> sockaddr6 \<Rightarrow> int \<Rightarrow> (int \<times> sockaddr6 \<times> int) option" where
  "hev_socks5_addr_into_sockaddr6 lc addr saddr family = do {
     t \<leftarrow> addr_atype addr;
     if t = ADDR_TYPE_IPV4 then do {
       saddr \<leftarrow> hev_socks5_ipv4_into_sockaddr6 addr saddr;
       Some (0, saddr, AF_INET)
     }
     else if t = ADDR_TYPE_IPV6 then do {
       saddr \<leftarrow> hev_socks5_ipv6_into_sockaddr6 addr saddr;
       Some (0, saddr, AF_INET6)
     }
     else if t = ADDR_TYPE_NAME then do {
       l \<leftarrow> addr_name_len addr;
       n \<leftarrow> memget addr 2 (unat l);
       name \<leftarrow> cstr (n @ [0]);
       port \<leftarrow> load16 (drop (2 + unat l) addr);
       Some (hev_socks5_name_into_sockaddr6 lc name (ntohs port) saddr family)
     }
     else Some (- 1, saddr, family)
   }"

text \<open>\<open>ntohl\<close> of the four address bytes.\<close>

definition host32 :: "u8 list \<Rightarrow> u32 option" where
  "host32 b = (case b of b0 # b1 # b2 # b3 # _ \<Rightarrow>
       Some (push_bit 24 (ucast b0) OR push_bit 16 (ucast b1) OR push_bit 8 (ucast b2) OR ucast b3)
     | _ \<Rightarrow> None)"

text \<open>The singleton cache is an argument; the code looks it up through \<open>hev_mapped_dns_get\<close>.\<close>

definition hev_socks5_addr_from_lwip ::
  "mdns option \<Rightarrow> u8 list \<Rightarrow> lwip_addr \<Rightarrow> u16 \<Rightarrow> (int \<times> u8 list \<times> mdns option) option" where
  "hev_socks5_addr_from_lwip dns addr ip port =
     (case ip_type ip of
        IPADDR_V4 \<Rightarrow> do {
          (name, dns) \<leftarrow> (case dns of
              None \<Rightarrow> Some (None, None)
            | Some d \<Rightarrow> do {
                a \<leftarrow> host32 (ip_bytes ip);
                (name, d) \<leftarrow> hev_mapped_dns_lookup d a;
                Some (name, Some d)
              });
          (_, addr) \<leftarrow> (case name of
              Some n \<Rightarrow> hev_socks5_addr_from_name addr n (htons port)
            | None \<Rightarrow> hev_socks5_addr_from_ipv4 addr (ip_bytes ip) (htons port));
          Some (0, addr, dns)
        }
      | IPADDR_V6 \<Rightarrow> do {
          (_, addr) \<leftarrow> hev_socks5_addr_from_ipv6 addr (ip_bytes ip) (htons port);
          Some (0, addr, dns)
        }
      | _ \<Rightarrow> Some (- 1, addr, dns))"

definition hev_socks5_addr_into_lwip ::
  "u8 list \<Rightarrow> lwip_addr \<Rightarrow> u16 \<Rightarrow> (int \<times> lwip_addr \<times> u16) option" where
  "hev_socks5_addr_into_lwip addr ip port = do {
     t \<leftarrow> addr_atype addr;
     if t = ADDR_TYPE_IPV4 then do {
       a \<leftarrow> memget addr 1 4;
       b \<leftarrow> memput (ip_bytes ip) 0 a;
       p \<leftarrow> load16 (drop 5 addr);
       Some (0, \<lparr>ip_type = IPADDR_V4, ip_bytes = b\<rparr>, ntohs p)
     }
     else if t = ADDR_TYPE_IPV6 then do {
       a \<leftarrow> memget addr 1 16;
       b \<leftarrow> memput (ip_bytes ip) 0 a;
       p \<leftarrow> load16 (drop 17 addr);
       Some (0, \<lparr>ip_type = IPADDR_V6, ip_bytes = b\<rparr>, ntohs p)
     }
     else Some (- 1, ip, port)
   }"

section \<open>Abstract addresses\<close>

text \<open>What a well-formed structure stands for; the port is the number.\<close>

datatype socks_addr = Ipv4 "u8 list" u16 | Ipv6 "u8 list" u16 | Domain "u8 list" u16

fun addr_ok :: "socks_addr \<Rightarrow> bool" where
  "addr_ok (Ipv4 a p) \<longleftrightarrow> length a = 4"
| "addr_ok (Ipv6 a p) \<longleftrightarrow> length a = 16"
| "addr_ok (Domain s p) \<longleftrightarrow> length s < 256 \<and> 0 \<notin> set s"

fun wire_addr :: "socks_addr \<Rightarrow> u8 list" where
  "wire_addr (Ipv4 a p) = ADDR_TYPE_IPV4 # a @ [hi8 p, lo8 p]"
| "wire_addr (Ipv6 a p) = ADDR_TYPE_IPV6 # a @ [hi8 p, lo8 p]"
| "wire_addr (Domain s p) = ADDR_TYPE_NAME # of_nat (length s) # s @ [hi8 p, lo8 p]"

text \<open>The structure holds the address: its first bytes are the wire form.\<close>

definition holds_addr :: "u8 list \<Rightarrow> socks_addr \<Rightarrow> bool" where
  "holds_addr b a \<longleftrightarrow> addr_ok a \<and> length b = addr_size \<and> take (length (wire_addr a)) b = wire_addr a"

lemma unat_of_length [simp]: "length s < 256 \<Longrightarrow> unat (of_nat (length s) :: u8) = length s"
  by (simp add: unat_of_nat)

lemma uint_of_length [simp]: "length s < 256 \<Longrightarrow> uint (of_nat (length s) :: u8) = int (length s)"
  by (simp add: unsigned_of_nat take_bit_nat_eq_self)

lemma length_wire_addr:
  "addr_ok a \<Longrightarrow> length (wire_addr a) = (case a of Ipv4 _ _ \<Rightarrow> 7 | Ipv6 _ _ \<Rightarrow> 19 | Domain s _ \<Rightarrow> 4 + length s)"
  by (cases a) auto

lemma wire_addr_fits: "addr_ok a \<Longrightarrow> length (wire_addr a) < addr_size"
  by (cases a) (auto simp: addr_size_def)

lemma holds_addr_split:
  assumes "holds_addr b a"
  obtains r where "b = wire_addr a @ r" and "addr_ok a"
  using assms that [of "drop (length (wire_addr a)) b"] append_take_drop_id [of "length (wire_addr a)" b]
  by (simp add: holds_addr_def)

lemma addr_len_wire: "addr_ok a \<Longrightarrow> hev_socks5_addr_len (wire_addr a @ r) = Some (int (length (wire_addr a)))"
  by (cases a) (auto simp: hev_socks5_addr_len_def addr_atype_def addr_name_len_def byte_at_def)

lemma load16_net: "load16 (hi8 p # lo8 p # r) = Some (htons p)"
  by (simp add: htons_def)

section \<open>The conversions and what they stand for\<close>

lemma memput_front: "length bs \<le> length b \<Longrightarrow> memput b 0 bs = Some (bs @ drop (length bs) b)"
  by (simp add: memput_def)

lemma memput_after: "length a = off \<Longrightarrow> off + length bs \<le> length (a @ b) \<Longrightarrow>
   memput (a @ b) off bs = Some (a @ bs @ drop (length bs) b)"
  by (simp add: memput_def)

lemma memput_second [simp]: "memput (a # b # r) (Suc 0) [c] = Some (a # c # r)"
  by (simp add: memput_def)

lemma name_len_second [simp]: "addr_name_len (a # b # r) = Some b"
  by (simp add: addr_name_len_def byte_at_def)

lemma from_ipv4_holds:
  assumes "length addr = addr_size" and "4 \<le> length ip"
  shows "\<exists>b. hev_socks5_addr_from_ipv4 addr ip (htons p) = Some (7, b) \<and> holds_addr b (Ipv4 (take 4 ip) p)"
  using assms
  by (auto simp: hev_socks5_addr_from_ipv4_def memget_def memput_def holds_addr_def addr_size_def store16_htons
      min_absorb2 take_Cons')

lemma from_ipv6_holds:
  assumes "length addr = addr_size" and "16 \<le> length ip"
  shows "\<exists>b. hev_socks5_addr_from_ipv6 addr ip (htons p) = Some (19, b) \<and> holds_addr b (Ipv6 (take 16 ip) p)"
  using assms
  by (auto simp: hev_socks5_addr_from_ipv6_def memget_def memput_def holds_addr_def addr_size_def store16_htons
      min_absorb2 take_Cons')

lemma from_name_holds:
  assumes "length addr = addr_size" and "cstr name = Some s" and "length s < 256"
  shows "\<exists>b. hev_socks5_addr_from_name addr name (htons p) = Some (4 + int (length s), b) \<and> holds_addr b (Domain s p)"
proof -
  let ?s = "s @ replicate (256 - length s) 0"
  obtain a0 a1 r where a: "addr = a0 # a1 # r" "length r = 258"
    using assms(1) by (cases addr; cases "drop 1 addr") (auto simp: addr_size_def)
  let ?r = "drop 256 r"
  have nul: "0 \<notin> set s" using assms(2) by (rule cstr_no_nul)
  have cp: "strncpy name 256 = Some ?s" using assms(2,3) by (rule strncpy_short)
  have b1: "memput (ADDR_TYPE_NAME # a1 # r) 2 ?s = Some (ADDR_TYPE_NAME # a1 # ?s @ ?r)"
    using a(2) assms(3) memput_after [of "[ADDR_TYPE_NAME, a1]" 2 ?s r] by simp
  obtain m where m: "256 - length s = Suc m" using assms(3) by (cases "256 - length s") auto
  then have "cstr (?s @ ?r) = Some s" using nul by simp
  then have len: "strlen (?s @ ?r) = Some (length s)" by (simp add: strlen_def)
  let ?b = "ADDR_TYPE_NAME # of_nat (length s) # s @ store16 (htons p) @ drop (length s + 2) (?s @ ?r)"
  have b2: "memput (ADDR_TYPE_NAME # of_nat (length s) # ?s @ ?r) (2 + length s) (store16 (htons p)) = Some ?b"
    using a(2) assms(3) by (simp add: memput_def store16_htons)
  have "hev_socks5_addr_from_name addr name (htons p) = Some (4 + int (length s), ?b)"
    using a cp b1 b2 len assms(3)
    by (simp add: hev_socks5_addr_from_name_def memput_front)
  moreover have "holds_addr ?b (Domain s p)"
    using a(2) assms(3) nul m by (simp add: holds_addr_def addr_size_def store16_htons)
  ultimately show ?thesis by blast
qed

text \<open>A name of 256 bytes or more is cut without a terminator.\<close>

lemma from_name_long:
  assumes "length addr = addr_size" and "cstr name = Some s" and "256 \<le> length s" and "addr ! 258 = 0"
  shows "\<exists>b. hev_socks5_addr_from_name addr name port = Some (4, b) \<and> b ! 1 = 0"
proof -
  let ?s = "take 256 s"
  obtain a0 a1 r where a: "addr = a0 # a1 # r" "length r = 258"
    using assms(1) by (cases addr; cases "drop 1 addr") (auto simp: addr_size_def)
  have two: "\<exists>x0 x1. ds = [x0, x1]" if "length ds = Suc (Suc 0)" for ds :: "u8 list"
    using that by (auto simp: length_Suc_conv)
  obtain x0 x1 where x: "drop 256 r = [x0, x1]" using two [of "drop 256 r"] a(2) by auto
  have x0: "x0 = 0"
  proof -
    have "addr ! 258 = drop 256 r ! 0" using a by simp
    then show ?thesis using assms(4) x by simp
  qed
  have len: "length ?s = 256" using assms(3) by simp
  have nul: "0 \<notin> set ?s" using cstr_no_nul [OF assms(2)] by (auto dest: in_set_takeD)
  have cp: "strncpy name 256 = Some ?s" using assms(2,3) by (rule strncpy_long)
  have b1: "memput (ADDR_TYPE_NAME # a1 # r) 2 ?s = Some (ADDR_TYPE_NAME # a1 # ?s @ [x0, x1])"
    using a(2) len x memput_after [of "[ADDR_TYPE_NAME, a1]" 2 ?s r] by simp
  have "cstr (?s @ 0 # [x1]) = Some ?s" using nul by (rule cstr_terminated)
  then have sl: "strlen (?s @ [x0, x1]) = Some 256" using len x0 by (simp add: strlen_def)
  let ?b = "ADDR_TYPE_NAME # 0 # store16 port @ drop 2 (?s @ [x0, x1])"
  have b2: "memput (ADDR_TYPE_NAME # 0 # ?s @ [x0, x1]) 2 (store16 port) = Some ?b"
    using len by (simp add: memput_def numeral_2_eq_2)
  have z: "(256 :: u8) = 0" by simp
  have b3: "memput (ADDR_TYPE_NAME # 256 # ?s @ [x0, x1]) (Suc (Suc 0)) (store16 port) = Some ?b"
    using b2 unfolding z by (simp only: numeral_2_eq_2)
  have "hev_socks5_addr_from_name addr name port = Some (4, ?b)"
    using a cp b1 b3 sl
    by (simp add: hev_socks5_addr_from_name_def memput_front)
  then show ?thesis by simp
qed

lemma holds_fields:
  assumes "holds_addr b a"
  shows "addr_atype b = Some (case a of Ipv4 _ _ \<Rightarrow> ADDR_TYPE_IPV4 | Ipv6 _ _ \<Rightarrow> ADDR_TYPE_IPV6 | Domain _ _ \<Rightarrow> ADDR_TYPE_NAME)"
    and "a = Ipv4 x p \<Longrightarrow> memget b 1 4 = Some x \<and> load16 (drop 5 b) = Some (htons p)"
    and "a = Ipv6 x p \<Longrightarrow> memget b 1 16 = Some x \<and> load16 (drop 17 b) = Some (htons p)"
    and "a = Domain x p \<Longrightarrow> addr_name_len b = Some (of_nat (length x)) \<and> memget b 2 (length x) = Some x \<and>
       load16 (drop (2 + length x) b) = Some (htons p)"
proof -
  obtain r where b: "b = wire_addr a @ r" and ok: "addr_ok a" using assms by (rule holds_addr_split)
  show "addr_atype b = Some (case a of Ipv4 _ _ \<Rightarrow> ADDR_TYPE_IPV4 | Ipv6 _ _ \<Rightarrow> ADDR_TYPE_IPV6 | Domain _ _ \<Rightarrow> ADDR_TYPE_NAME)"
    using b by (cases a) (simp_all add: addr_atype_def byte_at_def)
  show "memget b 1 4 = Some x \<and> load16 (drop 5 b) = Some (htons p)" if "a = Ipv4 x p"
    using b ok that by (simp add: memget_def htons_def)
  show "memget b 1 16 = Some x \<and> load16 (drop 17 b) = Some (htons p)" if "a = Ipv6 x p"
    using b ok that by (simp add: memget_def htons_def)
  show "addr_name_len b = Some (of_nat (length x)) \<and> memget b 2 (length x) = Some x \<and>
       load16 (drop (2 + length x) b) = Some (htons p)" if "a = Domain x p"
    using b ok that by (simp add: memget_def htons_def)
qed

text \<open>The socket address of an abstract address.\<close>

definition v4_bytes :: "u8 list \<Rightarrow> u8 list" where
  "v4_bytes a = replicate 10 0 @ [255, 255] @ a"

lemma into_sockaddr6_ip:
  assumes "holds_addr b a"
  shows "a = Ipv4 x p \<Longrightarrow> hev_socks5_addr_into_sockaddr6 lc b sa fam =
      Some (0, sa\<lparr>sin6_family := AF_INET6, sin6_port := htons p, sin6_addr := v4_bytes x\<rparr>, AF_INET)"
    and "a = Ipv6 x p \<Longrightarrow> hev_socks5_addr_into_sockaddr6 lc b sa fam =
      Some (0, sa\<lparr>sin6_family := AF_INET6, sin6_port := htons p, sin6_addr := x\<rparr>, AF_INET6)"
    and "a = Domain x p \<Longrightarrow> hev_socks5_addr_into_sockaddr6 lc b sa fam =
      Some (hev_socks5_name_into_sockaddr6 lc x p sa fam)"
proof -
  show "hev_socks5_addr_into_sockaddr6 lc b sa fam =
      Some (0, sa\<lparr>sin6_family := AF_INET6, sin6_port := htons p, sin6_addr := v4_bytes x\<rparr>, AF_INET)" if "a = Ipv4 x p"
    using holds_fields(1,2) [OF assms] that
    by (simp add: hev_socks5_addr_into_sockaddr6_def hev_socks5_ipv4_into_sockaddr6_def v4_bytes_def)
  show "hev_socks5_addr_into_sockaddr6 lc b sa fam =
      Some (0, sa\<lparr>sin6_family := AF_INET6, sin6_port := htons p, sin6_addr := x\<rparr>, AF_INET6)" if "a = Ipv6 x p"
    using holds_fields(1,3) [OF assms] that
    by (simp add: hev_socks5_addr_into_sockaddr6_def hev_socks5_ipv6_into_sockaddr6_def)
  show "hev_socks5_addr_into_sockaddr6 lc b sa fam = Some (hev_socks5_name_into_sockaddr6 lc x p sa fam)"
    if "a = Domain x p"
  proof -
    have "length x < 256" "0 \<notin> set x" using assms that by (auto simp: holds_addr_def)
    moreover from this have "cstr (x @ [0]) = Some x" by simp
    ultimately show ?thesis
      using holds_fields(1,4) [OF assms] that by (simp add: hev_socks5_addr_into_sockaddr6_def)
  qed
qed

lemma from_sockaddr6_holds:
  assumes "length addr = addr_size" and "length (sin6_addr sa) = 16" and "sin6_port sa = htons p"
  shows "\<exists>b. hev_socks5_addr_from_sockaddr6 addr sa =
      Some (if v4mapped (sin6_addr sa) then 7 else 19, b) \<and>
    holds_addr b (if v4mapped (sin6_addr sa) then Ipv4 (drop 12 (sin6_addr sa)) p else Ipv6 (sin6_addr sa) p)"
  using assms
  by (auto simp: hev_socks5_addr_from_sockaddr6_def memget_def memput_def holds_addr_def addr_size_def store16_htons
      take_Cons' min_absorb2)

section \<open>Properties\<close>

text \<open>
  Every constructor of a socks address fills the structure with exactly the wire form of the
  address it is given, whatever the structure held before, and returns its length, which
  \<open>hev_socks5_addr_len\<close> reads back from the structure.
\<close>

theorem addr_constructors_wire:
  assumes "length addr = addr_size" and "4 \<le> length ip4" and "16 \<le> length ip6"
    and "cstr name = Some s" and "length s < 256"
  shows "(\<exists>b. hev_socks5_addr_from_ipv4 addr ip4 (htons p) = Some (7, b) \<and>
        holds_addr b (Ipv4 (take 4 ip4) p) \<and> hev_socks5_addr_len b = Some 7) \<and>
     (\<exists>b. hev_socks5_addr_from_ipv6 addr ip6 (htons p) = Some (19, b) \<and>
        holds_addr b (Ipv6 (take 16 ip6) p) \<and> hev_socks5_addr_len b = Some 19) \<and>
     (\<exists>b. hev_socks5_addr_from_name addr name (htons p) = Some (4 + int (length s), b) \<and>
        holds_addr b (Domain s p) \<and> hev_socks5_addr_len b = Some (4 + int (length s)))"
proof -
  have len: "hev_socks5_addr_len b = Some (int (length (wire_addr a)))" if "holds_addr b a" for a b
    using that by (elim holds_addr_split) (simp add: addr_len_wire)
  obtain b4 b6 bn where b: "hev_socks5_addr_from_ipv4 addr ip4 (htons p) = Some (7, b4)" "holds_addr b4 (Ipv4 (take 4 ip4) p)"
    "hev_socks5_addr_from_ipv6 addr ip6 (htons p) = Some (19, b6)" "holds_addr b6 (Ipv6 (take 16 ip6) p)"
    "hev_socks5_addr_from_name addr name (htons p) = Some (4 + int (length s), bn)" "holds_addr bn (Domain s p)"
    using from_ipv4_holds [OF assms(1,2)] from_ipv6_holds [OF assms(1,3)] from_name_holds [OF assms(1,4,5)] by blast
  then show ?thesis
    using len [OF b(2)] len [OF b(4)] len [OF b(6)] assms(2,3) by (simp add: min_absorb2)
qed

lemma addr_constructors_wire_witness:
  "\<exists>b. hev_socks5_addr_from_name (replicate 260 7) [104, 105, 0, 9] (htons 80) = Some (6, b) \<and>
     holds_addr b (Domain [104, 105] 80) \<and> hev_socks5_addr_len b = Some 6"
  using addr_constructors_wire [of "replicate 260 7" "[1, 2, 3, 4]" "replicate 16 0" "[104, 105, 0, 9]" "[104, 105]" 80]
  by (simp add: addr_size_def)

text \<open>
  C28: Turning an IP address into a socket address and back gives the same address; the only ones that
  change are IPv6 addresses in the IPv4-mapped range, which come back as the IPv4 address.
\<close>

theorem addr_sockaddr_roundtrip:
  assumes "holds_addr b a" and "a = Ipv4 x p \<or> a = Ipv6 x p" and "length addr = addr_size"
  shows "\<exists>fam' sa' n b'. hev_socks5_addr_into_sockaddr6 lc b sa fam = Some (0, sa', fam') \<and>
     fam' = (case a of Ipv4 _ _ \<Rightarrow> AF_INET | _ \<Rightarrow> AF_INET6) \<and> sin6_family sa' = AF_INET6 \<and>
     hev_socks5_addr_from_sockaddr6 addr sa' = Some (n, b') \<and>
     holds_addr b' (if a = Ipv6 x p \<and> v4mapped x then Ipv4 (drop 12 x) p else a)"
proof (cases "a = Ipv4 x p")
  case True
  then have "length x = 4" using assms(1) by (auto simp: holds_addr_def)
  then have "v4mapped (v4_bytes x)" "length (v4_bytes x) = 16" "drop 12 (v4_bytes x) = x"
    by (simp_all add: v4mapped_def v4_bytes_def)
  with True into_sockaddr6_ip(1) [OF assms(1) True, of lc sa fam]
    from_sockaddr6_holds [OF assms(3), of "sa\<lparr>sin6_family := AF_INET6, sin6_port := htons p, sin6_addr := v4_bytes x\<rparr>" p]
  show ?thesis by auto
next
  case False
  with assms(2) have a: "a = Ipv6 x p" by simp
  then have "length x = 16" using assms(1) by (auto simp: holds_addr_def)
  with a into_sockaddr6_ip(2) [OF assms(1) a, of lc sa fam]
    from_sockaddr6_holds [OF assms(3), of "sa\<lparr>sin6_family := AF_INET6, sin6_port := htons p, sin6_addr := x\<rparr>" p]
  show ?thesis by auto
qed

lemma addr_sockaddr_roundtrip_witness:
  "let b = wire_addr (Ipv4 [10, 0, 0, 1] 53) @ replicate 253 0; sa = \<lparr>sin6_family = 0, sin6_port = 0, sin6_addr = []\<rparr>;
       lc = \<lparr>inet_pton6 = (\<lambda>_. None), inet_ntop = (\<lambda>_ _. []), getaddrinfo = (\<lambda>_ _. None)\<rparr> in
   \<exists>fam' sa' n b'. hev_socks5_addr_into_sockaddr6 lc b sa AF_UNSPEC = Some (0, sa', fam') \<and>
     fam' = (case Ipv4 [10, 0, 0, 1] 53 of Ipv4 _ _ \<Rightarrow> AF_INET | _ \<Rightarrow> AF_INET6) \<and> sin6_family sa' = AF_INET6 \<and>
     hev_socks5_addr_from_sockaddr6 (replicate 260 0) sa' = Some (n, b') \<and>
     holds_addr b' (if Ipv4 [10, 0, 0, 1] 53 = Ipv6 [10, 0, 0, 1] 53 \<and> v4mapped [10, 0, 0, 1] then Ipv4 (drop 12 [10, 0, 0, 1]) 53
       else Ipv4 [10, 0, 0, 1] 53)"
  unfolding Let_def by (rule addr_sockaddr_roundtrip) (simp_all add: holds_addr_def addr_size_def)

text \<open>
  A name of 256 characters or more does not survive \<open>hev_socks5_addr_from_name\<close>: the copy has no
  terminator, the measured length wraps to zero in its byte, and the result is the empty name.
\<close>

theorem addr_from_name_long_lost:
  assumes "length addr = addr_size" and "cstr name = Some s" and "256 \<le> length s" and "addr ! 258 = 0"
  shows "\<exists>b. hev_socks5_addr_from_name addr name port = Some (4, b) \<and> b ! 1 = 0"
  using assms by (rule from_name_long)

lemma addr_from_name_long_lost_witness:
  "\<exists>b. hev_socks5_addr_from_name (replicate 260 0) (replicate 256 97 @ 0 # []) 80 = Some (4, b) \<and> b ! 1 = 0"
  by (rule addr_from_name_long_lost [of _ _ "replicate 256 97"])
    (simp_all add: addr_size_def cstr_terminated del: replicate.simps)

end
