(* ===== verification/Task_Io.thy ===== *)
theory Task_Io
  imports Socks5_Addr
begin

text \<open>
  Sockets and waiting: the world a task runs in, the socket calls of
  \<open>hev-task-system/src/lib/io/socket/hev-task-io-socket.c\<close> and the parts of \<open>hev-socks5.c\<close> and
  \<open>hev-socks5-misc.c\<close> they need. What the kernel and the peers do is scripted: each descriptor
  carries the list of what its next calls will meet, so a theorem that quantifies over the script
  speaks about every behaviour of the peer. A call that would block names the milliseconds that
  are left of the timeout when the task is woken up. A script that has run out stands for a closed
  connection on the receiving and for a free one on the sending side.
\<close>

section \<open>The world\<close>

abbreviation (input) EAGAIN :: int where "EAGAIN \<equiv> 11"
abbreviation (input) EISCONN :: int where "EISCONN \<equiv> 106"
abbreviation (input) EALREADY :: int where "EALREADY \<equiv> 114"
abbreviation (input) EINPROGRESS :: int where "EINPROGRESS \<equiv> 115"
abbreviation (input) EIO :: int where "EIO \<equiv> 5"

datatype rx = RxData "u8 list" | RxAgain nat | RxErr

datatype tx = TxOk nat | TxAgain nat | TxErr

text \<open>Datagrams come with their source; a batch is what one \<open>recvmmsg\<close> can find.\<close>

datatype dg = DgBatch "(sockaddr6 \<times> u8 list) list" | DgAgain nat | DgErr

record sock =
  sk_rx :: "rx list"
  sk_tx :: "tx list"
  sk_out :: "u8 list"
  sk_dg :: "dg list"
  sk_sent :: "(sockaddr6 option \<times> u8 list) list"
  sk_shut :: bool

text \<open>The static settings of \<open>hev-socks5-misc.c\<close>.\<close>

record settings =
  connect_timeout :: int
  tcp_timeout :: int
  udp_timeout :: int
  task_stack_size :: int
  udp_recv_buffer_size :: int
  udp_copy_buffer_nums :: int

text \<open>
  \<open>w_sys\<close> holds the answers of the remaining system calls in the order they are made, a negative
  one being minus the error number; when it is empty they fail. \<open>w_open\<close> and \<open>w_poll\<close> are the open
  descriptors and those a task waits on, \<open>w_alloc\<close> tells which allocations succeed (all of them
  when it is empty), \<open>w_live\<close> counts the blocks that are allocated and \<open>w_stack\<close> is what an
  uninitialised local variable holds.
\<close>

record world =
  w_sock :: "int \<Rightarrow> sock"
  w_errno :: int
  w_sys :: "int list"
  w_open :: "int list"
  w_poll :: "int list"
  w_alloc :: "bool list"
  w_live :: nat
  w_stack :: "nat \<Rightarrow> u8"
  w_libc :: libc
  w_protect :: "(int \<Rightarrow> bool) option"
  w_set :: settings

definition misc_defaults :: settings where
  "misc_defaults = \<lparr>connect_timeout = 10000, tcp_timeout = 300000, udp_timeout = 60000,
     task_stack_size = 8192, udp_recv_buffer_size = 512 * 1024, udp_copy_buffer_nums = 10\<rparr>"

section \<open>Settings\<close>

definition hev_socks5_set_connect_timeout :: "int \<Rightarrow> settings \<Rightarrow> settings" where
  "hev_socks5_set_connect_timeout timeout s = s\<lparr>connect_timeout := timeout\<rparr>"

definition hev_socks5_get_connect_timeout :: "settings \<Rightarrow> int" where
  "hev_socks5_get_connect_timeout s = connect_timeout s"

definition hev_socks5_set_tcp_timeout :: "int \<Rightarrow> settings \<Rightarrow> settings" where
  "hev_socks5_set_tcp_timeout timeout s = s\<lparr>tcp_timeout := timeout\<rparr>"

definition hev_socks5_get_tcp_timeout :: "settings \<Rightarrow> int" where
  "hev_socks5_get_tcp_timeout s = tcp_timeout s"

definition hev_socks5_set_udp_timeout :: "int \<Rightarrow> settings \<Rightarrow> settings" where
  "hev_socks5_set_udp_timeout timeout s = s\<lparr>udp_timeout := timeout\<rparr>"

definition hev_socks5_get_udp_timeout :: "settings \<Rightarrow> int" where
  "hev_socks5_get_udp_timeout s = udp_timeout s"

definition hev_socks5_set_task_stack_size :: "int \<Rightarrow> settings \<Rightarrow> settings" where
  "hev_socks5_set_task_stack_size n s = s\<lparr>task_stack_size := n\<rparr>"

definition hev_socks5_get_task_stack_size :: "settings \<Rightarrow> int" where
  "hev_socks5_get_task_stack_size s = task_stack_size s"

definition hev_socks5_set_udp_recv_buffer_size :: "int \<Rightarrow> settings \<Rightarrow> settings" where
  "hev_socks5_set_udp_recv_buffer_size n s = s\<lparr>udp_recv_buffer_size := n\<rparr>"

definition hev_socks5_set_udp_copy_buffer_nums :: "int \<Rightarrow> settings \<Rightarrow> settings" where
  "hev_socks5_set_udp_copy_buffer_nums n s = s\<lparr>udp_copy_buffer_nums := n\<rparr>"

definition hev_socks5_get_udp_copy_buffer_nums :: "settings \<Rightarrow> int" where
  "hev_socks5_get_udp_copy_buffer_nums s = udp_copy_buffer_nums s"

section \<open>The base object\<close>

datatype socks5_type = TYPE_NONE | TYPE_TCP | TYPE_UDP_IN_TCP | TYPE_UDP_IN_UDP

record socks5 =
  s_fd :: int
  s_timeout :: int
  s_type :: socks5_type
  s_udp_associated :: bool
  s_addr_family :: int

definition hev_socks5_get_timeout :: "'a socks5_scheme \<Rightarrow> int" where
  "hev_socks5_get_timeout self = s_timeout self"

definition hev_socks5_set_timeout :: "'a socks5_scheme \<Rightarrow> int \<Rightarrow> 'a socks5_scheme" where
  "hev_socks5_set_timeout self timeout =
     (if s_timeout self \<noteq> 0 then self\<lparr>s_timeout := timeout\<rparr> else self)"

definition hev_socks5_get_addr_family :: "'a socks5_scheme \<Rightarrow> int" where
  "hev_socks5_get_addr_family self = s_addr_family self"

definition hev_socks5_set_addr_family :: "'a socks5_scheme \<Rightarrow> int \<Rightarrow> 'a socks5_scheme" where
  "hev_socks5_set_addr_family self family = self\<lparr>s_addr_family := family\<rparr>"

text \<open>
  The constructor of the base object of an object that \<open>hev_malloc0\<close> cleared; the object base, a
  reference count and a class pointer, is not part of the record.
\<close>

definition hev_socks5_construct :: "'a socks5_scheme \<Rightarrow> socks5_type \<Rightarrow> int \<times> 'a socks5_scheme" where
  "hev_socks5_construct self type =
     (0, self\<lparr>s_fd := - 1, s_timeout := - 1, s_type := type, s_addr_family := AF_UNSPEC\<rparr>)"

text \<open>The pattern \<open>if (res < 0) return -1\<close> after a call.\<close>

definition check :: "(int \<times> 's \<times> 'w) option \<Rightarrow> (int \<Rightarrow> 's \<Rightarrow> 'w \<Rightarrow> (int \<times> 's \<times> 'w) option) \<Rightarrow> (int \<times> 's \<times> 'w) option" where
  "check m f = do { (res, self, w) \<leftarrow> m; if res < 0 then Some (- 1, self, w) else f res self w }"

lemma check_Some [simp]: "check (Some (r, s, w)) f = (if r < 0 then Some (- 1, s, w) else f r s w)"
  by (simp add: check_def)

section \<open>System calls\<close>

definition sys :: "'z world_scheme \<Rightarrow> int \<times> 'z world_scheme" where
  "sys w =
     (case w_sys w of
        [] \<Rightarrow> (- 1, w\<lparr>w_errno := EIO\<rparr>)
      | r # rs \<Rightarrow> if r < 0 then (- 1, w\<lparr>w_sys := rs, w_errno := - r\<rparr>) else (r, w\<lparr>w_sys := rs\<rparr>))"

definition close :: "int \<Rightarrow> 'z world_scheme \<Rightarrow> 'z world_scheme" where
  "close fd w = w\<lparr>w_open := removeAll fd (w_open w)\<rparr>"

definition hev_task_add_fd :: "int \<Rightarrow> 'z world_scheme \<Rightarrow> int \<times> 'z world_scheme" where
  "hev_task_add_fd fd w =
     (if fd \<in> set (w_poll w) then (- 1, w) else (0, w\<lparr>w_poll := fd # w_poll w\<rparr>))"

definition hev_task_mod_fd :: "int \<Rightarrow> 'z world_scheme \<Rightarrow> int \<times> 'z world_scheme" where
  "hev_task_mod_fd fd w = (if fd \<in> set (w_poll w) then 0 else - 1, w)"

definition hev_task_del_fd :: "int \<Rightarrow> 'z world_scheme \<Rightarrow> 'z world_scheme" where
  "hev_task_del_fd fd w = w\<lparr>w_poll := removeAll fd (w_poll w)\<rparr>"

definition hev_malloc :: "'z world_scheme \<Rightarrow> bool \<times> 'z world_scheme" where
  "hev_malloc w =
     (case w_alloc w of
        [] \<Rightarrow> (True, w\<lparr>w_live := Suc (w_live w)\<rparr>)
      | b # bs \<Rightarrow> (b, w\<lparr>w_alloc := bs, w_live := (if b then Suc (w_live w) else w_live w)\<rparr>))"

definition hev_free :: "'z world_scheme \<Rightarrow> 'z world_scheme" where
  "hev_free w = w\<lparr>w_live := w_live w - 1\<rparr>"

definition hev_socks5_destruct :: "'a socks5_scheme \<Rightarrow> 'z world_scheme \<Rightarrow> 'z world_scheme" where
  "hev_socks5_destruct self w =
     hev_free (if s_fd self \<ge> 0 then close (s_fd self) (hev_task_del_fd (s_fd self) w) else w)"

text \<open>One \<open>recv\<close> of at most \<open>len\<close> bytes: the result, the bytes, the time left when it blocks.\<close>

definition sock_recv :: "int \<Rightarrow> nat \<Rightarrow> 'z world_scheme \<Rightarrow> int \<times> u8 list \<times> nat \<times> 'z world_scheme" where
  "sock_recv fd len w =
     (let sk = w_sock w fd; upd = (\<lambda>es. w\<lparr>w_sock := (w_sock w)(fd := sk\<lparr>sk_rx := es\<rparr>)\<rparr>) in
      if len = 0 then (0, [], 0, w)
      else case sk_rx sk of
        [] \<Rightarrow> (0, [], 0, w)
      | RxData bs # es \<Rightarrow>
          (int (length (take len bs)), take len bs, 0, upd (if drop len bs = [] then es else RxData (drop len bs) # es))
      | RxAgain r # es \<Rightarrow> (- 1, [], r, (upd es)\<lparr>w_errno := EAGAIN\<rparr>)
      | RxErr # es \<Rightarrow> (- 1, [], 0, (upd es)\<lparr>w_errno := EIO\<rparr>))"

text \<open>One \<open>send\<close>.\<close>

definition sock_send :: "int \<Rightarrow> u8 list \<Rightarrow> 'z world_scheme \<Rightarrow> int \<times> nat \<times> 'z world_scheme" where
  "sock_send fd bs w =
     (let sk = w_sock w fd; upd = (\<lambda>es out. w\<lparr>w_sock := (w_sock w)(fd := sk\<lparr>sk_tx := es, sk_out := sk_out sk @ out\<rparr>)\<rparr>) in
      case sk_tx sk of
        [] \<Rightarrow> (int (length bs), 0, upd [] bs)
      | TxOk n # es \<Rightarrow> (int (length (take n bs)), 0, upd es (take n bs))
      | TxAgain r # es \<Rightarrow> (- 1, r, (upd es [])\<lparr>w_errno := EAGAIN\<rparr>)
      | TxErr # es \<Rightarrow> (- 1, 0, (upd es [])\<lparr>w_errno := EIO\<rparr>))"

section \<open>Waiting\<close>

datatype yield_type = TASK_YIELD | TASK_WAITIO

text \<open>
  \<open>hev_task_sleep\<close>: nothing is left of no time, otherwise what is left when the task is woken up,
  which is never more than it asked for.
\<close>

definition hev_task_sleep :: "nat \<Rightarrow> nat \<Rightarrow> nat" where
  "hev_task_sleep ms left = (if ms = 0 then 0 else min ms left)"

type_synonym ('a, 'z) yielder =
  "yield_type \<Rightarrow> nat \<Rightarrow> 'a socks5_scheme \<Rightarrow> 'z world_scheme \<Rightarrow> int \<times> 'a socks5_scheme \<times> 'z world_scheme"

definition hev_socks5_task_io_yielder :: "('a, 'z) yielder" where
  "hev_socks5_task_io_yielder type left self w =
     (if type = TASK_YIELD then (0, self, w)
      else if s_timeout self < 0 then (0, self, w)
      else let timeout = int (hev_task_sleep (nat (s_timeout self)) left)
           in if timeout \<le> 0 then (- 1, self, w) else (0, self, w))"

section \<open>Socket operations\<close>

definition hev_task_io_socket_socket :: "'z world_scheme \<Rightarrow> int \<times> 'z world_scheme" where
  "hev_task_io_socket_socket w =
     (let (fd, w) = sys w;
          w = (if fd \<ge> 0 then w\<lparr>w_open := fd # w_open w\<rparr> else w)
      in if fd \<ge> 0 \<and> (case w_protect w of None \<Rightarrow> False | Some f \<Rightarrow> \<not> f fd) then (- 3, close fd w)
         else (fd, w))"

datatype sock_type = SOCK_STREAM | SOCK_DGRAM

definition hev_socks5_socket :: "sock_type \<Rightarrow> 'z world_scheme \<Rightarrow> int \<times> 'z world_scheme" where
  "hev_socks5_socket type w =
     (let (fd, w) = hev_task_io_socket_socket w in
      if fd < 0 then (- 1, w)
      else let (res, w) = sys w in
           if res < 0 then (- 1, close fd w)
           else let (res, w) = hev_task_add_fd fd w;
                    w = (if res < 0 then snd (hev_task_mod_fd fd w) else w);
                    w = (if type = SOCK_DGRAM then snd (sys w) else w)
                in (fd, w))"

partial_function (option) hev_task_io_socket_connect ::
  "('a, 'z) yielder \<Rightarrow> 'a socks5_scheme \<Rightarrow> 'z world_scheme \<Rightarrow> (int \<times> 'a socks5_scheme \<times> 'z world_scheme) option" where
  "hev_task_io_socket_connect yielder self w =
     (let (res, w) = sys w in
      if res < 0 then
        if w_errno w = EINPROGRESS \<or> w_errno w = EALREADY then
          let (left, w) = sys w; (y, self, w) = yielder TASK_WAITIO (nat left) self w in
          if y \<noteq> 0 then Some (- 2, self, w)
          else hev_task_io_socket_connect yielder self w
        else if w_errno w = EISCONN then Some (0, self, w)
        else Some (res, self, w)
      else Some (res, self, w))"

text \<open>
  \<open>hev_task_io_socket_recv\<close> returns its result and the bytes it put into the buffer. The flags it
  is called with are \<open>MSG_WAITALL\<close> and \<open>MSG_DONTWAIT\<close>; \<open>got\<close> is what the loop has read so far.
\<close>

partial_function (option) recv_loop ::
  "('a, 'z) yielder \<Rightarrow> int \<Rightarrow> nat \<Rightarrow> bool \<Rightarrow> bool \<Rightarrow> u8 list \<Rightarrow> 'a socks5_scheme \<Rightarrow> 'z world_scheme \<Rightarrow>
     (int \<times> u8 list \<times> 'a socks5_scheme \<times> 'z world_scheme) option" where
  "recv_loop yielder fd len waitall dontwait got self w =
     (let (s, bs, left, w) = sock_recv fd (len - length got) w in
      if s < 0 \<and> w_errno w = EAGAIN \<and> \<not> dontwait then
        let (y, self, w) = yielder TASK_WAITIO left self w in
        if y \<noteq> 0 then Some (if got \<noteq> [] then int (length got) else - 2, got, self, w)
        else recv_loop yielder fd len waitall dontwait got self w
      else if \<not> waitall then Some (s, bs, self, w)
      else if s \<le> 0 then Some (if got \<noteq> [] then int (length got) else s, got, self, w)
      else if length (got @ bs) < len then recv_loop yielder fd len waitall dontwait (got @ bs) self w
      else Some (int (length (got @ bs)), got @ bs, self, w))"

definition hev_task_io_socket_recv ::
  "('a, 'z) yielder \<Rightarrow> int \<Rightarrow> nat \<Rightarrow> bool \<Rightarrow> bool \<Rightarrow> 'a socks5_scheme \<Rightarrow> 'z world_scheme \<Rightarrow>
     (int \<times> u8 list \<times> 'a socks5_scheme \<times> 'z world_scheme) option" where
  "hev_task_io_socket_recv yielder fd len waitall dontwait self w =
     recv_loop yielder fd len waitall dontwait [] self w"

partial_function (option) send_loop ::
  "('a, 'z) yielder \<Rightarrow> int \<Rightarrow> u8 list \<Rightarrow> nat \<Rightarrow> 'a socks5_scheme \<Rightarrow> 'z world_scheme \<Rightarrow>
     (int \<times> 'a socks5_scheme \<times> 'z world_scheme) option" where
  "send_loop yielder fd buf sent self w =
     (let (s, left, w) = sock_send fd (drop sent buf) w in
      if s < 0 \<and> w_errno w = EAGAIN then
        let (y, self, w) = yielder TASK_WAITIO left self w in
        if y \<noteq> 0 then Some (if sent \<noteq> 0 then int sent else - 2, self, w)
        else send_loop yielder fd buf sent self w
      else if s \<le> 0 then Some (if sent \<noteq> 0 then int sent else s, self, w)
      else if sent + nat s < length buf then send_loop yielder fd buf (sent + nat s) self w
      else Some (int (sent + nat s), self, w))"

text \<open>\<open>hev_task_io_socket_send\<close> with \<open>MSG_WAITALL\<close>, as every caller has it.\<close>

definition hev_task_io_socket_send ::
  "('a, 'z) yielder \<Rightarrow> int \<Rightarrow> u8 list \<Rightarrow> 'a socks5_scheme \<Rightarrow> 'z world_scheme \<Rightarrow>
     (int \<times> 'a socks5_scheme \<times> 'z world_scheme) option" where
  "hev_task_io_socket_send yielder fd buf self w = send_loop yielder fd buf 0 self w"

text \<open>\<open>hev_task_io_socket_sendmsg\<close>: the vector is cut after each partial write.\<close>

fun iov_advance :: "nat \<Rightarrow> u8 list list \<Rightarrow> u8 list list" where
  "iov_advance s [] = []"
| "iov_advance s (v # iov) = (if s < length v then drop s v # iov else iov_advance (s - length v) iov)"

partial_function (option) sendmsg_loop ::
  "('a, 'z) yielder \<Rightarrow> int \<Rightarrow> u8 list list \<Rightarrow> nat \<Rightarrow> nat \<Rightarrow> 'a socks5_scheme \<Rightarrow> 'z world_scheme \<Rightarrow>
     (int \<times> 'a socks5_scheme \<times> 'z world_scheme) option" where
  "sendmsg_loop yielder fd iov len sent self w =
     (let (s, left, w) = sock_send fd (concat iov) w in
      if s < 0 \<and> w_errno w = EAGAIN then
        let (y, self, w) = yielder TASK_WAITIO left self w in
        if y \<noteq> 0 then Some (if sent \<noteq> 0 then int sent else - 2, self, w)
        else sendmsg_loop yielder fd iov len sent self w
      else if s \<le> 0 then Some (if sent \<noteq> 0 then int sent else s, self, w)
      else if sent + nat s < len then sendmsg_loop yielder fd (iov_advance (nat s) iov) len (sent + nat s) self w
      else Some (int (sent + nat s), self, w))"

definition hev_task_io_socket_sendmsg ::
  "('a, 'z) yielder \<Rightarrow> int \<Rightarrow> u8 list list \<Rightarrow> 'a socks5_scheme \<Rightarrow> 'z world_scheme \<Rightarrow>
     (int \<times> 'a socks5_scheme \<times> 'z world_scheme) option" where
  "hev_task_io_socket_sendmsg yielder fd iov self w =
     sendmsg_loop yielder fd iov (sum_list (map length iov)) 0 self w"

section \<open>What a peer delivers and takes\<close>

text \<open>The wait ends before the timeout.\<close>

definition waits :: "int \<Rightarrow> nat \<Rightarrow> bool" where
  "waits t left \<longleftrightarrow> t < 0 \<or> (t \<noteq> 0 \<and> left \<noteq> 0)"

lemma yielder_waits:
  "hev_socks5_task_io_yielder TASK_WAITIO left self w = (if waits (s_timeout self) left then 0 else - 1, self, w)"
  by (auto simp: hev_socks5_task_io_yielder_def hev_task_sleep_def waits_def Let_def)

text \<open>A yielder that only waits, as the default one, for the object \<open>self\<close>.\<close>

definition plain :: "('a, 'z) yielder \<Rightarrow> 'a socks5_scheme \<Rightarrow> bool" where
  "plain y self \<longleftrightarrow> (\<forall>left w. y TASK_WAITIO left self w = (if waits (s_timeout self) left then 0 else - 1, self, w))"

lemma plain_default [simp]: "plain hev_socks5_task_io_yielder self"
  by (simp add: plain_def yielder_waits)

lemma plainD: "plain y self \<Longrightarrow> y TASK_WAITIO left self w = (if waits (s_timeout self) left then 0 else - 1, self, w)"
  by (simp add: plain_def)

text \<open>A peer that sends without a pause and without an end in sight.\<close>

definition all_data :: "rx list \<Rightarrow> bool" where
  "all_data es \<longleftrightarrow> (\<forall>e\<in>set es. \<exists>bs. e = RxData bs \<and> bs \<noteq> [])"

lemma all_data_simps [simp]:
  "all_data []" "all_data (RxData bs # es) \<longleftrightarrow> bs \<noteq> [] \<and> all_data es" "\<not> all_data (RxAgain left # es)" "\<not> all_data (RxErr # es)"
  by (auto simp: all_data_def)

text \<open>The bytes that arrive before the connection ends, fails or is silent for too long.\<close>

fun avail :: "int \<Rightarrow> rx list \<Rightarrow> u8 list" where
  "avail t [] = []"
| "avail t (RxData bs # es) = (if bs = [] then [] else bs @ avail t es)"
| "avail t (RxAgain left # es) = (if waits t left then avail t es else [])"
| "avail t (RxErr # es) = []"

fun tx_flows :: "int \<Rightarrow> tx list \<Rightarrow> bool" where
  "tx_flows t [] \<longleftrightarrow> True"
| "tx_flows t (TxOk n # es) \<longleftrightarrow> 0 < n \<and> tx_flows t es"
| "tx_flows t (TxAgain left # es) \<longleftrightarrow> waits t left \<and> tx_flows t es"
| "tx_flows t (TxErr # es) \<longleftrightarrow> False"

abbreviation rx_of :: "'z world_scheme \<Rightarrow> int \<Rightarrow> rx list" where
  "rx_of w fd \<equiv> sk_rx (w_sock w fd)"

abbreviation tx_of :: "'z world_scheme \<Rightarrow> int \<Rightarrow> tx list" where
  "tx_of w fd \<equiv> sk_tx (w_sock w fd)"

abbreviation out_of :: "'z world_scheme \<Rightarrow> int \<Rightarrow> u8 list" where
  "out_of w fd \<equiv> sk_out (w_sock w fd)"

text \<open>Two worlds that differ in one socket and in \<open>errno\<close> only.\<close>

definition only_sock :: "int \<Rightarrow> 'z world_scheme \<Rightarrow> 'z world_scheme \<Rightarrow> bool" where
  "only_sock fd w w' \<longleftrightarrow> (\<exists>sk e. w' = w\<lparr>w_sock := (w_sock w)(fd := sk), w_errno := e\<rparr>)"

lemma only_sock_refl [simp]: "only_sock fd w w"
proof -
  have "w = w\<lparr>w_sock := (w_sock w)(fd := w_sock w fd), w_errno := w_errno w\<rparr>" by simp
  then show ?thesis unfolding only_sock_def by blast
qed

lemma only_sock_upd [simp]:
  "only_sock fd w (w\<lparr>w_sock := (w_sock w)(fd := sk)\<rparr>)"
  "only_sock fd w (w\<lparr>w_sock := (w_sock w)(fd := sk), w_errno := e\<rparr>)"
proof -
  have "w\<lparr>w_sock := (w_sock w)(fd := sk)\<rparr> = w\<lparr>w_sock := (w_sock w)(fd := sk), w_errno := w_errno w\<rparr>" by simp
  then show "only_sock fd w (w\<lparr>w_sock := (w_sock w)(fd := sk)\<rparr>)" unfolding only_sock_def by blast
  show "only_sock fd w (w\<lparr>w_sock := (w_sock w)(fd := sk), w_errno := e\<rparr>)" unfolding only_sock_def by blast
qed

lemma only_sock_trans [trans]: "only_sock fd w w' \<Longrightarrow> only_sock fd w' w'' \<Longrightarrow> only_sock fd w w''"
  unfolding only_sock_def by (elim exE, hypsubst) (simp, blast)

lemma only_sock_fields:
  assumes "only_sock fd w w'"
  shows "w_sys w' = w_sys w" "w_open w' = w_open w" "w_poll w' = w_poll w" "w_alloc w' = w_alloc w"
    "w_live w' = w_live w" "w_stack w' = w_stack w" "w_libc w' = w_libc w" "w_protect w' = w_protect w"
    "w_set w' = w_set w" "world.more w' = world.more w" "fd' \<noteq> fd \<Longrightarrow> w_sock w' fd' = w_sock w fd'"
  using assms by (auto simp: only_sock_def)

section \<open>Receiving\<close>

lemma take_drop_split: "n \<le> length xs \<Longrightarrow> take n xs @ take m (drop n xs) = take (n + m) xs"
  by (simp add: take_add)

definition rx_set :: "int \<Rightarrow> rx list \<Rightarrow> 'z world_scheme \<Rightarrow> 'z world_scheme" where
  "rx_set fd es w = w\<lparr>w_sock := (w_sock w)(fd := (w_sock w fd)\<lparr>sk_rx := es\<rparr>)\<rparr>"

lemma rx_set_simps [simp]:
  "rx_of (rx_set fd es w) fd = es" "tx_of (rx_set fd es w) fd' = tx_of w fd'" "out_of (rx_set fd es w) fd' = out_of w fd'"
  "only_sock fd w (rx_set fd es w)" "only_sock fd w ((rx_set fd es w)\<lparr>w_errno := e\<rparr>)"
  by (auto simp: rx_set_def)

text \<open>One round of the loop for each thing a socket can answer.\<close>

lemma recv_loop_rounds:
  fixes w :: "'z world_scheme" and fd :: int
  assumes "length got < len" and "plain y self"
  defines "loop \<equiv> \<lambda>got self (w :: 'z world_scheme). recv_loop y fd len True False got self w"
  shows "rx_of w fd = [] \<Longrightarrow> loop got self w = Some (int (length got), got, self, w)"
    and "rx_of w fd = RxErr # es \<Longrightarrow> loop got self w =
      Some (if got = [] then - 1 else int (length got), got, self, (rx_set fd es w)\<lparr>w_errno := EIO\<rparr>)"
    and "rx_of w fd = RxAgain left # es \<Longrightarrow> loop got self w =
      (if waits (s_timeout self) left then loop got self ((rx_set fd es w)\<lparr>w_errno := EAGAIN\<rparr>)
       else Some (if got = [] then - 2 else int (length got), got, self, (rx_set fd es w)\<lparr>w_errno := EAGAIN\<rparr>))"
    and "rx_of w fd = RxData bs # es \<Longrightarrow> loop got self w =
      (if bs = [] then Some (int (length got), got, self, rx_set fd es w)
       else if length (got @ bs) < len then loop (got @ bs) self (rx_set fd es w)
       else Some (int len, got @ take (len - length got) bs, self,
         rx_set fd (if length (got @ bs) = len then es else RxData (drop (len - length got) bs) # es) w))"
  using assms(1) unfolding loop_def
  by (subst recv_loop.simps; auto simp: sock_recv_def plainD [OF assms(2)] rx_set_def Let_def)+

text \<open>
  With \<open>MSG_WAITALL\<close> the loop returns the first \<open>len\<close> bytes the peer delivers, whatever the pieces
  they come in; when there are fewer it returns those, and the result is not \<open>len\<close>.
\<close>

definition recv_spec :: "int \<Rightarrow> int \<Rightarrow> nat \<Rightarrow> u8 list \<Rightarrow> 'z world_scheme \<Rightarrow> int \<Rightarrow> u8 list \<Rightarrow> 'z world_scheme \<Rightarrow> bool" where
  "recv_spec t fd len got w r bs w' \<longleftrightarrow>
     only_sock fd w w' \<and> tx_of w' fd = tx_of w fd \<and> out_of w' fd = out_of w fd \<and>
     bs = got @ take (len - length got) (avail t (rx_of w fd)) \<and>
     (len - length got \<le> length (avail t (rx_of w fd)) \<longrightarrow>
        avail t (rx_of w' fd) = drop (len - length got) (avail t (rx_of w fd))) \<and>
     (all_data (rx_of w fd) \<longrightarrow> all_data (rx_of w' fd)) \<and>
     (if bs = [] then r \<le> 0 \<and> (len = 0 \<longrightarrow> r = 0) else r = int (length bs))"

lemma recv_spec_step:
  assumes "recv_spec t fd len (got @ bs) w1 r bs' w'" and "only_sock fd w w1" and "length (got @ bs) < len"
    and "tx_of w1 fd = tx_of w fd" "out_of w1 fd = out_of w fd"
    and "avail t (rx_of w fd) = bs @ avail t (rx_of w1 fd)" and "all_data (rx_of w fd) \<Longrightarrow> all_data (rx_of w1 fd)"
  shows "recv_spec t fd len got w r bs' w'"
  using assms only_sock_trans [of fd w w1 w'] unfolding recv_spec_def by auto

lemma recv_loop_all:
  fixes w :: "'z world_scheme" and fd :: int
  assumes "length got < len" and "plain y self"
  shows "\<exists>r bs w'. recv_loop y fd len True False got self w = Some (r, bs, self, w') \<and>
     recv_spec (s_timeout self) fd len got w r bs w'"
  using assms(1)
proof (induction "rx_of w fd" arbitrary: got w)
  case Nil
  then show ?case using recv_loop_rounds(1) [OF Nil(2) assms(2), of w fd] by (auto simp: recv_spec_def)
next
  case (Cons e es)
  note es = Cons(2) [symmetric]
  show ?case
  proof (cases e)
    case RxErr
    with es show ?thesis using recv_loop_rounds(2) [OF Cons(3) assms(2), of w fd es] Cons(3) by (auto simp: recv_spec_def)
  next
    case (RxAgain left)
    let ?w = "(rx_set fd es w)\<lparr>w_errno := EAGAIN\<rparr>"
    have r: "rx_of ?w fd = es" by simp
    show ?thesis
    proof (cases "waits (s_timeout self) left")
      case True
      from Cons(1) [OF r [symmetric] Cons(3)] obtain r bs w' where
        ih: "recv_loop y fd len True False got self ?w = Some (r, bs, self, w')"
        "recv_spec (s_timeout self) fd len got ?w r bs w'" by blast
      have "recv_spec (s_timeout self) fd len got w r bs w'"
        by (rule recv_spec_step [where bs = "[]" and ?w1.0 = ?w]) (use ih(2) es RxAgain True Cons(3) in simp_all)
      then show ?thesis using ih(1) True es RxAgain recv_loop_rounds(3) [OF Cons(3) assms(2), of w fd left es] by auto
    next
      case False
      then show ?thesis using es RxAgain recv_loop_rounds(3) [OF Cons(3) assms(2), of w fd left es] Cons(3)
        by (auto simp: recv_spec_def)
    qed
  next
    case (RxData ds)
    let ?w = "rx_set fd es w"
    have r: "rx_of ?w fd = es" by simp
    consider "ds = []" | "ds \<noteq> []" "length (got @ ds) < len" | "ds \<noteq> []" "len \<le> length (got @ ds)" by linarith
    then show ?thesis
    proof cases
      case 1
      then show ?thesis using es RxData recv_loop_rounds(4) [OF Cons(3) assms(2), of w fd ds es] Cons(3)
        by (auto simp: recv_spec_def)
    next
      case 2
      from Cons(1) [OF r [symmetric] 2(2)] obtain r bs w' where
        ih: "recv_loop y fd len True False (got @ ds) self ?w = Some (r, bs, self, w')"
        "recv_spec (s_timeout self) fd len (got @ ds) ?w r bs w'" by blast
      have "recv_spec (s_timeout self) fd len got w r bs w'"
        by (rule recv_spec_step [where bs = ds and ?w1.0 = ?w]) (use ih(2) es RxData 2 in simp_all)
      then show ?thesis using ih(1) 2 es RxData recv_loop_rounds(4) [OF Cons(3) assms(2), of w fd ds es] by auto
    next
      case 3
      then show ?thesis using es RxData Cons(3) recv_loop_rounds(4) [OF Cons(3) assms(2), of w fd ds es] Cons(3)
        by (auto simp: recv_spec_def)
    qed
  qed
qed

text \<open>The whole call, also for no bytes at all.\<close>

lemma recv_all:
  fixes w :: "'z world_scheme"
  assumes "plain y self"
  shows "\<exists>r bs w'. hev_task_io_socket_recv y fd len True False self w = Some (r, bs, self, w') \<and>
     recv_spec (s_timeout self) fd len [] w r bs w'"
proof (cases "len = 0")
  case True
  then show ?thesis
    by (simp add: hev_task_io_socket_recv_def, subst recv_loop.simps) (simp add: sock_recv_def recv_spec_def)
next
  case False
  then show ?thesis using recv_loop_all [OF _ assms, of "[]" len fd w] by (simp add: hev_task_io_socket_recv_def)
qed

section \<open>Sending\<close>

definition tx_set :: "int \<Rightarrow> tx list \<Rightarrow> u8 list \<Rightarrow> 'z world_scheme \<Rightarrow> 'z world_scheme" where
  "tx_set fd es bs w = w\<lparr>w_sock := (w_sock w)(fd := (w_sock w fd)\<lparr>sk_tx := es, sk_out := out_of w fd @ bs\<rparr>)\<rparr>"

lemma tx_set_simps [simp]:
  "tx_of (tx_set fd es bs w) fd = es" "rx_of (tx_set fd es bs w) fd' = rx_of w fd'"
  "out_of (tx_set fd es bs w) fd = out_of w fd @ bs"
  "only_sock fd w (tx_set fd es bs w)" "only_sock fd w ((tx_set fd es bs w)\<lparr>w_errno := e\<rparr>)"
  by (auto simp: tx_set_def)

lemma send_loop_rounds:
  fixes w :: "'z world_scheme" and fd :: int
  assumes "sent < length buf" and "plain y self"
  defines "loop \<equiv> \<lambda>sent self (w :: 'z world_scheme). send_loop y fd buf sent self w"
  shows "tx_of w fd = [] \<Longrightarrow> loop sent self w = Some (int (length buf), self, tx_set fd [] (drop sent buf) w)"
    and "tx_of w fd = TxErr # es \<Longrightarrow> loop sent self w =
      Some (if sent = 0 then - 1 else int sent, self, (tx_set fd es [] w)\<lparr>w_errno := EIO\<rparr>)"
    and "tx_of w fd = TxAgain left # es \<Longrightarrow> loop sent self w =
      (if waits (s_timeout self) left then loop sent self ((tx_set fd es [] w)\<lparr>w_errno := EAGAIN\<rparr>)
       else Some (if sent = 0 then - 2 else int sent, self, (tx_set fd es [] w)\<lparr>w_errno := EAGAIN\<rparr>))"
    and "tx_of w fd = TxOk n # es \<Longrightarrow> loop sent self w =
      (if n = 0 then Some (int sent, self, tx_set fd es [] w)
       else if sent + n < length buf then loop (sent + n) self (tx_set fd es (take n (drop sent buf)) w)
       else Some (int (length buf), self, tx_set fd es (drop sent buf) w))"
  using assms(1) unfolding loop_def
  by (subst send_loop.simps; auto simp: sock_send_def plainD [OF assms(2)] tx_set_def Let_def min_def)+

text \<open>
  What \<open>send\<close> puts on the wire is a prefix of the buffer; the result is positive exactly when the
  prefix is not empty, and it is the whole buffer when the peer keeps taking bytes.
\<close>

definition send_spec :: "int \<Rightarrow> int \<Rightarrow> u8 list \<Rightarrow> nat \<Rightarrow> 'z world_scheme \<Rightarrow> int \<Rightarrow> 'z world_scheme \<Rightarrow> bool" where
  "send_spec t fd buf sent w r w' \<longleftrightarrow>
     only_sock fd w w' \<and> rx_of w' fd = rx_of w fd \<and>
     (\<exists>k. sent \<le> k \<and> k \<le> length buf \<and> out_of w' fd = out_of w fd @ take (k - sent) (drop sent buf) \<and>
        (if k = 0 then r \<le> 0 else r = int k) \<and>
        (tx_flows t (tx_of w fd) \<longrightarrow> k = length buf \<and> tx_flows t (tx_of w' fd)))"

lemma send_spec_step:
  assumes "send_spec t fd buf (sent + n) w1 r w'" and "only_sock fd w w1" and "rx_of w1 fd = rx_of w fd"
    and "out_of w1 fd = out_of w fd @ take n (drop sent buf)" and "sent + n \<le> length buf"
    and "tx_flows t (tx_of w fd) \<Longrightarrow> tx_flows t (tx_of w1 fd)"
  shows "send_spec t fd buf sent w r w'"
proof -
  from assms(1) obtain k where k: "sent + n \<le> k" "k \<le> length buf"
    "out_of w' fd = out_of w1 fd @ take (k - (sent + n)) (drop (sent + n) buf)"
    "if k = 0 then r \<le> 0 else r = int k"
    "tx_flows t (tx_of w1 fd) \<longrightarrow> k = length buf \<and> tx_flows t (tx_of w' fd)"
    unfolding send_spec_def by blast
  have "k - sent = n + (k - (sent + n))" using k(1) by simp
  then have "take n (drop sent buf) @ take (k - (sent + n)) (drop (sent + n) buf) = take (k - sent) (drop sent buf)"
    by (metis add.commute drop_drop take_add)
  then have "out_of w' fd = out_of w fd @ take (k - sent) (drop sent buf)" using k(3) assms(4) by simp
  then show ?thesis unfolding send_spec_def
    using k assms(1,2,3,6) only_sock_trans [of fd w w1 w'] by (auto simp: send_spec_def intro!: exI [of _ k])
qed

lemma send_loop_all:
  fixes w :: "'z world_scheme"
  assumes "sent < length buf" and "plain y self"
  shows "\<exists>r w'. send_loop y fd buf sent self w = Some (r, self, w') \<and>
     send_spec (s_timeout self) fd buf sent w r w'"
  using assms(1)
proof (induction "tx_of w fd" arbitrary: sent w)
  case Nil
  then show ?case using send_loop_rounds(1) [OF Nil(2) assms(2), of w fd]
    by (auto simp: send_spec_def intro!: exI [of _ "length buf"])
next
  case (Cons e es)
  note es = Cons(2) [symmetric]
  show ?case
  proof (cases e)
    case TxErr
    with es show ?thesis using send_loop_rounds(2) [OF Cons(3) assms(2), of w fd es] Cons(3)
      by (auto simp: send_spec_def intro!: exI [of _ sent])
  next
    case (TxAgain left)
    let ?w = "(tx_set fd es [] w)\<lparr>w_errno := EAGAIN\<rparr>"
    have r: "tx_of ?w fd = es" by simp
    show ?thesis
    proof (cases "waits (s_timeout self) left")
      case True
      from Cons(1) [OF r [symmetric] Cons(3)] obtain r w' where
        ih: "send_loop y fd buf sent self ?w = Some (r, self, w')"
        "send_spec (s_timeout self) fd buf sent ?w r w'" by blast
      have "send_spec (s_timeout self) fd buf sent w r w'"
        by (rule send_spec_step [where n = 0 and ?w1.0 = ?w]) (use ih(2) es TxAgain True Cons(3) in simp_all)
      then show ?thesis using ih(1) True es TxAgain send_loop_rounds(3) [OF Cons(3) assms(2), of w fd left es] by auto
    next
      case False
      then show ?thesis using es TxAgain send_loop_rounds(3) [OF Cons(3) assms(2), of w fd left es] Cons(3)
        by (auto simp: send_spec_def intro!: exI [of _ sent])
    qed
  next
    case (TxOk n)
    let ?w = "tx_set fd es (take n (drop sent buf)) w"
    have r: "tx_of ?w fd = es" by simp
    consider "n = 0" | "n \<noteq> 0" "sent + n < length buf" | "n \<noteq> 0" "length buf \<le> sent + n" by linarith
    then show ?thesis
    proof cases
      case 1
      then show ?thesis using es TxOk send_loop_rounds(4) [OF Cons(3) assms(2), of w fd n es] Cons(3)
        by (auto simp: send_spec_def intro!: exI [of _ sent])
    next
      case 2
      from Cons(1) [OF r [symmetric] 2(2)] obtain r w' where
        ih: "send_loop y fd buf (sent + n) self ?w = Some (r, self, w')"
        "send_spec (s_timeout self) fd buf (sent + n) ?w r w'" by blast
      have "send_spec (s_timeout self) fd buf sent w r w'"
        by (rule send_spec_step [where n = n and ?w1.0 = ?w]) (use ih(2) es TxOk 2 in simp_all)
      then show ?thesis using ih(1) 2 es TxOk send_loop_rounds(4) [OF Cons(3) assms(2), of w fd n es] by auto
    next
      case 3
      then show ?thesis using es TxOk Cons(3) send_loop_rounds(4) [OF Cons(3) assms(2), of w fd n es]
        by (auto simp: send_spec_def intro!: exI [of _ "length buf"])
    qed
  qed
qed

lemma send_all:
  fixes w :: "'z world_scheme"
  assumes "buf \<noteq> []" and "plain y self"
  shows "\<exists>r w'. hev_task_io_socket_send y fd buf self w = Some (r, self, w') \<and>
     send_spec (s_timeout self) fd buf 0 w r w'"
  using send_loop_all [OF _ assms(2), of 0 buf fd w] assms(1) by (simp add: hev_task_io_socket_send_def)

section \<open>Vectors\<close>

lemma concat_iov_advance: "concat (iov_advance s iov) = drop s (concat iov)"
  by (induction s iov rule: iov_advance.induct) simp_all

text \<open>Sending a vector is sending its concatenation, for every behaviour of the peer.\<close>

lemma sendmsg_loop_send:
  fixes w :: "'z world_scheme"
  assumes "concat iov = drop sent buf" and "sent < length buf" and "plain y self"
  shows "sendmsg_loop y fd iov (length buf) sent self w =
     send_loop y fd buf sent self w"
  using assms(1,2)
proof (induction "tx_of w fd" arbitrary: sent iov w)
  case Nil
  then have "sent + nat (int (length buf) - int sent) = length buf" by simp
  with Nil show ?case
    by (subst sendmsg_loop.simps, subst send_loop.simps) (simp add: sock_send_def Let_def)
next
  case (Cons e es)
  note es = Cons(2) [symmetric]
  show ?case
  proof (cases e)
    case TxErr
    with es Cons(3) show ?thesis
      by (subst sendmsg_loop.simps, subst send_loop.simps) (simp add: sock_send_def Let_def)
  next
    case (TxAgain left)
    let ?w = "(tx_set fd es [] w)\<lparr>w_errno := EAGAIN\<rparr>"
    have "tx_of ?w fd = es" by simp
    from Cons(1) [OF this [symmetric] Cons(3,4)] es TxAgain Cons(3,4) show ?thesis
      by (subst sendmsg_loop.simps, subst send_loop.simps) (simp add: sock_send_def plainD [OF assms(3)] tx_set_def Let_def)
  next
    case (TxOk n)
    let ?w = "tx_set fd es (take n (drop sent buf)) w"
    have r: "tx_of ?w fd = es" by simp
    have c: "concat (iov_advance n iov) = drop (sent + n) buf"
      by (simp add: concat_iov_advance Cons(3) add.commute)
    show ?thesis
    proof (cases "sent + n < length buf")
      case True
      with Cons(1) [OF r [symmetric] c True] es TxOk Cons(3,4) show ?thesis
        by (subst sendmsg_loop.simps, subst send_loop.simps) (simp add: sock_send_def tx_set_def Let_def)
    next
      case False
      have "sent + nat (int (length buf) - int sent) = length buf" using Cons(4) by simp
      with False es TxOk Cons(3,4) show ?thesis
        by (subst sendmsg_loop.simps, subst send_loop.simps) (simp add: sock_send_def Let_def)
    qed
  qed
qed

lemma sendmsg_send:
  assumes "concat iov \<noteq> []" and "plain y self"
  shows "hev_task_io_socket_sendmsg y fd iov self w =
     hev_task_io_socket_send y fd (concat iov) self w"
proof -
  have len: "sum_list (map length iov) = length (concat iov)" by (simp add: length_concat)
  have "0 < length (concat iov)" using assms(1) by (rule length_greater_0_conv [THEN iffD2])
  from sendmsg_loop_send [OF _ this assms(2)] show ?thesis
    unfolding hev_task_io_socket_sendmsg_def hev_task_io_socket_send_def len by (simp only: drop_0)
qed

section \<open>Connecting\<close>

text \<open>Two worlds that differ in the script of the kernel and in \<open>errno\<close> only.\<close>

definition only_sys :: "'z world_scheme \<Rightarrow> 'z world_scheme \<Rightarrow> bool" where
  "only_sys w w' \<longleftrightarrow> (\<exists>rs e. w' = w\<lparr>w_sys := rs, w_errno := e\<rparr> \<and> length rs \<le> length (w_sys w))"

lemma only_sys_refl [simp]: "only_sys w w"
proof -
  have "w = w\<lparr>w_sys := w_sys w, w_errno := w_errno w\<rparr>" by simp
  then show ?thesis unfolding only_sys_def by blast
qed

lemma only_sys_trans [trans]: "only_sys w w' \<Longrightarrow> only_sys w' w'' \<Longrightarrow> only_sys w w''"
  unfolding only_sys_def by (elim exE conjE, hypsubst) (simp, blast intro: le_trans)

lemma sys_only: "only_sys w (snd (sys w))"
proof (cases "w_sys w")
  case Nil
  then have "snd (sys w) = w\<lparr>w_sys := [], w_errno := EIO\<rparr>" by (cases w) (simp add: sys_def)
  then show ?thesis unfolding only_sys_def by (intro exI [of _ "[]"] exI [of _ EIO]) simp
next
  case (Cons r rs)
  then have "snd (sys w) = w\<lparr>w_sys := rs, w_errno := (if r < 0 then - r else w_errno w)\<rparr>" by (simp add: sys_def)
  then show ?thesis unfolding only_sys_def
    by (intro exI [of _ rs] exI [of _ "if r < 0 then - r else w_errno w"]) (simp add: Cons)
qed

lemma sys_consumes: "w_sys w \<noteq> [] \<Longrightarrow> length (w_sys (snd (sys w))) < length (w_sys w)"
  by (auto simp: sys_def split: list.split)

lemma only_sys_fields:
  assumes "only_sys w w'"
  shows "w_sock w' = w_sock w" "w_open w' = w_open w" "w_poll w' = w_poll w" "w_alloc w' = w_alloc w"
    "w_live w' = w_live w" "w_stack w' = w_stack w" "w_libc w' = w_libc w" "w_protect w' = w_protect w"
    "w_set w' = w_set w" "world.more w' = world.more w"
  using assms by (auto simp: only_sys_def)

lemma connect_returns:
  "\<exists>r w'. hev_task_io_socket_connect hev_socks5_task_io_yielder self w = Some (r, self, w') \<and> only_sys w w'"
proof (induction "length (w_sys w)" arbitrary: w rule: less_induct)
  case less
  obtain res w1 where s1: "sys w = (res, w1)" by (cases "sys w")
  obtain left w2 where s2: "sys w1 = (left, w2)" by (cases "sys w1")
  have o: "only_sys w w1" "only_sys w1 w2" using sys_only [of w] sys_only [of w1] s1 s2 by simp_all
  show ?case
  proof (cases "res < 0 \<and> (w_errno w1 = EINPROGRESS \<or> w_errno w1 = EALREADY) \<and> waits (s_timeout self) (nat left)")
    case True
    then have "w_sys w \<noteq> []" using s1 by (auto simp: sys_def split: if_splits)
    then have "length (w_sys w2) < length (w_sys w)"
      using sys_consumes [of w] s1 o(2) by (auto simp: only_sys_def)
    from less(1) [OF this] obtain r w' where
      "hev_task_io_socket_connect hev_socks5_task_io_yielder self w2 = Some (r, self, w')" "only_sys w2 w'" by blast
    then show ?thesis using s1 s2 True o only_sys_trans [of w w1 w2] only_sys_trans [of w w2 w']
      by (subst hev_task_io_socket_connect.simps) (auto simp: yielder_waits)
  next
    case False
    then show ?thesis using s1 s2 o only_sys_trans [of w w1 w2]
      by (subst hev_task_io_socket_connect.simps) (auto simp: yielder_waits)
  qed
qed

lemma sys_value: "sys w = (r, w') \<Longrightarrow> 0 \<le> r \<Longrightarrow> r = hd (w_sys w)"
  by (auto simp: sys_def split: list.split_asm if_split_asm)

text \<open>A new socket: everything but the script and the two sets of descriptors stays as it was.\<close>

definition same_but_fds :: "'z world_scheme \<Rightarrow> 'z world_scheme \<Rightarrow> bool" where
  "same_but_fds w w' \<longleftrightarrow> w_sock w' = w_sock w \<and> w_live w' = w_live w \<and> w_alloc w' = w_alloc w \<and> w_set w' = w_set w \<and>
     w_libc w' = w_libc w \<and> w_stack w' = w_stack w \<and> world.more w' = world.more w \<and> w_protect w' = w_protect w"

lemma only_sys_same: "only_sys w w' \<Longrightarrow> same_but_fds w w'"
  by (simp add: same_but_fds_def only_sys_fields)

lemma same_but_fds_trans: "same_but_fds w w' \<Longrightarrow> same_but_fds w' w'' \<Longrightarrow> same_but_fds w w''"
  by (simp add: same_but_fds_def)

lemma io_socket_returns:
  assumes "hev_task_io_socket_socket w = (fd, w')" and "hd (w_sys w) \<notin> set (w_open w)"
  shows "same_but_fds w w' \<and> w_poll w' = w_poll w \<and>
     (if fd < 0 then w_open w' = w_open w else w_open w' = fd # w_open w \<and> fd \<notin> set (w_open w))"
proof -
  obtain f w1 where s1: "sys w = (f, w1)" by (cases "sys w")
  have o1: "only_sys w w1" using sys_only [of w] s1 by simp
  note f1 = only_sys_fields [OF o1]
  have "f \<notin> set (w_open w)" if "0 \<le> f" using sys_value [OF s1 that] assms(2) by simp
  then show ?thesis using assms(1) s1 f1
    by (auto simp: hev_task_io_socket_socket_def same_but_fds_def close_def Let_def split: if_split_asm option.split_asm)
qed

lemma socket_returns:
  assumes "hev_socks5_socket type w = (fd, w')" and "hd (w_sys w) \<notin> set (w_open w)"
  shows "if fd < 0 then fd = - 1 \<and> w_open w' = w_open w \<and> w_poll w' = w_poll w
     else w_open w' = fd # w_open w \<and> fd \<notin> set (w_open w) \<and> set (w_poll w') = insert fd (set (w_poll w))"
    and "same_but_fds w w'"
proof -
  obtain f w1 where s1: "hev_task_io_socket_socket w = (f, w1)" by (cases "hev_task_io_socket_socket w")
  note i1 = io_socket_returns [OF s1 assms(2)]
  obtain r w2 where s2: "sys w1 = (r, w2)" by (cases "sys w1")
  have o2: "only_sys w1 w2" using sys_only [of w1] s2 by simp
  let ?w3 = "if f \<in> set (w_poll w2) then w2 else w2\<lparr>w_poll := f # w_poll w2\<rparr>"
  have s3: "same_but_fds w2 ?w3" "w_open ?w3 = w_open w2" "set (w_poll ?w3) = insert f (set (w_poll w2))"
    by (auto simp: same_but_fds_def)
  have o4: "only_sys ?w3 (snd (sys ?w3))" by (rule sys_only)
  have run: "(fd, w') = (if f < 0 then (- 1, w1) else if r < 0 then (- 1, close f w2)
     else (f, if type = SOCK_DGRAM then snd (sys ?w3) else ?w3))"
    using assms(1) by (auto simp: hev_socks5_socket_def s1 s2 Let_def hev_task_add_fd_def hev_task_mod_fd_def split: if_split_asm)
  note f2 = only_sys_fields [OF o2] and f4 = only_sys_fields [OF o4]
  have a1: "same_but_fds w w1" using i1 by blast
  have a2: "same_but_fds w w2" by (rule same_but_fds_trans [OF a1 only_sys_same [OF o2]])
  have a3: "same_but_fds w ?w3" by (rule same_but_fds_trans [OF a2 s3(1)])
  have a4: "same_but_fds w (snd (sys ?w3))" by (rule same_but_fds_trans [OF a3 only_sys_same [OF o4]])
  have a5: "same_but_fds w (close f w2)"
    by (rule same_but_fds_trans [OF a2]) (simp add: same_but_fds_def close_def)
  show "same_but_fds w w'" using run a1 a3 a4 a5 by (simp split: if_split_asm)
  show "if fd < 0 then fd = - 1 \<and> w_open w' = w_open w \<and> w_poll w' = w_poll w
     else w_open w' = fd # w_open w \<and> fd \<notin> set (w_open w) \<and> set (w_poll w') = insert fd (set (w_poll w))"
    using run i1 f2(2,3) s3(2,3) f4(2,3) by (simp add: close_def split: if_split_asm)
qed

section \<open>Properties\<close>

text \<open>
  Receiving with \<open>MSG_WAITALL\<close> returns, hands out the first \<open>len\<close> bytes the peer delivers in
  time, whatever pieces and pauses they come in, and leaves the rest on the socket; its result is
  \<open>len\<close> exactly when there were that many.
\<close>

theorem recv_waitall:
  shows "\<exists>r bs w'. hev_task_io_socket_recv hev_socks5_task_io_yielder fd len True False self w = Some (r, bs, self, w') \<and>
     bs = take len (avail (s_timeout self) (rx_of w fd)) \<and>
     (if len \<le> length (avail (s_timeout self) (rx_of w fd))
      then r = int len \<and> avail (s_timeout self) (rx_of w' fd) = drop len (avail (s_timeout self) (rx_of w fd))
      else r \<noteq> int len) \<and> out_of w' fd = out_of w fd"
proof -
  from recv_all [OF plain_default, of fd len self w] obtain r bs w' where
    "hev_task_io_socket_recv hev_socks5_task_io_yielder fd len True False self w = Some (r, bs, self, w')"
    "recv_spec (s_timeout self) fd len [] w r bs w'" by blast
  then show ?thesis by (auto simp: recv_spec_def split: if_split_asm)
qed

text \<open>
  C29: Sending a vector with \<open>MSG_WAITALL\<close>, which cuts the vector after each partial write, puts the
  same bytes on the wire and has the same result as sending the concatenation of its parts,
  whatever the peer accepts at a time.
\<close>

theorem sendmsg_is_send:
  assumes "concat iov \<noteq> []"
  shows "hev_task_io_socket_sendmsg hev_socks5_task_io_yielder fd iov self w =
     hev_task_io_socket_send hev_socks5_task_io_yielder fd (concat iov) self w"
  by (rule sendmsg_send [OF assms plain_default])

lemma sendmsg_is_send_witness:
  "\<forall>(self :: socks5) (w :: world). hev_task_io_socket_sendmsg hev_socks5_task_io_yielder 3 [[1, 2], [], [3]] self w =
     hev_task_io_socket_send hev_socks5_task_io_yielder 3 [1, 2, 3] self w"
  by (intro allI) (rule sendmsg_is_send [of "[[1, 2], [], [3]]" 3, simplified])

end
