(* ===== verification/Socks5_Client.thy ===== *)
theory Socks5_Client
  imports Task_Io
begin

text \<open>
  The socks5 client: \<open>core/src/hev-socks5-client.c\<close>, with its two kinds of upstream,
  \<open>hev-socks5-client-tcp.c\<close> and \<open>hev-socks5-client-udp.c\<close>. A class is a record of its virtual
  methods, an object a record that extends the one of its base. Log messages are left out.
\<close>

section \<open>The client object\<close>

record client = socks5 +
  c_user :: "u8 list option"
  c_pass :: "u8 list option"

text \<open>
  The virtual methods. \<open>get_upstream_addr\<close> hands out a block that the caller frees, or NULL.
\<close>

record ('a, 'z) client_class =
  bind_socket :: "'a client_scheme \<Rightarrow> int \<Rightarrow> sockaddr6 \<Rightarrow> 'z world_scheme \<Rightarrow> int \<times> 'z world_scheme"
  get_upstream_addr :: "'a client_scheme \<Rightarrow> 'z world_scheme \<Rightarrow> u8 list option \<times> 'a client_scheme \<times> 'z world_scheme"
  set_upstream_addr :: "'a client_scheme \<Rightarrow> u8 list \<Rightarrow> 'z world_scheme \<Rightarrow> (int \<times> 'a client_scheme \<times> 'z world_scheme) option"

text \<open>\<open>hev_socks5_bind\<close>, the virtual method of the base class.\<close>

definition hev_socks5_bind :: "'a socks5_scheme \<Rightarrow> int \<Rightarrow> sockaddr6 \<Rightarrow> 'z world_scheme \<Rightarrow> int \<times> 'z world_scheme" where
  "hev_socks5_bind self sock dest w = (0, w)"

definition hev_socks5_client_construct :: "'a client_scheme \<Rightarrow> socks5_type \<Rightarrow> int \<times> 'a client_scheme" where
  "hev_socks5_client_construct self type =
     (let (res, self) = hev_socks5_construct self type in if res < 0 then (res, self) else (0, self))"

definition hev_socks5_client_set_auth :: "'a client_scheme \<Rightarrow> u8 list option \<Rightarrow> u8 list option \<Rightarrow> 'a client_scheme" where
  "hev_socks5_client_set_auth self user pass = self\<lparr>c_user := user, c_pass := pass\<rparr>"

definition hev_socks5_client_destruct :: "'a client_scheme \<Rightarrow> 'z world_scheme \<Rightarrow> 'z world_scheme" where
  "hev_socks5_client_destruct self w = hev_socks5_destruct self w"

section \<open>Messages\<close>

abbreviation client_send where
  "client_send self bs w \<equiv> hev_task_io_socket_send hev_socks5_task_io_yielder (s_fd self) bs self w"

abbreviation client_sendmsg where
  "client_sendmsg self iov w \<equiv> hev_task_io_socket_sendmsg hev_socks5_task_io_yielder (s_fd self) iov self w"

abbreviation client_recv where
  "client_recv self n w \<equiv> hev_task_io_socket_recv hev_socks5_task_io_yielder (s_fd self) n True False self w"

definition hev_socks5_client_write_auth_methods ::
  "'a client_scheme \<Rightarrow> 'z world_scheme \<Rightarrow> (int \<times> 'a client_scheme \<times> 'z world_scheme) option" where
  "hev_socks5_client_write_auth_methods self w = do {
     let method = (if c_user self = None \<or> c_pass self = None then AUTH_METHOD_NONE else AUTH_METHOD_USER);
     (res, self, w) \<leftarrow> client_send self [VERSION_5, 1, method] w;
     if res \<le> 0 then Some (- 1, self, w) else Some (0, self, w)
   }"

definition hev_socks5_client_write_auth_creds ::
  "'a client_scheme \<Rightarrow> 'z world_scheme \<Rightarrow> (int \<times> 'a client_scheme \<times> 'z world_scheme) option" where
  "hev_socks5_client_write_auth_creds self w =
     (case (c_user self, c_pass self) of
        (Some user, Some pass) \<Rightarrow> do {
          ul \<leftarrow> strlen user;
          pl \<leftarrow> strlen pass;
          let ub1 = (of_nat ul :: u8);
          let ub2 = (of_nat pl :: u8);
          u \<leftarrow> memget user 0 (unat ub1);
          p \<leftarrow> memget pass 0 (unat ub2);
          (res, self, w) \<leftarrow> client_sendmsg self [[AUTH_VERSION_1, ub1], u, [ub2], p] w;
          if res \<le> 0 then Some (- 1, self, w) else Some (0, self, w)
        }
      | _ \<Rightarrow> Some (0, self, w))"

definition hev_socks5_client_write_request ::
  "('a, 'z) client_class \<Rightarrow> 'a client_scheme \<Rightarrow> 'z world_scheme \<Rightarrow> (int \<times> 'a client_scheme \<times> 'z world_scheme) option" where
  "hev_socks5_client_write_request klass self w =
     (case (case s_type self of TYPE_TCP \<Rightarrow> Some REQ_CMD_CONNECT | TYPE_UDP_IN_TCP \<Rightarrow> Some REQ_CMD_FWD_UDP
        | TYPE_UDP_IN_UDP \<Rightarrow> Some REQ_CMD_UDP_ASC | TYPE_NONE \<Rightarrow> None) of
        None \<Rightarrow> Some (- 1, self, w)
      | Some cmd \<Rightarrow> do {
          let (addr, self, w) = get_upstream_addr klass self w;
          addr \<leftarrow> addr;
          t \<leftarrow> addr_atype addr;
          addrlen \<leftarrow> (if t = ADDR_TYPE_IPV4 then Some 7
            else if t = ADDR_TYPE_IPV6 then Some 19
            else if t = ADDR_TYPE_NAME then map_option (\<lambda>l. 4 + unat l) (addr_name_len addr)
            else Some 0);
          if t \<notin> {ADDR_TYPE_IPV4, ADDR_TYPE_IPV6, ADDR_TYPE_NAME} then Some (- 1, self, w)
          else do {
            a \<leftarrow> memget addr 0 addrlen;
            (ret, self, w) \<leftarrow> client_sendmsg self [[VERSION_5, cmd, 0], a] w;
            if ret \<le> 0 then Some (- 1, self, w) else Some (0, self, hev_free w)
          }
        })"

definition hev_socks5_client_read_auth_method ::
  "'a client_scheme \<Rightarrow> 'z world_scheme \<Rightarrow> (int \<times> 'a client_scheme \<times> 'z world_scheme) option" where
  "hev_socks5_client_read_auth_method self w = do {
     (res, auth, self, w) \<leftarrow> client_recv self 2 w;
     if res \<noteq> 2 then Some (- 1, self, w)
     else if auth ! 0 \<noteq> VERSION_5 then Some (- 1, self, w)
     else Some (uint (auth ! 1), self, w)
   }"

definition hev_socks5_client_read_auth_creds ::
  "'a client_scheme \<Rightarrow> 'z world_scheme \<Rightarrow> (int \<times> 'a client_scheme \<times> 'z world_scheme) option" where
  "hev_socks5_client_read_auth_creds self w = do {
     (ret, res, self, w) \<leftarrow> client_recv self 2 w;
     if ret \<noteq> 2 then Some (- 1, self, w)
     else if res ! 0 \<noteq> AUTH_VERSION_1 then Some (- 1, self, w)
     else if res ! 1 \<noteq> RES_REP_SUCC then Some (- 1, self, w)
     else Some (0, self, w)
   }"

text \<open>The address is read into a local structure, whose other bytes are what the stack held.\<close>

definition stack_addr :: "u8 list \<Rightarrow> 'z world_scheme \<Rightarrow> u8 list" where
  "stack_addr bs w = bs @ map (w_stack w) [length bs..<addr_size]"

definition hev_socks5_client_read_response ::
  "('a, 'z) client_class \<Rightarrow> 'a client_scheme \<Rightarrow> 'z world_scheme \<Rightarrow> (int \<times> 'a client_scheme \<times> 'z world_scheme) option" where
  "hev_socks5_client_read_response klass self w = do {
     (ret, res, self, w) \<leftarrow> client_recv self 4 w;
     if ret \<noteq> 4 then Some (- 1, self, w)
     else if res ! 0 \<noteq> VERSION_5 then Some (- 1, self, w)
     else if res ! 1 \<noteq> RES_REP_SUCC then Some (- 1, self, w)
     else if res ! 3 \<noteq> ADDR_TYPE_IPV4 \<and> res ! 3 \<noteq> ADDR_TYPE_IPV6 then Some (- 1, self, w)
     else do {
       let addrlen = (if res ! 3 = ADDR_TYPE_IPV4 then 6 else 18);
       (ret, bs, self, w) \<leftarrow> client_recv self addrlen w;
       if ret \<noteq> int addrlen then Some (- 1, self, w)
       else do {
         (ret, self, w) \<leftarrow> set_upstream_addr klass self (stack_addr (res ! 3 # bs) w) w;
         if ret < 0 then Some (- 1, self, w) else Some (0, self, w)
       }
     }
   }"

section \<open>Connecting\<close>

definition hev_socks5_client_connect ::
  "('a, 'z) client_class \<Rightarrow> 'a client_scheme \<Rightarrow> u8 list \<Rightarrow> int \<Rightarrow> 'z world_scheme \<Rightarrow>
     (int \<times> 'a client_scheme \<times> 'z world_scheme) option" where
  "hev_socks5_client_connect klass self addr port w = do {
     let timeout = hev_socks5_get_connect_timeout (w_set w);
     let self = hev_socks5_set_timeout self timeout;
     let saddr = \<lparr>sin6_family = 0, sin6_port = 0, sin6_addr = replicate 16 0\<rparr>;
     let addr_family = hev_socks5_get_addr_family self;
     name \<leftarrow> cstr addr;
     let (res, saddr, addr_family) = hev_socks5_name_into_sockaddr6 (w_libc w) name (word_of_int port) saddr addr_family;
     if res < 0 then Some (- 1, self, w)
     else do {
       let (fd, w) = hev_socks5_socket SOCK_STREAM w;
       if fd < 0 then Some (- 1, self, w)
       else do {
         let (res, w) = bind_socket klass self fd saddr w;
         if res < 0 then Some (- 1, self, close fd (hev_task_del_fd fd w))
         else do {
           (res, self, w) \<leftarrow> hev_task_io_socket_connect hev_socks5_task_io_yielder self w;
           if res < 0 then Some (- 1, self, close fd (hev_task_del_fd fd w))
           else Some (0, hev_socks5_set_addr_family (self\<lparr>s_fd := fd\<rparr>) addr_family, w)
         }
       }
     }
   }"

section \<open>The handshake\<close>

definition hev_socks5_client_handshake_standard ::
  "('a, 'z) client_class \<Rightarrow> 'a client_scheme \<Rightarrow> 'z world_scheme \<Rightarrow> (int \<times> 'a client_scheme \<times> 'z world_scheme) option" where
  "hev_socks5_client_handshake_standard klass self w =
     check (hev_socks5_client_write_auth_methods self w) (\<lambda>_ self w.
     check (hev_socks5_client_read_auth_method self w) (\<lambda>res self w.
     check (if res = uint AUTH_METHOD_USER then
              check (hev_socks5_client_write_auth_creds self w) (\<lambda>_ self w.
              hev_socks5_client_read_auth_creds self w)
            else if res \<noteq> uint AUTH_METHOD_NONE then Some (- 1, self, w)
            else Some (res, self, w)) (\<lambda>_ self w.
     check (hev_socks5_client_write_request klass self w) (\<lambda>_ self w.
     check (hev_socks5_client_read_response klass self w) (\<lambda>_ self w.
     Some (0, self, w))))))"

definition hev_socks5_client_handshake_pipeline ::
  "('a, 'z) client_class \<Rightarrow> 'a client_scheme \<Rightarrow> 'z world_scheme \<Rightarrow> (int \<times> 'a client_scheme \<times> 'z world_scheme) option" where
  "hev_socks5_client_handshake_pipeline klass self w =
     check (hev_socks5_client_write_auth_methods self w) (\<lambda>_ self w.
     check (hev_socks5_client_write_auth_creds self w) (\<lambda>_ self w.
     check (hev_socks5_client_write_request klass self w) (\<lambda>_ self w.
     check (hev_socks5_client_read_auth_method self w) (\<lambda>res self w.
     check (if res = uint AUTH_METHOD_USER then hev_socks5_client_read_auth_creds self w
            else if res \<noteq> uint AUTH_METHOD_NONE then Some (- 1, self, w)
            else Some (res, self, w)) (\<lambda>_ self w.
     check (hev_socks5_client_read_response klass self w) (\<lambda>_ self w.
     Some (0, self, w)))))))"

definition hev_socks5_client_handshake ::
  "('a, 'z) client_class \<Rightarrow> 'a client_scheme \<Rightarrow> bool \<Rightarrow> 'z world_scheme \<Rightarrow> (int \<times> 'a client_scheme \<times> 'z world_scheme) option" where
  "hev_socks5_client_handshake klass self pipeline w = do {
     let timeout = hev_socks5_get_tcp_timeout (w_set w);
     let self = hev_socks5_set_timeout self timeout;
     (res, self, w) \<leftarrow>
       (if pipeline then hev_socks5_client_handshake_pipeline klass self w
        else hev_socks5_client_handshake_standard klass self w);
     case s_type self of
       TYPE_UDP_IN_TCP \<Rightarrow> Some (res, hev_socks5_set_timeout self (hev_socks5_get_udp_timeout (w_set w)), w)
     | TYPE_UDP_IN_UDP \<Rightarrow> Some (res, hev_socks5_set_timeout self (hev_socks5_get_udp_timeout (w_set w)), w)
     | _ \<Rightarrow> Some (res, self, w)
   }"

section \<open>The TCP client\<close>

text \<open>\<open>ct_addr\<close> is the block that holds the destination until the request takes it, or NULL.\<close>

record client_tcp = client +
  ct_addr :: "u8 list option"

definition hev_socks5_client_tcp_construct ::
  "'a client_tcp_scheme \<Rightarrow> u8 list \<Rightarrow> 'z world_scheme \<Rightarrow> (int \<times> 'a client_tcp_scheme \<times> 'z world_scheme) option" where
  "hev_socks5_client_tcp_construct self addr w = do {
     let (res, self) = hev_socks5_client_construct self TYPE_TCP;
     if res < 0 then Some (res, self, w)
     else do {
       res \<leftarrow> hev_socks5_addr_len addr;
       if res < 0 then Some (- 1, self\<lparr>ct_addr := None\<rparr>, w)
       else do {
         let (ok, w) = hev_malloc w;
         if \<not> ok then Some (- 1, self\<lparr>ct_addr := None\<rparr>, w)
         else do {
           a \<leftarrow> memget addr 0 (nat res);
           Some (0, self\<lparr>ct_addr := Some a\<rparr>, w)
         }
       }
     }
   }"

definition client_tcp_zero :: client_tcp where
  "client_tcp_zero = \<lparr>s_fd = 0, s_timeout = 0, s_type = TYPE_NONE, s_udp_associated = False, s_addr_family = 0,
     c_user = None, c_pass = None, ct_addr = None\<rparr>"

text \<open>The three allocating constructors; \<open>None\<close> inside the result is the NULL they return.\<close>

definition client_tcp_finish ::
  "'z world_scheme \<Rightarrow> u8 list \<Rightarrow> (client_tcp option \<times> 'z world_scheme) option" where
  "client_tcp_finish w addr = do {
     (res, self, w) \<leftarrow> hev_socks5_client_tcp_construct client_tcp_zero addr w;
     if res < 0 then Some (None, hev_free w) else Some (Some self, w)
   }"

definition hev_socks5_client_tcp_new_name ::
  "u8 list \<Rightarrow> u16 \<Rightarrow> 'z world_scheme \<Rightarrow> (client_tcp option \<times> 'z world_scheme) option" where
  "hev_socks5_client_tcp_new_name name port w = do {
     let (ok, w) = hev_malloc w;
     if \<not> ok then Some (None, w)
     else do {
       (_, addr) \<leftarrow> hev_socks5_addr_from_name (stack_addr [] w) name port;
       client_tcp_finish w addr
     }
   }"

definition hev_socks5_client_tcp_new_ipv4 ::
  "u8 list \<Rightarrow> u16 \<Rightarrow> 'z world_scheme \<Rightarrow> (client_tcp option \<times> 'z world_scheme) option" where
  "hev_socks5_client_tcp_new_ipv4 ipv4 port w = do {
     let (ok, w) = hev_malloc w;
     if \<not> ok then Some (None, w)
     else do {
       (_, addr) \<leftarrow> hev_socks5_addr_from_ipv4 (stack_addr [] w) ipv4 port;
       client_tcp_finish w addr
     }
   }"

definition hev_socks5_client_tcp_new_ipv6 ::
  "u8 list \<Rightarrow> u16 \<Rightarrow> 'z world_scheme \<Rightarrow> (client_tcp option \<times> 'z world_scheme) option" where
  "hev_socks5_client_tcp_new_ipv6 ipv6 port w = do {
     let (ok, w) = hev_malloc w;
     if \<not> ok then Some (None, w)
     else do {
       (_, addr) \<leftarrow> hev_socks5_addr_from_ipv6 (stack_addr [] w) ipv6 port;
       client_tcp_finish w addr
     }
   }"

definition hev_socks5_client_tcp_get_upstream_addr ::
  "'a client_tcp_scheme \<Rightarrow> 'z world_scheme \<Rightarrow> u8 list option \<times> 'a client_tcp_scheme \<times> 'z world_scheme" where
  "hev_socks5_client_tcp_get_upstream_addr self w = (ct_addr self, self\<lparr>ct_addr := None\<rparr>, w)"

definition hev_socks5_client_tcp_set_upstream_addr ::
  "'a client_tcp_scheme \<Rightarrow> u8 list \<Rightarrow> 'z world_scheme \<Rightarrow> (int \<times> 'a client_tcp_scheme \<times> 'z world_scheme) option" where
  "hev_socks5_client_tcp_set_upstream_addr self addr w = Some (0, self, w)"

definition hev_socks5_client_tcp_destruct :: "'a client_tcp_scheme \<Rightarrow> 'z world_scheme \<Rightarrow> 'z world_scheme" where
  "hev_socks5_client_tcp_destruct self w =
     hev_socks5_client_destruct self (if ct_addr self \<noteq> None then hev_free w else w)"

definition hev_socks5_client_tcp_class :: "('a client_tcp_ext, 'z) client_class" where
  "hev_socks5_client_tcp_class = \<lparr>bind_socket = hev_socks5_bind,
     get_upstream_addr = hev_socks5_client_tcp_get_upstream_addr,
     set_upstream_addr = hev_socks5_client_tcp_set_upstream_addr\<rparr>"

section \<open>The UDP client\<close>

record client_udp = client +
  cu_fd :: int

definition hev_socks5_client_udp_construct ::
  "'a client_udp_scheme \<Rightarrow> socks5_type \<Rightarrow> int \<times> 'a client_udp_scheme" where
  "hev_socks5_client_udp_construct self type =
     (let (res, self) = hev_socks5_client_construct self type
      in if res < 0 then (res, self) else (0, self\<lparr>cu_fd := - 1\<rparr>))"

definition client_udp_zero :: client_udp where
  "client_udp_zero = \<lparr>s_fd = 0, s_timeout = 0, s_type = TYPE_NONE, s_udp_associated = False, s_addr_family = 0,
     c_user = None, c_pass = None, cu_fd = 0\<rparr>"

definition hev_socks5_client_udp_new ::
  "socks5_type \<Rightarrow> 'z world_scheme \<Rightarrow> client_udp option \<times> 'z world_scheme" where
  "hev_socks5_client_udp_new type w =
     (let (ok, w) = hev_malloc w in
      if \<not> ok then (None, w)
      else let (res, self) = hev_socks5_client_udp_construct client_udp_zero type
           in if res < 0 then (None, hev_free w) else (Some self, w))"

definition hev_socks5_client_udp_get_upstream_addr ::
  "'a client_udp_scheme \<Rightarrow> 'z world_scheme \<Rightarrow> u8 list option \<times> 'a client_udp_scheme \<times> 'z world_scheme" where
  "hev_socks5_client_udp_get_upstream_addr self w =
     (let family = hev_socks5_get_addr_family self in
      if family = AF_INET then
        let (ok, w) = hev_malloc w in (if ok then Some (ADDR_TYPE_IPV4 # replicate 6 0) else None, self, w)
      else if family = AF_INET6 then
        let (ok, w) = hev_malloc w in (if ok then Some (ADDR_TYPE_IPV6 # replicate 18 0) else None, self, w)
      else (None, self, w))"

definition hev_socks5_client_udp_set_upstream_addr ::
  "('a client_udp_scheme \<Rightarrow> int \<Rightarrow> sockaddr6 \<Rightarrow> 'z world_scheme \<Rightarrow> int \<times> 'z world_scheme) \<Rightarrow>
     'a client_udp_scheme \<Rightarrow> u8 list \<Rightarrow> 'z world_scheme \<Rightarrow> (int \<times> 'a client_udp_scheme \<times> 'z world_scheme) option" where
  "hev_socks5_client_udp_set_upstream_addr bind_sock self addr w =
     (if s_type self \<noteq> TYPE_UDP_IN_UDP then Some (0, self, w)
      else do {
        let saddr = \<lparr>sin6_family = 0, sin6_port = 0, sin6_addr = replicate 16 0\<rparr>;
        let addr_family = hev_socks5_get_addr_family self;
        (res, saddr, addr_family) \<leftarrow> hev_socks5_addr_into_sockaddr6 (w_libc w) addr saddr addr_family;
        if res < 0 then Some (- 1, self, w)
        else do {
          let (fd, w) = hev_socks5_socket SOCK_DGRAM w;
          if fd < 0 then Some (- 1, self, w)
          else do {
            let (res, w) = bind_sock self fd saddr w;
            if res < 0 then Some (- 1, self, close fd (hev_task_del_fd fd w))
            else do {
              (res, self, w) \<leftarrow> hev_task_io_socket_connect hev_socks5_task_io_yielder self w;
              if res < 0 then Some (- 1, self, close fd (hev_task_del_fd fd w))
              else Some (0, self\<lparr>s_udp_associated := True, cu_fd := fd\<rparr>, w)
            }
          }
        }
      })"

definition hev_socks5_client_udp_get_fd :: "'a client_udp_scheme \<Rightarrow> int" where
  "hev_socks5_client_udp_get_fd self =
     (case s_type self of TYPE_UDP_IN_TCP \<Rightarrow> s_fd self | TYPE_UDP_IN_UDP \<Rightarrow> cu_fd self | _ \<Rightarrow> - 1)"

definition hev_socks5_client_udp_destruct :: "'a client_udp_scheme \<Rightarrow> 'z world_scheme \<Rightarrow> 'z world_scheme" where
  "hev_socks5_client_udp_destruct self w =
     hev_socks5_client_destruct self
       (if cu_fd self \<ge> 0 then close (cu_fd self) (hev_task_del_fd (cu_fd self) w) else w)"

definition hev_socks5_client_udp_class :: "('a client_udp_ext, 'z) client_class" where
  "hev_socks5_client_udp_class = \<lparr>bind_socket = hev_socks5_bind,
     get_upstream_addr = hev_socks5_client_udp_get_upstream_addr,
     set_upstream_addr = hev_socks5_client_udp_set_upstream_addr hev_socks5_bind\<rparr>"

end
