(* ===== verification/Client_Handshake.thy ===== *)
theory Client_Handshake
  imports Socks5_Client
begin

text \<open>
  What the client says and what it accepts. The messages are specified on the bytes that pass the
  socket in each direction; how the peer cuts them into pieces and how often it lets the client
  wait does not matter. What the handshake needs of a class is a locale, which the TCP and the
  UDP client interpret.
\<close>

section \<open>The bytes of a connection\<close>

definition incoming :: "'a socks5_scheme \<Rightarrow> 'z world_scheme \<Rightarrow> u8 list" where
  "incoming self w = avail (s_timeout self) (rx_of w (s_fd self))"

definition outgoing :: "'a socks5_scheme \<Rightarrow> 'z world_scheme \<Rightarrow> u8 list" where
  "outgoing self w = out_of w (s_fd self)"

definition flowing :: "'a socks5_scheme \<Rightarrow> 'z world_scheme \<Rightarrow> bool" where
  "flowing self w \<longleftrightarrow> tx_flows (s_timeout self) (tx_of w (s_fd self))"

lemma recv_wp [wp_rules]:
  assumes "\<And>r bs w'. only_sock (s_fd self) w w' \<Longrightarrow> outgoing self w' = outgoing self w \<Longrightarrow>
      flowing self w' = flowing self w \<Longrightarrow>
      (if n \<le> length (incoming self w) then r = int n \<and> bs = take n (incoming self w) \<and> incoming self w' = drop n (incoming self w)
       else r \<noteq> int n) \<Longrightarrow> Q (r, bs, self, w')"
  shows "wp (hev_task_io_socket_recv hev_socks5_task_io_yielder (s_fd self) n True False self w) Q"
proof -
  from recv_all [OF plain_default, of "s_fd self" n self w] obtain r bs w' where
    r: "hev_task_io_socket_recv hev_socks5_task_io_yielder (s_fd self) n True False self w = Some (r, bs, self, w')"
    "recv_spec (s_timeout self) (s_fd self) n [] w r bs w'" by blast
  then show ?thesis
    by (auto intro!: assms simp: recv_spec_def incoming_def outgoing_def flowing_def split: if_splits)
qed

lemma send_wp [wp_rules]:
  assumes "bs \<noteq> []"
    and "\<And>r w'. only_sock (s_fd self) w w' \<Longrightarrow> incoming self w' = incoming self w \<Longrightarrow>
      (flowing self w \<longrightarrow> r = int (length bs) \<and> outgoing self w' = outgoing self w @ bs \<and> flowing self w') \<Longrightarrow> Q (r, self, w')"
  shows "wp (hev_task_io_socket_send hev_socks5_task_io_yielder (s_fd self) bs self w) Q"
proof -
  from send_all [OF assms(1) plain_default, of "s_fd self" self w] obtain r w' where
    r: "hev_task_io_socket_send hev_socks5_task_io_yielder (s_fd self) bs self w = Some (r, self, w')"
    "send_spec (s_timeout self) (s_fd self) bs 0 w r w'" by blast
  then show ?thesis using assms(1)
    by (auto intro!: assms(2) simp: send_spec_def incoming_def outgoing_def flowing_def split: if_splits)
qed

lemma sendmsg_wp [wp_rules]:
  assumes "concat iov \<noteq> []"
    and "\<And>r w'. only_sock (s_fd self) w w' \<Longrightarrow> incoming self w' = incoming self w \<Longrightarrow>
      (flowing self w \<longrightarrow> r = int (length (concat iov)) \<and> outgoing self w' = outgoing self w @ concat iov \<and> flowing self w') \<Longrightarrow>
      Q (r, self, w')"
  shows "wp (hev_task_io_socket_sendmsg hev_socks5_task_io_yielder (s_fd self) iov self w) Q"
  using send_wp [OF assms(1), of self w Q] assms(2) by (simp add: sendmsg_send [OF assms(1) plain_default])

section \<open>Messages\<close>

definition greeting :: "'a client_scheme \<Rightarrow> u8 list" where
  "greeting self = [VERSION_5, 1, if c_user self = None \<or> c_pass self = None then AUTH_METHOD_NONE else AUTH_METHOD_USER]"

text \<open>The credentials as the C strings they are, cut to the lengths that fit their byte.\<close>

definition creds_ok :: "'a client_scheme \<Rightarrow> bool" where
  "creds_ok self \<longleftrightarrow> (\<forall>u p. c_user self = Some u \<and> c_pass self = Some p \<longrightarrow> cstr u \<noteq> None \<and> cstr p \<noteq> None)"

definition wire_text :: "u8 list \<Rightarrow> u8 list" where
  "wire_text s = (let n = length s mod 256 in of_nat n # take n s)"

definition creds :: "'a client_scheme \<Rightarrow> u8 list" where
  "creds self = (case (c_user self, c_pass self) of
       (Some u, Some p) \<Rightarrow> AUTH_VERSION_1 # wire_text (the (cstr u)) @ wire_text (the (cstr p))
     | _ \<Rightarrow> [])"

fun command :: "socks5_type \<Rightarrow> u8" where
  "command TYPE_TCP = REQ_CMD_CONNECT"
| "command TYPE_UDP_IN_TCP = REQ_CMD_FWD_UDP"
| "command TYPE_UDP_IN_UDP = REQ_CMD_UDP_ASC"
| "command TYPE_NONE = 0"

definition request :: "u8 \<Rightarrow> socks_addr \<Rightarrow> u8 list" where
  "request cmd a = [VERSION_5, cmd, 0] @ wire_addr a"

text \<open>The answers the client takes for a success.\<close>

fun response_ok :: "u8 list \<Rightarrow> bool" where
  "response_ok (v # rep # rsv # t # rest) \<longleftrightarrow> v = VERSION_5 \<and> rep = RES_REP_SUCC \<and>
     (t = ADDR_TYPE_IPV4 \<and> 6 \<le> length rest \<or> t = ADDR_TYPE_IPV6 \<and> 18 \<le> length rest)"
| "response_ok _ \<longleftrightarrow> False"

fun auth_reply_ok :: "u8 list \<Rightarrow> bool" where
  "auth_reply_ok (v # s # rest) \<longleftrightarrow> v = AUTH_VERSION_1 \<and> s = RES_REP_SUCC \<and> response_ok rest"
| "auth_reply_ok _ \<longleftrightarrow> False"

fun replies_ok :: "u8 list \<Rightarrow> bool" where
  "replies_ok (v # m # rest) \<longleftrightarrow> v = VERSION_5 \<and>
     (if m = AUTH_METHOD_USER then auth_reply_ok rest else m = AUTH_METHOD_NONE \<and> response_ok rest)"
| "replies_ok _ \<longleftrightarrow> False"

lemma two_bytes: "2 \<le> length (xs :: 'b list) \<Longrightarrow> \<exists>a b r. xs = a # b # r"
  by (cases xs; cases "List.tl xs") auto

lemma four_bytes:
  assumes "4 \<le> length (xs :: 'b list)"
  shows "\<exists>a b c d r. xs = a # b # c # d # r"
proof -
  from assms two_bytes [of xs] obtain a b r where x: "xs = a # b # r" by auto
  with assms two_bytes [of r] show ?thesis by auto
qed

section \<open>Each message\<close>

lemma write_auth_methods_wp:
  assumes "\<And>r w'. only_sock (s_fd self) w w' \<Longrightarrow> incoming self w' = incoming self w \<Longrightarrow>
      (flowing self w \<longrightarrow> r = 0 \<and> outgoing self w' = outgoing self w @ greeting self \<and> flowing self w') \<Longrightarrow>
      r = 0 \<or> r = - 1 \<Longrightarrow> Q (r, self, w')"
  shows "wp (hev_socks5_client_write_auth_methods self w) Q"
  unfolding hev_socks5_client_write_auth_methods_def Let_def wp_bind
proof (rule send_wp)
  fix r w'
  assume a: "only_sock (s_fd self) w w'" "incoming self w' = incoming self w"
    "flowing self w \<longrightarrow> r = int (length [VERSION_5, 1, if c_user self = None \<or> c_pass self = None then AUTH_METHOD_NONE
       else AUTH_METHOD_USER]) \<and> outgoing self w' = outgoing self w @ [VERSION_5, 1, if c_user self = None \<or> c_pass self = None
       then AUTH_METHOD_NONE else AUTH_METHOD_USER] \<and> flowing self w'"
  show "wp (case (r, self, w') of (res, self, w) \<Rightarrow> if res \<le> 0 then Some (- 1, self, w) else Some (0, self, w)) Q"
    using assms [of w' "- 1"] assms [of w' 0] a by (cases "r \<le> 0") (simp_all add: greeting_def)
qed simp

lemma wire_text_C:
  assumes "cstr u = Some s"
  shows "memget u 0 (unat (of_nat (length s) :: u8)) = Some (take (length s mod 256) s)"
proof -
  have n: "unat (of_nat (length s) :: u8) = length s mod 256" by (simp add: unat_of_nat)
  have s: "length s < length u" "take (length s) u = s" using cstr_take [OF assms] by auto
  have le: "length s mod 256 \<le> length s" by simp
  have "take (length s mod 256) s = take (length s mod 256) (take (length s) u)" using s(2) by simp
  also have "\<dots> = take (length s mod 256) u" using le by (simp only: take_take min_absorb1)
  finally show ?thesis using s(1) le unfolding memget_def n by simp
qed

lemma of_nat_mod_256: "(of_nat (n mod 256) :: u8) = of_nat n"
  by (rule word_unat_eq_iff [THEN iffD2]) (simp add: unat_of_nat)

lemma write_auth_creds_wp:
  assumes "creds_ok self"
    and "\<And>r w'. only_sock (s_fd self) w w' \<Longrightarrow> incoming self w' = incoming self w \<Longrightarrow>
      (flowing self w \<longrightarrow> r = 0 \<and> outgoing self w' = outgoing self w @ creds self \<and> flowing self w') \<Longrightarrow>
      r = 0 \<or> r = - 1 \<Longrightarrow> Q (r, self, w')"
  shows "wp (hev_socks5_client_write_auth_creds self w) Q"
proof (cases "c_user self = None \<or> c_pass self = None")
  case True
  then show ?thesis
    by (auto simp: hev_socks5_client_write_auth_creds_def creds_def intro!: assms(2) split: option.splits)
next
  case False
  then obtain u p us ps where u: "c_user self = Some u" "c_pass self = Some p" "cstr u = Some us" "cstr p = Some ps"
    using assms(1) by (auto simp: creds_ok_def)
  have c: "creds self = concat [[AUTH_VERSION_1, of_nat (length us)], take (length us mod 256) us,
      [of_nat (length ps)], take (length ps mod 256) ps]"
    using u by (simp add: creds_def wire_text_def Let_def of_nat_mod_256)
  show ?thesis
    unfolding hev_socks5_client_write_auth_creds_def
    using u wire_text_C [OF u(3)] wire_text_C [OF u(4)]
    by (auto simp: strlen_def wp_bind c intro!: sendmsg_wp assms(2))
qed

lemma read_auth_method_wp:
  assumes "\<And>r w'. only_sock (s_fd self) w w' \<Longrightarrow> outgoing self w' = outgoing self w \<Longrightarrow> flowing self w' = flowing self w \<Longrightarrow>
      (case incoming self w of
         v # m # rest \<Rightarrow> if v = VERSION_5 then r = uint m \<and> incoming self w' = rest else r = - 1
       | _ \<Rightarrow> r = - 1) \<Longrightarrow> Q (r, self, w')"
  shows "wp (hev_socks5_client_read_auth_method self w) Q"
  unfolding hev_socks5_client_read_auth_method_def wp_bind
proof (rule recv_wp)
  fix r bs w'
  assume a: "only_sock (s_fd self) w w'" "outgoing self w' = outgoing self w" "flowing self w' = flowing self w"
    "if 2 \<le> length (incoming self w) then r = int 2 \<and> bs = take 2 (incoming self w) \<and> incoming self w' = drop 2 (incoming self w)
     else r \<noteq> int 2"
  show "wp (case (r, bs, self, w') of (res, auth, self, w) \<Rightarrow>
      if res \<noteq> 2 then Some (- 1, self, w) else if auth ! 0 \<noteq> VERSION_5 then Some (- 1, self, w)
      else Some (uint (auth ! 1), self, w)) Q"
  proof (cases "2 \<le> length (incoming self w)")
    case True
    then obtain v m rest where "incoming self w = v # m # rest" using two_bytes by blast
    with a show ?thesis by (auto intro!: assms)
  next
    case False
    with a show ?thesis by (auto intro!: assms split: list.splits)
  qed
qed

lemma read_auth_creds_wp:
  assumes "\<And>r w'. only_sock (s_fd self) w w' \<Longrightarrow> outgoing self w' = outgoing self w \<Longrightarrow> flowing self w' = flowing self w \<Longrightarrow>
      (case incoming self w of
         v # m # rest \<Rightarrow> if v = AUTH_VERSION_1 \<and> m = RES_REP_SUCC then r = 0 \<and> incoming self w' = rest else r = - 1
       | _ \<Rightarrow> r = - 1) \<Longrightarrow> Q (r, self, w')"
  shows "wp (hev_socks5_client_read_auth_creds self w) Q"
  unfolding hev_socks5_client_read_auth_creds_def wp_bind
proof (rule recv_wp)
  fix r bs w'
  assume a: "only_sock (s_fd self) w w'" "outgoing self w' = outgoing self w" "flowing self w' = flowing self w"
    "if 2 \<le> length (incoming self w) then r = int 2 \<and> bs = take 2 (incoming self w) \<and> incoming self w' = drop 2 (incoming self w)
     else r \<noteq> int 2"
  show "wp (case (r, bs, self, w') of (ret, res, self, w) \<Rightarrow>
      if ret \<noteq> 2 then Some (- 1, self, w) else if res ! 0 \<noteq> AUTH_VERSION_1 then Some (- 1, self, w)
      else if res ! 1 \<noteq> RES_REP_SUCC then Some (- 1, self, w) else Some (0, self, w)) Q"
  proof (cases "2 \<le> length (incoming self w)")
    case True
    then obtain v m rest where "incoming self w = v # m # rest" using two_bytes by blast
    with a show ?thesis by (auto intro!: assms)
  next
    case False
    with a show ?thesis by (auto intro!: assms split: list.splits)
  qed
qed

section \<open>The contract of a class\<close>

text \<open>What the system calls of the client meet: their results and the protection of sockets.\<close>

definition same_sys :: "'z world_scheme \<Rightarrow> 'z world_scheme \<Rightarrow> bool" where
  "same_sys w w' \<longleftrightarrow> w_sys w' = w_sys w \<and> w_protect w' = w_protect w"

lemma same_sys_refl [simp]: "same_sys w w"
  by (simp add: same_sys_def)

lemma same_sys_trans: "same_sys w w1 \<Longrightarrow> same_sys w1 w2 \<Longrightarrow> same_sys w w2"
  by (simp add: same_sys_def)

lemma only_sock_sys: "only_sock fd w w' \<Longrightarrow> same_sys w w'"
  by (simp add: same_sys_def only_sock_fields)

definition same_client :: "'a client_scheme \<Rightarrow> 'a client_scheme \<Rightarrow> bool" where
  "same_client self self' \<longleftrightarrow> s_fd self' = s_fd self \<and> s_timeout self' = s_timeout self \<and> s_type self' = s_type self \<and>
     c_user self' = c_user self \<and> c_pass self' = c_pass self"

lemma same_client_bytes:
  assumes "same_client self self'"
  shows "incoming self' w = incoming self w" "outgoing self' w = outgoing self w" "flowing self' w = flowing self w"
    "greeting self' = greeting self" "creds self' = creds self" "creds_ok self' = creds_ok self"
  using assms by (simp_all add: same_client_def incoming_def outgoing_def flowing_def greeting_def creds_def creds_ok_def)

text \<open>
  \<open>target self w a\<close>: the object is about to ask for \<open>a\<close>. \<open>get_upstream_addr\<close> hands out its wire form
  and touches no socket; \<open>set_upstream_addr\<close> returns and sends nothing to the server.
\<close>

locale upstream =
  fixes klass :: "('a, 'z) client_class"
    and target :: "'a client_scheme \<Rightarrow> 'z world_scheme \<Rightarrow> socks_addr \<Rightarrow> bool"
  assumes get: "target self w a \<Longrightarrow> \<exists>blk self' w'. get_upstream_addr klass self w = (Some blk, self', w') \<and> addr_ok a \<and>
        take (length (wire_addr a)) blk = wire_addr a \<and> same_client self self' \<and> w_sock w' = w_sock w \<and> same_sys w w'"
    and set: "length addr = addr_size \<Longrightarrow> addr_atype addr = Some ADDR_TYPE_IPV4 \<or> addr_atype addr = Some ADDR_TYPE_IPV6 \<Longrightarrow>
        \<exists>r self' w'. set_upstream_addr klass self addr w = Some (r, self', w') \<and> w_sock w' = w_sock w"
    and target_stable: "target self w a \<Longrightarrow> only_sock fd w w' \<Longrightarrow> target self w' a"

text \<open>
  A class that may refuse the address the server names, for this object and these results of the system
  calls, and a class that takes every address.
\<close>

definition reluctant :: "('a, 'z) client_class \<Rightarrow> 'a client_scheme \<Rightarrow> 'z world_scheme \<Rightarrow> bool" where
  "reluctant klass self w \<longleftrightarrow> (\<exists>self1 addr w1 r self2 w2. same_client self self1 \<and> same_sys w w1 \<and>
     length addr = addr_size \<and> (addr_atype addr = Some ADDR_TYPE_IPV4 \<or> addr_atype addr = Some ADDR_TYPE_IPV6) \<and>
     set_upstream_addr klass self1 addr w1 = Some (r, self2, w2) \<and> r < 0)"

lemma same_client_refl [simp]: "same_client self self"
  by (simp add: same_client_def)

lemma same_client_trans: "same_client self self1 \<Longrightarrow> same_client self1 self2 \<Longrightarrow> same_client self self2"
  by (simp add: same_client_def)

lemma reluctant_mono: "reluctant klass self1 w1 \<Longrightarrow> same_client self self1 \<Longrightarrow> same_sys w w1 \<Longrightarrow> reluctant klass self w"
  unfolding reluctant_def using same_client_trans same_sys_trans by meson

locale obliging_upstream = upstream +
  assumes obliging: "\<not> reluctant klass self w"

lemma same_sock_bytes:
  assumes "w_sock w' = w_sock w"
  shows "incoming self w' = incoming self w" "outgoing self w' = outgoing self w" "flowing self w' = flowing self w"
  using assms by (simp_all add: incoming_def outgoing_def flowing_def)

lemma wire_head:
  assumes "addr_ok a" and "take (length (wire_addr a)) blk = wire_addr a"
  shows "addr_atype blk = Some (hd (wire_addr a))" and "memget blk 0 (length (wire_addr a)) = Some (wire_addr a)"
    and "\<And>s p. a = Domain s p \<Longrightarrow> addr_name_len blk = Some (of_nat (length s))"
proof -
  obtain r where b: "blk = wire_addr a @ r" using assms(2) by (metis append_take_drop_id)
  show "addr_atype blk = Some (hd (wire_addr a))" by (cases a) (simp_all add: b addr_atype_def byte_at_def)
  show "memget blk 0 (length (wire_addr a)) = Some (wire_addr a)" by (simp add: b memget_def)
  show "addr_name_len blk = Some (of_nat (length s))" if "a = Domain s p" for s p
    by (simp add: b that addr_name_len_def byte_at_def)
qed

text \<open>The messages that do not involve the class, in the form the handshakes use.\<close>

definition took_method :: "u8 list \<Rightarrow> int \<Rightarrow> u8 list \<Rightarrow> bool" where
  "took_method i r i' \<longleftrightarrow>
     (case i of v # m # rest \<Rightarrow> if v = VERSION_5 then r = uint m \<and> i' = rest else r = - 1 | _ \<Rightarrow> r = - 1)"

definition took_status :: "u8 list \<Rightarrow> int \<Rightarrow> u8 list \<Rightarrow> bool" where
  "took_status i r i' \<longleftrightarrow>
     (case i of v # m # rest \<Rightarrow> if v = AUTH_VERSION_1 \<and> m = RES_REP_SUCC then r = 0 \<and> i' = rest else r = - 1 | _ \<Rightarrow> r = - 1)"

lemma write_auth_methods_spec:
  "wp (hev_socks5_client_write_auth_methods self w) (\<lambda>(r, self', w'). self' = self \<and> only_sock (s_fd self) w w' \<and>
     incoming self w' = incoming self w \<and> (r = 0 \<or> r = - 1) \<and>
     (flowing self w \<longrightarrow> r = 0 \<and> outgoing self w' = outgoing self w @ greeting self \<and> flowing self w'))"
  by (rule write_auth_methods_wp) simp

lemma write_auth_creds_spec:
  "creds_ok self \<Longrightarrow> wp (hev_socks5_client_write_auth_creds self w) (\<lambda>(r, self', w'). self' = self \<and>
     only_sock (s_fd self) w w' \<and> incoming self w' = incoming self w \<and> (r = 0 \<or> r = - 1) \<and>
     (flowing self w \<longrightarrow> r = 0 \<and> outgoing self w' = outgoing self w @ creds self \<and> flowing self w'))"
  by (rule write_auth_creds_wp) simp_all

lemma read_auth_method_spec:
  "wp (hev_socks5_client_read_auth_method self w) (\<lambda>(r, self', w'). self' = self \<and> only_sock (s_fd self) w w' \<and>
     outgoing self w' = outgoing self w \<and> flowing self w' = flowing self w \<and>
     took_method (incoming self w) r (incoming self w'))"
  by (rule read_auth_method_wp) (simp add: took_method_def)

lemma read_auth_creds_spec:
  "wp (hev_socks5_client_read_auth_creds self w) (\<lambda>(r, self', w'). self' = self \<and> only_sock (s_fd self) w w' \<and>
     outgoing self w' = outgoing self w \<and> flowing self w' = flowing self w \<and>
     took_status (incoming self w) r (incoming self w'))"
  by (rule read_auth_creds_wp) (simp add: took_status_def)

text \<open>
  The standard handshake waits for the answer before each step: the credentials are sent when the
  server asks for them, the request when it let the client in.
\<close>

definition standard_out :: "'a client_scheme \<Rightarrow> socks_addr \<Rightarrow> u8 list \<Rightarrow> u8 list" where
  "standard_out self a i =
     (case i of
        v # m # rest \<Rightarrow>
          if v \<noteq> VERSION_5 then []
          else if m = AUTH_METHOD_USER then
            creds self @ (case rest of x # st # _ \<Rightarrow> if x = AUTH_VERSION_1 \<and> st = RES_REP_SUCC then request (command (s_type self)) a else []
              | _ \<Rightarrow> [])
          else if m = AUTH_METHOD_NONE then request (command (s_type self)) a
          else []
      | _ \<Rightarrow> [])"

lemma client_says_timeout [simp]:
  "greeting (self\<lparr>s_timeout := t\<rparr>) = greeting self" "creds (self\<lparr>s_timeout := t\<rparr>) = creds self"
  "creds_ok (self\<lparr>s_timeout := t\<rparr>) = creds_ok self" "standard_out (self\<lparr>s_timeout := t\<rparr>) a i = standard_out self a i"
proof -
  have t: "s_type (self\<lparr>s_timeout := t\<rparr>) = s_type self" by simp
  show c: "creds (self\<lparr>s_timeout := t\<rparr>) = creds self" by (simp add: creds_def)
  show "standard_out (self\<lparr>s_timeout := t\<rparr>) a i = standard_out self a i" unfolding standard_out_def c t ..
qed (simp_all add: greeting_def creds_ok_def)

definition client_reads ::
  "('a, 'z) client_class \<Rightarrow> 'a client_scheme \<Rightarrow> 'z world_scheme \<Rightarrow> (int \<times> 'a client_scheme \<times> 'z world_scheme) option" where
  "client_reads klass self w = check (hev_socks5_client_read_auth_method self w) (\<lambda>res self w.
     check (if res = uint AUTH_METHOD_USER then hev_socks5_client_read_auth_creds self w
            else if res \<noteq> uint AUTH_METHOD_NONE then Some (- 1, self, w)
            else Some (res, self, w)) (\<lambda>_ self w.
     check (hev_socks5_client_read_response klass self w) (\<lambda>_ self w.
     Some (0, self, w))))"

definition client_asks ::
  "('a, 'z) client_class \<Rightarrow> 'a client_scheme \<Rightarrow> 'z world_scheme \<Rightarrow> (int \<times> 'a client_scheme \<times> 'z world_scheme) option" where
  "client_asks klass self w = check (hev_socks5_client_write_request klass self w) (\<lambda>_ self w.
     check (hev_socks5_client_read_response klass self w) (\<lambda>_ self w.
     Some (0, self, w)))"

context upstream begin

lemma write_request_wp:
  assumes "target self w a" and "s_type self \<noteq> TYPE_NONE"
    and "\<And>r self' w'. same_client self self' \<Longrightarrow> same_sys w w' \<Longrightarrow> incoming self w' = incoming self w \<Longrightarrow>
      (flowing self w \<longrightarrow> r = 0 \<and> outgoing self w' = outgoing self w @ request (command (s_type self)) a \<and> flowing self w') \<Longrightarrow>
      r = 0 \<or> r = - 1 \<Longrightarrow> Q (r, self', w')"
  shows "wp (hev_socks5_client_write_request klass self w) Q"
proof -
  obtain blk self1 w1 where g: "get_upstream_addr klass self w = (Some blk, self1, w1)" "addr_ok a"
    "take (length (wire_addr a)) blk = wire_addr a" "same_client self self1" "w_sock w1 = w_sock w" "same_sys w w1"
    using get [OF assms(1)] by blast
  note h = wire_head [OF g(2,3)]
  have t: "(case s_type self of TYPE_TCP \<Rightarrow> Some REQ_CMD_CONNECT | TYPE_UDP_IN_TCP \<Rightarrow> Some REQ_CMD_FWD_UDP
        | TYPE_UDP_IN_UDP \<Rightarrow> Some REQ_CMD_UDP_ASC | TYPE_NONE \<Rightarrow> None) = Some (command (s_type self))"
    using assms(2) by (cases "s_type self") simp_all
  let ?iov = "[[VERSION_5, command (s_type self), 0], wire_addr a]"
  have c: "concat ?iov = request (command (s_type self)) a" by (simp add: request_def)
  have send: "wp (hev_task_io_socket_sendmsg hev_socks5_task_io_yielder (s_fd self1) ?iov self1 w1)
     (\<lambda>r. wp (case r of (ret, self, w) \<Rightarrow> if ret \<le> 0 then Some (- 1, self, w) else Some (0, self, hev_free w)) Q)"
  proof (rule sendmsg_wp)
    fix r w'
    assume a: "only_sock (s_fd self1) w1 w'" "incoming self1 w' = incoming self1 w1"
      "flowing self1 w1 \<longrightarrow> r = int (length (concat ?iov)) \<and> outgoing self1 w' = outgoing self1 w1 @ concat ?iov \<and> flowing self1 w'"
    have fr: "w_sock (hev_free w') = w_sock w'" by (simp add: hev_free_def)
    have len: "0 < length (concat ?iov)" by simp
    have sys: "same_sys w w'" "same_sys w (hev_free w')"
      using same_sys_trans [OF g(6) only_sock_sys [OF a(1)]] by (simp_all add: same_sys_def hev_free_def)
    show "wp (case (r, self1, w') of (ret, self, w) \<Rightarrow> if ret \<le> 0 then Some (- 1, self, w) else Some (0, self, hev_free w)) Q"
      using assms(3) [OF g(4) sys(1), of "- 1"] assms(3) [OF g(4) sys(2), of 0] a len
      unfolding c
      by (cases "r \<le> 0")
        (simp_all add: same_client_bytes(1-3) [OF g(4)] same_sock_bytes [OF g(5)] same_sock_bytes [OF fr])
  qed simp
  show ?thesis
    unfolding hev_socks5_client_write_request_def t option.case g(1) Let_def prod.case wp_bind
    using h g(2) send
    by (cases a) (simp_all add: wp_bind, simp add: eval_nat_numeral)
qed

lemma read_response_wp:
  assumes "\<And>r self' w'. outgoing self w' = outgoing self w \<Longrightarrow> r = 0 \<or> r = - 1 \<Longrightarrow>
      (r = 0 \<longrightarrow> response_ok (incoming self w)) \<Longrightarrow>
      (response_ok (incoming self w) \<longrightarrow> r = 0 \<or> reluctant klass self w) \<Longrightarrow>
      Q (r, self', w')"
  shows "wp (hev_socks5_client_read_response klass self w) Q"
  unfolding hev_socks5_client_read_response_def wp_bind
proof (rule recv_wp)
  fix r bs w1
  assume a: "only_sock (s_fd self) w w1" "outgoing self w1 = outgoing self w" "flowing self w1 = flowing self w"
    "if 4 \<le> length (incoming self w) then r = int 4 \<and> bs = take 4 (incoming self w) \<and> incoming self w1 = drop 4 (incoming self w)
     else r \<noteq> int 4"
  let ?body = "\<lambda>res self w. do {
       let addrlen = (if res ! 3 = ADDR_TYPE_IPV4 then 6 else 18);
       (ret, bs, self, w) \<leftarrow> client_recv self addrlen w;
       if ret \<noteq> int addrlen then Some (- 1, self, w)
       else do {
         (ret, self, w) \<leftarrow> set_upstream_addr klass self (stack_addr (res ! 3 # bs) w) w;
         if ret < 0 then Some (- 1, self, w) else Some (0, self, w)
       }
     }"
  have body: "wp (?body (v # c # x # t # []) self w1) Q"
    if i: "incoming self w = v # c # x # t # rest" "incoming self w1 = rest" "v = VERSION_5" "c = RES_REP_SUCC"
      "t = ADDR_TYPE_IPV4 \<or> t = ADDR_TYPE_IPV6" for v c x t rest
  proof -
    have ok: "response_ok (incoming self w) \<longleftrightarrow> (if t = ADDR_TYPE_IPV4 then 6 else 18) \<le> length rest"
      using i by auto
    show ?thesis
      unfolding Let_def wp_bind
    proof (rule recv_wp)
      fix r2 bs2 w2
      let ?n = "if (v # c # x # t # []) ! 3 = ADDR_TYPE_IPV4 then 6 else 18 :: nat"
      assume b: "only_sock (s_fd self) w1 w2" "outgoing self w2 = outgoing self w1" "flowing self w2 = flowing self w1"
        "if ?n \<le> length (incoming self w1) then r2 = int ?n \<and> bs2 = take ?n (incoming self w1) \<and> incoming self w2 = drop ?n (incoming self w1)
         else r2 \<noteq> int ?n"
      let ?addr = "stack_addr ((v # c # x # t # []) ! 3 # bs2) w2"
      show "wp (case (r2, bs2, self, w2) of (ret, bs, self, w) \<Rightarrow>
          if ret \<noteq> int ?n then Some (- 1, self, w)
          else set_upstream_addr klass self (stack_addr ((v # c # x # t # []) ! 3 # bs) w) w \<bind>
            (\<lambda>(ret, self, w). if ret < 0 then Some (- 1, self, w) else Some (0, self, w))) Q"
      proof (cases "?n \<le> length rest")
        case False
        then show ?thesis using b a(2) ok i(2) assms [of w2 "- 1" self] by simp
      next
        case True
        have addr: "length ?addr = addr_size" "addr_atype ?addr = Some t"
          using b(4) True i(2) by (simp_all add: stack_addr_def addr_size_def addr_atype_def byte_at_def)
        then obtain r3 self3 w3 where s: "set_upstream_addr klass self ?addr w2 = Some (r3, self3, w3)" "w_sock w3 = w_sock w2"
          using set i(5) by metis
        have relu: "reluctant klass self w" if "r3 < 0"
          unfolding reluctant_def
          using same_sys_trans [OF only_sock_sys [OF a(1)] only_sock_sys [OF b(1)]] addr i(5) s(1) that
          by (intro exI [of _ self] exI [of _ ?addr] exI [of _ w2] exI [of _ r3] exI [of _ self3] exI [of _ w3]) auto
        have "r2 = int ?n" using b(4) True i(2) by simp
        moreover have "Q (if r3 < 0 then - 1 else 0, self3, w3)"
        proof (rule assms)
          show "outgoing self w3 = outgoing self w" using a(2) b(2) by (simp add: same_sock_bytes [OF s(2)])
          show "(if r3 < 0 then - 1 else 0) = 0 \<or> (if r3 < 0 then - 1 else 0) = (- 1 :: int)" by simp
          show "(if r3 < 0 then - 1 else 0) = (0 :: int) \<longrightarrow> response_ok (incoming self w)"
            using ok True i(5) by auto
          show "response_ok (incoming self w) \<longrightarrow> (if r3 < 0 then - 1 else 0) = (0 :: int) \<or> reluctant klass self w"
            using relu by auto
        qed
        ultimately show ?thesis using s(1) by auto
      qed
    qed
  qed
  show "wp (case (r, bs, self, w1) of (ret, res, self, w) \<Rightarrow>
      if ret \<noteq> 4 then Some (- 1, self, w) else if res ! 0 \<noteq> VERSION_5 then Some (- 1, self, w)
      else if res ! 1 \<noteq> RES_REP_SUCC then Some (- 1, self, w)
      else if res ! 3 \<noteq> ADDR_TYPE_IPV4 \<and> res ! 3 \<noteq> ADDR_TYPE_IPV6 then Some (- 1, self, w)
      else ?body res self w) Q"
  proof (cases "4 \<le> length (incoming self w)")
    case True
    then obtain v c x t rest where i: "incoming self w = v # c # x # t # rest" using four_bytes by blast
    then have bs: "bs = [v, c, x, t]" "incoming self w1 = rest" "r = 4" using a(4) by simp_all
    show ?thesis
    proof (cases "v = VERSION_5 \<and> c = RES_REP_SUCC \<and> (t = ADDR_TYPE_IPV4 \<or> t = ADDR_TYPE_IPV6)")
      case True
      with body [OF i bs(2)] bs show ?thesis by (auto simp: Let_def)
    next
      case False
      then have "\<not> response_ok (incoming self w)" using i by auto
      with assms [of w1 "- 1" self] a(2) have "Q (- 1, self, w1)" by simp
      with False bs show ?thesis by auto
    qed
  next
    case False
    then have "\<not> response_ok (incoming self w)" by (cases "incoming self w" rule: response_ok.cases) auto
    with assms [of w1 "- 1" self] a(2) have "Q (- 1, self, w1)" by simp
    with False a(4) show ?thesis by simp
  qed
qed

section \<open>The handshakes\<close>

lemma read_response_spec:
  "wp (hev_socks5_client_read_response klass self w) (\<lambda>(r, self', w'). outgoing self w' = outgoing self w \<and>
     (r = 0 \<or> r = - 1) \<and> (r = 0 \<longrightarrow> response_ok (incoming self w)) \<and>
     (response_ok (incoming self w) \<longrightarrow> r = 0 \<or> reluctant klass self w))"
  by (rule read_response_wp) simp

lemma write_request_spec:
  "target self w a \<Longrightarrow> s_type self \<noteq> TYPE_NONE \<Longrightarrow> wp (hev_socks5_client_write_request klass self w) (\<lambda>(r, self', w').
     same_client self self' \<and> same_sys w w' \<and> incoming self w' = incoming self w \<and> (r = 0 \<or> r = - 1) \<and>
     (flowing self w \<longrightarrow> r = 0 \<and> outgoing self w' = outgoing self w @ request (command (s_type self)) a \<and> flowing self w'))"
  by (rule write_request_wp) simp_all

text \<open>What the client makes of the answers.\<close>

lemma read_replies:
  "wp (client_reads klass self w)
   (\<lambda>(r, self', w'). outgoing self w' = outgoing self w \<and> (r = 0 \<or> r = - 1) \<and> (r = 0 \<longrightarrow> replies_ok (incoming self w)) \<and>
     (replies_ok (incoming self w) \<longrightarrow> r = 0 \<or> reluctant klass self w))"
proof -
  from wpD [OF read_auth_method_spec [of self w]] obtain r1 w1 where 1:
    "hev_socks5_client_read_auth_method self w = Some (r1, self, w1)" "outgoing self w1 = outgoing self w"
    "took_method (incoming self w) r1 (incoming self w1)" "same_sys w w1" using only_sock_sys by fastforce
  from wpD [OF read_auth_creds_spec [of self w1]] obtain r2 w2 where 2:
    "hev_socks5_client_read_auth_creds self w1 = Some (r2, self, w2)" "outgoing self w2 = outgoing self w1"
    "took_status (incoming self w1) r2 (incoming self w2)" "same_sys w1 w2" using only_sock_sys by fastforce
  from wpD [OF read_response_spec [of self w1]] obtain r3 self3 w3 where 3:
    "hev_socks5_client_read_response klass self w1 = Some (r3, self3, w3)" "outgoing self w3 = outgoing self w1"
    "r3 = 0 \<or> r3 = - 1" "r3 = 0 \<longrightarrow> response_ok (incoming self w1)" "response_ok (incoming self w1) \<longrightarrow> r3 = 0 \<or> reluctant klass self w"
    using reluctant_mono [of klass self w1 self w, OF _ same_client_refl 1(4)] by auto
  from wpD [OF read_response_spec [of self w2]] obtain r4 self4 w4 where 4:
    "hev_socks5_client_read_response klass self w2 = Some (r4, self4, w4)" "outgoing self w4 = outgoing self w2"
    "r4 = 0 \<or> r4 = - 1" "r4 = 0 \<longrightarrow> response_ok (incoming self w2)" "response_ok (incoming self w2) \<longrightarrow> r4 = 0 \<or> reluctant klass self w"
    using reluctant_mono [of klass self w2 self w, OF _ same_client_refl same_sys_trans [OF 1(4) 2(4)]] by auto
  consider (bad) "r1 = - 1" "\<not> replies_ok (incoming self w)"
    | (good) m rest where "incoming self w = VERSION_5 # m # rest" "r1 = uint m" "incoming self w1 = rest"
    using 1(3) by (cases "incoming self w" rule: replies_ok.cases) (auto simp: took_method_def split: if_splits)
  then show ?thesis
  proof cases
    case bad
    then show ?thesis by (simp add: client_reads_def 1(1,2))
  next
    case (good m rest)
    consider (user) "m = AUTH_METHOD_USER" | (none) "m = AUTH_METHOD_NONE" | (other) "m \<noteq> AUTH_METHOD_USER" "m \<noteq> AUTH_METHOD_NONE" by blast
    then show ?thesis
    proof cases
      case user
      consider (bad2) "r2 = - 1" "\<not> replies_ok (incoming self w)"
        | (good2) "r2 = 0" "replies_ok (incoming self w) \<longleftrightarrow> response_ok (incoming self w2)"
        using 2(3) good user
        by (cases rest rule: auth_reply_ok.cases) (auto simp: took_status_def split: if_splits)
      then show ?thesis
      proof cases
        case bad2
        then show ?thesis by (simp add: client_reads_def 1(1,2) good(2) user 2(1,2))
      next
        case good2
        have "client_reads klass self w = (if r4 < 0 then Some (- 1, self4, w4) else Some (0, self4, w4))"
          by (simp add: client_reads_def 1(1) good(2) user 2(1) good2(1) 4(1))
        then show ?thesis using 4(2-) 2(2) 1(2) good2(2) by auto
      qed
    next
      case none
      have "client_reads klass self w = (if r3 < 0 then Some (- 1, self3, w3) else Some (0, self3, w3))"
        by (simp add: client_reads_def 1(1) good(2) none 3(1))
      then show ?thesis using 3(2-) 1(2) good none by auto
    next
      case other
      then have m: "uint m \<noteq> uint AUTH_METHOD_USER" "uint m \<noteq> uint AUTH_METHOD_NONE"
        by (simp_all only: word_uint_eq_iff [symmetric] not_False_eq_True)
      have "client_reads klass self w = Some (- 1, self, w1)"
        unfolding client_reads_def 1(1) good(2) check_Some using m by simp
      then show ?thesis using 1(2) good(1) other by simp
    qed
  qed
qed

lemma pipeline_spec:
  assumes "target self w a" and "s_type self \<noteq> TYPE_NONE" and "creds_ok self"
  shows "wp (hev_socks5_client_handshake_pipeline klass self w) (\<lambda>(r, self', w'). (r = 0 \<or> r = - 1) \<and>
     (r = 0 \<longrightarrow> replies_ok (incoming self w)) \<and>
     (flowing self w \<longrightarrow> (replies_ok (incoming self w) \<longrightarrow> r = 0 \<or> reluctant klass self w) \<and>
        outgoing self w' = outgoing self w @ greeting self @ creds self @ request (command (s_type self)) a))"
proof -
  from wpD [OF write_auth_methods_spec [of self w]] obtain r1 w1 where 1:
    "hev_socks5_client_write_auth_methods self w = Some (r1, self, w1)" "only_sock (s_fd self) w w1"
    "incoming self w1 = incoming self w" "r1 = 0 \<or> r1 = - 1"
    "flowing self w \<longrightarrow> r1 = 0 \<and> outgoing self w1 = outgoing self w @ greeting self \<and> flowing self w1" by auto
  from wpD [OF write_auth_creds_spec [OF assms(3), of w1]] obtain r2 w2 where 2:
    "hev_socks5_client_write_auth_creds self w1 = Some (r2, self, w2)" "only_sock (s_fd self) w1 w2"
    "incoming self w2 = incoming self w1" "r2 = 0 \<or> r2 = - 1"
    "flowing self w1 \<longrightarrow> r2 = 0 \<and> outgoing self w2 = outgoing self w1 @ creds self \<and> flowing self w2" by auto
  have "target self w2 a" using assms(1) target_stable 1(2) 2(2) by blast
  from wpD [OF write_request_spec [OF this assms(2)]] obtain r3 self3 w3 where 3:
    "hev_socks5_client_write_request klass self w2 = Some (r3, self3, w3)" "same_client self self3"
    "incoming self w3 = incoming self w2" "r3 = 0 \<or> r3 = - 1"
    "flowing self w2 \<longrightarrow> r3 = 0 \<and> outgoing self w3 = outgoing self w2 @ request (command (s_type self)) a \<and> flowing self w3"
    "same_sys w2 w3" by auto
  note b = same_client_bytes [OF 3(2)]
  have sys: "same_sys w w3" using only_sock_sys [OF 1(2)] only_sock_sys [OF 2(2)] 3(6) same_sys_trans by blast
  from wpD [OF read_replies [of self3 w3]] obtain r4 self4 w4 where 4:
    "client_reads klass self3 w3 = Some (r4, self4, w4)" "outgoing self w4 = outgoing self w3" "r4 = 0 \<or> r4 = - 1"
    "r4 = 0 \<longrightarrow> replies_ok (incoming self w)" "replies_ok (incoming self w) \<longrightarrow> r4 = 0 \<or> reluctant klass self w"
    using reluctant_mono [OF _ 3(2) sys] by (auto simp: b 3(3) 2(3) 1(3))
  have "hev_socks5_client_handshake_pipeline klass self w =
    (if r1 < 0 then Some (- 1, self, w1) else if r2 < 0 then Some (- 1, self, w2)
     else if r3 < 0 then Some (- 1, self3, w3) else Some (r4, self4, w4))"
    unfolding hev_socks5_client_handshake_pipeline_def 1(1) check_Some 2(1) 3(1) client_reads_def [symmetric] 4(1) ..
  then show ?thesis using 1(4,5) 2(4,5) 3(4,5) 4(2-) by auto
qed

lemma asks_spec:
  assumes "target self w a" and "s_type self \<noteq> TYPE_NONE"
  shows "wp (client_asks klass self w) (\<lambda>(r, self', w'). (r = 0 \<or> r = - 1) \<and> (r = 0 \<longrightarrow> response_ok (incoming self w)) \<and>
     (flowing self w \<longrightarrow> (response_ok (incoming self w) \<longrightarrow> r = 0 \<or> reluctant klass self w) \<and>
        outgoing self w' = outgoing self w @ request (command (s_type self)) a))"
proof -
  from wpD [OF write_request_spec [OF assms]] obtain r3 self3 w3 where 3:
    "hev_socks5_client_write_request klass self w = Some (r3, self3, w3)" "same_client self self3"
    "incoming self w3 = incoming self w" "r3 = 0 \<or> r3 = - 1"
    "flowing self w \<longrightarrow> r3 = 0 \<and> outgoing self w3 = outgoing self w @ request (command (s_type self)) a \<and> flowing self w3"
    "same_sys w w3" by auto
  from wpD [OF read_response_spec [of self3 w3]] obtain r4 self4 w4 where 4:
    "hev_socks5_client_read_response klass self3 w3 = Some (r4, self4, w4)" "outgoing self w4 = outgoing self w3"
    "r4 = 0 \<or> r4 = - 1" "r4 = 0 \<longrightarrow> response_ok (incoming self w)" "response_ok (incoming self w) \<longrightarrow> r4 = 0 \<or> reluctant klass self w"
    using reluctant_mono [OF _ 3(2,6)] by (auto simp: same_client_bytes [OF 3(2)] 3(3))
  have "client_asks klass self w = (if r3 < 0 then Some (- 1, self3, w3) else if r4 < 0 then Some (- 1, self4, w4) else Some (0, self4, w4))"
    unfolding client_asks_def 3(1) check_Some 4(1) ..
  then show ?thesis using 3(4,5) 4(2-) by auto
qed

lemma standard_spec:
  assumes "target self w a" and "s_type self \<noteq> TYPE_NONE" and "creds_ok self"
  shows "wp (hev_socks5_client_handshake_standard klass self w) (\<lambda>(r, self', w'). (r = 0 \<or> r = - 1) \<and>
     (r = 0 \<longrightarrow> replies_ok (incoming self w)) \<and>
     (flowing self w \<longrightarrow> (replies_ok (incoming self w) \<longrightarrow> r = 0 \<or> reluctant klass self w) \<and>
        outgoing self w' = outgoing self w @ greeting self @ standard_out self a (incoming self w)))"
proof -
  let ?i = "incoming self w"
  from wpD [OF write_auth_methods_spec [of self w]] obtain r1 w1 where 1:
    "hev_socks5_client_write_auth_methods self w = Some (r1, self, w1)" "only_sock (s_fd self) w w1"
    "incoming self w1 = ?i" "r1 = 0 \<or> r1 = - 1"
    "flowing self w \<longrightarrow> r1 = 0 \<and> outgoing self w1 = outgoing self w @ greeting self \<and> flowing self w1" by auto
  from wpD [OF read_auth_method_spec [of self w1]] obtain r2 w2 where 2:
    "hev_socks5_client_read_auth_method self w1 = Some (r2, self, w2)" "only_sock (s_fd self) w1 w2"
    "outgoing self w2 = outgoing self w1" "flowing self w2 = flowing self w1"
    "took_method ?i r2 (incoming self w2)" by (auto simp: 1(3))
  from wpD [OF write_auth_creds_spec [OF assms(3), of w2]] obtain r3 w3 where 3:
    "hev_socks5_client_write_auth_creds self w2 = Some (r3, self, w3)" "only_sock (s_fd self) w2 w3"
    "incoming self w3 = incoming self w2" "r3 = 0 \<or> r3 = - 1"
    "flowing self w2 \<longrightarrow> r3 = 0 \<and> outgoing self w3 = outgoing self w2 @ creds self \<and> flowing self w3" by auto
  from wpD [OF read_auth_creds_spec [of self w3]] obtain r4 w4 where 4:
    "hev_socks5_client_read_auth_creds self w3 = Some (r4, self, w4)" "only_sock (s_fd self) w3 w4"
    "outgoing self w4 = outgoing self w3" "flowing self w4 = flowing self w3"
    "took_status (incoming self w2) r4 (incoming self w4)" by (auto simp: 3(3))
  have t: "target self w2 a" "target self w4 a"
    using assms(1) target_stable 1(2) 2(2) 3(2) 4(2) by blast+
  have sys2: "same_sys w w2" using only_sock_sys [OF 1(2)] only_sock_sys [OF 2(2)] same_sys_trans by blast
  have sys4: "same_sys w w4" using sys2 only_sock_sys [OF 3(2)] only_sock_sys [OF 4(2)] same_sys_trans by blast
  from wpD [OF asks_spec [OF t(1) assms(2)]] obtain r5 self5 w5 where 5:
    "client_asks klass self w2 = Some (r5, self5, w5)" "r5 = 0 \<or> r5 = - 1" "r5 = 0 \<longrightarrow> response_ok (incoming self w2)"
    "flowing self w2 \<longrightarrow> (response_ok (incoming self w2) \<longrightarrow> r5 = 0 \<or> reluctant klass self w) \<and>
        outgoing self w5 = outgoing self w2 @ request (command (s_type self)) a"
    using reluctant_mono [of klass self w2 self w, OF _ same_client_refl sys2] by auto
  from wpD [OF asks_spec [OF t(2) assms(2)]] obtain r6 self6 w6 where 6:
    "client_asks klass self w4 = Some (r6, self6, w6)" "r6 = 0 \<or> r6 = - 1" "r6 = 0 \<longrightarrow> response_ok (incoming self w4)"
    "flowing self w4 \<longrightarrow> (response_ok (incoming self w4) \<longrightarrow> r6 = 0 \<or> reluctant klass self w) \<and>
        outgoing self w6 = outgoing self w4 @ request (command (s_type self)) a"
    using reluctant_mono [of klass self w4 self w, OF _ same_client_refl sys4] by auto
  have run: "hev_socks5_client_handshake_standard klass self w =
    (if r1 < 0 then Some (- 1, self, w1) else if r2 < 0 then Some (- 1, self, w2)
     else if r2 = uint AUTH_METHOD_USER then
       (if r3 < 0 then Some (- 1, self, w3) else if r4 < 0 then Some (- 1, self, w4) else Some (r6, self6, w6))
     else if r2 \<noteq> uint AUTH_METHOD_NONE then Some (- 1, self, w2) else Some (r5, self5, w5))"
    unfolding hev_socks5_client_handshake_standard_def 1(1) check_Some 2(1) 3(1) 4(1) client_asks_def [symmetric]
    using 5(1) 6(1) by simp
  consider (bad) "r2 = - 1" "\<not> replies_ok ?i" "standard_out self a ?i = []"
    | (good) m where "?i = VERSION_5 # m # incoming self w2" "r2 = uint m"
    using 2(5) by (cases ?i rule: replies_ok.cases) (auto simp: took_method_def standard_out_def split: if_splits)
  then show ?thesis
  proof cases
    case bad
    then show ?thesis unfolding run using 1(4,5) 2(3) by auto
  next
    case (good m)
    consider (user) "m = AUTH_METHOD_USER" | (none) "m = AUTH_METHOD_NONE" | (other) "m \<noteq> AUTH_METHOD_USER" "m \<noteq> AUTH_METHOD_NONE" by blast
    then show ?thesis
    proof cases
      case user
      consider (bad2) "r4 = - 1" "\<not> replies_ok ?i" "standard_out self a ?i = creds self"
        | (good2) "r4 = 0" "incoming self w2 = AUTH_VERSION_1 # RES_REP_SUCC # incoming self w4"
        using 4(5) good user
        by (cases "incoming self w2" rule: auth_reply_ok.cases) (auto simp: took_status_def standard_out_def split: if_splits)
      then show ?thesis unfolding run using user good 1(4,5) 2(3,4) 3(4,5) 4(3,4) 6(2-)
        by cases (auto simp: standard_out_def)
    next
      case none
      then show ?thesis unfolding run using good 1(4,5) 2(3,4) 5(2-) by (auto simp: standard_out_def)
    next
      case other
      then have m: "uint m \<noteq> uint AUTH_METHOD_USER" "uint m \<noteq> uint AUTH_METHOD_NONE"
        by (simp_all only: word_uint_eq_iff [symmetric] not_False_eq_True)
      show ?thesis unfolding run good(2) if_not_P [OF m(1)] if_P [OF m(2)]
        using other good(1) 1(4,5) 2(3,4) by (auto simp: standard_out_def)
    qed
  qed
qed

end

end
