(* ===== verification/Client_Props.thy ===== *)
theory Client_Props
  imports Client_Handshake
begin

text \<open>
  The TCP and the UDP client as instances of the contract of a class, and the properties of the
  client: what the handshake sends and accepts, that a failed connection leaves no descriptor
  behind, and what becomes of the address block when a message cannot be sent.
\<close>

section \<open>The TCP client\<close>

definition tcp_target :: "'a client_tcp_scheme \<Rightarrow> 'z world_scheme \<Rightarrow> socks_addr \<Rightarrow> bool" where
  "tcp_target self w a \<longleftrightarrow> addr_ok a \<and> ct_addr self = Some (wire_addr a)"

interpretation tcp: obliging_upstream hev_socks5_client_tcp_class tcp_target
proof unfold_locales
  fix self :: "'a client_tcp_scheme" and w :: "'z world_scheme" and a
  assume "tcp_target self w a"
  then show "\<exists>blk self' w'. get_upstream_addr hev_socks5_client_tcp_class self w = (Some blk, self', w') \<and> addr_ok a \<and>
        take (length (wire_addr a)) blk = wire_addr a \<and> same_client self self' \<and> w_sock w' = w_sock w \<and> same_sys w w'"
    by (simp add: tcp_target_def hev_socks5_client_tcp_class_def hev_socks5_client_tcp_get_upstream_addr_def same_client_def)
next
  fix self :: "'a client_tcp_scheme" and w :: "'z world_scheme"
  show "\<not> reluctant hev_socks5_client_tcp_class self w"
    by (simp add: reluctant_def hev_socks5_client_tcp_class_def hev_socks5_client_tcp_set_upstream_addr_def)
qed (simp_all add: tcp_target_def hev_socks5_client_tcp_class_def hev_socks5_client_tcp_set_upstream_addr_def)

section \<open>The UDP client\<close>

definition udp_target :: "'a client_udp_scheme \<Rightarrow> 'z world_scheme \<Rightarrow> socks_addr \<Rightarrow> bool" where
  "udp_target self w a \<longleftrightarrow> (w_alloc w = [] \<or> hd (w_alloc w)) \<and>
     (s_addr_family self = AF_INET \<and> a = Ipv4 (replicate 4 0) 0 \<or> s_addr_family self = AF_INET6 \<and> a = Ipv6 (replicate 16 0) 0)"

lemma malloc_sock [simp]: "w_sock (snd (hev_malloc w)) = w_sock w"
  by (simp add: hev_malloc_def split: list.split)

lemma malloc_sys [simp]: "same_sys w (snd (hev_malloc w))"
  by (simp add: same_sys_def hev_malloc_def split: list.split)

lemma malloc_ok: "w_alloc w = [] \<or> hd (w_alloc w) \<Longrightarrow> fst (hev_malloc w)"
  by (auto simp: hev_malloc_def split: list.split)

lemma close_sock [simp]: "w_sock (close fd (hev_task_del_fd fd w)) = w_sock w"
  by (simp add: close_def hev_task_del_fd_def)

lemma sys_sock [simp]: "w_sock (snd (sys w)) = w_sock w"
  using only_sys_fields(1) [OF sys_only] .

lemma sys_sock_eq: "sys w = (r, w1) \<Longrightarrow> w_sock w1 = w_sock w"
  using sys_sock [of w] by simp

lemma socket_sock: "hev_socks5_socket type w = (fd, w') \<Longrightarrow> w_sock w' = w_sock w"
  by (auto simp: hev_socks5_socket_def hev_task_io_socket_socket_def close_def hev_task_add_fd_def
      hev_task_mod_fd_def Let_def dest!: sys_sock_eq split: prod.splits if_split_asm option.split_asm)

lemma addr_full_into_sockaddr6:
  assumes "length addr = addr_size" and "addr_atype addr = Some ADDR_TYPE_IPV4 \<or> addr_atype addr = Some ADDR_TYPE_IPV6"
  shows "\<exists>sa' fam'. hev_socks5_addr_into_sockaddr6 lc addr sa fam = Some (0, sa', fam')"
proof -
  have l: "\<exists>p. load16 (drop n addr) = Some p" if "n + 2 \<le> addr_size" for n
    using that assms(1) by (cases "drop n addr" rule: load16.cases) (auto dest: arg_cong [where f = length])
  obtain p4 p6 where "load16 (drop 5 addr) = Some p4" "load16 (drop 17 addr) = Some p6"
    using l [of 5] l [of 17] by (auto simp: addr_size_def)
  then show ?thesis using assms
    by (auto simp: hev_socks5_addr_into_sockaddr6_def hev_socks5_ipv4_into_sockaddr6_def hev_socks5_ipv6_into_sockaddr6_def
        memget_def addr_size_def)
qed

lemma udp_set_returns:
  assumes "length addr = addr_size" and "addr_atype addr = Some ADDR_TYPE_IPV4 \<or> addr_atype addr = Some ADDR_TYPE_IPV6"
    and "\<And>self fd sa w. w_sock (snd (bind_sock self fd sa w)) = w_sock w"
  shows "\<exists>r self' w'. hev_socks5_client_udp_set_upstream_addr bind_sock self addr w = Some (r, self', w') \<and> w_sock w' = w_sock w"
proof (cases "s_type self = TYPE_UDP_IN_UDP")
  case True
  obtain sa fam where sa: "hev_socks5_addr_into_sockaddr6 (w_libc w) addr
      \<lparr>sin6_family = 0, sin6_port = 0, sin6_addr = replicate 16 0\<rparr> (hev_socks5_get_addr_family self) = Some (0, sa, fam)"
    using addr_full_into_sockaddr6 [OF assms(1,2)] by blast
  obtain fd w1 where so: "hev_socks5_socket SOCK_DGRAM w = (fd, w1)" by (cases "hev_socks5_socket SOCK_DGRAM w")
  obtain rb w2 where bi: "bind_sock self fd sa w1 = (rb, w2)" by (cases "bind_sock self fd sa w1")
  obtain rc w3 where co: "hev_task_io_socket_connect hev_socks5_task_io_yielder self w2 = Some (rc, self, w3)" "only_sys w2 w3"
    using connect_returns by blast
  have "w_sock w1 = w_sock w" "w_sock w2 = w_sock w1" "w_sock w3 = w_sock w2"
    using socket_sock [OF so] assms(3) [of self fd sa w1] bi only_sys_fields(1) [OF co(2)] by simp_all
  then show ?thesis using True sa so bi co(1)
    by (simp add: hev_socks5_client_udp_set_upstream_addr_def Let_def)
qed (simp add: hev_socks5_client_udp_set_upstream_addr_def)

interpretation udp: upstream hev_socks5_client_udp_class udp_target
proof unfold_locales
  fix self :: "'a client_udp_scheme" and w :: "'z world_scheme" and a
  assume t: "udp_target self w a"
  obtain w1 where m: "hev_malloc w = (True, w1)" "w_sock w1 = w_sock w" "same_sys w w1"
    using malloc_ok [of w] malloc_sock [of w] malloc_sys [of w] t by (cases "hev_malloc w") (auto simp: udp_target_def)
  have "replicate 6 0 = [0, 0, 0, 0, 0, 0 :: u8]" "replicate 18 0 = replicate 16 0 @ [0, 0 :: u8]" by (simp_all add: eval_nat_numeral)
  with t m show "\<exists>blk self' w'. get_upstream_addr hev_socks5_client_udp_class self w = (Some blk, self', w') \<and> addr_ok a \<and>
        take (length (wire_addr a)) blk = wire_addr a \<and> same_client self self' \<and> w_sock w' = w_sock w \<and> same_sys w w'"
    by (auto simp: udp_target_def hev_socks5_client_udp_class_def hev_socks5_client_udp_get_upstream_addr_def same_client_def
        hev_socks5_get_addr_family_def hi8_def lo8_def eval_nat_numeral)
next
  fix addr and self :: "'a client_udp_scheme" and w :: "'z world_scheme"
  assume "length addr = addr_size" "addr_atype addr = Some ADDR_TYPE_IPV4 \<or> addr_atype addr = Some ADDR_TYPE_IPV6"
  from udp_set_returns [OF this, of hev_socks5_bind self w]
  show "\<exists>r self' w'. set_upstream_addr hev_socks5_client_udp_class self addr w = Some (r, self', w') \<and> w_sock w' = w_sock w"
    by (simp add: hev_socks5_client_udp_class_def hev_socks5_bind_def)
next
  fix self :: "'a client_udp_scheme" and w w' :: "'z world_scheme" and a fd
  assume "udp_target self w a" "only_sock fd w w'"
  then show "udp_target self w' a" by (simp add: udp_target_def only_sock_fields)
qed

text \<open>
  A client of UDP in TCP takes every address the server names. A client of UDP in UDP takes it when the
  system grants it the socket of the relay: \<open>socket\<close>, the setting of its mode and \<open>connect\<close> succeed and
  the protector accepts the descriptor; the receive buffer's size, the third call, may be refused.
\<close>

definition relay_granted :: "'z world_scheme \<Rightarrow> bool" where
  "relay_granted w \<longleftrightarrow>
     (case w_sys w of
        fd # mode # _ # conn # _ \<Rightarrow> 0 \<le> fd \<and> 0 \<le> mode \<and> 0 \<le> conn \<and> (case w_protect w of None \<Rightarrow> True | Some f \<Rightarrow> f fd)
      | _ \<Rightarrow> False)"

lemma relay_granted_same: "same_sys w w' \<Longrightarrow> relay_granted w' = relay_granted w"
  by (auto simp: same_sys_def relay_granted_def split: list.split)

lemma relay_socket_ok:
  assumes "relay_granted w"
  shows "\<exists>fd w1 c w2. hev_socks5_socket SOCK_DGRAM w = (fd, w1) \<and> 0 \<le> fd \<and> 0 \<le> c \<and>
     hev_task_io_socket_connect hev_socks5_task_io_yielder self w1 = Some (c, self, w2)"
proof -
  from assms obtain fd m q c rest where s: "w_sys w = fd # m # q # c # rest" "0 \<le> fd" "0 \<le> m" "0 \<le> c"
    "case w_protect w of None \<Rightarrow> True | Some f \<Rightarrow> f fd"
    by (auto simp: relay_granted_def split: list.split_asm)
  have p: "\<not> (case w_protect w of None \<Rightarrow> False | Some f \<Rightarrow> \<not> f fd)" using s(5) by (auto split: option.splits)
  obtain w1 where 1: "hev_socks5_socket SOCK_DGRAM w = (fd, w1)" "w_sys w1 = c # rest"
    using s(1-4) p by (cases "fd \<in> set (w_poll w)"; cases "q < 0")
      (simp_all add: hev_socks5_socket_def hev_task_io_socket_socket_def sys_def hev_task_add_fd_def hev_task_mod_fd_def)
  have "hev_task_io_socket_connect hev_socks5_task_io_yielder self w1 = Some (c, self, w1\<lparr>w_sys := rest\<rparr>)"
    using s(4) 1(2) by (subst hev_task_io_socket_connect.simps) (simp add: sys_def)
  with 1(1) s(2,4) show ?thesis by blast
qed

lemma udp_obliging:
  assumes "s_type self = TYPE_UDP_IN_TCP \<or> s_type self = TYPE_UDP_IN_UDP \<and> relay_granted w"
  shows "\<not> reluctant hev_socks5_client_udp_class self w"
proof
  assume "reluctant hev_socks5_client_udp_class self w"
  then obtain self1 addr w1 r self2 w2 where a: "same_client self self1" "same_sys w w1" "length addr = addr_size"
    "addr_atype addr = Some ADDR_TYPE_IPV4 \<or> addr_atype addr = Some ADDR_TYPE_IPV6"
    "hev_socks5_client_udp_set_upstream_addr hev_socks5_bind self1 addr w1 = Some (r, self2, w2)" "r < 0"
    by (auto simp: reluctant_def hev_socks5_client_udp_class_def)
  have t: "s_type self1 = s_type self" using a(1) by (simp add: same_client_def)
  show False
  proof (cases "s_type self = TYPE_UDP_IN_UDP")
    case True
    then have "relay_granted w1" using assms relay_granted_same [OF a(2)] by simp
    from relay_socket_ok [OF this, of self1] obtain fd w3 c w4 where so: "hev_socks5_socket SOCK_DGRAM w1 = (fd, w3)"
      "0 \<le> fd" "0 \<le> c" "hev_task_io_socket_connect hev_socks5_task_io_yielder self1 w3 = Some (c, self1, w4)" by blast
    obtain sa fam where "hev_socks5_addr_into_sockaddr6 (w_libc w1) addr
      \<lparr>sin6_family = 0, sin6_port = 0, sin6_addr = replicate 16 0\<rparr> (hev_socks5_get_addr_family self1) = Some (0, sa, fam)"
      using addr_full_into_sockaddr6 [OF a(3,4)] by blast
    then show False using a(5,6) so True t
      by (simp add: hev_socks5_client_udp_set_upstream_addr_def hev_socks5_bind_def Let_def)
  next
    case False
    then show False using a(5,6) t by (simp add: hev_socks5_client_udp_set_upstream_addr_def)
  qed
qed

section \<open>Properties\<close>

definition cl_libc :: libc where
  "cl_libc = \<lparr>inet_pton6 = (\<lambda>_. None), inet_ntop = (\<lambda>_ _. []), getaddrinfo = (\<lambda>_ _. None)\<rparr>"

text \<open>A world with one connected descriptor, 3, on which the peer will send the given pieces.\<close>

definition one_conn :: "rx list \<Rightarrow> tx list \<Rightarrow> int list \<Rightarrow> world" where
  "one_conn rx tx rs = \<lparr>w_sock = (\<lambda>_. \<lparr>sk_rx = rx, sk_tx = tx, sk_out = [], sk_dg = [], sk_sent = [], sk_shut = False\<rparr>), w_errno = 0, w_sys = rs,
     w_open = [3], w_poll = [], w_alloc = [], w_live = 2, w_stack = (\<lambda>_. 0), w_libc = cl_libc, w_protect = None,
     w_set = misc_defaults\<rparr>"

definition tcp_client :: "u8 list option \<Rightarrow> u8 list option \<Rightarrow> socks_addr \<Rightarrow> client_tcp" where
  "tcp_client u p a = \<lparr>s_fd = 3, s_timeout = 10000, s_type = TYPE_TCP, s_udp_associated = False, s_addr_family = AF_INET,
     c_user = u, c_pass = p, ct_addr = Some (wire_addr a)\<rparr>"

lemma handshake_unfold:
  assumes "s_timeout self \<noteq> 0"
  shows "hev_socks5_client_handshake klass self pipeline w = (do {
     (res, self, w) \<leftarrow> (if pipeline then hev_socks5_client_handshake_pipeline klass (self\<lparr>s_timeout := tcp_timeout (w_set w)\<rparr>) w
        else hev_socks5_client_handshake_standard klass (self\<lparr>s_timeout := tcp_timeout (w_set w)\<rparr>) w);
     case s_type self of
       TYPE_UDP_IN_TCP \<Rightarrow> Some (res, hev_socks5_set_timeout self (hev_socks5_get_udp_timeout (w_set w)), w)
     | TYPE_UDP_IN_UDP \<Rightarrow> Some (res, hev_socks5_set_timeout self (hev_socks5_get_udp_timeout (w_set w)), w)
     | _ \<Rightarrow> Some (res, self, w)})"
  using assms by (simp add: hev_socks5_client_handshake_def hev_socks5_get_tcp_timeout_def hev_socks5_set_timeout_def Let_def)

lemma hs_finish:
  assumes "m = Some (res, self1, w1)"
  shows "\<exists>self'. m \<bind> (\<lambda>(res, self, w). case s_type self of
       TYPE_UDP_IN_TCP \<Rightarrow> Some (res, hev_socks5_set_timeout self (hev_socks5_get_udp_timeout (w_set w)), w)
     | TYPE_UDP_IN_UDP \<Rightarrow> Some (res, hev_socks5_set_timeout self (hev_socks5_get_udp_timeout (w_set w)), w)
     | _ \<Rightarrow> Some (res, self, w)) = Some (res, self', w1)"
  using assms by (cases "s_type self1") auto

text \<open>
  C9: The handshake of the TCP client returns whatever the server does, and succeeds exactly when
  the bytes the server delivers in time start with a well-formed acceptance: a greeting that
  chooses no login or a login with status 0, and a success response with an IP address. In the
  pipeline mode it has sent greeting, credentials and request; in the standard mode the credentials
  only after the server asked for them and the request only after it let the client in.
\<close>

theorem client_tcp_handshake:
  assumes "ct_addr self = Some (wire_addr a)" and "addr_ok a" and "s_type self = TYPE_TCP" and "creds_ok self"
    and "s_timeout self \<noteq> 0" and "tx_flows (tcp_timeout (w_set w)) (tx_of w (s_fd self))"
  shows "\<exists>r self' w'. hev_socks5_client_handshake hev_socks5_client_tcp_class self pipeline w = Some (r, self', w') \<and>
     r = (if replies_ok (avail (tcp_timeout (w_set w)) (rx_of w (s_fd self))) then 0 else - 1) \<and>
     out_of w' (s_fd self) = out_of w (s_fd self) @ greeting self @
       (if pipeline then creds self @ request REQ_CMD_CONNECT a
        else standard_out self a (avail (tcp_timeout (w_set w)) (rx_of w (s_fd self))))"
proof -
  let ?self = "self\<lparr>s_timeout := tcp_timeout (w_set w)\<rparr>"
  have t: "tcp_target ?self w a" "s_type ?self \<noteq> TYPE_NONE" "creds_ok ?self"
    using assms(1-4) by (simp_all add: tcp_target_def)
  have f: "flowing ?self w" "incoming ?self w = avail (tcp_timeout (w_set w)) (rx_of w (s_fd self))"
    "\<And>w. outgoing ?self w = out_of w (s_fd self)" "greeting ?self = greeting self" "creds ?self = creds self"
    "standard_out ?self a i = standard_out self a i" "command (s_type ?self) = REQ_CMD_CONNECT" for i
    using assms(3,6) by (simp_all add: flowing_def incoming_def outgoing_def)
  obtain r self1 w1 where s: "(if pipeline then hev_socks5_client_handshake_pipeline hev_socks5_client_tcp_class ?self w
      else hev_socks5_client_handshake_standard hev_socks5_client_tcp_class ?self w) = Some (r, self1, w1)"
    "r = 0 \<or> r = - 1" "r = 0 \<longleftrightarrow> replies_ok (incoming ?self w)"
    "outgoing ?self w1 = outgoing ?self w @ greeting ?self @
       (if pipeline then creds ?self @ request (command (s_type ?self)) a else standard_out ?self a (incoming ?self w))"
    using wpD [OF tcp.pipeline_spec [OF t]] wpD [OF tcp.standard_spec [OF t]] tcp.obliging [of ?self w] f(1)
    by (cases pipeline) auto
  from hs_finish [OF s(1)] handshake_unfold [OF assms(5)] obtain self' where
    "hev_socks5_client_handshake hev_socks5_client_tcp_class self pipeline w = Some (r, self', w1)" by metis
  moreover have "r = (if replies_ok (avail (tcp_timeout (w_set w)) (rx_of w (s_fd self))) then 0 else - 1)"
    using s(2,3) f(2) by auto
  ultimately show ?thesis using s(4) f by metis
qed

lemma client_tcp_handshake_witness:
  "\<exists>r self' w'. hev_socks5_client_handshake hev_socks5_client_tcp_class
      (tcp_client (Some [117, 0]) (Some [112, 113, 0]) (Domain [104] 80)) False
      (one_conn [RxData [5], RxData [2, 1], RxAgain 5, RxData [0, 5, 0, 0], RxData [1, 0, 0, 0, 0, 0, 0, 9]] [TxOk 1, TxAgain 7] []) =
        Some (r, self', w') \<and> r = 0 \<and>
      out_of w' 3 = [5, 1, 2] @ [1, 1, 117, 2, 112, 113] @ [5, 1, 0, 3, 1, 104, 0, 80]"
  using client_tcp_handshake [of "tcp_client (Some [117, 0]) (Some [112, 113, 0]) (Domain [104] 80)" "Domain [104] 80"
      "one_conn [RxData [5], RxData [2, 1], RxAgain 5, RxData [0, 5, 0, 0], RxData [1, 0, 0, 0, 0, 0, 0, 9]] [TxOk 1, TxAgain 7] []" False]
  by (simp add: tcp_client_def one_conn_def misc_defaults_def creds_ok_def waits_def greeting_def creds_def wire_text_def
      standard_out_def request_def hi8_def lo8_def)

text \<open>
  C21: A UDP client whose connection is established asks for a relay with the all-zero address of its
  family, in either mode. The handshake returns 0 or -1, and 0 only when the bytes the server delivers
  in time are an acceptance; when they are, it returns 0 in the mode of UDP in TCP, and in the mode of
  UDP in UDP whenever the system grants the socket of the relay.
\<close>

theorem client_udp_handshake:
  assumes "udp_target self w a" and "s_type self = TYPE_UDP_IN_TCP \<or> s_type self = TYPE_UDP_IN_UDP" and "creds_ok self"
    and "s_timeout self \<noteq> 0" and "tx_flows (tcp_timeout (w_set w)) (tx_of w (s_fd self))"
  shows "\<exists>r self' w'. hev_socks5_client_handshake hev_socks5_client_udp_class self pipeline w = Some (r, self', w') \<and>
     (r = 0 \<or> r = - 1) \<and>
     (r = 0 \<longrightarrow> replies_ok (avail (tcp_timeout (w_set w)) (rx_of w (s_fd self)))) \<and>
     (s_type self = TYPE_UDP_IN_TCP \<or> relay_granted w \<longrightarrow>
        r = (if replies_ok (avail (tcp_timeout (w_set w)) (rx_of w (s_fd self))) then 0 else - 1)) \<and>
     out_of w' (s_fd self) = out_of w (s_fd self) @ greeting self @
       (if pipeline then creds self @ request (if s_type self = TYPE_UDP_IN_TCP then REQ_CMD_FWD_UDP else REQ_CMD_UDP_ASC) a
        else standard_out self a (avail (tcp_timeout (w_set w)) (rx_of w (s_fd self))))"
proof -
  let ?self = "self\<lparr>s_timeout := tcp_timeout (w_set w)\<rparr>"
  have t: "udp_target ?self w a" "s_type ?self \<noteq> TYPE_NONE" "creds_ok ?self"
    using assms(1-3) by (auto simp: udp_target_def)
  have f: "flowing ?self w" "incoming ?self w = avail (tcp_timeout (w_set w)) (rx_of w (s_fd self))"
    "\<And>w. outgoing ?self w = out_of w (s_fd self)"
    "command (s_type ?self) = (if s_type self = TYPE_UDP_IN_TCP then REQ_CMD_FWD_UDP else REQ_CMD_UDP_ASC)"
    using assms(2,5) by (auto simp: flowing_def incoming_def outgoing_def)
  obtain r self1 w1 where s: "(if pipeline then hev_socks5_client_handshake_pipeline hev_socks5_client_udp_class ?self w
      else hev_socks5_client_handshake_standard hev_socks5_client_udp_class ?self w) = Some (r, self1, w1)"
    "r = 0 \<or> r = - 1" "r = 0 \<longrightarrow> replies_ok (incoming ?self w)"
    "replies_ok (incoming ?self w) \<longrightarrow> r = 0 \<or> reluctant hev_socks5_client_udp_class ?self w"
    "outgoing ?self w1 = outgoing ?self w @ greeting ?self @
       (if pipeline then creds ?self @ request (command (s_type ?self)) a else standard_out ?self a (incoming ?self w))"
    using wpD [OF udp.pipeline_spec [OF t]] wpD [OF udp.standard_spec [OF t]] f(1)
    by (cases pipeline) auto
  have o: "\<not> reluctant hev_socks5_client_udp_class ?self w" if "s_type self = TYPE_UDP_IN_TCP \<or> relay_granted w"
    using udp_obliging [of ?self w] that assms(2) by auto
  from hs_finish [OF s(1)] handshake_unfold [OF assms(4)] obtain self' where
    "hev_socks5_client_handshake hev_socks5_client_udp_class self pipeline w = Some (r, self', w1)" by metis
  moreover have "s_type self = TYPE_UDP_IN_TCP \<or> relay_granted w \<longrightarrow> r = (if replies_ok (incoming ?self w) then 0 else - 1)"
    using s(2-4) o by auto
  ultimately show ?thesis using s(2,3,5) unfolding f client_says_timeout by blast
qed

definition udp_client :: "socks5_type \<Rightarrow> client_udp" where
  "udp_client t = \<lparr>s_fd = 3, s_timeout = 10000, s_type = t, s_udp_associated = False, s_addr_family = AF_INET,
     c_user = None, c_pass = None, cu_fd = - 1\<rparr>"

lemma client_udp_handshake_witness:
  "\<exists>r self' w'. hev_socks5_client_handshake hev_socks5_client_udp_class (udp_client TYPE_UDP_IN_UDP) True
      (one_conn [RxData [5, 0, 5], RxAgain 5, RxData [0, 0, 1, 9, 9, 9, 9, 0, 53]] [] [8, 0, - 22, 0]) = Some (r, self', w') \<and> r = 0 \<and>
      out_of w' 3 = [5, 1, 0, 5, 3, 0, 1, 0, 0, 0, 0, 0, 0]"
  using client_udp_handshake [of "udp_client TYPE_UDP_IN_UDP"
      "one_conn [RxData [5, 0, 5], RxAgain 5, RxData [0, 0, 1, 9, 9, 9, 9, 0, 53]] [] [8, 0, - 22, 0]" "Ipv4 (replicate 4 0) 0" True]
  by (auto simp: udp_client_def one_conn_def misc_defaults_def creds_ok_def udp_target_def greeting_def creds_def request_def
      hi8_def lo8_def waits_def relay_granted_def eval_nat_numeral)

lemma tcp_destruct_fields:
  "w_open (hev_socks5_client_tcp_destruct self w) = (if s_fd self < 0 then w_open w else removeAll (s_fd self) (w_open w))"
  "w_live (hev_socks5_client_tcp_destruct self w) = w_live w - (if ct_addr self = None then 1 else 2)"
  by (simp_all add: hev_socks5_client_tcp_destruct_def hev_socks5_client_destruct_def hev_socks5_destruct_def hev_free_def
      close_def hev_task_del_fd_def numeral_2_eq_2)

text \<open>
  C30: Connecting returns, and either succeeds, with one new descriptor that the object owns, or fails
  and leaves no descriptor open that was not open before, wherever it failed. The destruction of the
  object that follows, of one that had no descriptor before, closes what connecting opened and nothing
  else, in both cases, and frees the object, and the address block it still has.
\<close>

theorem client_connect_no_leak:
  assumes "cstr addr = Some name" and "hd (w_sys w) \<notin> set (w_open w)"
  shows "\<exists>r self' w'. hev_socks5_client_connect hev_socks5_client_tcp_class self addr port w = Some (r, self', w') \<and>
     (if r = 0 then w_open w' = s_fd self' # w_open w \<and> s_fd self' \<notin> set (w_open w) \<and> s_fd self' \<in> set (w_poll w')
      else r = - 1 \<and> w_open w' = w_open w \<and> s_fd self' = s_fd self) \<and>
     (s_fd self < 0 \<longrightarrow> w_open (hev_socks5_client_tcp_destruct self' w') = w_open w) \<and>
     w_live (hev_socks5_client_tcp_destruct self' w') = w_live w - (if ct_addr self = None then 1 else 2)"
proof -
  let ?self = "hev_socks5_set_timeout self (hev_socks5_get_connect_timeout (w_set w))"
  let ?sa = "\<lparr>sin6_family = 0, sin6_port = 0, sin6_addr = replicate 16 0\<rparr>"
  obtain res sa fam where n: "hev_socks5_name_into_sockaddr6 (w_libc w) name (word_of_int port) ?sa
      (hev_socks5_get_addr_family ?self) = (res, sa, fam)" by (metis prod_cases3)
  obtain fd w1 where so: "hev_socks5_socket SOCK_STREAM w = (fd, w1)" by (cases "hev_socks5_socket SOCK_STREAM w")
  obtain rc w2 where co: "hev_task_io_socket_connect hev_socks5_task_io_yielder ?self w1 = Some (rc, ?self, w2)" "only_sys w1 w2"
    using connect_returns by blast
  note open1 = socket_returns(1) [OF so assms(2)] and w2 = only_sys_fields [OF co(2)]
  have run: "hev_socks5_client_connect hev_socks5_client_tcp_class self addr port w =
    (if res < 0 then Some (- 1, ?self, w) else if fd < 0 then Some (- 1, ?self, w1)
     else if rc < 0 then Some (- 1, ?self, close fd (hev_task_del_fd fd w2))
     else Some (0, hev_socks5_set_addr_family (?self\<lparr>s_fd := fd\<rparr>) fam, w2))"
    by (simp add: hev_socks5_client_connect_def assms(1) n so co(1) hev_socks5_client_tcp_class_def hev_socks5_bind_def Let_def)
  have self: "s_fd ?self = s_fd self" "ct_addr ?self = ct_addr self" by (simp_all add: hev_socks5_set_timeout_def)
  have live: "w_live w1 = w_live w" "w_live w2 = w_live w" using socket_returns(2) [OF so assms(2)] w2 by (simp_all add: same_but_fds_def)
  consider "res < 0" | "0 \<le> res" "fd < 0" | "0 \<le> res" "0 \<le> fd" "rc < 0" | "0 \<le> res" "0 \<le> fd" "0 \<le> rc" by linarith
  then show ?thesis
  proof cases
    case 3
    then have "w_open (close fd (hev_task_del_fd fd w2)) = w_open w" "w_live (close fd (hev_task_del_fd fd w2)) = w_live w"
      using open1 w2 live by (simp_all add: close_def hev_task_del_fd_def)
    then show ?thesis using run 3 self by (simp add: tcp_destruct_fields)
  next
    case 4
    then have "w_open w2 = fd # w_open w" "fd \<notin> set (w_open w)" "fd \<in> set (w_poll w2)" using open1 w2 by simp_all
    then show ?thesis using run 4 self live by (simp add: tcp_destruct_fields hev_socks5_set_addr_family_def)
  qed (use run open1 self live in \<open>simp_all add: tcp_destruct_fields\<close>)
qed

lemma client_connect_no_leak_witness:
  "\<exists>r self' w'. hev_socks5_client_connect hev_socks5_client_tcp_class
      (tcp_client None None (Ipv4 [1, 2, 3, 4] 80)\<lparr>s_fd := - 1\<rparr>) [49, 0] 80
      (one_conn [] [] [7, 0, - 115, 20, - 111]) = Some (r, self', w') \<and> (r = 0 \<or> w_open w' = [3]) \<and>
      w_open (hev_socks5_client_tcp_destruct self' w') = [3] \<and> w_live (hev_socks5_client_tcp_destruct self' w') = 0"
  using client_connect_no_leak [of "[49, 0]" "[49]" "one_conn [] [] [7, 0, - 115, 20, - 111]"
      "tcp_client None None (Ipv4 [1, 2, 3, 4] 80)\<lparr>s_fd := - 1\<rparr>" 80]
  by (auto simp: one_conn_def tcp_client_def split: if_split_asm)

text \<open>
  C31: The request takes the address block out of the object and frees it once the request is sent.
  When the request cannot be sent the block is not freed although nothing points to it any more.
\<close>

theorem client_request_block:
  assumes "addr_ok a" and "s_type self = TYPE_TCP" and "ct_addr self = Some (wire_addr a)"
  shows "\<exists>r self' w'. hev_socks5_client_write_request hev_socks5_client_tcp_class self w = Some (r, self', w') \<and>
      ct_addr self' = None \<and> w_live w' = (if r = 0 then w_live w - 1 else w_live w) \<and>
      (tx_of w (s_fd self) = [TxErr] \<longrightarrow> r = - 1)"
proof -
  let ?self = "self\<lparr>ct_addr := None\<rparr>"
  let ?iov = "[[VERSION_5, REQ_CMD_CONNECT, 0], wire_addr a]"
  have "concat ?iov \<noteq> []" by simp
  from sendmsg_send [OF this plain_default] send_all [OF this plain_default, of "s_fd ?self" ?self w] obtain r w1 where
    s: "hev_task_io_socket_sendmsg hev_socks5_task_io_yielder (s_fd ?self) ?iov ?self w = Some (r, ?self, w1)"
    "send_spec (s_timeout ?self) (s_fd ?self) (concat ?iov) 0 w r w1" by metis
  have h: "addr_atype (wire_addr a) = Some (hd (wire_addr a))" "memget (wire_addr a) 0 (length (wire_addr a)) = Some (wire_addr a)"
    "\<And>s p. a = Domain s p \<Longrightarrow> addr_name_len (wire_addr a) = Some (of_nat (length s))"
    using wire_head [OF assms(1), of "wire_addr a"] by simp_all
  have run: "hev_socks5_client_write_request hev_socks5_client_tcp_class self w =
      (if r \<le> 0 then Some (- 1, ?self, w1) else Some (0, ?self, hev_free w1))"
    using h s(1) assms
    by (cases a)
      (simp_all add: hev_socks5_client_write_request_def hev_socks5_client_tcp_class_def
        hev_socks5_client_tcp_get_upstream_addr_def, simp add: eval_nat_numeral)
  have live: "w_live w1 = w_live w" using s(2) only_sock_fields(5) by (auto simp: send_spec_def)
  have err: "r \<le> 0" if "tx_of w (s_fd self) = [TxErr]"
  proof -
    have "hev_task_io_socket_send hev_socks5_task_io_yielder (s_fd ?self) (concat ?iov) ?self w = Some (r, ?self, w1)"
      using s(1) sendmsg_send [OF \<open>concat ?iov \<noteq> []\<close> plain_default] by metis
    moreover have "0 < length (concat ?iov)" by simp
    ultimately show ?thesis
      using send_loop_rounds(2) [of 0 "concat ?iov" hev_socks5_task_io_yielder ?self w "s_fd ?self" "[]"] that
      by (simp add: hev_task_io_socket_send_def)
  qed
  show ?thesis using run live err by (auto simp: hev_free_def)
qed

lemma client_request_block_witness:
  "\<exists>r self' w'. hev_socks5_client_write_request hev_socks5_client_tcp_class (tcp_client None None (Ipv4 [1, 2, 3, 4] 80))
      (one_conn [] [TxErr] []) = Some (r, self', w') \<and> ct_addr self' = None \<and> r = - 1 \<and> w_live w' = 2"
  using client_request_block [of "Ipv4 [1, 2, 3, 4] 80" "tcp_client None None (Ipv4 [1, 2, 3, 4] 80)" "one_conn [] [TxErr] []"]
  by (auto simp: tcp_client_def one_conn_def)

lemma udp_request_null:
  assumes "s_type self \<noteq> TYPE_NONE" and "w_alloc w = [False]"
  shows "hev_socks5_client_write_request hev_socks5_client_udp_class self w = None"
  using assms by (cases "s_type self")
    (simp_all add: hev_socks5_client_write_request_def hev_socks5_client_udp_class_def
      hev_socks5_client_udp_get_upstream_addr_def hev_malloc_def Let_def)

end
