(* ===== verification/Socks5_Udp.thy ===== *)
theory Socks5_Udp
  imports Socks5_Client
begin

text \<open>
  Datagrams over socks5, \<open>core/src/hev-socks5-udp.c\<close>: messages framed on a stream
  (\<open>HEV_SOCKS5_TYPE_UDP_IN_TCP\<close>) or sent as datagrams with a header (\<open>HEV_SOCKS5_TYPE_UDP_IN_UDP\<close>),
  the vectored socket calls of the task system they need, and the splicer that relays between the
  association and a datagram socket.
\<close>

unbundle bit_operations_syntax

section \<open>Vectored socket calls\<close>

text \<open>
  One \<open>recvmmsg\<close> into buffers of the lengths \<open>caps\<close>: it hands out at most one datagram per buffer,
  cut to the buffer, and leaves the others. A socket without datagrams blocks.
\<close>

definition sock_recvm ::
  "int \<Rightarrow> nat list \<Rightarrow> 'z world_scheme \<Rightarrow> int \<times> (sockaddr6 \<times> u8 list) list \<times> nat \<times> 'z world_scheme" where
  "sock_recvm fd caps w =
     (let sk = w_sock w fd; upd = (\<lambda>es. w\<lparr>w_sock := (w_sock w)(fd := sk\<lparr>sk_dg := es\<rparr>)\<rparr>) in
      case sk_dg sk of
        [] \<Rightarrow> (- 1, [], 0, w\<lparr>w_errno := EAGAIN\<rparr>)
      | DgBatch ds # es \<Rightarrow>
          (let got = map2 (\<lambda>cap (src, bs). (src, take cap bs)) caps ds; rest = drop (length caps) ds
           in (int (length got), got, 0, upd (if rest = [] then es else DgBatch rest # es)))
      | DgAgain r # es \<Rightarrow> (- 1, [], r, (upd es)\<lparr>w_errno := EAGAIN\<rparr>)
      | DgErr # es \<Rightarrow> (- 1, [], 0, (upd es)\<lparr>w_errno := EIO\<rparr>))"

text \<open>One \<open>sendmmsg\<close>; what it takes is counted in datagrams.\<close>

definition sock_sendm :: "int \<Rightarrow> (sockaddr6 option \<times> u8 list) list \<Rightarrow> 'z world_scheme \<Rightarrow> int \<times> nat \<times> 'z world_scheme" where
  "sock_sendm fd ms w =
     (let sk = w_sock w fd; upd = (\<lambda>es out. w\<lparr>w_sock := (w_sock w)(fd := sk\<lparr>sk_tx := es, sk_sent := sk_sent sk @ out\<rparr>)\<rparr>) in
      case sk_tx sk of
        [] \<Rightarrow> (int (length ms), 0, upd [] ms)
      | TxOk n # es \<Rightarrow> (int (length (take n ms)), 0, upd es (take n ms))
      | TxAgain r # es \<Rightarrow> (- 1, r, (upd es [])\<lparr>w_errno := EAGAIN\<rparr>)
      | TxErr # es \<Rightarrow> (- 1, 0, (upd es [])\<lparr>w_errno := EIO\<rparr>))"

text \<open>\<open>hev_task_io_socket_recvmmsg\<close>; no caller passes \<open>MSG_WAITALL\<close>.\<close>

partial_function (option) hev_task_io_socket_recvmmsg ::
  "('a, 'z) yielder \<Rightarrow> int \<Rightarrow> nat list \<Rightarrow> bool \<Rightarrow> 'a socks5_scheme \<Rightarrow> 'z world_scheme \<Rightarrow>
     (int \<times> (sockaddr6 \<times> u8 list) list \<times> 'a socks5_scheme \<times> 'z world_scheme) option" where
  "hev_task_io_socket_recvmmsg yielder fd caps dontwait self w =
     (let (r, ms, left, w) = sock_recvm fd caps w in
      if r < 0 \<and> w_errno w = EAGAIN \<and> \<not> dontwait then
        let (y, self, w) = yielder TASK_WAITIO left self w in
        if y \<noteq> 0 then Some (- 2, [], self, w)
        else hev_task_io_socket_recvmmsg yielder fd caps dontwait self w
      else Some (r, ms, self, w))"

text \<open>\<open>hev_task_io_socket_sendmmsg\<close> with \<open>MSG_WAITALL\<close>, as every caller has it; \<open>c\<close> counts what is sent.\<close>

partial_function (option) sendmmsg_loop ::
  "('a, 'z) yielder \<Rightarrow> int \<Rightarrow> (sockaddr6 option \<times> u8 list) list \<Rightarrow> nat \<Rightarrow> 'a socks5_scheme \<Rightarrow> 'z world_scheme \<Rightarrow>
     (int \<times> 'a socks5_scheme \<times> 'z world_scheme) option" where
  "sendmmsg_loop yielder fd ms c self w =
     (let (r, left, w) = sock_sendm fd (drop c ms) w in
      if r < 0 \<and> w_errno w = EAGAIN then
        let (y, self, w) = yielder TASK_WAITIO left self w in
        if y \<noteq> 0 then Some (if c \<noteq> 0 then int c else - 2, self, w)
        else sendmmsg_loop yielder fd ms c self w
      else if r \<le> 0 then Some (if c \<noteq> 0 then int c else r, self, w)
      else if c + nat r < length ms then sendmmsg_loop yielder fd ms (c + nat r) self w
      else Some (int (c + nat r), self, w))"

definition hev_task_io_socket_sendmmsg ::
  "('a, 'z) yielder \<Rightarrow> int \<Rightarrow> (sockaddr6 option \<times> u8 list) list \<Rightarrow> 'a socks5_scheme \<Rightarrow> 'z world_scheme \<Rightarrow>
     (int \<times> 'a socks5_scheme \<times> 'z world_scheme) option" where
  "hev_task_io_socket_sendmmsg yielder fd ms self w = sendmmsg_loop yielder fd ms 0 self w"

text \<open>
  \<open>hev_task_io_socket_recvmsg\<close> with \<open>MSG_WAITALL\<close>: the vector, of which only the lengths matter here,
  is cut after each partial read; the bytes come in the order of the vector.
\<close>

fun iov_skip :: "nat \<Rightarrow> nat list \<Rightarrow> nat list" where
  "iov_skip s [] = []"
| "iov_skip s (v # iov) = (if s < v then (v - s) # iov else iov_skip (s - v) iov)"

partial_function (option) recvmsg_loop ::
  "('a, 'z) yielder \<Rightarrow> int \<Rightarrow> nat list \<Rightarrow> nat \<Rightarrow> u8 list \<Rightarrow> 'a socks5_scheme \<Rightarrow> 'z world_scheme \<Rightarrow>
     (int \<times> u8 list \<times> 'a socks5_scheme \<times> 'z world_scheme) option" where
  "recvmsg_loop yielder fd iov len got self w =
     (let (s, bs, left, w) = sock_recv fd (sum_list iov) w in
      if s < 0 \<and> w_errno w = EAGAIN then
        let (y, self, w) = yielder TASK_WAITIO left self w in
        if y \<noteq> 0 then Some (if got \<noteq> [] then int (length got) else - 2, got, self, w)
        else recvmsg_loop yielder fd iov len got self w
      else if s \<le> 0 then Some (if got \<noteq> [] then int (length got) else s, got, self, w)
      else if length (got @ bs) < len then recvmsg_loop yielder fd (iov_skip (nat s) iov) len (got @ bs) self w
      else Some (int (length (got @ bs)), got @ bs, self, w))"

definition hev_task_io_socket_recvmsg ::
  "('a, 'z) yielder \<Rightarrow> int \<Rightarrow> nat list \<Rightarrow> 'a socks5_scheme \<Rightarrow> 'z world_scheme \<Rightarrow>
     (int \<times> u8 list \<times> 'a socks5_scheme \<times> 'z world_scheme) option" where
  "hev_task_io_socket_recvmsg yielder fd iov self w = recvmsg_loop yielder fd iov (sum_list iov) [] self w"

section \<open>Messages\<close>

text \<open>
  A pointer to an address: not yet set, NULL, or to the bytes that follow it in its block. A message
  has the bytes its buffer pointer points at and, for the receiving side, the block the buffer lies in.
\<close>

datatype addr_ptr = Wild | Null | At "u8 list"

record udp_msg =
  m_addr :: addr_ptr
  m_buf :: "u8 list"
  m_len :: nat
  m_mem :: "u8 list"

text \<open>The interface of an object that carries datagrams, and the virtual \<open>binder\<close> of its class.\<close>

record ('a, 'z) udp_iface =
  iface_get_fd :: "'a socks5_scheme \<Rightarrow> int"
  iface_binder :: "'a socks5_scheme \<Rightarrow> int \<Rightarrow> sockaddr6 \<Rightarrow> 'z world_scheme \<Rightarrow> int \<times> 'z world_scheme"

definition UDP_BUF_SIZE :: nat where
  "UDP_BUF_SIZE = 1500"

text \<open>
  While datagrams are relayed nothing is expected on the connection of the association: a byte is
  dropped, and its end ends the session.
\<close>

definition udp_task_io_yielder :: "('a, 'z) yielder" where
  "udp_task_io_yielder type left self w =
     (if s_type self = TYPE_UDP_IN_UDP then
        let (res, _, _, w) = sock_recv (s_fd self) 1 w in
        if res = 0 \<or> (res < 0 \<and> w_errno w \<noteq> EAGAIN) then (- 1, hev_socks5_set_timeout self 0, w)
        else hev_socks5_task_io_yielder type left self w
      else hev_socks5_task_io_yielder type left self w)"

definition hev_socks5_udp_get_fd :: "('a, 'z) udp_iface \<Rightarrow> 'a socks5_scheme \<Rightarrow> int" where
  "hev_socks5_udp_get_fd iface self = iface_get_fd iface self"

section \<open>Sending\<close>

text \<open>The vectors of one message, \<open>None\<close> inside when its address is of no known type.\<close>

definition msg_addrlen :: "udp_msg \<Rightarrow> (u8 list \<times> nat) option option" where
  "msg_addrlen m =
     (case m_addr m of
        At a \<Rightarrow> map_option (\<lambda>n. if n \<le> 0 then None else Some (a, nat n)) (hev_socks5_addr_len a)
      | _ \<Rightarrow> None)"

fun tcp_iov :: "udp_msg list \<Rightarrow> u8 list list option option" where
  "tcp_iov [] = Some (Some [])"
| "tcp_iov (m # ms) = do {
     r \<leftarrow> msg_addrlen m;
     case r of
       None \<Rightarrow> Some None
     | Some (a, addrlen) \<Rightarrow> do {
         let hdr = store16 (htons (of_nat (m_len m))) @ [of_nat (3 + addrlen)];
         a \<leftarrow> memget a 0 addrlen;
         b \<leftarrow> memget (m_buf m) 0 (m_len m);
         r \<leftarrow> tcp_iov ms;
         Some (map_option (\<lambda>iov. [hdr, a, b] @ iov) r)
       }
   }"

definition hev_socks5_udp_sendmmsg_tcp ::
  "('a, 'z) udp_iface \<Rightarrow> udp_msg list \<Rightarrow> 'a socks5_scheme \<Rightarrow> 'z world_scheme \<Rightarrow>
     (int \<times> 'a socks5_scheme \<times> 'z world_scheme) option" where
  "hev_socks5_udp_sendmmsg_tcp iface msgv self w = do {
     r \<leftarrow> tcp_iov msgv;
     case r of
       None \<Rightarrow> Some (- 1, self, w)
     | Some iov \<Rightarrow> do {
         (res, self, w) \<leftarrow> hev_task_io_socket_sendmsg udp_task_io_yielder (hev_socks5_udp_get_fd iface self) iov self w;
         if res \<le> 0 then Some (- 1, self, w) else Some (int (length msgv), self, w)
       }
   }"

fun udp_iov :: "udp_msg list \<Rightarrow> (sockaddr6 option \<times> u8 list) list option option" where
  "udp_iov [] = Some (Some [])"
| "udp_iov (m # ms) = do {
     r \<leftarrow> msg_addrlen m;
     case r of
       None \<Rightarrow> Some None
     | Some (a, addrlen) \<Rightarrow> do {
         a \<leftarrow> memget a 0 addrlen;
         b \<leftarrow> memget (m_buf m) 0 (m_len m);
         r \<leftarrow> udp_iov ms;
         Some (map_option (\<lambda>iov. (None, [0, 0, 0] @ a @ b) # iov) r)
       }
   }"

definition hev_socks5_udp_sendmmsg_udp ::
  "('a, 'z) udp_iface \<Rightarrow> udp_msg list \<Rightarrow> 'a socks5_scheme \<Rightarrow> 'z world_scheme \<Rightarrow>
     (int \<times> 'a socks5_scheme \<times> 'z world_scheme) option" where
  "hev_socks5_udp_sendmmsg_udp iface msgv self w = do {
     r \<leftarrow> udp_iov msgv;
     case r of
       None \<Rightarrow> Some (- 1, self, w)
     | Some ms \<Rightarrow> hev_task_io_socket_sendmmsg udp_task_io_yielder (hev_socks5_udp_get_fd iface self) ms self w
   }"

definition hev_socks5_udp_sendmmsg ::
  "('a, 'z) udp_iface \<Rightarrow> udp_msg list \<Rightarrow> 'a socks5_scheme \<Rightarrow> 'z world_scheme \<Rightarrow>
     (int \<times> 'a socks5_scheme \<times> 'z world_scheme) option" where
  "hev_socks5_udp_sendmmsg iface msgv self w =
     (case s_type self of
        TYPE_UDP_IN_TCP \<Rightarrow> hev_socks5_udp_sendmmsg_tcp iface msgv self w
      | TYPE_UDP_IN_UDP \<Rightarrow> hev_socks5_udp_sendmmsg_udp iface msgv self w
      | _ \<Rightarrow> Some (- 1, self, w))"

section \<open>Receiving\<close>

text \<open>
  One frame: the first five bytes hold the length of the data, that of the header and the first two
  bytes of the address; the rest of the address and the data are read behind them. A buffer that is
  too small for what is read into it stands for a memory error.
\<close>

definition recv_udp_head ::
  "int \<Rightarrow> bool \<Rightarrow> 'a socks5_scheme \<Rightarrow> 'z world_scheme \<Rightarrow> (int \<times> u8 list \<times> 'a socks5_scheme \<times> 'z world_scheme) option" where
  "recv_udp_head fd nonblock self w = do {
     (res, udp, self, w) \<leftarrow> hev_task_io_socket_recv udp_task_io_yielder fd 5 False nonblock self w;
     if 0 < res \<and> res < 5 then do {
       (more, udp', self, w) \<leftarrow> hev_task_io_socket_recv udp_task_io_yielder fd (nat (5 - res)) True False self w;
       Some (res + more, udp @ udp', self, w)
     } else Some (res, udp, self, w)
   }"

primrec recvmmsg_tcp_loop ::
  "int \<Rightarrow> bool \<Rightarrow> udp_msg list \<Rightarrow> udp_msg list \<Rightarrow> 'a socks5_scheme \<Rightarrow> 'z world_scheme \<Rightarrow>
     (int \<times> udp_msg list \<times> 'a socks5_scheme \<times> 'z world_scheme) option" where
  "recvmmsg_tcp_loop fd nonblock [] got self w = Some (int (length got), got, self, w)"
| "recvmmsg_tcp_loop fd nonblock (m # ms) got self w = do {
     (res, udp, self, w) \<leftarrow> recv_udp_head fd nonblock self w;
     if res \<noteq> 5 then Some (if got \<noteq> [] then int (length got) else res, got @ m # ms, self, w)
     else if udp ! 2 < 5 then Some (- 1, got @ m # ms, self, w)
     else do {
       let addrlen = unat (udp ! 2) - 3;
       let datlen = unat (word16 (udp ! 0) (udp ! 1));
       if datlen > usub (m_len m) addrlen then Some (- 1, got @ m # ms, self, w)
       else do {
         (res, bs, self, w) \<leftarrow> hev_task_io_socket_recvmsg udp_task_io_yielder fd [addrlen - 2, datlen] self w;
         mem \<leftarrow> memput (m_buf m) 2 bs;
         if res \<noteq> int (addrlen - 2 + datlen) then Some (res, got @ m\<lparr>m_mem := mem\<rparr> # ms, self, w)
         else do {
           mem \<leftarrow> memput mem 0 [udp ! 3, udp ! 4];
           recvmmsg_tcp_loop fd nonblock ms
             (got @ [\<lparr>m_addr = At mem, m_buf = drop addrlen mem, m_len = datlen, m_mem = mem\<rparr>]) self w
         }
       }
     }
   }"

definition hev_socks5_udp_recvmmsg_tcp ::
  "('a, 'z) udp_iface \<Rightarrow> udp_msg list \<Rightarrow> bool \<Rightarrow> 'a socks5_scheme \<Rightarrow> 'z world_scheme \<Rightarrow>
     (int \<times> udp_msg list \<times> 'a socks5_scheme \<times> 'z world_scheme) option" where
  "hev_socks5_udp_recvmmsg_tcp iface msgv nonblock self w =
     recvmmsg_tcp_loop (hev_socks5_udp_get_fd iface self) nonblock msgv [] self w"

text \<open>The datagrams that came are parsed in place; a short one leaves an empty message.\<close>

primrec parse_datagrams :: "(udp_msg \<times> u8 list) list \<Rightarrow> udp_msg list \<Rightarrow> (bool \<times> udp_msg list) option" where
  "parse_datagrams [] got = Some (True, got)"
| "parse_datagrams (d # ds) got = do {
     let (m, bs) = d;
     mem \<leftarrow> memput (m_buf m) 0 bs;
     addrlen \<leftarrow> hev_socks5_addr_len (drop 3 mem);
     let m = m\<lparr>m_mem := mem, m_len := length bs\<rparr>;
     if length bs < 4 then parse_datagrams ds (got @ [m\<lparr>m_addr := Null, m_len := 0\<rparr>])
     else if addrlen \<le> 0 then Some (False, got @ [m])
     else if 3 + addrlen > int (length bs) then Some (False, got @ [m])
     else parse_datagrams ds (got @ [m\<lparr>m_addr := At (drop 3 mem), m_buf := drop (3 + nat addrlen) mem,
            m_len := length bs - (3 + nat addrlen)\<rparr>])
   }"

definition hev_socks5_udp_recvmmsg_udp ::
  "('a, 'z) udp_iface \<Rightarrow> udp_msg list \<Rightarrow> bool \<Rightarrow> 'a socks5_scheme \<Rightarrow> 'z world_scheme \<Rightarrow>
     (int \<times> udp_msg list \<times> 'a socks5_scheme \<times> 'z world_scheme) option" where
  "hev_socks5_udp_recvmmsg_udp iface msgv nonblock self w = do {
     let fd = hev_socks5_udp_get_fd iface self;
     (res, ds, self, w) \<leftarrow> hev_task_io_socket_recvmmsg udp_task_io_yielder fd (map m_len msgv) nonblock self w;
     if res \<le> 0 then Some (res, msgv, self, w)
     else do {
       let (ok, self, w) = (if s_udp_associated self then (True, self, w)
         else let (r, w) = sys w in if r < 0 then (False, self, w) else (True, self\<lparr>s_udp_associated := True\<rparr>, w));
       if \<not> ok then Some (- 1, msgv, self, w)
       else do {
         (ok, got) \<leftarrow> parse_datagrams (zip msgv (map snd ds)) [];
         Some (if ok then res else - 1, got @ drop (length got) msgv, self, w)
       }
     }
   }"

definition hev_socks5_udp_recvmmsg ::
  "('a, 'z) udp_iface \<Rightarrow> udp_msg list \<Rightarrow> bool \<Rightarrow> 'a socks5_scheme \<Rightarrow> 'z world_scheme \<Rightarrow>
     (int \<times> udp_msg list \<times> 'a socks5_scheme \<times> 'z world_scheme) option" where
  "hev_socks5_udp_recvmmsg iface msgv nonblock self w =
     (case s_type self of
        TYPE_UDP_IN_TCP \<Rightarrow> hev_socks5_udp_recvmmsg_tcp iface msgv nonblock self w
      | TYPE_UDP_IN_UDP \<Rightarrow> hev_socks5_udp_recvmmsg_udp iface msgv nonblock self w
      | _ \<Rightarrow> Some (- 1, msgv, self, w))"

section \<open>Relaying\<close>

definition zero_sockaddr :: sockaddr6 where
  "zero_sockaddr = \<lparr>sin6_family = 0, sin6_port = 0, sin6_addr = replicate 16 0\<rparr>"

text \<open>
  The first \<open>n\<close> messages as datagrams for their targets; to look at a message that was never filled
  in, or at one behind the end of the vector, is an error in memory.
\<close>

fun fwd_targets :: "libc \<Rightarrow> int \<Rightarrow> nat \<Rightarrow> udp_msg list \<Rightarrow> (sockaddr6 option \<times> u8 list) list option option" where
  "fwd_targets lc family 0 ms = Some (Some [])"
| "fwd_targets lc family (Suc n) [] = None"
| "fwd_targets lc family (Suc n) (m # ms) =
     (if m_len m = 0 then Some None
      else case m_addr m of
        Wild \<Rightarrow> None
      | Null \<Rightarrow> Some None
      | At a \<Rightarrow> do {
          (ret, sa, _) \<leftarrow> hev_socks5_addr_into_sockaddr6 lc a zero_sockaddr family;
          if ret < 0 then Some None
          else do {
            b \<leftarrow> memget (m_buf m) 0 (m_len m);
            r \<leftarrow> fwd_targets lc family n ms;
            Some (map_option (\<lambda>ds. (Some sa, b) # ds) r)
          }
        })"

text \<open>How the two directions report: nothing to do, an error, or progress.\<close>

definition fwd_result :: "int \<Rightarrow> 'z world_scheme \<Rightarrow> int" where
  "fwd_result res w = (if res \<le> 0 then if res = - 1 \<and> w_errno w = EAGAIN then 0 else - 1 else 1)"

text \<open>\<open>slots\<close> are the blocks of the receiving half of the buffer; they keep what was read last.\<close>

definition hev_socks5_udp_fwd_f ::
  "('a, 'z) udp_iface \<Rightarrow> int \<Rightarrow> u8 list list \<Rightarrow> bool \<Rightarrow> 'a socks5_scheme \<Rightarrow> 'z world_scheme \<Rightarrow>
     (int \<times> u8 list list \<times> bool \<times> 'a socks5_scheme \<times> 'z world_scheme) option" where
  "hev_socks5_udp_fwd_f iface fd slots bnd self w = do {
     (res, svec, self, w) \<leftarrow> hev_socks5_udp_recvmmsg iface
        (map (\<lambda>b. \<lparr>m_addr = Wild, m_buf = b, m_len = UDP_BUF_SIZE, m_mem = b\<rparr>) slots) True self w;
     let slots = map m_mem svec;
     if res > 0 then do {
       r \<leftarrow> fwd_targets (w_libc w) (hev_socks5_get_addr_family self) (nat res) svec;
       case r of
         None \<Rightarrow> Some (- 1, slots, bnd, self, w)
       | Some dvec \<Rightarrow> do {
           (ret, w) \<leftarrow> (if bnd then Some (0, w)
             else case dvec of [] \<Rightarrow> None | d # _ \<Rightarrow> map_option (\<lambda>sa. iface_binder iface self fd sa w) (fst d));
           if ret < 0 then Some (- 1, slots, bnd, self, w)
           else do {
             (res, self, w) \<leftarrow> hev_task_io_socket_sendmmsg udp_task_io_yielder fd dvec self w;
             Some (fwd_result res w, slots, True, self, w)
           }
         }
     }
     else Some (fwd_result res w, slots, bnd, self, w)
   }"

text \<open>The datagrams that came, with their sources in local blocks of 19 bytes.\<close>

definition fwd_sources :: "(nat \<Rightarrow> u8) \<Rightarrow> (sockaddr6 \<times> u8 list) list \<Rightarrow> udp_msg list option" where
  "fwd_sources stack svec = those (map (\<lambda>(src, bs). map_option
     (\<lambda>(_, a). \<lparr>m_addr = At a, m_buf = bs, m_len = length bs, m_mem = bs\<rparr>)
     (hev_socks5_addr_from_sockaddr6 (map stack [0..<19]) src)) svec)"

definition hev_socks5_udp_fwd_b ::
  "('a, 'z) udp_iface \<Rightarrow> int \<Rightarrow> nat \<Rightarrow> 'a socks5_scheme \<Rightarrow> 'z world_scheme \<Rightarrow>
     (int \<times> 'a socks5_scheme \<times> 'z world_scheme) option" where
  "hev_socks5_udp_fwd_b iface fd num self w = do {
     (res, svec, self, w) \<leftarrow> hev_task_io_socket_recvmmsg udp_task_io_yielder fd (replicate num UDP_BUF_SIZE) True self w;
     if res > 0 then do {
       dvec \<leftarrow> fwd_sources (w_stack w) svec;
       (res, self, w) \<leftarrow> hev_socks5_udp_sendmmsg iface dvec self w;
       Some (fwd_result res w, self, w)
     }
     else Some (fwd_result res w, self, w)
   }"

text \<open>
  The splicer. When a task waits for the two sockets the script of the kernel tells how much of the
  timeout is left when it is woken up.
\<close>

partial_function (option) udp_splice_loop ::
  "('a, 'z) udp_iface \<Rightarrow> int \<Rightarrow> nat \<Rightarrow> int \<Rightarrow> int \<Rightarrow> u8 list list \<Rightarrow> bool \<Rightarrow> 'a socks5_scheme \<Rightarrow> 'z world_scheme \<Rightarrow>
     ('a socks5_scheme \<times> 'z world_scheme) option" where
  "udp_splice_loop iface fd_b num res_f res_b slots bnd self w = do {
     (res_f, slots, bnd, self, w) \<leftarrow> (if res_f \<ge> 0 then hev_socks5_udp_fwd_f iface fd_b slots bnd self w
        else Some (res_f, slots, bnd, self, w));
     (res_b, self, w) \<leftarrow> (if res_b \<ge> 0 then hev_socks5_udp_fwd_b iface fd_b num self w else Some (res_b, self, w));
     if res_f > 0 \<or> res_b > 0 then
       let (y, self, w) = udp_task_io_yielder TASK_YIELD 0 self w in
       if y \<noteq> 0 then Some (self, w) else udp_splice_loop iface fd_b num res_f res_b slots bnd self w
     else if res_f AND res_b = 0 then
       let (left, w) = sys w; (y, self, w) = udp_task_io_yielder TASK_WAITIO (nat left) self w in
       if y \<noteq> 0 then Some (self, w) else udp_splice_loop iface fd_b num res_f res_b slots bnd self w
     else Some (self, w)
   }"

definition udp_poll_fds :: "int \<Rightarrow> int \<Rightarrow> 'z world_scheme \<Rightarrow> 'z world_scheme" where
  "udp_poll_fds fd_a fd_b w =
     (let (r, w) = hev_task_mod_fd fd_a w;
          w = (if r < 0 then snd (hev_task_add_fd fd_a w) else w);
          (r, w) = hev_task_add_fd fd_b w
      in if r < 0 then snd (hev_task_mod_fd fd_b w) else w)"

definition hev_socks5_udp_splicer ::
  "('a, 'z) udp_iface \<Rightarrow> int \<Rightarrow> 'a socks5_scheme \<Rightarrow> 'z world_scheme \<Rightarrow> (int \<times> 'a socks5_scheme \<times> 'z world_scheme) option" where
  "hev_socks5_udp_splicer iface fd_b self w =
     (let num = hev_socks5_get_udp_copy_buffer_nums (w_set w);
          (ok, w) = hev_malloc w in
      if \<not> ok then Some (- 1, self, w)
      else let w = udp_poll_fds (hev_socks5_udp_get_fd iface self) fd_b w
           in if num \<le> 0 then None
              else do {
                (self, w) \<leftarrow> udp_splice_loop iface fd_b (nat num) 1 1
                   (replicate (nat num) (map (w_stack w) [0..<UDP_BUF_SIZE])) False self w;
                Some (0, self, hev_free w)
              })"

end
