(* ===== verification/Udp_Frames.thy ===== *)
theory Udp_Frames
  imports Socks5_Udp
begin

text \<open>
  What the framing of datagrams on a stream guarantees: the wire form of a frame, what the vectored
  calls do on every script of the peer, and the round trip from a sender to a receiver in both modes.
\<close>

section \<open>The yielder\<close>

lemma plain_udp: "s_type self \<noteq> TYPE_UDP_IN_UDP \<Longrightarrow> plain udp_task_io_yielder self"
  by (simp add: plain_def udp_task_io_yielder_def yielder_waits)

section \<open>Reading\<close>

text \<open>A receive without \<open>MSG_WAITALL\<close> hands out some of what is there.\<close>

definition some_spec :: "int \<Rightarrow> int \<Rightarrow> nat \<Rightarrow> 'z world_scheme \<Rightarrow> int \<Rightarrow> u8 list \<Rightarrow> 'z world_scheme \<Rightarrow> bool" where
  "some_spec t fd len w r bs w' \<longleftrightarrow>
     only_sock fd w w' \<and> tx_of w' fd = tx_of w fd \<and> out_of w' fd = out_of w fd \<and>
     (all_data (rx_of w fd) \<longrightarrow> all_data (rx_of w' fd)) \<and>
     (if avail t (rx_of w fd) = [] then r \<le> 0 \<and> bs = [] \<and> (rx_of w fd = [] \<longrightarrow> r = 0)
      else bs \<noteq> [] \<and> length bs \<le> len \<and> r = int (length bs) \<and> avail t (rx_of w fd) = bs @ avail t (rx_of w' fd))"

lemma recv_some:
  fixes w :: "'z world_scheme"
  assumes "0 < len" and "plain y self" and "nonblock \<longrightarrow> all_data (rx_of w fd)"
  shows "\<exists>r bs w'. hev_task_io_socket_recv y fd len False nonblock self w = Some (r, bs, self, w') \<and>
     some_spec (s_timeout self) fd len w r bs w'"
  using assms(3)
proof (induction "rx_of w fd" arbitrary: w)
  case Nil
  note nil = Nil(1) [symmetric]
  show ?case using assms(1) nil
    by (simp add: hev_task_io_socket_recv_def, subst recv_loop.simps) (simp add: sock_recv_def some_spec_def)
next
  case (Cons e es)
  note es = Cons(2) [symmetric]
  show ?case
  proof (cases e)
    case RxErr
    with es assms(1) Cons(3) show ?thesis
      by (simp add: hev_task_io_socket_recv_def, subst recv_loop.simps) (simp add: sock_recv_def some_spec_def)
  next
    case (RxData ds)
    with es assms(1) Cons(3) show ?thesis
      by (simp add: hev_task_io_socket_recv_def, subst recv_loop.simps) (auto simp: sock_recv_def some_spec_def Let_def)
  next
    case (RxAgain left)
    let ?w = "(rx_set fd es w)\<lparr>w_errno := EAGAIN\<rparr>"
    have r: "rx_of ?w fd = es" by simp
    have nb: "\<not> nonblock" using Cons(3) es RxAgain by auto
    have run: "hev_task_io_socket_recv y fd len False nonblock self w = (if waits (s_timeout self) left
        then hev_task_io_socket_recv y fd len False nonblock self ?w else Some (- 2, [], self, ?w))"
      using es RxAgain assms(1) nb unfolding hev_task_io_socket_recv_def
      by (subst recv_loop.simps) (simp add: sock_recv_def rx_set_def plainD [OF assms(2)] Let_def)
    show ?thesis
    proof (cases "waits (s_timeout self) left")
      case True
      from Cons(1) [OF r [symmetric]] nb obtain r bs w' where
        ih: "hev_task_io_socket_recv y fd len False nonblock self ?w = Some (r, bs, self, w')"
        "some_spec (s_timeout self) fd len ?w r bs w'" by auto
      have "only_sock fd w w'" using ih(2) only_sock_trans [of fd w ?w w'] by (simp add: some_spec_def)
      then have "some_spec (s_timeout self) fd len w r bs w'"
        using ih(2) es RxAgain True by (auto simp: some_spec_def)
      then show ?thesis using run True ih(1) by auto
    next
      case False
      then show ?thesis using run es RxAgain by (auto simp: some_spec_def)
    qed
  qed
qed

lemma sum_iov_skip: "sum_list (iov_skip s iov) = sum_list iov - s"
  by (induction s iov rule: iov_skip.induct) auto

text \<open>Receiving into a vector is receiving into one buffer of its total length.\<close>

lemma recvmsg_loop_recv:
  fixes w :: "'z world_scheme"
  assumes "sum_list iov = len - length got" and "length got < len" and "plain y self"
  shows "recvmsg_loop y fd iov len got self w = recv_loop y fd len True False got self w"
  using assms(1,2)
proof (induction "rx_of w fd" arbitrary: got iov w)
  case Nil
  note nil = Nil(1) [symmetric]
  show ?case using Nil(2,3) nil
    by (subst recvmsg_loop.simps, subst recv_loop.simps) (simp add: sock_recv_def Let_def)
next
  case (Cons e es)
  note es = Cons(2) [symmetric]
  show ?case
  proof (cases e)
    case RxErr
    with es Cons(3,4) show ?thesis
      by (subst recvmsg_loop.simps, subst recv_loop.simps) (simp add: sock_recv_def Let_def)
  next
    case (RxAgain left)
    let ?w = "(rx_set fd es w)\<lparr>w_errno := EAGAIN\<rparr>"
    have "rx_of ?w fd = es" by simp
    from Cons(1) [OF this [symmetric] Cons(3,4)] es RxAgain Cons(3,4) show ?thesis
      by (subst recvmsg_loop.simps, subst recv_loop.simps) (simp add: sock_recv_def plainD [OF assms(3)] rx_set_def Let_def)
  next
    case (RxData ds)
    let ?w = "rx_set fd es w"
    have r: "rx_of ?w fd = es" by simp
    show ?thesis
    proof (cases "length (got @ ds) < len")
      case True
      have "sum_list (iov_skip (length ds) iov) = len - length (got @ ds)" using Cons(3) by (simp add: sum_iov_skip)
      from Cons(1) [OF r [symmetric] this True] es RxData Cons(3,4) True show ?thesis
        by (subst recvmsg_loop.simps, subst recv_loop.simps) (simp add: sock_recv_def rx_set_def Let_def)
    next
      case False
      with es RxData Cons(3,4) show ?thesis
        by (subst recvmsg_loop.simps, subst recv_loop.simps) (simp add: sock_recv_def Let_def)
    qed
  qed
qed

lemma recvmsg_all:
  fixes w :: "'z world_scheme"
  assumes "plain y self"
  shows "\<exists>r bs w'. hev_task_io_socket_recvmsg y fd iov self w = Some (r, bs, self, w') \<and>
     recv_spec (s_timeout self) fd (sum_list iov) [] w r bs w'"
proof (cases "sum_list iov = 0")
  case True
  show ?thesis unfolding hev_task_io_socket_recvmsg_def True
    by (subst recvmsg_loop.simps) (simp add: sock_recv_def recv_spec_def True del: sum_list_eq_0_iff)
next
  case False
  then have "hev_task_io_socket_recvmsg y fd iov self w = hev_task_io_socket_recv y fd (sum_list iov) True False self w"
    unfolding hev_task_io_socket_recvmsg_def hev_task_io_socket_recv_def 
    by (intro recvmsg_loop_recv assms) (simp_all del: sum_list_eq_0_iff)
  then show ?thesis using recv_all [OF assms, of fd "sum_list iov" w] by simp
qed


section \<open>Frames\<close>

text \<open>A datagram: the address it goes to or comes from, and its data.\<close>

type_synonym datagram = "socks_addr \<times> u8 list"

fun frame :: "datagram \<Rightarrow> u8 list" where
  "frame (a, d) =
     [hi8 (of_nat (length d)), lo8 (of_nat (length d)), of_nat (3 + length (wire_addr a))] @ wire_addr a @ d"

text \<open>The lengths fit their fields; a name may have 248 characters.\<close>

definition frame_ok :: "datagram \<Rightarrow> bool" where
  "frame_ok f \<longleftrightarrow> addr_ok (fst f) \<and> 3 + length (wire_addr (fst f)) < 256 \<and> length (snd f) < 65536"

definition msg_holds :: "udp_msg \<Rightarrow> datagram \<Rightarrow> bool" where
  "msg_holds m f \<longleftrightarrow> (\<exists>r. m_addr m = At (wire_addr (fst f) @ r)) \<and> m_len m = length (snd f) \<and>
     take (m_len m) (m_buf m) = snd f"

text \<open>An empty slot with room for the datagram.\<close>

definition slot_for :: "udp_msg \<Rightarrow> datagram \<Rightarrow> bool" where
  "slot_for m f \<longleftrightarrow> length (m_buf m) = m_len m \<and> m_len m < usize_max \<and>
     3 + length (wire_addr (fst f)) + length (snd f) \<le> m_len m"

lemma wire_addr_ge_2: "\<exists>x y r. wire_addr a = x # y # r"
proof -
  obtain x r where "wire_addr a = x # r" "r \<noteq> []" by (cases a) auto
  then show ?thesis by (auto simp: neq_Nil_conv)
qed

lemma wire_addr_pos: "addr_ok a \<Longrightarrow> hev_socks5_addr_len (wire_addr a @ r) = Some n \<Longrightarrow> 0 < n"
  using wire_addr_ge_2 [of a] by (auto simp: addr_len_wire)

lemma msg_addrlen_holds:
  assumes "msg_holds m f" and "addr_ok (fst f)"
  shows "\<exists>r. msg_addrlen m = Some (Some (wire_addr (fst f) @ r, length (wire_addr (fst f))))"
proof -
  from assms(1) obtain r where r: "m_addr m = At (wire_addr (fst f) @ r)" unfolding msg_holds_def by blast
  obtain x y q where "wire_addr (fst f) = x # y # q" using wire_addr_ge_2 by blast
  then show ?thesis using r addr_len_wire [OF assms(2), of r] by (simp add: msg_addrlen_def)
qed

lemma msg_data: "msg_holds m f \<Longrightarrow> memget (m_buf m) 0 (m_len m) = Some (snd f)"
  by (auto simp: msg_holds_def memget_def dest: arg_cong [where f = length])

lemma tcp_iov_frames:
  assumes "list_all2 msg_holds ms fs" and "\<forall>f\<in>set fs. addr_ok (fst f)"
  shows "\<exists>iov. tcp_iov ms = Some (Some iov) \<and> concat iov = concat (map frame fs)"
  using assms
proof (induction ms fs rule: list_all2_induct)
  case (Cons m ms f fs)
  have "\<exists>iov. tcp_iov ms = Some (Some iov) \<and> concat iov = concat (map frame fs)"
    by (rule Cons.IH) (use Cons.prems in simp)
  then obtain iov where iov: "tcp_iov ms = Some (Some iov)" "concat iov = concat (map frame fs)" by blast
  from msg_addrlen_holds [OF Cons(1)] Cons.prems obtain r where
    r: "msg_addrlen m = Some (Some (wire_addr (fst f) @ r, length (wire_addr (fst f))))" by auto
  have "m_len m = length (snd f)" using Cons(1) by (simp add: msg_holds_def)
  then show ?case using iov r msg_data [OF Cons(1)]
    by (cases f) (simp add: memget_def store16_htons)
qed simp

section \<open>Receiving frames\<close>

lemma avail_all_data: "all_data es \<Longrightarrow> avail t es = [] \<longleftrightarrow> es = []"
  by (induction t es rule: avail.induct) auto

lemma head_full:
  fixes w :: "'z world_scheme"
  assumes "s_type self \<noteq> TYPE_UDP_IN_UDP" and "nonblock \<longrightarrow> all_data (rx_of w fd)"
    and "5 \<le> length (avail (s_timeout self) (rx_of w fd))"
  shows "\<exists>w'. recv_udp_head fd nonblock self w = Some (5, take 5 (avail (s_timeout self) (rx_of w fd)), self, w') \<and>
     only_sock fd w w' \<and> tx_of w' fd = tx_of w fd \<and> out_of w' fd = out_of w fd \<and>
     (all_data (rx_of w fd) \<longrightarrow> all_data (rx_of w' fd)) \<and>
     avail (s_timeout self) (rx_of w' fd) = drop 5 (avail (s_timeout self) (rx_of w fd))"
proof -
  let ?t = "s_timeout self"
  from recv_some [OF _ plain_udp [OF assms(1)] assms(2), of 5] obtain r bs w1 where
    r1: "hev_task_io_socket_recv udp_task_io_yielder fd 5 False nonblock self w = Some (r, bs, self, w1)"
    and s1: "some_spec ?t fd 5 w r bs w1" by auto
  have "avail ?t (rx_of w fd) \<noteq> []" using assms(3) by auto
  with s1 have a1: "bs \<noteq> []" "length bs \<le> 5" "r = int (length bs)" "avail ?t (rx_of w fd) = bs @ avail ?t (rx_of w1 fd)"
    by (simp_all add: some_spec_def)
  show ?thesis
  proof (cases "length bs = 5")
    case True
    then show ?thesis using r1 s1 a1 by (simp add: recv_udp_head_def some_spec_def)
  next
    case False
    then have "0 < length bs" "length bs < 5" using a1(1,2) by auto
    then have short: "0 < r" "r < 5" "nat (5 - r) = 5 - length bs" unfolding a1(3) by arith+
    from recv_all [OF plain_udp [OF assms(1)], of fd "5 - length bs" w1] obtain r2 bs2 w2 where
      r2: "hev_task_io_socket_recv udp_task_io_yielder fd (5 - length bs) True False self w1 = Some (r2, bs2, self, w2)"
      and s2: "recv_spec ?t fd (5 - length bs) [] w1 r2 bs2 w2" by blast
    have len: "5 - length bs \<le> length (avail ?t (rx_of w1 fd))" using assms(3) a1 by simp
    have b2: "bs2 = take (5 - length bs) (avail ?t (rx_of w1 fd))" using s2 by (simp add: recv_spec_def)
    then have l2: "length bs2 = 5 - length bs" using len by simp
    then have r2': "r2 = int (5 - length bs)" using s2 short a1(3) by (auto simp: recv_spec_def split: if_split_asm)
    have "r + r2 = 5" using r2' a1(2,3) by simp
    moreover have "bs @ bs2 = take 5 (avail ?t (rx_of w fd))" using b2 a1(2,4) by simp
    moreover have "drop 5 (avail ?t (rx_of w fd)) = drop (5 - length bs) (avail ?t (rx_of w1 fd))"
      using a1(2,4) by simp
    ultimately show ?thesis using r1 r2 short s1 s2 len only_sock_trans [of fd w w1 w2]
      by (simp add: recv_udp_head_def some_spec_def recv_spec_def)
  qed
qed

lemma head_none:
  fixes w :: "'z world_scheme"
  assumes "s_type self \<noteq> TYPE_UDP_IN_UDP" and "nonblock \<longrightarrow> all_data (rx_of w fd)"
    and "avail (s_timeout self) (rx_of w fd) = []"
  shows "\<exists>r w'. recv_udp_head fd nonblock self w = Some (r, [], self, w') \<and> r \<le> 0 \<and> only_sock fd w w'"
proof -
  from recv_some [OF _ plain_udp [OF assms(1)] assms(2), of 5] obtain r bs w1 where
    r1: "hev_task_io_socket_recv udp_task_io_yielder fd 5 False nonblock self w = Some (r, bs, self, w1)"
    and s1: "some_spec (s_timeout self) fd 5 w r bs w1" by auto
  then have "bs = []" "r \<le> 0" "only_sock fd w w1" using assms(3) by (simp_all add: some_spec_def)
  then show ?thesis using r1 by (simp add: recv_udp_head_def)
qed

text \<open>A stream that ends inside the first five bytes: the result is the number of bytes that came.\<close>

lemma head_cut:
  fixes w :: "'z world_scheme"
  assumes "s_type self \<noteq> TYPE_UDP_IN_UDP" and "all_data (rx_of w fd)"
    and "0 < length (avail (s_timeout self) (rx_of w fd))" "length (avail (s_timeout self) (rx_of w fd)) < 5"
  shows "\<exists>bs w'. recv_udp_head fd nonblock self w =
     Some (int (length (avail (s_timeout self) (rx_of w fd))), bs, self, w') \<and> only_sock fd w w'"
proof -
  let ?t = "s_timeout self"
  from recv_some [OF _ plain_udp [OF assms(1)], of 5 nonblock w fd] assms(2) obtain r bs w1 where
    r1: "hev_task_io_socket_recv udp_task_io_yielder fd 5 False nonblock self w = Some (r, bs, self, w1)"
    and s1: "some_spec ?t fd 5 w r bs w1" by auto
  have "avail ?t (rx_of w fd) \<noteq> []" using assms(3) by auto
  with s1 have a1: "bs \<noteq> []" "length bs \<le> 5" "r = int (length bs)" "avail ?t (rx_of w fd) = bs @ avail ?t (rx_of w1 fd)"
    and d1: "all_data (rx_of w1 fd)" using assms(2) by (simp_all add: some_spec_def)
  have "length bs < 5" using a1(4) assms(4) by simp
  moreover have "0 < length bs" using a1(1) by simp
  ultimately have short: "0 < r" "r < 5" "nat (5 - r) = 5 - length bs" unfolding a1(3) by arith+
  from recv_all [OF plain_udp [OF assms(1)], of fd "5 - length bs" w1] obtain r2 bs2 w2 where
    r2: "hev_task_io_socket_recv udp_task_io_yielder fd (5 - length bs) True False self w1 = Some (r2, bs2, self, w2)"
    and s2: "recv_spec ?t fd (5 - length bs) [] w1 r2 bs2 w2" by blast
  have b2: "bs2 = avail ?t (rx_of w1 fd)" using s2 a1(4) assms(4) by (simp add: recv_spec_def)
  have "r2 = int (length bs2)"
  proof (cases "bs2 = []")
    case True
    then have "rx_of w1 fd = []" using avail_all_data [OF d1, of ?t] b2 by simp
    then have "hev_task_io_socket_recv udp_task_io_yielder fd (5 - length bs) True False self w1 = Some (0, [], self, w1)"
      unfolding hev_task_io_socket_recv_def by (subst recv_loop.simps) (simp add: sock_recv_def Let_def)
    then show ?thesis using r2 by simp
  next
    case False
    then show ?thesis using s2 by (simp add: recv_spec_def)
  qed
  then show ?thesis using r1 r2 short b2 a1(3,4) s1 s2 only_sock_trans [of fd w w1 w2]
    by (simp add: recv_udp_head_def some_spec_def recv_spec_def)
qed


text \<open>What the loop does with one whole frame.\<close>

lemma recvmmsg_frame:
  fixes w :: "'z world_scheme"
  assumes "s_type self \<noteq> TYPE_UDP_IN_UDP" and "nonblock \<longrightarrow> all_data (rx_of w fd)"
    and "avail (s_timeout self) (rx_of w fd) = frame f @ rest" and "frame_ok f" and "slot_for m f"
  shows "\<exists>m' w'. recvmmsg_tcp_loop fd nonblock (m # ms) got self w = recvmmsg_tcp_loop fd nonblock ms (got @ [m']) self w' \<and>
     msg_holds m' f \<and> only_sock fd w w' \<and> (all_data (rx_of w fd) \<longrightarrow> all_data (rx_of w' fd)) \<and>
     avail (s_timeout self) (rx_of w' fd) = rest"
proof -
  obtain a d where f: "f = (a, d)" by (cases f)
  obtain x y q where wire: "wire_addr a = x # y # q" using wire_addr_ge_2 by blast
  let ?t = "s_timeout self" and ?n = "length (wire_addr a)" and ?l = "of_nat (length d) :: u16"
  let ?hd = "[hi8 ?l, lo8 ?l, of_nat (3 + ?n), x, y]"
  have sizes: "3 + ?n < 256" "length d < 65536" using assms(4) f by (simp_all add: frame_ok_def)
  have slot: "length (m_buf m) = m_len m" "m_len m < usize_max" "3 + ?n + length d \<le> m_len m"
    using assms(5) f by (simp_all add: slot_for_def)
  have h3: "unat (of_nat (3 + ?n) :: u8) = 3 + ?n" using sizes(1) by (simp only: unat_of_nat) simp
  have hd: "take 5 (frame f @ rest) = ?hd" "drop 5 (frame f @ rest) = q @ d @ rest"
    using f wire by (simp_all add: eval_nat_numeral)
  have "5 \<le> length (avail ?t (rx_of w fd))" using f wire assms(3) by simp
  from head_full [OF assms(1,2) this] obtain w1 where
    h: "recv_udp_head fd nonblock self w = Some (5, ?hd, self, w1)" "only_sock fd w w1"
      "all_data (rx_of w fd) \<longrightarrow> all_data (rx_of w1 fd)" "avail ?t (rx_of w1 fd) = q @ d @ rest"
    unfolding assms(3) hd by blast
  from recvmsg_all [OF plain_udp [OF assms(1)], of fd "[?n - 2, length d]" w1] obtain r bs w2 where
    g: "hev_task_io_socket_recvmsg udp_task_io_yielder fd [?n - 2, length d] self w1 = Some (r, bs, self, w2)"
      "recv_spec ?t fd (?n - 2 + length d) [] w1 r bs w2" by auto
  have nq: "?n - 2 = length q" using wire by simp
  have bs: "bs = q @ d" "avail ?t (rx_of w2 fd) = rest" "r = int (?n - 2 + length d)"
    using g(2) h(4) nq by (auto simp: recv_spec_def split: if_split_asm)
  have "\<not> (of_nat (3 + ?n) :: u8) < 5" using h3 wire by (simp add: word_less_nat_alt)
  moreover have "unat ?l = length d" using sizes(2) by (simp add: unat_of_nat)
  moreover have "\<not> usub (m_len m) ?n < length d" using slot by (simp add: usub_small)
  moreover have "memput (m_buf m) 2 (q @ d) = Some (take 2 (m_buf m) @ q @ d @ drop (2 + length (q @ d)) (m_buf m))"
    using slot wire by (simp add: memput_def)
  moreover have "memput (take 2 (m_buf m) @ q @ d @ drop (2 + length (q @ d)) (m_buf m)) 0 [x, y] =
      Some (wire_addr a @ d @ drop (2 + length (q @ d)) (m_buf m))"
    using slot wire by (simp add: memput_def)
  ultimately have run: "recvmmsg_tcp_loop fd nonblock (m # ms) got self w = recvmmsg_tcp_loop fd nonblock ms
      (got @ [\<lparr>m_addr = At (wire_addr a @ d @ drop (2 + length (q @ d)) (m_buf m)),
         m_buf = drop ?n (wire_addr a @ d @ drop (2 + length (q @ d)) (m_buf m)), m_len = length d,
         m_mem = wire_addr a @ d @ drop (2 + length (q @ d)) (m_buf m)\<rparr>]) self w2"
    using h(1) g(1) h3 bs by (simp add: Let_def)
  show ?thesis unfolding run
    using h(2,3) g(2) bs only_sock_trans [of fd w w1 w2] f
    by (intro exI conjI) (rule refl, auto simp: msg_holds_def recv_spec_def)
qed

lemma recvmmsg_frames:
  fixes w :: "'z world_scheme"
  assumes "s_type self \<noteq> TYPE_UDP_IN_UDP"
    and "nonblock \<longrightarrow> all_data (rx_of w fd)" and "avail (s_timeout self) (rx_of w fd) = concat (map frame fs) @ rest"
    and "\<forall>f\<in>set fs. frame_ok f" and "list_all2 slot_for ms fs"
  shows "\<exists>got' w'. recvmmsg_tcp_loop fd nonblock (ms @ ms') got self w = recvmmsg_tcp_loop fd nonblock ms' (got @ got') self w' \<and>
     list_all2 msg_holds got' fs \<and> only_sock fd w w' \<and> (all_data (rx_of w fd) \<longrightarrow> all_data (rx_of w' fd)) \<and>
     avail (s_timeout self) (rx_of w' fd) = rest"
  using assms(5,2,3,4)
proof (induction ms fs arbitrary: got w rule: list_all2_induct)
  case Nil
  then show ?case by (intro exI [of _ "[]"] exI [of _ w]) simp
next
  case (Cons m ms f fs)
  have a: "avail (s_timeout self) (rx_of w fd) = frame f @ (concat (map frame fs) @ rest)" using Cons.prems(2) by simp
  have ok: "frame_ok f" "\<forall>f\<in>set fs. frame_ok f" using Cons.prems(3) by simp_all
  from recvmmsg_frame [OF assms(1) Cons.prems(1) a ok(1) Cons(1), of "ms @ ms'" got] obtain m1 w1 where
    s: "recvmmsg_tcp_loop fd nonblock (m # ms @ ms') got self w = recvmmsg_tcp_loop fd nonblock (ms @ ms') (got @ [m1]) self w1"
      "msg_holds m1 f" "only_sock fd w w1" "all_data (rx_of w fd) \<longrightarrow> all_data (rx_of w1 fd)"
      "avail (s_timeout self) (rx_of w1 fd) = concat (map frame fs) @ rest" by blast
  have "nonblock \<longrightarrow> all_data (rx_of w1 fd)" using s(4) Cons.prems(1) by blast
  from Cons.IH [OF this s(5) ok(2), of "got @ [m1]"] obtain got' w' where
    t: "recvmmsg_tcp_loop fd nonblock (ms @ ms') (got @ [m1]) self w1 = recvmmsg_tcp_loop fd nonblock ms' ((got @ [m1]) @ got') self w'"
      "list_all2 msg_holds got' fs" "only_sock fd w1 w'" "all_data (rx_of w1 fd) \<longrightarrow> all_data (rx_of w' fd)"
      "avail (s_timeout self) (rx_of w' fd) = rest" by blast
  show ?case
    using s t only_sock_trans [OF s(3) t(3)] by (intro exI [of _ "m1 # got'"] exI [of _ w']) simp
qed


section \<open>The stream\<close>

text \<open>
  Sending frames puts a prefix of them on the stream; when the prefix is not empty it counts as all, which
  is right when the peer keeps taking bytes.
\<close>

lemma sendmmsg_stream:
  fixes w :: "'z world_scheme"
  assumes "s_type self = TYPE_UDP_IN_TCP" and "list_all2 msg_holds ms fs" and "fs \<noteq> []" and "\<forall>f\<in>set fs. addr_ok (fst f)"
  shows "\<exists>r k w'. hev_socks5_udp_sendmmsg iface ms self w = Some (r, self, w') \<and>
     only_sock (iface_get_fd iface self) w w' \<and> rx_of w' (iface_get_fd iface self) = rx_of w (iface_get_fd iface self) \<and>
     out_of w' (iface_get_fd iface self) = out_of w (iface_get_fd iface self) @ take k (concat (map frame fs)) \<and>
     r = (if k = 0 then - 1 else int (length ms)) \<and>
     (tx_flows (s_timeout self) (tx_of w (iface_get_fd iface self)) \<longrightarrow> 0 < k \<and> length (concat (map frame fs)) \<le> k \<and>
        tx_flows (s_timeout self) (tx_of w' (iface_get_fd iface self)))"
proof -
  let ?fd = "iface_get_fd iface self"
  from tcp_iov_frames [OF assms(2,4)] obtain iov where
    iov: "tcp_iov ms = Some (Some iov)" "concat iov = concat (map frame fs)" by blast
  have ne: "concat iov \<noteq> []" unfolding iov(2) using assms(3) by (cases fs) (auto split: prod.split)
  have "s_type self \<noteq> TYPE_UDP_IN_UDP" using assms(1) by simp
  note pl = plain_udp [OF this]
  from send_all [OF ne pl, of ?fd w] obtain r w' where
    s: "hev_task_io_socket_send udp_task_io_yielder ?fd (concat iov) self w = Some (r, self, w')"
      "send_spec (s_timeout self) ?fd (concat iov) 0 w r w'" by blast
  from s(2) obtain k where k: "only_sock ?fd w w'" "rx_of w' ?fd = rx_of w ?fd" "out_of w' ?fd = out_of w ?fd @ take k (concat iov)"
    "if k = 0 then r \<le> 0 else r = int k"
    "tx_flows (s_timeout self) (tx_of w ?fd) \<longrightarrow> k = length (concat iov) \<and> tx_flows (s_timeout self) (tx_of w' ?fd)"
    unfolding send_spec_def by auto
  have "hev_socks5_udp_sendmmsg iface ms self w = Some (if k = 0 then - 1 else int (length ms), self, w')"
    using s(1) k(4) ne iov assms(1)
    by (simp add: hev_socks5_udp_sendmmsg_def hev_socks5_udp_sendmmsg_tcp_def hev_socks5_udp_get_fd_def sendmsg_send [OF ne pl])
  then show ?thesis using k(1-3,5) ne unfolding iov(2) by (intro exI [of _ k] exI [of _ w'] exI) auto
qed

lemma sendmmsg_frames:
  fixes w :: "'z world_scheme"
  assumes "s_type self = TYPE_UDP_IN_TCP" and "list_all2 msg_holds ms fs" and "fs \<noteq> []"
    and "\<forall>f\<in>set fs. addr_ok (fst f)" and "tx_flows (s_timeout self) (tx_of w (iface_get_fd iface self))"
  shows "\<exists>w'. hev_socks5_udp_sendmmsg iface ms self w = Some (int (length ms), self, w') \<and>
     only_sock (iface_get_fd iface self) w w' \<and>
     out_of w' (iface_get_fd iface self) = out_of w (iface_get_fd iface self) @ concat (map frame fs) \<and>
     rx_of w' (iface_get_fd iface self) = rx_of w (iface_get_fd iface self)"
  using sendmmsg_stream [OF assms(1-4), of iface w] assms(5) by auto

text \<open>
  C10: Datagrams framed on a stream arrive as they were sent: the sender puts one frame per message on
  the stream, and a receiver that gets these bytes in time, in whatever pieces, reads as many messages
  with the same addresses and data, in either mode, and leaves what follows on the stream.
\<close>

theorem udp_frames_roundtrip:
  assumes "s_type self = TYPE_UDP_IN_TCP" and "s_type peer = TYPE_UDP_IN_TCP"
    and "list_all2 msg_holds ms fs" and "fs \<noteq> []" and "\<forall>f\<in>set fs. frame_ok f"
    and "tx_flows (s_timeout self) (tx_of w (iface_get_fd iface self))" and "list_all2 slot_for slots fs"
    and "avail (s_timeout peer) (rx_of v (iface_get_fd iface' peer)) = concat (map frame fs) @ rest"
    and "nonblock \<longrightarrow> all_data (rx_of v (iface_get_fd iface' peer))"
  shows "\<exists>w1 got v'. hev_socks5_udp_sendmmsg iface ms self w = Some (int (length ms), self, w1) \<and>
     out_of w1 (iface_get_fd iface self) = out_of w (iface_get_fd iface self) @ concat (map frame fs) \<and>
     hev_socks5_udp_recvmmsg iface' slots nonblock peer v = Some (int (length ms), got, peer, v') \<and>
     list_all2 msg_holds got fs \<and> avail (s_timeout peer) (rx_of v' (iface_get_fd iface' peer)) = rest"
proof -
  have ok: "\<forall>f\<in>set fs. addr_ok (fst f)" using assms(5) by (simp add: frame_ok_def)
  from sendmmsg_frames [OF assms(1,3,4) ok assms(6)] obtain w1 where
    s: "hev_socks5_udp_sendmmsg iface ms self w = Some (int (length ms), self, w1)"
      "out_of w1 (iface_get_fd iface self) = out_of w (iface_get_fd iface self) @ concat (map frame fs)" by blast
  have ty: "s_type peer \<noteq> TYPE_UDP_IN_UDP" using assms(2) by simp
  from recvmmsg_frames [OF ty assms(9,8,5,7), of "[]" "[]"] obtain got v' where
    r: "recvmmsg_tcp_loop (iface_get_fd iface' peer) nonblock slots [] peer v = Some (int (length got), got, peer, v')"
      "list_all2 msg_holds got fs" "avail (s_timeout peer) (rx_of v' (iface_get_fd iface' peer)) = rest" by auto
  have "length got = length ms" using r(2) assms(3) by (auto dest!: list_all2_lengthD)
  then have "hev_socks5_udp_recvmmsg iface' slots nonblock peer v = Some (int (length ms), got, peer, v')"
    using r(1) assms(2)
    by (simp add: hev_socks5_udp_recvmmsg_def hev_socks5_udp_recvmmsg_tcp_def hev_socks5_udp_get_fd_def)
  then show ?thesis using s r(2,3) by blast
qed

text \<open>
  A stream that ends inside the header of the first frame: the receiver reports the number of bytes
  it got as if it were a number of messages, and the relay then follows address pointers that were
  never set.
\<close>

theorem udp_cut_header_misread:
  assumes "s_type self = TYPE_UDP_IN_TCP" and "all_data (rx_of w (iface_get_fd iface self))"
    and "0 < length (avail (s_timeout self) (rx_of w (iface_get_fd iface self)))"
    and "length (avail (s_timeout self) (rx_of w (iface_get_fd iface self))) < 5" and "slots \<noteq> []"
  shows "(\<exists>w'. hev_socks5_udp_recvmmsg iface (m # ms) nonblock self w =
       Some (int (length (avail (s_timeout self) (rx_of w (iface_get_fd iface self)))), m # ms, self, w')) \<and>
     hev_socks5_udp_fwd_f iface fd slots bnd self w = None"
proof (rule conjI)
  let ?n = "length (avail (s_timeout self) (rx_of w (iface_get_fd iface self)))"
  have ty: "s_type self \<noteq> TYPE_UDP_IN_UDP" using assms(1) by simp
  have r: "\<exists>w'. hev_socks5_udp_recvmmsg iface (m # ms) nb self w = Some (int ?n, m # ms, self, w')" for nb m ms
  proof -
    from head_cut [OF ty assms(2-4), of nb] obtain bs w' where
      "recv_udp_head (iface_get_fd iface self) nb self w = Some (int ?n, bs, self, w')" by blast
    moreover have "int ?n \<noteq> 5" using assms(4) by simp
    ultimately show ?thesis using assms(1)
      by (simp add: hev_socks5_udp_recvmmsg_def hev_socks5_udp_recvmmsg_tcp_def hev_socks5_udp_get_fd_def)
  qed
  show "\<exists>w'. hev_socks5_udp_recvmmsg iface (m # ms) nonblock self w = Some (int ?n, m # ms, self, w')" by (rule r)
  obtain s ss where slots: "slots = s # ss" using assms(5) by (cases slots) auto
  obtain k where k: "?n = Suc k" using assms(3) by (cases ?n) auto
  from r [of "\<lparr>m_addr = Wild, m_buf = s, m_len = UDP_BUF_SIZE, m_mem = s\<rparr>"
      "map (\<lambda>b. \<lparr>m_addr = Wild, m_buf = b, m_len = UDP_BUF_SIZE, m_mem = b\<rparr>) ss" True]
  show "hev_socks5_udp_fwd_f iface fd slots bnd self w = None"
    unfolding slots hev_socks5_udp_fwd_f_def k by (auto simp: UDP_BUF_SIZE_def Let_def nat_add_distrib)
qed


text \<open>
  The header length of a frame is one byte. A datagram for a name of 249 to 253 characters is sent
  as if nothing were wrong, but its header length has wrapped around to less than five and every
  receiver refuses the frame.
\<close>

theorem udp_long_name_rejected:
  assumes "s_type self = TYPE_UDP_IN_TCP" and "s_type peer = TYPE_UDP_IN_TCP"
    and "msg_holds m (Domain s p, d)" and "addr_ok (Domain s p)" and "249 \<le> length s" "length s \<le> 253"
    and "tx_flows (s_timeout self) (tx_of w (iface_get_fd iface self))"
    and "avail (s_timeout peer) (rx_of v (iface_get_fd iface' peer)) = frame (Domain s p, d) @ rest"
    and "nonblock \<longrightarrow> all_data (rx_of v (iface_get_fd iface' peer))"
  shows "\<exists>w1 got v'. hev_socks5_udp_sendmmsg iface [m] self w = Some (1, self, w1) \<and>
     out_of w1 (iface_get_fd iface self) = out_of w (iface_get_fd iface self) @ frame (Domain s p, d) \<and>
     hev_socks5_udp_recvmmsg iface' (slot # slots) nonblock peer v = Some (- 1, got, peer, v')"
proof -
  let ?f = "(Domain s p, d)" and ?fd = "iface_get_fd iface' peer"
  from sendmmsg_frames [OF assms(1), of "[m]" "[?f]"] assms(3,4,7) obtain w1 where
    s: "hev_socks5_udp_sendmmsg iface [m] self w = Some (1, self, w1)"
      "out_of w1 (iface_get_fd iface self) = out_of w (iface_get_fd iface self) @ frame ?f" by auto
  have ty: "s_type peer \<noteq> TYPE_UDP_IN_UDP" using assms(2) by simp
  obtain x y q where wire: "wire_addr (Domain s p) = x # y # q" using wire_addr_ge_2 by blast
  have h: "(of_nat (3 + length (wire_addr (Domain s p))) :: u8) < 5"
    using assms(5,6) by (simp only: word_less_nat_alt unat_of_nat) (simp add: mod_if, arith)
  have "5 \<le> length (avail (s_timeout peer) (rx_of v ?fd))" using assms(8) wire by simp
  from head_full [OF ty assms(9) this] obtain v' where
    r: "recv_udp_head ?fd nonblock peer v = Some (5, take 5 (frame ?f @ rest), peer, v')" unfolding assms(8) by blast
  have "take 5 (frame ?f @ rest) ! 2 = of_nat (3 + length (wire_addr (Domain s p)))" by (simp add: eval_nat_numeral)
  then have "\<exists>got v'. hev_socks5_udp_recvmmsg iface' (slot # slots) nonblock peer v = Some (- 1, got, peer, v')"
    using r h assms(2)
    by (simp add: hev_socks5_udp_recvmmsg_def hev_socks5_udp_recvmmsg_tcp_def hev_socks5_udp_get_fd_def
        del: frame.simps wire_addr.simps)
  then show ?thesis using s by blast
qed

section \<open>Examples\<close>

definition udp_libc :: libc where
  "udp_libc = \<lparr>inet_pton6 = (\<lambda>_. None), inet_ntop = (\<lambda>_ _. []), getaddrinfo = (\<lambda>_ _. None)\<rparr>"

definition udp_world :: "rx list \<Rightarrow> tx list \<Rightarrow> dg list \<Rightarrow> world" where
  "udp_world rx tx dg = \<lparr>w_sock = (\<lambda>_. \<lparr>sk_rx = rx, sk_tx = tx, sk_out = [], sk_dg = dg, sk_sent = [], sk_shut = False\<rparr>), w_errno = 0, w_sys = [0],
     w_open = [3, 4], w_poll = [], w_alloc = [], w_live = 2, w_stack = (\<lambda>_. 0), w_libc = udp_libc, w_protect = None,
     w_set = misc_defaults\<rparr>"

definition carrier :: "socks5_type \<Rightarrow> socks5" where
  "carrier t = \<lparr>s_fd = 3, s_timeout = 1000, s_type = t, s_udp_associated = False, s_addr_family = AF_UNSPEC\<rparr>"

lemma carrier_simps [simp]: "s_fd (carrier t) = 3" "s_timeout (carrier t) = 1000" "s_type (carrier t) = t"
  "s_udp_associated (carrier t) = False" "s_addr_family (carrier t) = AF_UNSPEC"
  by (simp_all add: carrier_def)

definition plain_iface :: "(unit, unit) udp_iface" where
  "plain_iface = \<lparr>iface_get_fd = s_fd, iface_binder = hev_socks5_bind\<rparr>"

lemma plain_iface_simps [simp]: "iface_get_fd plain_iface self = s_fd self" "iface_binder plain_iface = hev_socks5_bind"
  by (simp_all add: plain_iface_def)

definition msg_of :: "datagram \<Rightarrow> udp_msg" where
  "msg_of f = \<lparr>m_addr = At (wire_addr (fst f)), m_buf = snd f, m_len = length (snd f), m_mem = snd f\<rparr>"

definition slot :: udp_msg where
  "slot = \<lparr>m_addr = Wild, m_buf = replicate UDP_BUF_SIZE 0, m_len = UDP_BUF_SIZE, m_mem = replicate UDP_BUF_SIZE 0\<rparr>"

lemma msg_of_holds: "msg_holds (msg_of f) f"
  by (auto simp: msg_holds_def msg_of_def intro: exI [of _ "[]"])

lemma slot_slot_for: "3 + length (wire_addr (fst f)) + length (snd f) \<le> 1500 \<Longrightarrow> slot_for slot f"
  by (simp add: slot_for_def slot_def UDP_BUF_SIZE_def usize_max_def)

text \<open>A frame that comes in four pieces and a pause.\<close>

definition slow_world :: world where
  "slow_world = udp_world [RxData [0, 2], RxAgain 5, RxData [10, 1, 1, 2, 3, 4, 0, 53, 7], RxData [8]] [] []"

lemma udp_frames_roundtrip_witness:
  "\<exists>got v'. hev_socks5_udp_recvmmsg plain_iface [slot] False (carrier TYPE_UDP_IN_TCP) slow_world =
       Some (1, got, carrier TYPE_UDP_IN_TCP, v') \<and> list_all2 msg_holds got [(Ipv4 [1, 2, 3, 4] 53, [7, 8])]"
proof -
  let ?f = "(Ipv4 [1, 2, 3, 4] 53, [7, 8])"
  have a: "avail (s_timeout (carrier TYPE_UDP_IN_TCP)) (rx_of slow_world (iface_get_fd plain_iface (carrier TYPE_UDP_IN_TCP))) =
      concat (map frame [?f]) @ []"
    by (simp add: slow_world_def udp_world_def waits_def hi8_def lo8_def drop_bit_eq_div)
  have h: "list_all2 msg_holds [msg_of ?f] [?f]" "\<forall>f\<in>set [?f]. frame_ok f" "list_all2 slot_for [slot] [?f]"
    "tx_flows (s_timeout (carrier TYPE_UDP_IN_TCP)) (tx_of (udp_world [] [] []) (iface_get_fd plain_iface (carrier TYPE_UDP_IN_TCP)))"
    by (simp_all add: msg_of_holds slot_slot_for frame_ok_def udp_world_def)
  from udp_frames_roundtrip [OF carrier_simps(3) carrier_simps(3) h(1) _ h(2,4,3) a, of False] show ?thesis by auto
qed

lemma udp_long_name_rejected_witness:
  "\<exists>got v'. hev_socks5_udp_recvmmsg plain_iface [slot] False (carrier TYPE_UDP_IN_TCP)
     (udp_world [RxData (frame (Domain (replicate 250 97) 53, [7]))] [] []) = Some (- 1, got, carrier TYPE_UDP_IN_TCP, v')"
proof -
  let ?f = "(Domain (replicate 250 97) 53, [7])"
  have a: "avail (s_timeout (carrier TYPE_UDP_IN_TCP)) (rx_of (udp_world [RxData (frame ?f)] [] [])
      (iface_get_fd plain_iface (carrier TYPE_UDP_IN_TCP))) = frame ?f @ []"
    by (simp add: udp_world_def)
  have tx: "tx_flows (s_timeout (carrier TYPE_UDP_IN_TCP)) (tx_of (udp_world [] [] []) (iface_get_fd plain_iface (carrier TYPE_UDP_IN_TCP)))"
    by (simp add: udp_world_def)
  have ok: "addr_ok (Domain (replicate 250 97) 53)" "249 \<le> length (replicate 250 (97 :: u8))" "length (replicate 250 (97 :: u8)) \<le> 253"
    by simp_all
  from udp_long_name_rejected [OF carrier_simps(3) carrier_simps(3) msg_of_holds ok tx a, of False slot "[]"]
  show ?thesis by blast
qed

lemma udp_cut_header_misread_witness:
  "\<exists>w'. hev_socks5_udp_recvmmsg plain_iface [slot] True (carrier TYPE_UDP_IN_TCP) (udp_world [RxData [0, 2]] [] []) =
     Some (2, [slot], carrier TYPE_UDP_IN_TCP, w')"
  using udp_cut_header_misread [of "carrier TYPE_UDP_IN_TCP" "udp_world [RxData [0, 2]] [] []" plain_iface "[[]]" slot "[]" True 4 True]
  by (simp add: udp_world_def)

end
