(* ===== verification/Udp_Relay.thy ===== *)
theory Udp_Relay
  imports Udp_Frames
begin

text \<open>
  Datagrams with a header, and what one round of the splicer does in each direction.
\<close>

section \<open>Datagram sockets that are ready\<close>

definition tx_ready :: "tx list \<Rightarrow> bool" where
  "tx_ready es \<longleftrightarrow> (\<forall>e\<in>set es. \<exists>n. e = TxOk n \<and> 0 < n)"

abbreviation dg_of :: "'z world_scheme \<Rightarrow> int \<Rightarrow> dg list" where
  "dg_of w fd \<equiv> sk_dg (w_sock w fd)"

abbreviation sent_of :: "'z world_scheme \<Rightarrow> int \<Rightarrow> (sockaddr6 option \<times> u8 list) list" where
  "sent_of w fd \<equiv> sk_sent (w_sock w fd)"

lemma sendmmsg_loop_ready:
  assumes "tx_ready (tx_of w fd)" and "c < length ms"
  shows "\<exists>w'. sendmmsg_loop y fd ms c self w = Some (int (length ms), self, w') \<and>
     only_sock fd w w' \<and> sent_of w' fd = sent_of w fd @ drop c ms \<and> rx_of w' fd = rx_of w fd \<and> dg_of w' fd = dg_of w fd"
  using assms
proof (induction "tx_of w fd" arbitrary: c w)
  case Nil
  note nil = Nil(1) [symmetric]
  have "c + nat (int (length ms) - int c) = length ms" using Nil(3) by simp
  then show ?case using Nil(3)
    by (subst sendmmsg_loop.simps) (simp add: sock_sendm_def nil Let_def)
next
  case (Cons e es)
  note es = Cons(2) [symmetric]
  obtain n where n: "e = TxOk n" "0 < n" using Cons(3) es by (auto simp: tx_ready_def)
  let ?w = "w\<lparr>w_sock := (w_sock w)(fd := (w_sock w fd)\<lparr>sk_tx := es, sk_sent := sent_of w fd @ take n (drop c ms)\<rparr>)\<rparr>"
  show ?case
  proof (cases "c + n < length ms")
    case True
    have r: "tx_of ?w fd = es" "tx_ready (tx_of ?w fd)" using Cons(3) es by (auto simp: tx_ready_def)
    from Cons(1) [OF r(1) [symmetric] r(2) True] obtain w' where
      ih: "sendmmsg_loop y fd ms (c + n) self ?w = Some (int (length ms), self, w')"
      "only_sock fd ?w w'" "sent_of w' fd = sent_of ?w fd @ drop (c + n) ms" "rx_of w' fd = rx_of ?w fd" "dg_of w' fd = dg_of ?w fd"
      by blast
    have "sendmmsg_loop y fd ms c self w = sendmmsg_loop y fd ms (c + n) self ?w"
      using es n True by (subst sendmmsg_loop.simps) (simp add: sock_sendm_def Let_def)
    moreover have "take n (drop c ms) @ drop (c + n) ms = drop c ms"
      by (metis add.commute append_take_drop_id drop_drop)
    moreover have "only_sock fd w w'" using only_sock_trans [OF only_sock_upd(1) ih(2)] .
    ultimately show ?thesis using ih by simp
  next
    case False
    then have "c + nat (int (length ms) - int c) = length ms" "int (c + min (length ms - c) n) = int (length ms)" "take n (drop c ms) = drop c ms" "0 < min (length ms - c) n"
      using Cons(4) n(2) by auto
    then show ?thesis using es n
      by (subst sendmmsg_loop.simps) (simp add: sock_sendm_def Let_def)
  qed
qed

lemma sendmmsg_ready:
  assumes "tx_ready (tx_of w fd)" and "ms \<noteq> []"
  shows "\<exists>w'. hev_task_io_socket_sendmmsg y fd ms self w = Some (int (length ms), self, w') \<and>
     only_sock fd w w' \<and> sent_of w' fd = sent_of w fd @ ms \<and> rx_of w' fd = rx_of w fd \<and> dg_of w' fd = dg_of w fd"
  using sendmmsg_loop_ready [OF assms(1), of 0 ms] assms(2) by (simp add: hev_task_io_socket_sendmmsg_def)


section \<open>Targets and sources\<close>

definition resolve :: "libc \<Rightarrow> int \<Rightarrow> socks_addr \<Rightarrow> sockaddr6 option" where
  "resolve lc family a =
     (case a of
        Ipv4 x p \<Rightarrow> Some \<lparr>sin6_family = AF_INET6, sin6_port = htons p, sin6_addr = v4_bytes x\<rparr>
      | Ipv6 x p \<Rightarrow> Some \<lparr>sin6_family = AF_INET6, sin6_port = htons p, sin6_addr = x\<rparr>
      | Domain x p \<Rightarrow> (case hev_socks5_name_into_sockaddr6 lc x p zero_sockaddr family of
            (r, sa, _) \<Rightarrow> if r < 0 then None else Some sa))"

definition source :: "sockaddr6 \<Rightarrow> socks_addr" where
  "source sa = (if v4mapped (sin6_addr sa) then Ipv4 (drop 12 (sin6_addr sa)) (ntohs (sin6_port sa))
     else Ipv6 (sin6_addr sa) (ntohs (sin6_port sa)))"

lemma into_sockaddr6_wire:
  assumes "addr_ok a" and "resolve lc family a = Some sa"
  shows "\<exists>r fam'. hev_socks5_addr_into_sockaddr6 lc (wire_addr a @ q) zero_sockaddr family = Some (r, sa, fam') \<and> 0 \<le> r"
proof (cases a)
  case (Domain x p)
  have "cstr (x @ [0]) = Some x" using assms(1) Domain by simp
  then show ?thesis using assms Domain
    by (auto simp: hev_socks5_addr_into_sockaddr6_def addr_atype_def byte_at_def memget_def htons_def resolve_def
        split: prod.splits if_split_asm)
qed (use assms in \<open>auto simp: hev_socks5_addr_into_sockaddr6_def hev_socks5_ipv4_into_sockaddr6_def
    hev_socks5_ipv6_into_sockaddr6_def addr_atype_def byte_at_def memget_def htons_def resolve_def v4_bytes_def zero_sockaddr_def\<close>)

lemma fwd_targets_holds:
  assumes "list_all2 msg_holds ms fs" and "\<forall>f\<in>set fs. addr_ok (fst f) \<and> snd f \<noteq> [] \<and> resolve lc family (fst f) \<noteq> None"
  shows "fwd_targets lc family (length fs) (ms @ ms') = Some (Some (map (\<lambda>f. (resolve lc family (fst f), snd f)) fs))"
  using assms
proof (induction ms fs rule: list_all2_induct)
  case (Cons m ms f fs)
  then obtain sa where sa: "resolve lc family (fst f) = Some sa" by auto
  obtain q where q: "m_addr m = At (wire_addr (fst f) @ q)" using Cons(1) unfolding msg_holds_def by blast
  have ok: "addr_ok (fst f)" "m_len m \<noteq> 0" using Cons(1) Cons.prems by (auto simp: msg_holds_def)
  from into_sockaddr6_wire [OF ok(1) sa, of q] obtain r fam' where
    i: "hev_socks5_addr_into_sockaddr6 lc (wire_addr (fst f) @ q) zero_sockaddr family = Some (r, sa, fam')" "0 \<le> r" by blast
  have ih: "fwd_targets lc family (length fs) (ms @ ms') = Some (Some (map (\<lambda>f. (resolve lc family (fst f), snd f)) fs))"
    by (rule Cons.IH) (use Cons.prems in simp)
  show ?case using ih i ok q sa msg_data [OF Cons(1)] by simp
qed simp

lemma from_sockaddr6_wire:
  assumes "length b = 19" and "length (sin6_addr sa) = 16"
  shows "\<exists>n q. hev_socks5_addr_from_sockaddr6 b sa = Some (n, wire_addr (source sa) @ q)"
proof (cases "v4mapped (sin6_addr sa)")
  case True
  then show ?thesis using assms
    by (auto simp: hev_socks5_addr_from_sockaddr6_def source_def memget_def memput_def store16_def htons_def take_Cons')
next
  case False
  then show ?thesis using assms
    by (auto simp: hev_socks5_addr_from_sockaddr6_def source_def memget_def memput_def store16_def htons_def take_Cons')
qed

lemma source_ok: "length (sin6_addr sa) = 16 \<Longrightarrow> addr_ok (source sa)"
  by (simp add: source_def)

text \<open>An address that came from a socket goes back to where it came from.\<close>

lemma resolve_source: "length (sin6_addr sa) = 16 \<Longrightarrow> resolve lc family (source sa) = Some (sa\<lparr>sin6_family := AF_INET6\<rparr>)"
proof -
  have "v4_bytes (drop 12 x) = x" if "v4mapped x" for x
    using that by (metis append_assoc append_take_drop_id v4_bytes_def v4mapped_def)
  then show ?thesis by (simp add: resolve_def source_def)
qed

section \<open>One round of the relay\<close>

text \<open>All frames that are there are read, also when there are more slots.\<close>

lemma recvmmsg_all_frames:
  fixes w :: "'z world_scheme"
  assumes "s_type self = TYPE_UDP_IN_TCP" and "all_data (rx_of w (iface_get_fd iface self))"
    and "avail (s_timeout self) (rx_of w (iface_get_fd iface self)) = concat (map frame fs)"
    and "\<forall>f\<in>set fs. frame_ok f" and "fs \<noteq> []" and "list_all2 slot_for ms fs"
  shows "\<exists>got w'. hev_socks5_udp_recvmmsg iface (ms @ ms') True self w = Some (int (length fs), got @ ms', self, w') \<and>
     list_all2 msg_holds got fs \<and> only_sock (iface_get_fd iface self) w w'"
proof -
  let ?fd = "iface_get_fd iface self"
  have ty: "s_type self \<noteq> TYPE_UDP_IN_UDP" using assms(1) by simp
  have a: "avail (s_timeout self) (rx_of w ?fd) = concat (map frame fs) @ []" using assms(3) by simp
  from recvmmsg_frames [OF ty _ a assms(4,6), of True ms' "[]"] assms(2) obtain got w1 where
    r: "recvmmsg_tcp_loop ?fd True (ms @ ms') [] self w = recvmmsg_tcp_loop ?fd True ms' got self w1"
      "list_all2 msg_holds got fs" "only_sock ?fd w w1" "all_data (rx_of w1 ?fd)" "avail (s_timeout self) (rx_of w1 ?fd) = []"
    by auto
  have len: "length got = length fs" and ne: "got \<noteq> []" using r(2) assms(5) by (auto dest: list_all2_lengthD)
  have run: "hev_socks5_udp_recvmmsg iface (ms @ ms') True self w = recvmmsg_tcp_loop ?fd True ms' got self w1"
    using assms(1) r(1) by (simp add: hev_socks5_udp_recvmmsg_def hev_socks5_udp_recvmmsg_tcp_def hev_socks5_udp_get_fd_def)
  show ?thesis
  proof (cases ms')
    case Nil
    then show ?thesis using run r(2,3) len by auto
  next
    case (Cons m ms1)
    from head_none [OF ty _ r(5), of True] r(4) obtain x w2 where
      h: "recv_udp_head ?fd True self w1 = Some (x, [], self, w2)" "x \<le> 0" "only_sock ?fd w1 w2" by auto
    then have "recvmmsg_tcp_loop ?fd True ms' got self w1 = Some (int (length fs), got @ ms', self, w2)"
      using Cons len ne by simp
    then show ?thesis using run r(2) only_sock_trans [OF r(3) h(3)] by auto
  qed
qed


text \<open>
  C32: The forward direction of the splicer: when frames are waiting on the stream, each as small as the
  buffers, one round reads all of them, resolves their targets and sends each datagram's data to its
  target, in order, and reports progress.
\<close>

theorem udp_relay_forward:
  assumes "s_type self = TYPE_UDP_IN_TCP" and "all_data (rx_of w (iface_get_fd iface self))"
    and "avail (s_timeout self) (rx_of w (iface_get_fd iface self)) = concat (map frame fs)" and "fs \<noteq> []"
    and "\<forall>f\<in>set fs. frame_ok f \<and> snd f \<noteq> [] \<and> 3 + length (wire_addr (fst f)) + length (snd f) \<le> UDP_BUF_SIZE \<and>
       resolve (w_libc w) (s_addr_family self) (fst f) \<noteq> None"
    and "length fs \<le> length slots" and "\<forall>b\<in>set slots. length b = UDP_BUF_SIZE"
    and "tx_ready (tx_of w fd)" and "fd \<noteq> iface_get_fd iface self" and "iface_binder iface = hev_socks5_bind"
  shows "\<exists>slots' w'. hev_socks5_udp_fwd_f iface fd slots bnd self w = Some (1, slots', True, self, w') \<and>
     sent_of w' fd = sent_of w fd @ map (\<lambda>f. (resolve (w_libc w) (s_addr_family self) (fst f), snd f)) fs"
proof -
  let ?fd = "iface_get_fd iface self"
  let ?mk = "\<lambda>b. \<lparr>m_addr = Wild, m_buf = b, m_len = UDP_BUF_SIZE, m_mem = b\<rparr>"
  let ?ds = "map (\<lambda>f. (resolve (w_libc w) (s_addr_family self) (fst f), snd f)) fs"
  have ok: "\<forall>f\<in>set fs. frame_ok f" using assms(5) by blast
  have "list_all2 slot_for (map ?mk (take (length fs) slots)) fs"
    unfolding list_all2_conv_all_nth
  proof (intro conjI allI impI)
    show l: "length (map ?mk (take (length fs) slots)) = length fs" using assms(6) by simp
    fix i assume "i < length (map ?mk (take (length fs) slots))"
    then have i: "i < length fs" "i < length slots" using assms(6) by auto
    then show "slot_for (map ?mk (take (length fs) slots) ! i) (fs ! i)"
      using assms(5,7) by (simp add: slot_for_def usize_max_def) (simp add: UDP_BUF_SIZE_def)
  qed
  from recvmmsg_all_frames [OF assms(1-3) ok assms(4) this, of "map ?mk (drop (length fs) slots)"] obtain got w1 where
    r: "hev_socks5_udp_recvmmsg iface (map ?mk slots) True self w =
        Some (int (length fs), got @ map ?mk (drop (length fs) slots), self, w1)"
      "list_all2 msg_holds got fs" "only_sock ?fd w w1"
    by (auto simp flip: map_append)
  note same = only_sock_fields [OF r(3)]
  have "\<forall>f\<in>set fs. addr_ok (fst f) \<and> snd f \<noteq> [] \<and> resolve (w_libc w) (s_addr_family self) (fst f) \<noteq> None"
    using assms(5) by (simp add: frame_ok_def)
  note targets = fwd_targets_holds [OF r(2) this, of "map ?mk (drop (length fs) slots)"]
  have tx: "tx_ready (tx_of w1 fd)" and se: "sent_of w1 fd = sent_of w fd" using assms(8,9) same(11) by simp_all
  have "?ds \<noteq> []" using assms(4) by simp
  from sendmmsg_ready [OF tx this, of udp_task_io_yielder self] obtain w2 where
    s: "hev_task_io_socket_sendmmsg udp_task_io_yielder fd ?ds self w1 = Some (int (length fs), self, w2)"
      "sent_of w2 fd = sent_of w fd @ ?ds" using se by auto
  obtain f fr where fs: "fs = f # fr" using assms(4) by (cases fs) auto
  obtain sa where sa: "resolve (w_libc w) (s_addr_family self) (fst f) = Some sa" using assms(5) fs by auto
  have ds: "?ds = (Some sa, snd f) # map (\<lambda>f. (resolve (w_libc w) (s_addr_family self) (fst f), snd f)) fr" using fs sa by simp
  have pos: "0 < int (length fs)" "fwd_result (int (length fs)) w2 = 1" using assms(4) by (simp_all add: fwd_result_def)
  have "hev_socks5_udp_fwd_f iface fd slots bnd self w =
      Some (1, map m_mem (got @ map ?mk (drop (length fs) slots)), True, self, w2)"
    unfolding hev_socks5_udp_fwd_f_def r(1) using targets s(1) pos same(7) assms(10)
    by (simp add: hev_socks5_get_addr_family_def Let_def hev_socks5_bind_def ds del: map_append map_map)
  then show ?thesis using s(2) by blast
qed

text \<open>
  C33: The backward direction: the datagrams that wait on the socket, at most one per buffer and none
  longer than a buffer, are framed with their sources and put on the stream in one round.
\<close>

theorem udp_relay_backward:
  assumes "s_type self = TYPE_UDP_IN_TCP" and "dg_of w fd = DgBatch ds # es" and "ds \<noteq> []" and "length ds \<le> num"
    and "\<forall>(sa, bs)\<in>set ds. length (sin6_addr sa) = 16 \<and> length bs \<le> UDP_BUF_SIZE"
    and "tx_flows (s_timeout self) (tx_of w (iface_get_fd iface self))"
  shows "\<exists>w'. hev_socks5_udp_fwd_b iface fd num self w = Some (1, self, w') \<and>
     out_of w' (iface_get_fd iface self) = out_of w (iface_get_fd iface self) @ concat (map (\<lambda>(sa, bs). frame (source sa, bs)) ds)"
proof -
  let ?fd = "iface_get_fd iface self"
  let ?w = "w\<lparr>w_sock := (w_sock w)(fd := (w_sock w fd)\<lparr>sk_dg := es\<rparr>)\<rparr>"
  let ?fs = "map (\<lambda>(sa, bs). (source sa, bs)) ds"
  have cut: "map2 (\<lambda>cap (src, bs). (src, take cap bs)) (replicate num UDP_BUF_SIZE) ds = ds"
    using assms(4,5)
  proof (induction ds arbitrary: num)
    case (Cons d ds)
    then obtain n where "num = Suc n" by (cases num) auto
    with Cons show ?case by (auto split: prod.splits)
  qed simp
  have "sock_recvm fd (replicate num UDP_BUF_SIZE) w = (int (length ds), ds, 0, ?w)"
    using assms(2,4) cut by (simp add: sock_recvm_def Let_def)
  then have r: "hev_task_io_socket_recvmmsg udp_task_io_yielder fd (replicate num UDP_BUF_SIZE) True self w =
      Some (int (length ds), ds, self, ?w)"
    by (subst hev_task_io_socket_recvmmsg.simps) simp
  have "\<exists>ms. fwd_sources (w_stack ?w) ds = Some ms \<and> list_all2 msg_holds ms ?fs"
    unfolding fwd_sources_def using assms(5)
  proof (induction ds)
    case (Cons d ds)
    obtain sa bs where d: "d = (sa, bs)" by (cases d)
    have "length (map (w_stack ?w) [0..<19]) = 19" "length (sin6_addr sa) = 16" using Cons.prems d by auto
    from from_sockaddr6_wire [OF this] obtain n q where
      "hev_socks5_addr_from_sockaddr6 (map (w_stack ?w) [0..<19]) sa = Some (n, wire_addr (source sa) @ q)" by blast
    with Cons d show ?case by (auto simp: msg_holds_def)
  qed simp
  then obtain ms where ms: "fwd_sources (w_stack ?w) ds = Some ms" "list_all2 msg_holds ms ?fs" by blast
  have ok: "?fs \<noteq> []" "\<forall>f\<in>set ?fs. addr_ok (fst f)" using assms(3,5) by (auto simp: source_ok)
  have tx: "tx_flows (s_timeout self) (tx_of ?w ?fd)" "out_of ?w ?fd = out_of w ?fd" using assms(6) by auto
  from sendmmsg_frames [OF assms(1) ms(2) ok tx(1)] obtain w2 where
    s: "hev_socks5_udp_sendmmsg iface ms self ?w = Some (int (length ms), self, w2)"
      "out_of w2 ?fd = out_of w ?fd @ concat (map frame ?fs)" using tx(2) by auto
  have len: "0 < int (length ds)" "0 < int (length ms)" using ms(2) assms(3) by (auto dest: list_all2_lengthD)
  have eq: "map frame ?fs = map (\<lambda>(sa, bs). frame (source sa, bs)) ds" by (auto split: prod.split)
  have "hev_socks5_udp_fwd_b iface fd num self w = Some (1, self, w2)"
    using s(1) ms(1) len unfolding hev_socks5_udp_fwd_b_def r by (simp add: fwd_result_def)
  then show ?thesis using s(2) unfolding eq by blast
qed


section \<open>Datagrams\<close>

definition payload :: "datagram \<Rightarrow> u8 list" where
  "payload f = [0, 0, 0] @ wire_addr (fst f) @ snd f"

lemma udp_iov_holds:
  assumes "list_all2 msg_holds ms fs" and "\<forall>f\<in>set fs. addr_ok (fst f)"
  shows "udp_iov ms = Some (Some (map (\<lambda>f. (None, payload f)) fs))"
  using assms
proof (induction ms fs rule: list_all2_induct)
  case (Cons m ms f fs)
  have ih: "udp_iov ms = Some (Some (map (\<lambda>f. (None, payload f)) fs))" by (rule Cons.IH) (use Cons.prems in simp)
  from msg_addrlen_holds [OF Cons(1)] Cons.prems obtain r where
    r: "msg_addrlen m = Some (Some (wire_addr (fst f) @ r, length (wire_addr (fst f))))" by auto
  show ?case using ih r msg_data [OF Cons(1)] by (simp add: memget_def payload_def)
qed simp

lemma parse_payloads:
  assumes "list_all2 slot_for ms fs" and "\<forall>f\<in>set fs. addr_ok (fst f)"
  shows "\<exists>got. parse_datagrams (zip ms (map payload fs)) acc = Some (True, acc @ got) \<and> list_all2 msg_holds got fs"
  using assms
proof (induction ms fs arbitrary: acc rule: list_all2_induct)
  case (Cons m ms f fs)
  obtain x y q where wire: "wire_addr (fst f) = x # y # q" using wire_addr_ge_2 by blast
  have slot: "length (payload f) \<le> length (m_buf m)" using Cons(1) by (simp add: slot_for_def payload_def)
  then have put: "memput (m_buf m) 0 (payload f) = Some (payload f @ drop (length (payload f)) (m_buf m))"
    by (rule memput_front)
  let ?mem = "payload f @ drop (length (payload f)) (m_buf m)"
  have d3: "drop 3 ?mem = wire_addr (fst f) @ snd f @ drop (length (payload f)) (m_buf m)" by (simp add: payload_def)
  have al: "hev_socks5_addr_len (drop 3 ?mem) = Some (int (length (wire_addr (fst f))))"
    unfolding d3 using Cons.prems by (intro addr_len_wire) simp
  let ?m = "m\<lparr>m_mem := ?mem, m_addr := At (drop 3 ?mem), m_buf := drop (3 + length (wire_addr (fst f))) ?mem,
      m_len := length (payload f) - (3 + length (wire_addr (fst f)))\<rparr>"
  have "drop (3 + length (wire_addr (fst f))) ?mem = snd f @ drop (length (payload f)) (m_buf m)"
    by (simp add: payload_def eval_nat_numeral)
  moreover have len: "length (payload f) - (3 + length (wire_addr (fst f))) = length (snd f)" by (simp add: payload_def)
  ultimately have h: "msg_holds ?m f" unfolding msg_holds_def d3 by (intro conjI) auto
  have "\<exists>got. parse_datagrams (zip ms (map payload fs)) (acc @ [?m]) = Some (True, (acc @ [?m]) @ got) \<and> list_all2 msg_holds got fs"
    by (rule Cons.IH) (use Cons.prems in simp)
  then obtain got where got: "parse_datagrams (zip ms (map payload fs)) (acc @ [?m]) = Some (True, (acc @ [?m]) @ got)"
    "list_all2 msg_holds got fs" by blast
  have ne: "wire_addr (fst f) \<noteq> []" using wire by simp
  have sizes: "(length (payload f) < 4) = False" "(int (length (wire_addr (fst f))) \<le> 0) = False"
    "(int (length (payload f)) < 3 + int (length (wire_addr (fst f)))) = False" using wire by (simp_all add: payload_def)
  have "parse_datagrams (zip (m # ms) (map payload (f # fs))) acc = parse_datagrams (zip ms (map payload fs)) (acc @ [?m])"
    using put al ne by (simp add: sizes Let_def del: drop_append)
  then show ?case using got h by (intro exI [of _ "?m # got"]) simp
qed simp

text \<open>
  In the datagram mode each message is one datagram with the header of the protocol in front, and a
  receiver that gets such datagrams reads the addresses and data that were sent. The first datagram
  that is received fixes the peer of the socket.
\<close>

theorem udp_datagram_roundtrip:
  assumes "s_type self = TYPE_UDP_IN_UDP" and "s_type peer = TYPE_UDP_IN_UDP"
    and "list_all2 msg_holds ms fs" and "fs \<noteq> []" and "\<forall>f\<in>set fs. addr_ok (fst f)"
    and "tx_ready (tx_of w (iface_get_fd iface self))" and "list_all2 slot_for slots fs"
    and "dg_of v (iface_get_fd iface' peer) = DgBatch (zip srcs (map payload fs)) # es" and "length srcs = length fs"
    and "w_sys v = r # rs" and "0 \<le> r"
  shows "\<exists>w1 got v'. hev_socks5_udp_sendmmsg iface ms self w = Some (int (length ms), self, w1) \<and>
     sent_of w1 (iface_get_fd iface self) = sent_of w (iface_get_fd iface self) @ map (\<lambda>f. (None, payload f)) fs \<and>
     hev_socks5_udp_recvmmsg iface' slots nonblock peer v =
       Some (int (length ms), got, peer\<lparr>s_udp_associated := True\<rparr>, v') \<and>
     list_all2 msg_holds got fs \<and> w_sys v' = (if s_udp_associated peer then r # rs else rs)"
proof -
  let ?fd = "iface_get_fd iface self" and ?fd' = "iface_get_fd iface' peer"
  let ?ds = "map payload fs"
  have "map (\<lambda>f. (None, payload f)) fs \<noteq> []" using assms(4) by simp
  from sendmmsg_ready [OF assms(6) this, of udp_task_io_yielder self] obtain w1 where
    s: "hev_task_io_socket_sendmmsg udp_task_io_yielder ?fd (map (\<lambda>f. (None, payload f)) fs) self w =
        Some (int (length fs), self, w1)"
      "sent_of w1 ?fd = sent_of w ?fd @ map (\<lambda>f. (None, payload f)) fs" by auto
  have len: "length ms = length fs" "length slots = length fs" using assms(3,7) by (auto dest: list_all2_lengthD)
  have send: "hev_socks5_udp_sendmmsg iface ms self w = Some (int (length ms), self, w1)"
    using assms(1) s(1) udp_iov_holds [OF assms(3,5)] len
    by (simp add: hev_socks5_udp_sendmmsg_def hev_socks5_udp_sendmmsg_udp_def hev_socks5_udp_get_fd_def)
  let ?v = "v\<lparr>w_sock := (w_sock v)(?fd' := (w_sock v ?fd')\<lparr>sk_dg := es\<rparr>)\<rparr>"
  have cut: "map2 (\<lambda>cap (src, bs). (src, take cap bs)) (map m_len slots) (zip srcs ?ds) = zip srcs ?ds"
    using assms(7,9)
  proof (induction slots fs arbitrary: srcs rule: list_all2_induct)
    case (Cons m ms f fs)
    then obtain x xs where "srcs = x # xs" "length xs = length fs" by (cases srcs) auto
    with Cons show ?case by (simp add: slot_for_def payload_def)
  qed simp
  have "sock_recvm ?fd' (map m_len slots) v = (int (length fs), zip srcs ?ds, 0, ?v)"
    using assms(8,9) cut len by (simp add: sock_recvm_def Let_def)
  then have rc: "hev_task_io_socket_recvmmsg udp_task_io_yielder ?fd' (map m_len slots) nonblock peer v =
      Some (int (length fs), zip srcs ?ds, peer, ?v)"
    by (subst hev_task_io_socket_recvmmsg.simps) simp
  from parse_payloads [OF assms(7,5), of "[]"] obtain got where
    got: "parse_datagrams (zip slots ?ds) [] = Some (True, got)" "list_all2 msg_holds got fs" by auto
  have lg: "length got = length slots" using got(2) len by (auto dest: list_all2_lengthD)
  have sn: "map snd (zip srcs ?ds) = ?ds" using assms(9) by simp
  have pos: "\<not> int (length fs) \<le> 0" using assms(4) by simp
  have ass: "peer\<lparr>s_udp_associated := True\<rparr> = peer" if "s_udp_associated peer" using that by simp
  have "\<exists>v'. hev_socks5_udp_recvmmsg iface' slots nonblock peer v =
         Some (int (length ms), got, peer\<lparr>s_udp_associated := True\<rparr>, v') \<and>
       w_sys v' = (if s_udp_associated peer then r # rs else rs)"
    using rc got(1) lg pos assms(10,11,2) len
    by (simp add: hev_socks5_udp_recvmmsg_def hev_socks5_udp_recvmmsg_udp_def hev_socks5_udp_get_fd_def sn
        sys_def ass Let_def)
  then show ?thesis using send s(2) got(2) by blast
qed

text \<open>
  A relay over datagrams lives as long as its connection: once the peer has closed that, and nothing
  waits to be relayed, the splicer returns, gives its buffer back and leaves the session terminated.
\<close>

theorem udp_splicer_ends:
  assumes "s_type self = TYPE_UDP_IN_UDP" and "rx_of w (s_fd self) = []"
    and "dg_of w (iface_get_fd iface self) = []" and "dg_of w fd_b = []"
    and "w_alloc w = []" and "0 < udp_copy_buffer_nums (w_set w)"
  shows "\<exists>self' w'. hev_socks5_udp_splicer iface fd_b self w = Some (0, self', w') \<and>
     s_timeout self' = 0 \<and> w_live w' = w_live w"
proof -
  let ?fd = "iface_get_fd iface self"
  have again: "hev_task_io_socket_recvmmsg udp_task_io_yielder fd caps True self v = Some (- 1, [], self, v\<lparr>w_errno := EAGAIN\<rparr>)"
    if "dg_of v fd = []" for fd caps and v :: "'b world_scheme"
    using that by (subst hev_task_io_socket_recvmmsg.simps) (simp add: sock_recvm_def Let_def)
  have loop: "\<exists>self' v'. udp_splice_loop iface fd_b num 1 1 slots bnd self v = Some (self', v') \<and> s_timeout self' = 0 \<and> w_live v' = w_live v"
    if v: "w_sock v = w_sock w" for v :: "'b world_scheme" and num slots bnd
  proof -
    let ?e = "v\<lparr>w_errno := EAGAIN\<rparr>"
    have f: "hev_socks5_udp_fwd_f iface fd_b slots bnd self v = Some (0, slots, bnd, self, ?e)"
      using assms(1) again [of v ?fd] v assms(3)
      by (simp add: hev_socks5_udp_fwd_f_def hev_socks5_udp_recvmmsg_def hev_socks5_udp_recvmmsg_udp_def
          hev_socks5_udp_get_fd_def fwd_result_def comp_def)
    have b: "hev_socks5_udp_fwd_b iface fd_b num self ?e = Some (0, self, ?e)"
      using again [of ?e fd_b] v assms(4) by (simp add: hev_socks5_udp_fwd_b_def fwd_result_def)
    obtain l v1 where sy: "sys ?e = (l, v1)" by (cases "sys ?e")
    have v1: "rx_of v1 (s_fd self) = []" "w_live v1 = w_live v"
      using only_sys_fields [OF sys_only, of ?e] sy v assms(2) by simp_all
    have "udp_task_io_yielder TASK_WAITIO (nat l) self v1 = (- 1, hev_socks5_set_timeout self 0, v1)"
      using assms(1) v1(1) by (simp add: udp_task_io_yielder_def sock_recv_def)
    then have "udp_splice_loop iface fd_b num 1 1 slots bnd self v = Some (hev_socks5_set_timeout self 0, v1)"
      using f b sy by (subst udp_splice_loop.simps) simp
    then show ?thesis using v1(2) by (auto simp: hev_socks5_set_timeout_def)
  qed
  let ?w = "w\<lparr>w_live := Suc (w_live w)\<rparr>"
  obtain w1 where w1: "udp_poll_fds ?fd fd_b ?w = w1" "w_sock w1 = w_sock w" "w_live w1 = Suc (w_live w)"
    by (auto simp: udp_poll_fds_def hev_task_mod_fd_def hev_task_add_fd_def Let_def split: if_splits)
  have run: "hev_socks5_udp_splicer iface fd_b self w = do {
      (self, w) \<leftarrow> udp_splice_loop iface fd_b (nat (udp_copy_buffer_nums (w_set w))) 1 1
         (replicate (nat (udp_copy_buffer_nums (w_set w))) (map (w_stack w1) [0..<UDP_BUF_SIZE])) False self w1;
      Some (0, self, hev_free w) }"
    using assms(5,6) w1(1)
    by (simp add: hev_socks5_udp_splicer_def hev_malloc_def hev_socks5_get_udp_copy_buffer_nums_def
        hev_socks5_udp_get_fd_def Let_def)
  from loop [OF w1(2)] obtain self' v' where
    "udp_splice_loop iface fd_b (nat (udp_copy_buffer_nums (w_set w))) 1 1
         (replicate (nat (udp_copy_buffer_nums (w_set w))) (map (w_stack w1) [0..<UDP_BUF_SIZE])) False self w1 = Some (self', v')"
    "s_timeout self' = 0" "w_live v' = w_live w1" by blast
  then show ?thesis using run w1(3) by (simp add: hev_free_def)
qed


section \<open>Examples\<close>

lemma udp_relay_forward_witness:
  "\<exists>slots' w'. hev_socks5_udp_fwd_f plain_iface 4 (replicate 10 (replicate 1500 0)) False (carrier TYPE_UDP_IN_TCP)
       (udp_world [RxData (frame (Ipv4 [1, 2, 3, 4] 53, [7, 8]))] [] []) = Some (1, slots', True, carrier TYPE_UDP_IN_TCP, w') \<and>
     sent_of w' 4 = [(Some \<lparr>sin6_family = AF_INET6, sin6_port = htons 53, sin6_addr = v4_bytes [1, 2, 3, 4]\<rparr>, [7, 8])]"
  using udp_relay_forward [of "carrier TYPE_UDP_IN_TCP" "udp_world [RxData (frame (Ipv4 [1, 2, 3, 4] 53, [7, 8]))] [] []"
      plain_iface "[(Ipv4 [1, 2, 3, 4] 53, [7, 8])]" "replicate 10 (replicate 1500 0)" 4 False]
  by (simp add: udp_world_def frame_ok_def resolve_def UDP_BUF_SIZE_def tx_ready_def)

lemma udp_relay_backward_witness:
  "\<exists>w'. hev_socks5_udp_fwd_b plain_iface 4 10 (carrier TYPE_UDP_IN_TCP)
       (udp_world [] [TxOk 3, TxAgain 9] [DgBatch [(\<lparr>sin6_family = AF_INET6, sin6_port = 0, sin6_addr = replicate 16 1\<rparr>, [7, 8])]]) =
       Some (1, carrier TYPE_UDP_IN_TCP, w') \<and>
     out_of w' 3 = frame (Ipv6 (replicate 16 1) 0, [7, 8])"
proof -
  let ?sa = "\<lparr>sin6_family = AF_INET6, sin6_port = 0, sin6_addr = replicate 16 1\<rparr>"
  let ?w = "udp_world [] [TxOk 3, TxAgain 9] [DgBatch [(?sa, [7, 8])]]"
  have "source ?sa = Ipv6 (replicate 16 1) 0"
    by (simp add: source_def v4mapped_def eval_nat_numeral htons_def hi8_def lo8_def word16_def)
  then show ?thesis
    using udp_relay_backward [of "carrier TYPE_UDP_IN_TCP" ?w 4 "[(?sa, [7, 8])]" "[]" 10 plain_iface]
    by (simp add: udp_world_def UDP_BUF_SIZE_def waits_def del: frame.simps)
qed

lemma udp_datagram_roundtrip_witness:
  "\<exists>got v'. hev_socks5_udp_recvmmsg plain_iface [slot] True (carrier TYPE_UDP_IN_UDP)
       (udp_world [] [] [DgBatch [(zero_sockaddr, payload (Ipv4 [1, 2, 3, 4] 53, [7, 8]))]]) =
       Some (1, got, carrier TYPE_UDP_IN_UDP\<lparr>s_udp_associated := True\<rparr>, v') \<and>
     list_all2 msg_holds got [(Ipv4 [1, 2, 3, 4] 53, [7, 8])]"
proof -
  let ?f = "(Ipv4 [1, 2, 3, 4] 53, [7, 8])"
  have h: "list_all2 msg_holds [msg_of ?f] [?f]" "list_all2 slot_for [slot] [?f]" "\<forall>f\<in>set [?f]. addr_ok (fst f)"
    "tx_ready (tx_of (udp_world [] [] []) (iface_get_fd plain_iface (carrier TYPE_UDP_IN_UDP)))"
    by (simp_all add: msg_of_holds slot_slot_for udp_world_def tx_ready_def)
  have v: "dg_of (udp_world [] [] [DgBatch [(zero_sockaddr, payload ?f)]]) (iface_get_fd plain_iface (carrier TYPE_UDP_IN_UDP)) =
      DgBatch (zip [zero_sockaddr] (map payload [?f])) # []" "length [zero_sockaddr] = length [?f]"
    "w_sys (udp_world [] [] [DgBatch [(zero_sockaddr, payload ?f)]]) = [0]"
    by (simp_all add: udp_world_def)
  from udp_datagram_roundtrip [OF carrier_simps(3) carrier_simps(3) h(1) _ h(3,4,2) v, of True] show ?thesis by auto
qed

lemma udp_splicer_ends_witness:
  "\<exists>self' w'. hev_socks5_udp_splicer plain_iface 4 (carrier TYPE_UDP_IN_UDP) (udp_world [] [] []) = Some (0, self', w') \<and>
     s_timeout self' = 0"
  using udp_splicer_ends [of "carrier TYPE_UDP_IN_UDP" "udp_world [] [] []" plain_iface 4]
  by (auto simp: udp_world_def misc_defaults_def)

end
