(* ===== verification/Task_Splice.thy ===== *)
theory Task_Splice
  imports Socks5_Client
begin

text \<open>
  Relaying a byte stream: \<open>hev_task_io_splice\<close> of \<open>hev-task-system/src/lib/io/basic/hev-task-io.c\<close>, in
  the form the library is built in (\<open>ENABLE_IO_SPLICE_SYSCALL\<close>), where each direction has a pipe of
  the kernel in between, and \<open>core/src/hev-socks5-tcp.c\<close>, which runs it for a session.
\<close>

unbundle bit_operations_syntax

section \<open>One direction\<close>

text \<open>The pipe itself is kept beside the two counters the code has.\<close>

record splicer =
  sp_rfd :: int
  sp_wfd :: int
  sp_wlen :: nat
  sp_blen :: nat
  sp_pipe :: "u8 list"

text \<open>\<open>pipe2\<close> answers with the two descriptors; a closed descriptor is no longer waited for.\<close>

definition close_polled :: "int \<Rightarrow> 'z world_scheme \<Rightarrow> 'z world_scheme" where
  "close_polled fd w = hev_task_del_fd fd (close fd w)"

definition task_io_splicer_init :: "'z world_scheme \<Rightarrow> (int \<times> splicer) \<times> 'z world_scheme" where
  "task_io_splicer_init w =
     (let none = \<lparr>sp_rfd = - 1, sp_wfd = - 1, sp_wlen = 0, sp_blen = 0, sp_pipe = []\<rparr>;
          (r, w) = sys w; (s, w) = sys w in
      if r < 0 \<or> s < 0 then ((- 1, none), w)
      else let w = w\<lparr>w_open := s # r # w_open w\<rparr>;
               self = none\<lparr>sp_rfd := r, sp_wfd := s\<rparr>;
               (res, w) = hev_task_add_fd r w in
           if res < 0 then ((res, self), close_polled s (close_polled r w))
           else let (res, w) = hev_task_add_fd s w in
                if res < 0 then ((res, self), close_polled s (close_polled r w))
                else let (len, w) = sys w in ((0, self\<lparr>sp_blen := nat len\<rparr>), w))"

definition task_io_splicer_fini :: "splicer \<Rightarrow> 'z world_scheme \<Rightarrow> 'z world_scheme" where
  "task_io_splicer_fini self w = close_polled (sp_wfd self) (close_polled (sp_rfd self) w)"

text \<open>
  \<open>splice\<close> moves what fits into the pipe, and blocks when that is full; from the pipe it moves what
  the socket takes.
\<close>

definition splice_in :: "int \<Rightarrow> splicer \<Rightarrow> 'z world_scheme \<Rightarrow> int \<times> splicer \<times> 'z world_scheme" where
  "splice_in fd self w =
     (if sp_blen self \<le> length (sp_pipe self) then (- 1, self, w\<lparr>w_errno := EAGAIN\<rparr>)
      else let (s, bs, _, w) = sock_recv fd (sp_blen self - length (sp_pipe self)) w
           in (s, self\<lparr>sp_pipe := sp_pipe self @ bs\<rparr>, w))"

definition splice_out :: "int \<Rightarrow> splicer \<Rightarrow> 'z world_scheme \<Rightarrow> int \<times> splicer \<times> 'z world_scheme" where
  "splice_out fd self w =
     (let (s, _, w) = sock_send fd (take (sp_blen self) (sp_pipe self)) w
      in (s, self\<lparr>sp_pipe := drop (nat s) (sp_pipe self)\<rparr>, w))"

definition shutdown_wr :: "int \<Rightarrow> 'z world_scheme \<Rightarrow> 'z world_scheme" where
  "shutdown_wr fd w = w\<lparr>w_sock := (w_sock w)(fd := (w_sock w fd)\<lparr>sk_shut := True\<rparr>)\<rparr>"

definition task_io_splice :: "int \<Rightarrow> int \<Rightarrow> splicer \<Rightarrow> 'z world_scheme \<Rightarrow> int \<times> splicer \<times> 'z world_scheme" where
  "task_io_splice fd_in fd_out self w =
     (let (s, self, w) = splice_in fd_in self w;
          res = (if s \<le> 0 then if s < 0 \<and> w_errno w = EAGAIN then 0 else - 1 else 1);
          self = (if s \<le> 0 then self else self\<lparr>sp_wlen := sp_wlen self + nat s\<rparr>) in
      if sp_wlen self \<noteq> 0 then
        let (s, self, w) = splice_out fd_out self w;
            res = (if s \<le> 0 then if s < 0 \<and> w_errno w = EAGAIN then 0 else - 1 else 1)
        in (res, if s \<le> 0 then self else self\<lparr>sp_wlen := sp_wlen self - nat s\<rparr>, w)
      else (res, self, if res < 0 then shutdown_wr fd_out w else w))"

section \<open>Both directions\<close>

partial_function (option) task_splice_loop ::
  "('a, 'z) yielder \<Rightarrow> int \<Rightarrow> int \<Rightarrow> int \<Rightarrow> int \<Rightarrow> int \<Rightarrow> int \<Rightarrow> splicer \<Rightarrow> splicer \<Rightarrow> 'a socks5_scheme \<Rightarrow> 'z world_scheme \<Rightarrow>
     (splicer \<times> splicer \<times> 'a socks5_scheme \<times> 'z world_scheme) option" where
  "task_splice_loop yielder a_i a_o b_i b_o res_f res_b f b self w =
     (let (res_f, f, w) = (if res_f \<ge> 0 then task_io_splice a_i b_o f w else (res_f, f, w));
          (res_b, b, w) = (if res_b \<ge> 0 then task_io_splice b_i a_o b w else (res_b, b, w)) in
      if res_f > 0 \<or> res_b > 0 then
        let (y, self, w) = yielder TASK_YIELD 0 self w in
        if y \<noteq> 0 then Some (f, b, self, w) else task_splice_loop yielder a_i a_o b_i b_o res_f res_b f b self w
      else if res_f AND res_b = 0 then
        let (left, w) = sys w; (y, self, w) = yielder TASK_WAITIO (nat left) self w in
        if y \<noteq> 0 then Some (f, b, self, w) else task_splice_loop yielder a_i a_o b_i b_o res_f res_b f b self w
      else Some (f, b, self, w))"

definition hev_task_io_splice ::
  "('a, 'z) yielder \<Rightarrow> int \<Rightarrow> int \<Rightarrow> int \<Rightarrow> int \<Rightarrow> 'a socks5_scheme \<Rightarrow> 'z world_scheme \<Rightarrow>
     ('a socks5_scheme \<times> 'z world_scheme) option" where
  "hev_task_io_splice yielder a_i a_o b_i b_o self w =
     (let ((r, f), w) = task_io_splicer_init w in
      if r < 0 then Some (self, w)
      else let ((r, b), w) = task_io_splicer_init w in
        if r < 0 then Some (self, task_io_splicer_fini f w)
        else do {
          (f, b, self, w) \<leftarrow> task_splice_loop yielder a_i a_o b_i b_o 1 1 f b self w;
          Some (self, task_io_splicer_fini f (task_io_splicer_fini b w))
        })"

section \<open>The TCP splicer\<close>

definition hev_socks5_tcp_splicer ::
  "int \<Rightarrow> 'a socks5_scheme \<Rightarrow> 'z world_scheme \<Rightarrow> (int \<times> 'a socks5_scheme \<times> 'z world_scheme) option" where
  "hev_socks5_tcp_splicer fd self w =
     (let cfd = s_fd self in
      if cfd < 0 then Some (- 1, self, w)
      else let (res, w) = hev_task_add_fd fd w;
               w = (if res < 0 then snd (hev_task_mod_fd fd w) else w)
           in do {
             (self, w) \<leftarrow> hev_task_io_splice hev_socks5_task_io_yielder cfd cfd fd fd self w;
             Some (0, self, w)
           })"

end
