(* ===== verification/Splice_Props.thy ===== *)
theory Splice_Props
  imports Task_Splice
begin

text \<open>
  What the stream relay delivers: in each direction a prefix of what arrived, in order, and the end of
  the stream only after everything that was read. The relay ends when its timeout is finite, and
  closes its pipes.
\<close>

section \<open>One step\<close>

fun rx_bytes :: "rx list \<Rightarrow> u8 list" where
  "rx_bytes [] = []"
| "rx_bytes (RxData bs # es) = bs @ rx_bytes es"
| "rx_bytes (_ # es) = rx_bytes es"

abbreviation shut_of :: "'z world_scheme \<Rightarrow> int \<Rightarrow> bool" where
  "shut_of w fd \<equiv> sk_shut (w_sock w fd)"

definition pipe_ok :: "splicer \<Rightarrow> bool" where
  "pipe_ok p \<longleftrightarrow> sp_wlen p = length (sp_pipe p) \<and> length (sp_pipe p) \<le> sp_blen p"

text \<open>What a call leaves alone: everything about a direction that it does not serve.\<close>

definition spares :: "int \<Rightarrow> int \<Rightarrow> 'z world_scheme \<Rightarrow> 'z world_scheme \<Rightarrow> bool" where
  "spares i out w w' \<longleftrightarrow> w_sys w' = w_sys w \<and> w_open w' = w_open w \<and>
     (\<forall>fd. fd \<noteq> i \<longrightarrow> rx_of w' fd = rx_of w fd) \<and> (\<forall>fd. fd \<noteq> out \<longrightarrow> out_of w' fd = out_of w fd \<and> shut_of w' fd = shut_of w fd)"

lemma spares_trans: "spares i out w w' \<Longrightarrow> spares i out w' w'' \<Longrightarrow> spares i out w w''"
  by (simp add: spares_def)

lemma splice_in_step:
  assumes "pipe_ok p" and "splice_in i p w = (s, p', w')"
  shows "\<exists>xs. sp_pipe p' = sp_pipe p @ xs \<and> rx_bytes (rx_of w i) = xs @ rx_bytes (rx_of w' i) \<and>
     (if s \<le> 0 then xs = [] else s = int (length xs)) \<and> length (sp_pipe p') \<le> sp_blen p \<and>
     sp_blen p' = sp_blen p \<and> sp_wlen p' = sp_wlen p \<and> spares i out w w' \<and> out_of w' out = out_of w out \<and> shut_of w' out = shut_of w out"
proof (cases "sp_blen p \<le> length (sp_pipe p)")
  case True
  then show ?thesis using assms by (auto simp: splice_in_def pipe_ok_def spares_def)
next
  case False
  let ?n = "sp_blen p - length (sp_pipe p)"
  obtain bs l where r: "sock_recv i ?n w = (s, bs, l, w')" "p' = p\<lparr>sp_pipe := sp_pipe p @ bs\<rparr>"
    using assms(2) False by (auto simp: splice_in_def split: prod.splits)
  have n: "0 < ?n" using False by simp
  have cut: "rx_bytes (if drop k bs = [] then es else RxData (drop k bs) # es) = drop k bs @ rx_bytes es" for k bs es by simp
  show ?thesis
  proof (cases "rx_of w i")
    case Nil
    then show ?thesis using r n assms(1) by (auto simp: sock_recv_def pipe_ok_def spares_def)
  next
    case (Cons e es)
    show ?thesis
    proof (cases e)
      case (RxData ds)
      let ?es = "if drop ?n ds = [] then es else RxData (drop ?n ds) # es"
      have "w' = rx_set i ?es w" "s = int (length (take ?n ds))" "bs = take ?n ds"
        using r(1) n Cons RxData by (auto simp: sock_recv_def rx_set_def Let_def)
      moreover have "spares i out w (rx_set i ?es w)" "out_of (rx_set i ?es w) out = out_of w out"
        "shut_of (rx_set i ?es w) out = shut_of w out" by (simp_all add: spares_def rx_set_def)
      ultimately show ?thesis using r(2) Cons RxData assms(1) cut [of ?n ds es]
        by (intro exI [of _ "take ?n ds"]) (use n in \<open>auto simp: pipe_ok_def min_def split: if_split_asm\<close>)
    qed (use r n Cons assms(1) in \<open>auto simp: sock_recv_def pipe_ok_def spares_def Let_def split: if_split_asm\<close>)
  qed
qed

lemma splice_out_step:
  assumes "length (sp_pipe p) \<le> sp_blen p" and "splice_out out p w = (s, p', w')"
  shows "out_of w' out = out_of w out @ take (nat s) (sp_pipe p) \<and> sp_pipe p' = drop (nat s) (sp_pipe p) \<and>
     nat s \<le> length (sp_pipe p) \<and> sp_blen p' = sp_blen p \<and> sp_wlen p' = sp_wlen p \<and>
     spares i out w w' \<and> rx_of w' i = rx_of w i \<and> shut_of w' out = shut_of w out"
proof -
  obtain l where r: "sock_send out (sp_pipe p) w = (s, l, w')" "p' = p\<lparr>sp_pipe := drop (nat s) (sp_pipe p)\<rparr>"
    using assms by (auto simp: splice_out_def split: prod.splits)
  show ?thesis using r
    by (auto simp: sock_send_def spares_def Let_def min_def split: list.split_asm tx.split_asm if_split_asm)
qed

text \<open>The result is positive exactly when bytes went out.\<close>

lemma splice_step:
  assumes "pipe_ok p" and "i \<noteq> out"
  shows "\<exists>r p' w' xs. task_io_splice i out p w = (r, p', w') \<and> pipe_ok p' \<and> r \<in> {- 1, 0, 1} \<and>
     rx_bytes (rx_of w i) = xs @ rx_bytes (rx_of w' i) \<and> out_of w' out @ sp_pipe p' = out_of w out @ sp_pipe p @ xs \<and>
     length (out_of w out) \<le> length (out_of w' out) \<and> (r = 1 \<longrightarrow> length (out_of w out) < length (out_of w' out)) \<and>
     (shut_of w' out \<longrightarrow> shut_of w out \<or> r = - 1 \<and> sp_pipe p' = []) \<and> spares i out w w' \<and>
     (\<exists>k. out_of w' out = out_of w out @ take k (sp_pipe p @ xs))"
proof -
  obtain s1 p1 w1 where 1: "splice_in i p w = (s1, p1, w1)" by (cases "splice_in i p w") auto
  from splice_in_step [OF assms(1) 1, of out] obtain xs where
    x: "sp_pipe p1 = sp_pipe p @ xs" "rx_bytes (rx_of w i) = xs @ rx_bytes (rx_of w1 i)"
      "if s1 \<le> 0 then xs = [] else s1 = int (length xs)" "length (sp_pipe p1) \<le> sp_blen p"
      "sp_blen p1 = sp_blen p" "sp_wlen p1 = sp_wlen p" "spares i out w w1" "out_of w1 out = out_of w out" "shut_of w1 out = shut_of w out"
    by blast
  define p2 where "p2 = (if s1 \<le> 0 then p1 else p1\<lparr>sp_wlen := sp_wlen p1 + nat s1\<rparr>)"
  define res where "res = (if s1 \<le> 0 then if s1 < 0 \<and> w_errno w1 = EAGAIN then 0 else - 1 else 1 :: int)"
  have p2: "pipe_ok p2" "sp_pipe p2 = sp_pipe p @ xs"
    using x assms(1) by (auto simp: p2_def pipe_ok_def split: if_split_asm)
  show ?thesis
  proof (cases "sp_wlen p2 = 0")
    case True
    then have e: "sp_pipe p2 = []" using p2 by (simp add: pipe_ok_def)
    have run: "task_io_splice i out p w = (res, p2, if res < 0 then shutdown_wr out w1 else w1)"
      using 1 True by (simp add: task_io_splice_def p2_def res_def Let_def)
    have "s1 \<le> 0" using x(3) e p2(2) by (auto split: if_split_asm)
    then have r: "res = 0 \<or> res = - 1" by (auto simp: res_def)
    have "spares i out w (if res < 0 then shutdown_wr out w1 else w1)" "rx_of (if res < 0 then shutdown_wr out w1 else w1) i = rx_of w1 i"
      "out_of (if res < 0 then shutdown_wr out w1 else w1) out = out_of w out"
      "shut_of (if res < 0 then shutdown_wr out w1 else w1) out \<longrightarrow> shut_of w out \<or> res = - 1"
      using x(7,8,9) r by (auto simp: spares_def shutdown_wr_def)
    then show ?thesis using run r p2 e x(2)
      by (intro exI [of _ res] exI [of _ p2] exI [of _ "if res < 0 then shutdown_wr out w1 else w1"] exI [of _ xs]) auto
  next
    case False
    obtain s2 p3 w2 where 2: "splice_out out p2 w1 = (s2, p3, w2)" by (cases "splice_out out p2 w1") auto
    have "length (sp_pipe p2) \<le> sp_blen p2" using p2(1) by (simp add: pipe_ok_def)
    from splice_out_step [OF this 2, of i] have y:
      "out_of w2 out = out_of w1 out @ take (nat s2) (sp_pipe p2)" "sp_pipe p3 = drop (nat s2) (sp_pipe p2)"
      "nat s2 \<le> length (sp_pipe p2)" "sp_blen p3 = sp_blen p2" "sp_wlen p3 = sp_wlen p2"
      "spares i out w1 w2" "rx_of w2 i = rx_of w1 i" "shut_of w2 out = shut_of w1 out" by blast+
    define r where "r = (if s2 \<le> 0 then if s2 < 0 \<and> w_errno w2 = EAGAIN then 0 else - 1 else 1 :: int)"
    define p4 where "p4 = (if s2 \<le> 0 then p3 else p3\<lparr>sp_wlen := sp_wlen p3 - nat s2\<rparr>)"
    have run: "task_io_splice i out p w = (r, p4, w2)"
      using 1 2 False by (simp add: task_io_splice_def p2_def [symmetric] p4_def r_def Let_def)
    have p4: "pipe_ok p4" "sp_pipe p4 = drop (nat s2) (sp_pipe p @ xs)"
      using y p2 by (auto simp: p4_def pipe_ok_def)
    have ot: "out_of w2 out = out_of w out @ take (nat s2) (sp_pipe p @ xs)" using y(1) x(8) p2(2) by simp
    have "r = 1 \<longrightarrow> 0 < s2" by (simp add: r_def)
    then have len: "r = 1 \<longrightarrow> length (out_of w out) < length (out_of w2 out)" using ot y(3) p2(2) by (simp only: length_append length_take) auto
    have cons: "out_of w2 out @ sp_pipe p4 = out_of w out @ sp_pipe p @ xs"
      unfolding ot p4(2) append_assoc append_take_drop_id ..
    have rest: "r \<in> {- 1, 0, 1}" "length (out_of w out) \<le> length (out_of w2 out)" "rx_bytes (rx_of w i) = xs @ rx_bytes (rx_of w2 i)"
      "shut_of w2 out \<longrightarrow> shut_of w out" "spares i out w w2"
      using x(2,9) y(7,8) ot spares_trans [OF x(7) y(6)] by (simp_all add: r_def)
    show ?thesis using run p4(1) cons rest len ot by blast
  qed
qed

section \<open>The loop\<close>

text \<open>
  What a direction has done since the world \<open>w\<close>: it has read the bytes \<open>xs\<close>, and what is in its pipe
  is the part of them that it has not sent. The end is passed on only when nothing is left.
\<close>

definition moved :: "int \<Rightarrow> int \<Rightarrow> 'z world_scheme \<Rightarrow> int \<Rightarrow> splicer \<Rightarrow> 'z world_scheme \<Rightarrow> bool" where
  "moved i out w r p w' \<longleftrightarrow> pipe_ok p \<and> (\<exists>xs. rx_bytes (rx_of w i) = xs @ rx_bytes (rx_of w' i) \<and>
     out_of w' out @ sp_pipe p = out_of w out @ xs \<and> length (out_of w out) \<le> length (out_of w' out) \<and>
     (shut_of w' out \<longrightarrow> shut_of w out \<or> r < 0 \<and> sp_pipe p = []))"

lemma moved_spares:
  assumes "moved i out w r p w'" and "spares i' out' w' w''" and "i \<noteq> i'" and "out \<noteq> out'"
  shows "moved i out w r p w''"
  using assms unfolding moved_def spares_def by metis

lemma moved_step:
  assumes "moved i out w r p w'" and "0 \<le> r" and "i \<noteq> out"
  shows "\<exists>r' p' w''. task_io_splice i out p w' = (r', p', w'') \<and> moved i out w r' p' w'' \<and> r' \<in> {- 1, 0, 1} \<and> spares i out w' w'' \<and>
     2 * length (rx_bytes (rx_of w'' i)) + length (sp_pipe p') \<le> 2 * length (rx_bytes (rx_of w' i)) + length (sp_pipe p) \<and>
     (r' = 1 \<longrightarrow> 2 * length (rx_bytes (rx_of w'' i)) + length (sp_pipe p') < 2 * length (rx_bytes (rx_of w' i)) + length (sp_pipe p))"
proof -
  from assms(1) obtain xs where x: "rx_bytes (rx_of w i) = xs @ rx_bytes (rx_of w' i)" "out_of w' out @ sp_pipe p = out_of w out @ xs"
    "length (out_of w out) \<le> length (out_of w' out)" "shut_of w' out \<longrightarrow> shut_of w out" and ok: "pipe_ok p"
    using assms(2) by (auto simp: moved_def)
  from splice_step [OF ok assms(3), of w'] obtain r' p' w'' ys where
    s: "task_io_splice i out p w' = (r', p', w'')" "pipe_ok p'" "r' \<in> {- 1, 0, 1}"
      "rx_bytes (rx_of w' i) = ys @ rx_bytes (rx_of w'' i)" "out_of w'' out @ sp_pipe p' = out_of w' out @ sp_pipe p @ ys"
      "length (out_of w' out) \<le> length (out_of w'' out)" "r' = 1 \<longrightarrow> length (out_of w' out) < length (out_of w'' out)"
      "shut_of w'' out \<longrightarrow> shut_of w' out \<or> r' = - 1 \<and> sp_pipe p' = []" "spares i out w' w''" by blast
  have e: "out_of w'' out @ sp_pipe p' = out_of w out @ xs @ ys" using s(5) x(2) by (metis append_assoc)
  have "length (out_of w'' out) + length (sp_pipe p') = length (out_of w' out) + length (sp_pipe p) + length ys"
    using arg_cong [OF s(5), of length] by simp
  moreover have "length (rx_bytes (rx_of w' i)) = length ys + length (rx_bytes (rx_of w'' i))" using s(4) by simp
  moreover have "moved i out w r' p' w''"
    unfolding moved_def using s(2,4,6,8) e x(1,3,4) by (intro conjI exI [of _ "xs @ ys"]) auto
  ultimately show ?thesis using s(1,3,6,7,9) by auto
qed

definition splice_work :: "int \<Rightarrow> int \<Rightarrow> splicer \<Rightarrow> splicer \<Rightarrow> 'z world_scheme \<Rightarrow> nat" where
  "splice_work i j f b w = 2 * length (rx_bytes (rx_of w i)) + length (sp_pipe f) +
     (2 * length (rx_bytes (rx_of w j)) + length (sp_pipe b)) + length (w_sys w)"

lemma moved_sys: "moved i out w r p w' \<Longrightarrow> only_sys w' w'' \<Longrightarrow> moved i out w r p w''"
  by (simp add: moved_def only_sys_fields)

lemma moved_round:
  assumes "moved i out w r p w'" and "i \<noteq> out"
  shows "\<exists>r' p' w''. (if r \<ge> 0 then task_io_splice i out p w' else (r, p, w')) = (r', p', w'') \<and> moved i out w r' p' w'' \<and>
     (r \<in> {- 1, 0, 1} \<longrightarrow> r' \<in> {- 1, 0, 1}) \<and> spares i out w' w'' \<and>
     2 * length (rx_bytes (rx_of w'' i)) + length (sp_pipe p') \<le> 2 * length (rx_bytes (rx_of w' i)) + length (sp_pipe p) \<and>
     (r' = 1 \<longrightarrow> 2 * length (rx_bytes (rx_of w'' i)) + length (sp_pipe p') < 2 * length (rx_bytes (rx_of w' i)) + length (sp_pipe p))"
proof (cases "0 \<le> r")
  case True
  with moved_step [OF assms(1) True assms(2)] show ?thesis by (simp del: split_paired_Ex) blast
qed (use assms in \<open>auto simp: spares_def\<close>)

definition same_pipe :: "splicer \<Rightarrow> splicer \<Rightarrow> bool" where
  "same_pipe p p' \<longleftrightarrow> sp_rfd p' = sp_rfd p \<and> sp_wfd p' = sp_wfd p"

lemma same_pipe_step:
  assumes "(if r \<ge> 0 then task_io_splice i out p w else (r, p, w)) = (r', p', w')"
  shows "same_pipe p p'"
  using assms
  by (auto simp: task_io_splice_def splice_in_def splice_out_def same_pipe_def Let_def split: if_split_asm prod.split_asm)

lemma same_pipe_trans: "same_pipe p p' \<Longrightarrow> same_pipe p' p'' \<Longrightarrow> same_pipe p p''"
  by (simp add: same_pipe_def)

lemma splice_loop_moves:
  assumes "moved i j w0 rf f w" and "moved j i w0 rb b w" and "i \<noteq> j" and "0 \<le> s_timeout self"
    and "rf \<in> {- 1, 0, 1}" and "rb \<in> {- 1, 0, 1}"
  shows "\<exists>f' b' rf' rb' w'. task_splice_loop hev_socks5_task_io_yielder i i j j rf rb f b self w = Some (f', b', self, w') \<and>
     moved i j w0 rf' f' w' \<and> moved j i w0 rb' b' w' \<and> w_open w' = w_open w \<and> same_pipe f f' \<and> same_pipe b b'"
  using assms(1,2,5,6)
proof (induction "splice_work i j f b w" arbitrary: rf f rb b w rule: less_induct)
  case less
  from moved_round [OF less(2) assms(3)] less(4) obtain rf1 f1 w1 where
    1: "(if rf \<ge> 0 then task_io_splice i j f w else (rf, f, w)) = (rf1, f1, w1)" "moved i j w0 rf1 f1 w1" "rf1 \<in> {- 1, 0, 1}" "spares i j w w1"
      "2 * length (rx_bytes (rx_of w1 i)) + length (sp_pipe f1) \<le> 2 * length (rx_bytes (rx_of w i)) + length (sp_pipe f)"
      "rf1 = 1 \<longrightarrow> 2 * length (rx_bytes (rx_of w1 i)) + length (sp_pipe f1) < 2 * length (rx_bytes (rx_of w i)) + length (sp_pipe f)" by blast
  from moved_round [OF moved_spares [OF less(3) 1(4)]] assms(3) less(5) obtain rb1 b1 w2 where
    2: "(if rb \<ge> 0 then task_io_splice j i b w1 else (rb, b, w1)) = (rb1, b1, w2)" "moved j i w0 rb1 b1 w2" "rb1 \<in> {- 1, 0, 1}" "spares j i w1 w2"
      "2 * length (rx_bytes (rx_of w2 j)) + length (sp_pipe b1) \<le> 2 * length (rx_bytes (rx_of w1 j)) + length (sp_pipe b)"
      "rb1 = 1 \<longrightarrow> 2 * length (rx_bytes (rx_of w2 j)) + length (sp_pipe b1) < 2 * length (rx_bytes (rx_of w1 j)) + length (sp_pipe b)" by metis
  have m: "moved i j w0 rf1 f1 w2" using moved_spares [OF 1(2) 2(4)] assms(3) by auto
  have o2: "w_open w2 = w_open w" "w_sys w2 = w_sys w" using 1(4) 2(4) by (simp_all add: spares_def)
  note sp = same_pipe_step [OF 1(1)] same_pipe_step [OF 2(1)]
  note tr = same_pipe_trans [OF sp(1)] same_pipe_trans [OF sp(2)]
  have rx: "rx_of w2 i = rx_of w1 i" "rx_of w1 j = rx_of w j" using 1(4) 2(4) assms(3) by (simp_all add: spares_def)
  show ?case
  proof (cases "rf1 > 0 \<or> rb1 > 0")
    case True
    have "rf1 = 1 \<or> rb1 = 1" using True 1(3) 2(3) by auto
    then have "splice_work i j f1 b1 w2 < splice_work i j f b w"
      using 1(5,6) 2(5,6) unfolding splice_work_def rx o2 by (elim disjE) simp_all
    from less(1) [OF this m 2(2) 1(3) 2(3)] show ?thesis using o2 True tr
      by (subst task_splice_loop.simps) (simp add: 1(1) 2(1) hev_socks5_task_io_yielder_def del: split_paired_Ex, blast)
  next
    case False
    obtain l w3 where s: "sys w2 = (l, w3)" by (cases "sys w2")
    have o3: "only_sys w2 w3" using sys_only [of w2] s by simp
    show ?thesis
    proof (cases "rf1 AND rb1 = 0 \<and> waits (s_timeout self) (nat l)")
      case True
      then have "l \<noteq> - 1" using assms(4) by (auto simp: waits_def)
      then have "w_sys w2 \<noteq> []" using s by (auto simp: sys_def)
      then have "length (w_sys w3) < length (w_sys w)" using sys_consumes [of w2] s o2 by simp
      then have "splice_work i j f1 b1 w3 < splice_work i j f b w"
        using 1(5) 2(5) rx only_sys_fields(1) [OF o3] unfolding splice_work_def by simp
      from less(1) [OF this moved_sys [OF m o3] moved_sys [OF 2(2) o3] 1(3) 2(3)] obtain f' b' rf' rb' w' where
        ih: "task_splice_loop hev_socks5_task_io_yielder i i j j rf1 rb1 f1 b1 self w3 = Some (f', b', self, w')"
          "moved i j w0 rf' f' w'" "moved j i w0 rb' b' w'" "w_open w' = w_open w3" "same_pipe f1 f'" "same_pipe b1 b'" by blast
      have "task_splice_loop hev_socks5_task_io_yielder i i j j rf rb f b self w = Some (f', b', self, w')"
        using ih(1) True False s by (subst task_splice_loop.simps) (simp add: 1(1) 2(1) yielder_waits)
      then show ?thesis using ih(2-6) o2 only_sys_fields(2) [OF o3] tr by auto
    next
      case nw: False
      then show ?thesis using False s o2 sp m 2(2) moved_sys [OF m o3] moved_sys [OF 2(2) o3] only_sys_fields(2) [OF o3]
        by (subst task_splice_loop.simps) (auto simp: 1(1) 2(1) yielder_waits)
    qed
  qed
qed

section \<open>The whole relay\<close>

lemma close_polled_fields [simp]:
  "w_sock (close_polled fd w) = w_sock w" "set (w_open (close_polled fd w)) = set (w_open w) - {fd}"
  by (auto simp: close_polled_def close_def hev_task_del_fd_def)

lemma sys_open: "sys w = (r, w') \<Longrightarrow> w_sock w' = w_sock w \<and> w_open w' = w_open w"
  using only_sys_fields(1,2) [OF sys_only, of w] by simp

lemma splicer_init:
  "\<exists>r p w'. task_io_splicer_init w = ((r, p), w') \<and> w_sock w' = w_sock w \<and>
     (if r < 0 then set (w_open w') \<subseteq> set (w_open w)
      else pipe_ok p \<and> sp_pipe p = [] \<and> set (w_open w') \<subseteq> set (w_open w) \<union> {sp_rfd p, sp_wfd p})"
proof -
  obtain r w1 where 1: "sys w = (r, w1)" by (cases "sys w")
  obtain s w2 where 2: "sys w1 = (s, w2)" by (cases "sys w1")
  note k = sys_open [OF 1] sys_open [OF 2]
  have add: "\<exists>e v'. hev_task_add_fd fd v = (e, v') \<and> w_sock v' = w_sock v \<and> w_open v' = w_open v" for fd and v :: "'a world_scheme"
    by (simp add: hev_task_add_fd_def)
  let ?w = "w2\<lparr>w_open := s # r # w_open w2\<rparr>"
  obtain e w3 where 3: "hev_task_add_fd r ?w = (e, w3)" "w_sock w3 = w_sock ?w" "w_open w3 = w_open ?w" using add [of r ?w] by blast
  obtain g w4 where 4: "hev_task_add_fd s w3 = (g, w4)" "w_sock w4 = w_sock w3" "w_open w4 = w_open w3" using add [of s w3] by blast
  obtain l w5 where 5: "sys w4 = (l, w5)" by (cases "sys w4")
  note k5 = sys_open [OF 5]
  have run: "task_io_splicer_init w = (let none = \<lparr>sp_rfd = - 1, sp_wfd = - 1, sp_wlen = 0, sp_blen = 0, sp_pipe = []\<rparr>;
        p = none\<lparr>sp_rfd := r, sp_wfd := s\<rparr> in
      if r < 0 \<or> s < 0 then ((- 1, none), w2) else if e < 0 then ((e, p), close_polled s (close_polled r w3))
      else if g < 0 then ((g, p), close_polled s (close_polled r w4)) else ((0, p\<lparr>sp_blen := nat l\<rparr>), w5))"
    by (simp add: task_io_splicer_init_def 1 2 3(1) 4(1) 5 Let_def)
  show ?thesis unfolding run using k 3(2,3) 4(2,3) k5 by (auto simp: Let_def pipe_ok_def)
qed

text \<open>What arrived on \<open>i\<close> came out on \<open>out\<close>, up to what had been read when the relay ended.\<close>

definition relayed :: "int \<Rightarrow> int \<Rightarrow> 'z world_scheme \<Rightarrow> 'z world_scheme \<Rightarrow> bool" where
  "relayed i out w w' \<longleftrightarrow> (\<exists>xs k. rx_bytes (rx_of w i) = xs @ rx_bytes (rx_of w' i) \<and> out_of w' out = out_of w out @ take k xs \<and>
     (shut_of w' out \<longrightarrow> shut_of w out \<or> out_of w' out = out_of w out @ xs))"

lemma moved_relayed:
  assumes "moved i out w r p w'"
  shows "relayed i out w w'"
proof -
  from assms obtain xs where x: "rx_bytes (rx_of w i) = xs @ rx_bytes (rx_of w' i)" "out_of w' out @ sp_pipe p = out_of w out @ xs"
    "length (out_of w out) \<le> length (out_of w' out)" "shut_of w' out \<longrightarrow> shut_of w out \<or> sp_pipe p = []"
    by (auto simp: moved_def)
  then have "out_of w' out = out_of w out @ take (length (out_of w' out) - length (out_of w out)) xs"
    by (metis append_eq_append_conv_if append_eq_conv_conj le_antisym nat_le_linear take_append take_all)
  then show ?thesis unfolding relayed_def using x(1,2,4) by (metis append_Nil2)
qed

lemma relayed_cong: "relayed i out w w' \<Longrightarrow> w_sock v = w_sock w \<Longrightarrow> w_sock v' = w_sock w' \<Longrightarrow> relayed i out v v'"
  by (simp add: relayed_def)

lemma relayed_refl: "w_sock w' = w_sock w \<Longrightarrow> relayed i out w w'"
  by (simp add: relayed_def)

lemma io_splice_relays:
  assumes "i \<noteq> j" and "0 \<le> s_timeout self"
  shows "\<exists>w'. hev_task_io_splice hev_socks5_task_io_yielder i i j j self w = Some (self, w') \<and>
     set (w_open w') \<subseteq> set (w_open w) \<and> relayed i j w w' \<and> relayed j i w w'"
proof -
  obtain r f w1 where 1: "task_io_splicer_init w = ((r, f), w1)" "w_sock w1 = w_sock w"
    "if r < 0 then set (w_open w1) \<subseteq> set (w_open w)
     else pipe_ok f \<and> sp_pipe f = [] \<and> set (w_open w1) \<subseteq> set (w_open w) \<union> {sp_rfd f, sp_wfd f}" using splicer_init by blast
  obtain s b w2 where 2: "task_io_splicer_init w1 = ((s, b), w2)" "w_sock w2 = w_sock w1"
    "if s < 0 then set (w_open w2) \<subseteq> set (w_open w1)
     else pipe_ok b \<and> sp_pipe b = [] \<and> set (w_open w2) \<subseteq> set (w_open w1) \<union> {sp_rfd b, sp_wfd b}" using splicer_init by blast
  consider "r < 0" | "0 \<le> r" "s < 0" | "0 \<le> r" "0 \<le> s" by linarith
  then show ?thesis
  proof cases
    case 1
    then show ?thesis using \<open>task_io_splicer_init w = ((r, f), w1)\<close> \<open>w_sock w1 = w_sock w\<close>
        \<open>if r < 0 then _ else _\<close> by (auto simp: hev_task_io_splice_def intro: relayed_refl)
  next
    case c: 2
    then show ?thesis using 1 2 by (auto simp: hev_task_io_splice_def task_io_splicer_fini_def intro!: relayed_refl)
  next
    case c: 3
    then have start: "moved i j w2 1 f w2" "moved j i w2 1 b w2" using 1(3) 2(3) by (auto simp: moved_def)
    from splice_loop_moves [OF start assms] obtain f' b' rf rb w3 where
      3: "task_splice_loop hev_socks5_task_io_yielder i i j j 1 1 f b self w2 = Some (f', b', self, w3)"
        "moved i j w2 rf f' w3" "moved j i w2 rb b' w3" "w_open w3 = w_open w2" "same_pipe f f'" "same_pipe b b'" by auto
    let ?w = "task_io_splicer_fini f' (task_io_splicer_fini b' w3)"
    have "hev_task_io_splice hev_socks5_task_io_yielder i i j j self w = Some (self, ?w)"
      using 1(1) 2(1) 3(1) c by (simp add: hev_task_io_splice_def)
    moreover have "set (w_open ?w) \<subseteq> set (w_open w)"
      using 1(3) 2(3) 3(4-6) c by (auto simp: task_io_splicer_fini_def same_pipe_def)
    moreover have "w_sock ?w = w_sock w3" "w_sock w = w_sock w2" using 1(2) 2(2) by (simp_all add: task_io_splicer_fini_def)
    ultimately show ?thesis
      using relayed_cong [OF moved_relayed [OF 3(2)]] relayed_cong [OF moved_relayed [OF 3(3)]] by blast
  qed
qed

text \<open>
  C15: The relay of a TCP session, once its descriptor and its timeout are set, ends whatever both
  sides do; in each direction it has delivered a prefix of what it read, unchanged and in order, the
  other side is told the end of the stream only when everything that was read has been delivered,
  and no pipe is left open.
\<close>

theorem tcp_splicer_relays:
  assumes "0 \<le> s_fd self" and "fd \<noteq> s_fd self" and "0 \<le> s_timeout self"
  shows "\<exists>w'. hev_socks5_tcp_splicer fd self w = Some (0, self, w') \<and> set (w_open w') \<subseteq> set (w_open w) \<and>
     relayed (s_fd self) fd w w' \<and> relayed fd (s_fd self) w w'"
proof -
  define w1 where "w1 = (if fd \<in> set (w_poll w) then w else w\<lparr>w_poll := fd # w_poll w\<rparr>)"
  have same: "w_sock w1 = w_sock w" "w_open w1 = w_open w" by (simp_all add: w1_def)
  have run: "hev_socks5_tcp_splicer fd self w = do {
      (self, w) \<leftarrow> hev_task_io_splice hev_socks5_task_io_yielder (s_fd self) (s_fd self) fd fd self w1; Some (0, self, w) }"
    using assms(1) by (simp add: hev_socks5_tcp_splicer_def hev_task_add_fd_def hev_task_mod_fd_def w1_def Let_def)
  from io_splice_relays [OF assms(2) [symmetric] assms(3), of w1] obtain w2 where
    2: "hev_task_io_splice hev_socks5_task_io_yielder (s_fd self) (s_fd self) fd fd self w1 = Some (self, w2)"
      "set (w_open w2) \<subseteq> set (w_open w1)" "relayed (s_fd self) fd w1 w2" "relayed fd (s_fd self) w1 w2" by blast
  have s: "w_sock w = w_sock w1" using same(1) by simp
  show ?thesis using run 2(1,2) same(2) relayed_cong [OF 2(3) s refl] relayed_cong [OF 2(4) s refl] by simp
qed

definition pair_conn :: "rx list \<Rightarrow> rx list \<Rightarrow> int list \<Rightarrow> world" where
  "pair_conn a b rs = \<lparr>w_sock = (\<lambda>fd. \<lparr>sk_rx = (if fd = 3 then a else b), sk_tx = [TxOk 1], sk_out = [], sk_dg = [], sk_sent = [],
     sk_shut = False\<rparr>), w_errno = 0, w_sys = rs, w_open = [4, 3], w_poll = [4, 3], w_alloc = [], w_live = 2, w_stack = (\<lambda>_. 0),
     w_libc = \<lparr>inet_pton6 = (\<lambda>_. None), inet_ntop = (\<lambda>_ _. []), getaddrinfo = (\<lambda>_ _. None)\<rparr>, w_protect = None, w_set = misc_defaults\<rparr>"

lemma tcp_splicer_relays_witness:
  "\<exists>w' xs k. hev_socks5_tcp_splicer 4 \<lparr>s_fd = 3, s_timeout = 10, s_type = TYPE_TCP, s_udp_associated = False, s_addr_family = AF_INET\<rparr>
     (pair_conn [RxData [1, 2, 3], RxAgain 5, RxData [4]] [RxData [9]] [5, 6, 2, 7, 8, 2, 1]) = Some (0, \<lparr>s_fd = 3, s_timeout = 10,
       s_type = TYPE_TCP, s_udp_associated = False, s_addr_family = AF_INET\<rparr>, w') \<and> set (w_open w') \<subseteq> {4, 3} \<and>
     [1, 2, 3, 4] = xs @ rx_bytes (rx_of w' 3) \<and> out_of w' 4 = take k xs \<and> (shut_of w' 4 \<longrightarrow> out_of w' 4 = xs)"
  using tcp_splicer_relays [of "\<lparr>s_fd = 3, s_timeout = 10, s_type = TYPE_TCP, s_udp_associated = False, s_addr_family = AF_INET\<rparr>" 4
      "pair_conn [RxData [1, 2, 3], RxAgain 5, RxData [4]] [RxData [9]] [5, 6, 2, 7, 8, 2, 1]"]
  by (auto simp: relayed_def pair_conn_def)

end
