(* ===== verification/Socks5_Server.thy ===== *)
theory Socks5_Server
  imports Socks5_Udp Task_Splice Socks5_Auth
begin

text \<open>
  The socks5 server, \<open>core/src/hev-socks5-server.c\<close>: the greeting and the login, the request and its
  answer, connecting or binding the session's sockets, and the service that relays. The authenticator
  the session refers to and the answers of \<open>getsockname\<close> are part of the world. Log messages are left
  out.
\<close>

section \<open>The server object\<close>

text \<open>The union of the structure: nothing, the authenticator, or the user that has logged in.\<close>

datatype srv_obj = NoObj | AuthObj | UserObj ptr

record server = socks5 +
  sv_fd0 :: int
  sv_fd1 :: int
  sv_obj :: srv_obj

text \<open>
  The authenticator with its reference count, and what \<open>getsockname\<close> answers; with no answer left it
  fails.
\<close>

record srv_world = world +
  w_auth :: auth
  w_auth_ref :: u32
  w_names :: "sockaddr6 option list"

type_synonym ('s, 'z) srv_run = "(int \<times> 's server_scheme \<times> 'z srv_world_scheme) option"

text \<open>The virtual methods: \<open>binder\<close> of the base class and \<open>binder\<close> of the server class.\<close>

record ('a, 'z) server_class =
  sc_bind :: "'a server_scheme \<Rightarrow> int \<Rightarrow> sockaddr6 \<Rightarrow> 'z srv_world_scheme \<Rightarrow> int \<times> 'z srv_world_scheme"
  sc_udp_bind :: "'a server_scheme \<Rightarrow> int \<Rightarrow> sockaddr6 \<Rightarrow> 'z srv_world_scheme \<Rightarrow> int \<times> sockaddr6 \<times> 'z srv_world_scheme"

definition hev_socks5_server_construct :: "'a server_scheme \<Rightarrow> int \<Rightarrow> int \<times> 'a server_scheme" where
  "hev_socks5_server_construct self fd =
     (let (res, self) = hev_socks5_construct self TYPE_NONE in
      if res < 0 then (res, self) else (0, self\<lparr>s_fd := fd, sv_fd0 := - 1, sv_fd1 := - 1\<rparr>))"

definition server_zero :: server where
  "server_zero = \<lparr>s_fd = 0, s_timeout = 0, s_type = TYPE_NONE, s_udp_associated = False, s_addr_family = 0,
     sv_fd0 = 0, sv_fd1 = 0, sv_obj = NoObj\<rparr>"

definition hev_socks5_server_new :: "int \<Rightarrow> 'z world_scheme \<Rightarrow> server option \<times> 'z world_scheme" where
  "hev_socks5_server_new fd w =
     (let (ok, w) = hev_malloc w in
      if \<not> ok then (None, w)
      else let (res, self) = hev_socks5_server_construct server_zero fd in
           if res < 0 then (None, hev_free w) else (Some self, w))"

text \<open>
  References. The last one that goes away destroys the object; after that it must not be touched.
\<close>

definition auth_ref :: "'z srv_world_scheme \<Rightarrow> 'z srv_world_scheme option" where
  "auth_ref w = (if w_auth_ref w = 0 then None else Some (w\<lparr>w_auth_ref := w_auth_ref w + 1\<rparr>))"

definition auth_unref :: "'z srv_world_scheme \<Rightarrow> 'z srv_world_scheme option" where
  "auth_unref w = (let rc = w_auth_ref w in
     if rc = 0 then None
     else if rc > 1 then Some (w\<lparr>w_auth_ref := rc - 1\<rparr>)
     else do { a \<leftarrow> hev_socks5_authenticator_destruct (w_auth w); Some (w\<lparr>w_auth_ref := 0, w_auth := a\<rparr>) })"

definition obj_unref :: "srv_obj \<Rightarrow> 'z srv_world_scheme \<Rightarrow> 'z srv_world_scheme option" where
  "obj_unref obj w =
     (case obj of
        NoObj \<Rightarrow> Some w
      | AuthObj \<Rightarrow> auth_unref w
      | UserObj p \<Rightarrow> do { a \<leftarrow> user_unref (w_auth w) p; Some (w\<lparr>w_auth := a\<rparr>) })"

definition hev_socks5_server_set_auth ::
  "'a server_scheme \<Rightarrow> 'z srv_world_scheme \<Rightarrow> ('a server_scheme \<times> 'z srv_world_scheme) option" where
  "hev_socks5_server_set_auth self w = do {
     w \<leftarrow> obj_unref (sv_obj self) w;
     w \<leftarrow> auth_ref w;
     Some (self\<lparr>sv_obj := AuthObj\<rparr>, w)
   }"

section \<open>The login\<close>

abbreviation server_recv where
  "server_recv self n w \<equiv> hev_task_io_socket_recv hev_socks5_task_io_yielder (s_fd self) n True False self w"

abbreviation server_send where
  "server_send self bs w \<equiv> hev_task_io_socket_send hev_socks5_task_io_yielder (s_fd self) bs self w"

definition hev_socks5_server_read_auth_method :: "'a server_scheme \<Rightarrow> 'z srv_world_scheme \<Rightarrow> ('a, 'z) srv_run" where
  "hev_socks5_server_read_auth_method self w = do {
     (res, hd, self, w) \<leftarrow> server_recv self 2 w;
     if res \<noteq> 2 then Some (- 1, self, w)
     else if hd ! 0 \<noteq> VERSION_5 then Some (- 1, self, w)
     else do {
       (res, methods, self, w) \<leftarrow> server_recv self (unat (hd ! 1)) w;
       if res \<noteq> int (unat (hd ! 1)) then Some (- 1, self, w)
       else do {
         let meth = (if sv_obj self \<noteq> NoObj then AUTH_METHOD_USER else AUTH_METHOD_NONE);
         Some (if meth \<in> set methods then uint meth else - 1, self, w)
       }
     }
   }"

definition hev_socks5_server_write_auth_method :: "int \<Rightarrow> 'a server_scheme \<Rightarrow> 'z srv_world_scheme \<Rightarrow> ('a, 'z) srv_run" where
  "hev_socks5_server_write_auth_method auth_method self w = do {
     (res, self, w) \<leftarrow> server_send self [VERSION_5, word_of_int auth_method] w;
     if res \<le> 0 then Some (- 1, self, w) else Some (0, self, w)
   }"

text \<open>Which user the name and the password belong to; a session without an authenticator has no business here.\<close>

definition check_login :: "'a server_scheme \<Rightarrow> u8 list \<Rightarrow> u8 list \<Rightarrow> 'z srv_world_scheme \<Rightarrow> ptr option option" where
  "check_login self name pass w =
     (if sv_obj self \<noteq> AuthObj \<or> w_auth_ref w = 0 then None
      else do {
        user \<leftarrow> hev_socks5_authenticator_get (w_auth w) name (of_nat (length name));
        if user = 0 then Some None
        else do {
          res \<leftarrow> hev_socks5_user_check hev_socks5_user_class (w_auth w) user pass (of_nat (length pass));
          Some (if res < 0 then None else Some user)
        }
      })"

definition hev_socks5_server_read_auth_user :: "'a server_scheme \<Rightarrow> 'z srv_world_scheme \<Rightarrow> ('a, 'z) srv_run" where
  "hev_socks5_server_read_auth_user self w = do {
     (res, hd, self, w) \<leftarrow> server_recv self 2 w;
     if res \<noteq> 2 then Some (- 1, self, w)
     else if hd ! 0 \<noteq> 1 then Some (- 1, self, w)
     else do {
       let nlen = unat (hd ! 1);
       if nlen = 0 then Some (- 1, self, w)
       else do {
         (res, name, self, w) \<leftarrow> server_recv self (nlen + 1) w;
         if res \<noteq> int (nlen + 1) then Some (- 1, self, w)
         else do {
           let plen = unat (name ! nlen);
           if plen = 0 then Some (- 1, self, w)
           else do {
             (res, pass, self, w) \<leftarrow> server_recv self plen w;
             if res \<noteq> int plen then Some (- 1, self, w)
             else do {
               user \<leftarrow> check_login self (take nlen name) pass w;
               case user of
                 None \<Rightarrow> Some (- 1, self, w)
               | Some user \<Rightarrow> do {
                   a \<leftarrow> user_ref (w_auth w) user;
                   w \<leftarrow> auth_unref (w\<lparr>w_auth := a\<rparr>);
                   Some (0, self\<lparr>sv_obj := UserObj user\<rparr>, w)
                 }
             }
           }
         }
       }
     }
   }"

definition hev_socks5_server_write_auth_user :: "int \<Rightarrow> 'a server_scheme \<Rightarrow> 'z srv_world_scheme \<Rightarrow> ('a, 'z) srv_run" where
  "hev_socks5_server_write_auth_user auth_res self w = do {
     (res, self, w) \<leftarrow> server_send self [1, word_of_int auth_res] w;
     if res \<le> 0 then Some (- 1, self, w) else Some (0, self, w)
   }"

text \<open>A result is negative when it or the result of sending it is (\<open>res |= ...\<close>).\<close>

definition hev_socks5_server_auth :: "'a server_scheme \<Rightarrow> 'z srv_world_scheme \<Rightarrow> ('a, 'z) srv_run" where
  "hev_socks5_server_auth self w = do {
     (meth, self, w) \<leftarrow> hev_socks5_server_read_auth_method self w;
     (res, self, w) \<leftarrow> hev_socks5_server_write_auth_method meth self w;
     if res < 0 then Some (- 1, self, w)
     else if meth = uint AUTH_METHOD_NONE then Some (0, self, w)
     else if meth = uint AUTH_METHOD_USER then do {
       (res, self, w) \<leftarrow> hev_socks5_server_read_auth_user self w;
       (res', self, w) \<leftarrow> hev_socks5_server_write_auth_user res self w;
       if res OR res' < 0 then Some (- 1, self, w) else Some (0, self, w)
     }
     else Some (- 1, self, w)
   }"

section \<open>The request\<close>

text \<open>How much of an address of the given type is still to come after its first two bytes.\<close>

definition request_addrlen :: "u8 \<Rightarrow> u8 \<Rightarrow> nat" where
  "request_addrlen atype len =
     (if atype = ADDR_TYPE_IPV4 then 5 else if atype = ADDR_TYPE_IPV6 then 17 else 2 + unat len)"

text \<open>
  The result, the command (set only when everything went well), the reply to give, the target and the
  rest of the state.
\<close>

definition hev_socks5_server_read_request ::
  "u8 \<Rightarrow> sockaddr6 \<Rightarrow> 'a server_scheme \<Rightarrow> 'z srv_world_scheme \<Rightarrow>
     (int \<times> u8 option \<times> u8 \<times> sockaddr6 \<times> 'a server_scheme \<times> 'z srv_world_scheme) option" where
  "hev_socks5_server_read_request rep addr self w = do {
     (res, req, self, w) \<leftarrow> server_recv self 5 w;
     if res \<noteq> 5 then Some (- 1, None, rep, addr, self, w)
     else if req ! 0 \<noteq> VERSION_5 then Some (0, None, RES_REP_FAIL, addr, self, w)
     else if req ! 3 \<notin> {ADDR_TYPE_IPV4, ADDR_TYPE_IPV6, ADDR_TYPE_NAME} then Some (0, None, RES_REP_ADDR, addr, self, w)
     else do {
       let addrlen = request_addrlen (req ! 3) (req ! 4);
       (res, bs, self, w) \<leftarrow> server_recv self addrlen w;
       if res \<noteq> int addrlen then Some (0, None, RES_REP_ADDR, addr, self, w)
       else do {
         let addr_family = hev_socks5_get_addr_family self;
         (res, addr, addr_family) \<leftarrow>
           hev_socks5_addr_into_sockaddr6 (w_libc w) (stack_addr ([req ! 3, req ! 4] @ bs) w) addr addr_family;
         if res < 0 then Some (0, None, RES_REP_ADDR, addr, self, w)
         else Some (0, Some (req ! 1), rep, addr, hev_socks5_set_addr_family self addr_family, w)
       }
     }
   }"

definition hev_socks5_server_write_response ::
  "u8 \<Rightarrow> sockaddr6 \<Rightarrow> 'a server_scheme \<Rightarrow> 'z srv_world_scheme \<Rightarrow> ('a, 'z) srv_run" where
  "hev_socks5_server_write_response rep addr self w = do {
     (ret, a) \<leftarrow> hev_socks5_addr_from_sockaddr6 (stack_addr [] w) addr;
     bs \<leftarrow> memget a 0 (nat ret);
     (ret, self, w) \<leftarrow> server_send self ([VERSION_5, rep, 0] @ bs) w;
     if ret \<le> 0 then Some (- 1, self, w) else Some (0, self, w)
   }"

section \<open>The sockets of the session\<close>

definition hev_socks5_server_connect ::
  "('a, 'z) server_class \<Rightarrow> sockaddr6 \<Rightarrow> 'a server_scheme \<Rightarrow> 'z srv_world_scheme \<Rightarrow> ('a, 'z) srv_run" where
  "hev_socks5_server_connect klass addr self w =
     (let (fd, w) = hev_socks5_socket SOCK_STREAM w in
      if fd < 0 then Some (- 1, self, w)
      else let (res, w) = sc_bind klass self fd addr w in
      if res < 0 then Some (- 1, self, close fd (hev_task_del_fd fd w))
      else do {
        let self = hev_socks5_set_timeout self (hev_socks5_get_connect_timeout (w_set w));
        (res, self, w) \<leftarrow> hev_task_io_socket_connect hev_socks5_task_io_yielder self w;
        if res < 0 then Some (- 1, self, close fd (hev_task_del_fd fd w))
        else do {
          let self = hev_socks5_set_timeout self (hev_socks5_get_tcp_timeout (w_set w));
          Some (0, self\<lparr>sv_fd0 := fd\<rparr>, w)
        }
      })"

text \<open>The address of the second socket goes into the answer, so it is part of the result.\<close>

definition hev_socks5_server_bind ::
  "('a, 'z) server_class \<Rightarrow> sockaddr6 option \<Rightarrow> 'a server_scheme \<Rightarrow> 'z srv_world_scheme \<Rightarrow>
     int \<times> sockaddr6 option \<times> 'a server_scheme \<times> 'z srv_world_scheme" where
  "hev_socks5_server_bind klass addr self w =
     (let (fd, w) = hev_socks5_socket SOCK_DGRAM w in
      if fd < 0 then (- 1, addr, self, w)
      else let self = self\<lparr>sv_fd0 := fd\<rparr> in
      case addr of
        None \<Rightarrow> (0, None, self, w)
      | Some a \<Rightarrow>
          let (fd, w) = hev_socks5_socket SOCK_DGRAM w in
          if fd < 0 then (- 1, addr, self, w)
          else let (res, w) = sys w in
          if res < 0 then (- 1, addr, self, close fd (hev_task_del_fd fd w))
          else let (res, a, w) = sc_udp_bind klass self fd a w in
          if res < 0 then (- 1, Some a, self, close fd (hev_task_del_fd fd w))
          else (0, Some a, self\<lparr>sv_fd1 := fd\<rparr>, w))"

definition getsockname :: "sockaddr6 \<Rightarrow> 'z srv_world_scheme \<Rightarrow> int \<times> sockaddr6 \<times> 'z srv_world_scheme" where
  "getsockname old w =
     (case w_names w of
        Some sa # ns \<Rightarrow> (0, sa, w\<lparr>w_names := ns\<rparr>)
      | None # ns \<Rightarrow> (- 1, old, w\<lparr>w_names := ns\<rparr>)
      | [] \<Rightarrow> (- 1, old, w))"

definition hev_socks5_server_udp_bind ::
  "'a server_scheme \<Rightarrow> int \<Rightarrow> sockaddr6 \<Rightarrow> 'z srv_world_scheme \<Rightarrow> int \<times> sockaddr6 \<times> 'z srv_world_scheme" where
  "hev_socks5_server_udp_bind self sock src w =
     (let (res, src, w) = getsockname src w in
      if res < 0 then (- 1, src, w)
      else let src = src\<lparr>sin6_port := 0\<rparr>; (res, w) = sys w in
      if res < 0 then (- 1, src, w)
      else let (res, src, w) = getsockname src w in
      if res < 0 then (- 1, src, w) else (0, src, w))"

section \<open>The handshake\<close>

definition server_command ::
  "('a, 'z) server_class \<Rightarrow> u8 \<Rightarrow> sockaddr6 \<Rightarrow> 'a server_scheme \<Rightarrow> 'z srv_world_scheme \<Rightarrow>
     (u8 \<times> sockaddr6 \<times> 'a server_scheme \<times> 'z srv_world_scheme) option" where
  "server_command klass cmd addr self w =
     (if cmd = REQ_CMD_CONNECT then do {
        (res, self, w) \<leftarrow> hev_socks5_server_connect klass addr self w;
        Some (if res < 0 then RES_REP_HOST else RES_REP_SUCC, addr, self\<lparr>s_type := TYPE_TCP\<rparr>, w)
      }
      else if cmd = REQ_CMD_UDP_ASC then
        let (res, a, self, w) = hev_socks5_server_bind klass (Some addr) self w
        in Some (if res < 0 then RES_REP_FAIL else RES_REP_SUCC, case a of Some a \<Rightarrow> a | None \<Rightarrow> addr,
             self\<lparr>s_type := TYPE_UDP_IN_UDP\<rparr>, w)
      else if cmd = REQ_CMD_FWD_UDP then
        let (res, _, self, w) = hev_socks5_server_bind klass None self w
        in Some (if res < 0 then RES_REP_FAIL else RES_REP_SUCC, addr, self\<lparr>s_type := TYPE_UDP_IN_TCP\<rparr>, w)
      else Some (RES_REP_IMPL, addr, self, w))"

definition hev_socks5_server_handshake :: "('a, 'z) server_class \<Rightarrow> 'a server_scheme \<Rightarrow> 'z srv_world_scheme \<Rightarrow> ('a, 'z) srv_run" where
  "hev_socks5_server_handshake klass self w = do {
     let addr = zero_sockaddr;
     let self = hev_socks5_set_timeout self (hev_socks5_get_tcp_timeout (w_set w));
     (res, self, w) \<leftarrow> hev_socks5_server_auth self w;
     if res < 0 then Some (- 1, self, w)
     else do {
       (res, cmd, rep, addr, self, w) \<leftarrow> hev_socks5_server_read_request RES_REP_SUCC addr self w;
       if res < 0 then Some (- 1, self, w)
       else do {
         (rep, addr, self, w) \<leftarrow> (if rep = RES_REP_SUCC then do { c \<leftarrow> cmd; server_command klass c addr self w }
            else Some (rep, addr, self, w));
         (res, self, w) \<leftarrow> hev_socks5_server_write_response rep addr self w;
         if res < 0 \<or> rep \<noteq> RES_REP_SUCC then Some (- 1, self, w) else Some (0, self, w)
       }
     }
   }"

section \<open>The service\<close>

definition hev_socks5_server_get_fd :: "'a server_scheme \<Rightarrow> int" where
  "hev_socks5_server_get_fd self =
     (case s_type self of TYPE_UDP_IN_TCP \<Rightarrow> s_fd self | TYPE_UDP_IN_UDP \<Rightarrow> sv_fd1 self | _ \<Rightarrow> - 1)"

definition server_iface :: "('a, 'z) server_class \<Rightarrow> ('a server_ext, 'z srv_world_ext) udp_iface" where
  "server_iface klass = \<lparr>iface_get_fd = hev_socks5_server_get_fd, iface_binder = sc_bind klass\<rparr>"

definition hev_socks5_server_service :: "('a, 'z) server_class \<Rightarrow> 'a server_scheme \<Rightarrow> 'z srv_world_scheme \<Rightarrow> ('a, 'z) srv_run" where
  "hev_socks5_server_service klass self w =
     (case s_type self of
        TYPE_TCP \<Rightarrow> do { (_, self, w) \<leftarrow> hev_socks5_tcp_splicer (sv_fd0 self) self w; Some (0, self, w) }
      | TYPE_NONE \<Rightarrow> Some (- 1, self, w)
      | _ \<Rightarrow> do {
          let self = hev_socks5_set_timeout self (hev_socks5_get_udp_timeout (w_set w));
          (_, self, w) \<leftarrow> hev_socks5_udp_splicer (server_iface klass) (sv_fd0 self) self w;
          Some (0, self, w)
        })"

definition hev_socks5_server_run :: "('a, 'z) server_class \<Rightarrow> 'a server_scheme \<Rightarrow> 'z srv_world_scheme \<Rightarrow> ('a, 'z) srv_run" where
  "hev_socks5_server_run klass self w = do {
     let (res, w) = hev_task_add_fd (s_fd self) w;
     let w = (if res < 0 then snd (hev_task_mod_fd (s_fd self) w) else w);
     (res, self, w) \<leftarrow> hev_socks5_server_handshake klass self w;
     if res < 0 then Some (- 1, self, w)
     else do {
       (res, self, w) \<leftarrow> hev_socks5_server_service klass self w;
       if res < 0 then Some (- 1, self, w) else Some (0, self, w)
     }
   }"

definition hev_socks5_server_destruct :: "'a server_scheme \<Rightarrow> 'z srv_world_scheme \<Rightarrow> 'z srv_world_scheme option" where
  "hev_socks5_server_destruct self w = do {
     let w = (if sv_fd0 self \<ge> 0 then close (sv_fd0 self) (hev_task_del_fd (sv_fd0 self) w) else w);
     let w = (if sv_fd1 self \<ge> 0 then close (sv_fd1 self) (hev_task_del_fd (sv_fd1 self) w) else w);
     w \<leftarrow> obj_unref (sv_obj self) w;
     Some (hev_socks5_destruct self w)
   }"

definition hev_socks5_server_class :: "('a, 'z) server_class" where
  "hev_socks5_server_class = \<lparr>sc_bind = hev_socks5_bind, sc_udp_bind = hev_socks5_server_udp_bind\<rparr>"

end
