(* ===== verification/Server_Login.thy ===== *)
theory Server_Login
  imports Socks5_Server Client_Handshake
begin

text \<open>
  What the server makes of the bytes of a client up to the end of the login: the wire forms it accepts,
  and that it lets a client in exactly when these bytes name a user of the authenticator and the
  password of that user.
\<close>

section \<open>Wire forms\<close>

text \<open>A greeting: the methods the client offers, and what follows.\<close>

fun greeting_of :: "u8 list \<Rightarrow> (u8 list \<times> u8 list) option" where
  "greeting_of (v # n # bs) =
     (if v = VERSION_5 \<and> unat n \<le> length bs then Some (take (unat n) bs, drop (unat n) bs) else None)"
| "greeting_of _ = None"

text \<open>A login: name, password, and what follows; neither may be empty.\<close>

fun login_of :: "u8 list \<Rightarrow> (u8 list \<times> u8 list \<times> u8 list) option" where
  "login_of (v # n # bs) =
     (if v = 1 \<and> n \<noteq> 0 \<and> unat n < length bs \<and> bs ! unat n \<noteq> 0 \<and> unat (bs ! unat n) \<le> length bs - Suc (unat n)
      then Some (take (unat n) bs, take (unat (bs ! unat n)) (drop (Suc (unat n)) bs),
        drop (unat (bs ! unat n)) (drop (Suc (unat n)) bs))
      else None)"
| "login_of _ = None"

definition account :: "auth \<Rightarrow> ptr list \<Rightarrow> u8 list \<Rightarrow> u8 list \<Rightarrow> ptr option" where
  "account a xs nm pw = (let m = member a xs nm in if m \<noteq> 0 \<and> pass_of (user_at a m) = pw then Some m else None)"

lemma account_iff:
  assumes "auth_inv a xs"
  shows "account a xs nm pw = Some m \<longleftrightarrow> m \<in> set xs \<and> name_of (user_at a m) = nm \<and> pass_of (user_at a m) = pw"
proof -
  have z: "0 \<notin> set xs" using assms rbi.holds_distinct by (auto simp: auth_inv_def)
  show ?thesis
  proof
    assume "account a xs nm pw = Some m"
    then have m: "m = member a xs nm" "m \<noteq> 0" "pass_of (user_at a m) = pw" by (auto simp: account_def Let_def split: if_split_asm)
    then obtain n where "n \<in> set xs" "name_of (user_at a n) = nm" using member_nonzero [OF assms, of nm] by auto
    then show "m \<in> set xs \<and> name_of (user_at a m) = nm \<and> pass_of (user_at a m) = pw"
      using m member_unique [OF assms] by metis
  next
    assume m: "m \<in> set xs \<and> name_of (user_at a m) = nm \<and> pass_of (user_at a m) = pw"
    then have "member a xs nm = m" "m \<noteq> 0" using member_unique [OF assms] z by auto
    then show "account a xs nm pw = Some m" using m by (simp add: account_def)
  qed
qed

lemma check_login_exact:
  assumes "auth_inv (w_auth w) xs" and "sv_obj self = AuthObj" and "w_auth_ref w \<noteq> 0"
    and "length nm < 2 ^ 32" and "length pw < 2 ^ 32"
  shows "check_login self nm pw w = Some (account (w_auth w) xs nm pw)"
proof -
  let ?a = "w_auth w" and ?m = "member (w_auth w) xs nm"
  have n: "unat (of_nat (length nm) :: u32) = length nm" "unat (of_nat (length pw) :: u32) = length pw"
    using assms(4,5) by (simp_all add: unat_of_nat)
  have g: "hev_socks5_authenticator_get ?a nm (of_nat (length nm)) = Some ?m"
    using auth_get_member [OF assms(1), of "of_nat (length nm)" nm] n(1) by simp
  show ?thesis
  proof (cases "?m = 0")
    case True
    then show ?thesis using g assms(2,3) by (simp add: check_login_def account_def)
  next
    case False
    then obtain k where k: "k \<in> set xs" "name_of (user_at ?a k) = nm" using member_nonzero [OF assms(1)] by blast
    then have "?m \<in> set xs" using member_unique [OF assms(1) k(1)] by simp
    then obtain u where u: "a_users ?a ?m = Some u" "user_ok u" using assms(1) by (auto simp: auth_inv_def)
    then show ?thesis using g False assms(2,3) user_check_exact [OF u, of "of_nat (length pw)" pw] n(2)
      by (simp add: check_login_def account_def user_at_def)
  qed
qed

section \<open>Reading and writing\<close>

lemma recv_ex:
  "\<exists>r bs w'. server_recv self n w = Some (r, bs, self, w') \<and> only_sock (s_fd self) w w' \<and>
     outgoing self w' = outgoing self w \<and> flowing self w' = flowing self w \<and>
     (if n \<le> length (incoming self w) then r = int n \<and> bs = take n (incoming self w) \<and> incoming self w' = drop n (incoming self w)
      else r \<noteq> int n)"
proof -
  have "wp (server_recv self n w) (\<lambda>(r, bs, s, w'). s = self \<and> only_sock (s_fd self) w w' \<and>
     outgoing self w' = outgoing self w \<and> flowing self w' = flowing self w \<and>
     (if n \<le> length (incoming self w) then r = int n \<and> bs = take n (incoming self w) \<and> incoming self w' = drop n (incoming self w)
      else r \<noteq> int n))"
    by (rule recv_wp) simp
  from wpD [OF this] show ?thesis by (auto split: prod.splits)
qed

lemma send_ex:
  assumes "bs \<noteq> []"
  shows "\<exists>r w'. server_send self bs w = Some (r, self, w') \<and> only_sock (s_fd self) w w' \<and> incoming self w' = incoming self w \<and>
     (flowing self w \<longrightarrow> r = int (length bs) \<and> outgoing self w' = outgoing self w @ bs \<and> flowing self w')"
proof -
  have "wp (server_send self bs w) (\<lambda>(r, s, w'). s = self \<and> only_sock (s_fd self) w w' \<and> incoming self w' = incoming self w \<and>
     (flowing self w \<longrightarrow> r = int (length bs) \<and> outgoing self w' = outgoing self w @ bs \<and> flowing self w'))"
    by (rule send_wp [OF assms]) simp
  from wpD [OF this] show ?thesis by (auto split: prod.splits)
qed

lemma only_sock_auth: "only_sock fd w w' \<Longrightarrow> w_auth w' = w_auth w \<and> w_auth_ref w' = w_auth_ref w \<and> w_names w' = w_names w"
  by (auto simp: only_sock_def)

section \<open>The method\<close>

definition wanted :: "'a server_scheme \<Rightarrow> u8" where
  "wanted self = (if sv_obj self \<noteq> NoObj then AUTH_METHOD_USER else AUTH_METHOD_NONE)"

definition chosen :: "'a server_scheme \<Rightarrow> u8 list \<Rightarrow> int" where
  "chosen self bs = (case greeting_of bs of
       Some (ms, _) \<Rightarrow> if wanted self \<in> set ms then uint (wanted self) else - 1
     | None \<Rightarrow> - 1)"

lemma read_auth_method_ex:
  "\<exists>w'. hev_socks5_server_read_auth_method self w = Some (chosen self (incoming self w), self, w') \<and>
     only_sock (s_fd self) w w' \<and> outgoing self w' = outgoing self w \<and> flowing self w' = flowing self w \<and>
     (\<forall>ms rest. greeting_of (incoming self w) = Some (ms, rest) \<longrightarrow> incoming self w' = rest)"
proof -
  let ?i = "incoming self w"
  from recv_ex [of self 2 w] obtain r hd w1 where
    r1: "server_recv self 2 w = Some (r, hd, self, w1)" "only_sock (s_fd self) w w1"
      "outgoing self w1 = outgoing self w" "flowing self w1 = flowing self w"
      "if 2 \<le> length ?i then r = int 2 \<and> hd = take 2 ?i \<and> incoming self w1 = drop 2 ?i else r \<noteq> int 2" by blast
  show ?thesis
  proof (cases "2 \<le> length ?i")
    case False
    then have "chosen self ?i = - 1" by (cases ?i rule: greeting_of.cases) (auto simp: chosen_def)
    moreover have "greeting_of ?i = None" using False by (cases ?i rule: greeting_of.cases) auto
    ultimately show ?thesis using r1 False by (simp add: hev_socks5_server_read_auth_method_def)
  next
    case True
    then obtain v n bs where i: "?i = v # n # bs" using two_bytes by blast
    have h: "r = 2" "hd = [v, n]" "incoming self w1 = bs" using r1(5) True i by simp_all
    show ?thesis
    proof (cases "v = VERSION_5")
      case False
      then show ?thesis using r1 h i by (simp add: hev_socks5_server_read_auth_method_def chosen_def)
    next
      case v: True
      from recv_ex [of self "unat n" w1] obtain s ms w2 where
        r2: "server_recv self (unat n) w1 = Some (s, ms, self, w2)" "only_sock (s_fd self) w1 w2"
          "outgoing self w2 = outgoing self w1" "flowing self w2 = flowing self w1"
          "if unat n \<le> length bs then s = int (unat n) \<and> ms = take (unat n) bs \<and> incoming self w2 = drop (unat n) bs
           else s \<noteq> int (unat n)" unfolding h(3) by blast
      show ?thesis
      proof (cases "unat n \<le> length bs")
        case True
        then have "greeting_of ?i = Some (take (unat n) bs, drop (unat n) bs)" using i v by simp
        then show ?thesis using r1 r2 h v True only_sock_trans [OF r1(2) r2(2)]
          by (simp add: hev_socks5_server_read_auth_method_def chosen_def wanted_def Let_def)
      next
        case False
        then have "greeting_of ?i = None" using i v by simp
        then show ?thesis using r1 r2 h v False only_sock_trans [OF r1(2) r2(2)]
          by (simp add: hev_socks5_server_read_auth_method_def chosen_def del: of_nat_unat uint_nat)
      qed
    qed
  qed
qed


section \<open>The user\<close>

lemma u8_less: "unat (x :: u8) < 256"
  using unsigned_less [of x] by simp

text \<open>Everything but the sockets, \<open>errno\<close> and the authenticator.\<close>

definition same_env :: "'z srv_world_scheme \<Rightarrow> 'z srv_world_scheme \<Rightarrow> bool" where
  "same_env w w' \<longleftrightarrow> w_sys w' = w_sys w \<and> w_open w' = w_open w \<and> w_poll w' = w_poll w \<and> w_alloc w' = w_alloc w \<and>
     w_live w' = w_live w \<and> w_stack w' = w_stack w \<and> w_libc w' = w_libc w \<and> w_protect w' = w_protect w \<and>
     w_set w' = w_set w \<and> w_names w' = w_names w"

lemma same_env_refl [simp]: "same_env w w"
  by (simp add: same_env_def)

lemma same_env_trans [trans]: "same_env w w' \<Longrightarrow> same_env w' w'' \<Longrightarrow> same_env w w''"
  by (simp add: same_env_def)

lemma only_sock_env: "only_sock fd w w' \<Longrightarrow> same_env w w'"
  using only_sock_fields [of fd w w'] only_sock_auth [of fd w w'] by (simp add: same_env_def)

definition login :: "auth \<Rightarrow> ptr list \<Rightarrow> u8 list \<Rightarrow> (ptr \<times> u8 list) option" where
  "login a xs bs = (case login_of bs of
       Some (nm, pw, rest) \<Rightarrow> map_option (\<lambda>m. (m, rest)) (account a xs nm pw)
     | None \<Rightarrow> None)"

text \<open>The session now refers to the user instead of the authenticator.\<close>

definition takes_user :: "ptr \<Rightarrow> 'z srv_world_scheme \<Rightarrow> 'z srv_world_scheme \<Rightarrow> bool" where
  "takes_user m w w' \<longleftrightarrow> same_env w w' \<and> user_ref (w_auth w) m = Some (w_auth w') \<and> w_auth_ref w' = w_auth_ref w - 1"

lemma takes_user_sock: "takes_user m w w' \<Longrightarrow> only_sock fd w' w'' \<Longrightarrow> takes_user m w w''"
  using only_sock_auth [of fd w' w''] only_sock_env [of fd w' w''] same_env_trans [of w w' w''] by (simp add: takes_user_def)

lemma takes_user_sock': "only_sock fd w w' \<Longrightarrow> takes_user m w' w'' \<Longrightarrow> takes_user m w w''"
  using only_sock_auth [of fd w w'] only_sock_env [of fd w w'] same_env_trans [of w w' w''] by (simp add: takes_user_def)

lemma read_auth_user_ex:
  assumes "auth_inv (w_auth w) xs" and "sv_obj self = AuthObj" and "1 < w_auth_ref w"
  shows "\<exists>r self' w'. hev_socks5_server_read_auth_user self w = Some (r, self', w') \<and>
     outgoing self w' = outgoing self w \<and> flowing self w' = flowing self w \<and>
     (case login (w_auth w) xs (incoming self w) of
        Some (m, rest) \<Rightarrow> r = 0 \<and> self' = self\<lparr>sv_obj := UserObj m\<rparr> \<and> incoming self w' = rest \<and> takes_user m w w'
      | None \<Rightarrow> r = - 1 \<and> self' = self \<and> only_sock (s_fd self) w w')"
proof -
  let ?i = "incoming self w" and ?run = "hev_socks5_server_read_auth_user self w"
  let ?goal = "\<lambda>r self' w'. ?run = Some (r, self', w') \<and> outgoing self w' = outgoing self w \<and> flowing self w' = flowing self w \<and>
     (case login (w_auth w) xs ?i of
        Some (m, rest) \<Rightarrow> r = 0 \<and> self' = self\<lparr>sv_obj := UserObj m\<rparr> \<and> incoming self w' = rest \<and> takes_user m w w'
      | None \<Rightarrow> r = - 1 \<and> self' = self \<and> only_sock (s_fd self) w w')"
  have fail: "\<exists>r self' w'. ?goal r self' w'"
    if "?run = Some (- 1, self, w')" "login (w_auth w) xs ?i = None" "only_sock (s_fd self) w w'"
      "outgoing self w' = outgoing self w" "flowing self w' = flowing self w" for w'
    using that by simp
  from recv_ex [of self 2 w] obtain r hd w1 where
    r1: "server_recv self 2 w = Some (r, hd, self, w1)" "only_sock (s_fd self) w w1"
      "outgoing self w1 = outgoing self w" "flowing self w1 = flowing self w"
      "if 2 \<le> length ?i then r = int 2 \<and> hd = take 2 ?i \<and> incoming self w1 = drop 2 ?i else r \<noteq> int 2" by blast
  show ?thesis
  proof (cases "2 \<le> length ?i")
    case False
    then have "login_of ?i = None" by (cases ?i rule: login_of.cases) auto
    then show ?thesis using r1 False by (intro fail [of w1]) (simp_all add: hev_socks5_server_read_auth_user_def login_def)
  next
    case True
    then obtain v n bs where i: "?i = v # n # bs" using two_bytes by blast
    have h: "r = 2" "hd = [v, n]" "incoming self w1 = bs" using r1(5) True i by simp_all
    show ?thesis
    proof (cases "v = 1 \<and> n \<noteq> 0")
      case False
      then have "login_of ?i = None" using i by auto
      then show ?thesis using r1 h False
        by (intro fail [of w1]) (auto simp: hev_socks5_server_read_auth_user_def login_def unat_eq_0)
    next
      case vn: True
      let ?n = "unat n"
      have n0: "?n \<noteq> 0" using vn by (simp add: unat_eq_0)
      from recv_ex [of self "?n + 1" w1] obtain s name w2 where
        r2: "server_recv self (?n + 1) w1 = Some (s, name, self, w2)" "only_sock (s_fd self) w1 w2"
          "outgoing self w2 = outgoing self w1" "flowing self w2 = flowing self w1"
          "if ?n + 1 \<le> length bs then s = int (?n + 1) \<and> name = take (?n + 1) bs \<and> incoming self w2 = drop (?n + 1) bs
           else s \<noteq> int (?n + 1)" unfolding h(3) by blast
      note o2 = only_sock_trans [OF r1(2) r2(2)]
      show ?thesis
      proof (cases "?n + 1 \<le> length bs")
        case False
        then have "login_of ?i = None" using i by auto
        then show ?thesis using r1 r2 h False o2 vn n0
          by (intro fail [of w2]) (simp_all add: hev_socks5_server_read_auth_user_def login_def Let_def)
      next
        case True
        let ?p = "unat (bs ! ?n)"
        have nm: "name ! ?n = bs ! ?n" "take ?n name = take ?n bs" using r2(5) True by simp_all
        have s2: "s = int (?n + 1)" "incoming self w2 = drop (?n + 1) bs" using r2(5) True by simp_all
        show ?thesis
        proof (cases "?p = 0")
          case p: True
          then have "bs ! ?n = 0" by (simp add: unat_eq_0)
          then have "login_of ?i = None" using i by simp
          then show ?thesis using r1 r2 h True p o2 vn n0 nm s2
            by (intro fail [of w2]) (simp_all add: hev_socks5_server_read_auth_user_def login_def Let_def)
        next
          case p: False
          then have p0: "bs ! ?n \<noteq> 0" by (simp add: unat_eq_0)
          from recv_ex [of self ?p w2] obtain t pw w3 where
            r3: "server_recv self ?p w2 = Some (t, pw, self, w3)" "only_sock (s_fd self) w2 w3"
              "outgoing self w3 = outgoing self w2" "flowing self w3 = flowing self w2"
              "if ?p \<le> length (drop (?n + 1) bs) then t = int ?p \<and> pw = take ?p (drop (?n + 1) bs) \<and>
                 incoming self w3 = drop ?p (drop (?n + 1) bs) else t \<noteq> int ?p" unfolding s2(2) by blast
          note o3 = only_sock_trans [OF o2 r3(2)]
          note au = only_sock_auth [OF o3]
          have run: "?run = (if t \<noteq> int ?p then Some (- 1, self, w3) else do {
               user \<leftarrow> check_login self (take ?n bs) pw w3;
               case user of
                 None \<Rightarrow> Some (- 1, self, w3)
               | Some user \<Rightarrow> do {
                   a \<leftarrow> user_ref (w_auth w3) user;
                   w \<leftarrow> auth_unref (w3\<lparr>w_auth := a\<rparr>);
                   Some (0, self\<lparr>sv_obj := UserObj user\<rparr>, w)
                 } })"
            unfolding hev_socks5_server_read_auth_user_def using r1(1) r2(1) r3(1) h vn n0 nm s2(1) p
            by (simp add: Let_def)
          show ?thesis
          proof (cases "?p \<le> length (drop (?n + 1) bs)")
            case pl: False
            then have "login_of ?i = None" using i by auto
            then show ?thesis using run r1 r2 r3 o3 pl
              by (intro fail [of w3]) (simp_all add: login_def)
          next
            case pl: True
            let ?nm = "take ?n bs" and ?pw = "take ?p (drop (?n + 1) bs)"
            have lo: "login_of ?i = Some (?nm, ?pw, drop ?p (drop (?n + 1) bs))"
              using i vn True p0 pl by simp
            have t3: "t = int ?p" "pw = ?pw" "incoming self w3 = drop ?p (drop (?n + 1) bs)" using r3(5) pl by simp_all
            have len: "length ?nm < 2 ^ 32" "length ?pw < 2 ^ 32" using u8_less [of n] u8_less [of "bs ! ?n"] by auto
            have inv: "auth_inv (w_auth w3) xs" "w_auth_ref w3 \<noteq> 0" using assms(1,3) au by auto
            note ck = check_login_exact [OF inv(1) assms(2) inv(2) len]
            show ?thesis
            proof (cases "account (w_auth w) xs ?nm ?pw")
              case None
              then show ?thesis using run t3 ck au r1 r2 r3 o3 lo
                by (intro fail [of w3]) (simp_all add: login_def)
            next
              case (Some m)
              then have "m \<in> set xs" using account_iff [OF assms(1)] by blast
              then obtain u where u: "a_users (w_auth w) m = Some u" using assms(1) by (auto simp: auth_inv_def)
              then obtain a where a: "user_ref (w_auth w) m = Some a" by (simp add: user_ref_def)
              let ?w = "w3\<lparr>w_auth := a, w_auth_ref := w_auth_ref w - 1\<rparr>"
              have "auth_unref (w3\<lparr>w_auth := a\<rparr>) = Some ?w" using au assms(3) by (auto simp: auth_unref_def Let_def)
              then have "?run = Some (0, self\<lparr>sv_obj := UserObj m\<rparr>, ?w)"
                using run t3 ck au Some a by simp
              moreover have "takes_user m w ?w"
                using a only_sock_env [OF o3] by (simp add: takes_user_def same_env_def)
              moreover have "incoming self ?w = drop ?p (drop (?n + 1) bs)" "outgoing self ?w = outgoing self w" "flowing self ?w = flowing self w"
                using t3(3) r1(3,4) r2(3,4) r3(3,4) by (simp_all add: incoming_def outgoing_def flowing_def)
              ultimately show ?thesis using lo Some by (simp add: login_def)
            qed
          qed
        qed
      qed
    qed
  qed
qed


section \<open>The login as a whole\<close>

definition admitted :: "auth \<Rightarrow> ptr list \<Rightarrow> u8 list \<Rightarrow> (ptr \<times> u8 list) option" where
  "admitted a xs bs = (case greeting_of bs of
       Some (ms, rest) \<Rightarrow> if AUTH_METHOD_USER \<in> set ms then login a xs rest else None
     | None \<Rightarrow> None)"

lemma write_auth_method_ex:
  "\<exists>r w'. hev_socks5_server_write_auth_method m self w = Some (r, self, w') \<and> (r = 0 \<or> r = - 1) \<and> only_sock (s_fd self) w w' \<and>
     incoming self w' = incoming self w \<and>
     (flowing self w \<longrightarrow> r = 0 \<and> outgoing self w' = outgoing self w @ [VERSION_5, word_of_int m] \<and> flowing self w')"
proof -
  have ne: "[VERSION_5, word_of_int m] \<noteq> ([] :: u8 list)" by simp
  from send_ex [OF ne, of self w] obtain r w' where
    "server_send self [VERSION_5, word_of_int m] w = Some (r, self, w')" "only_sock (s_fd self) w w'" "incoming self w' = incoming self w"
    "flowing self w \<longrightarrow> r = int (length [VERSION_5, word_of_int m]) \<and> outgoing self w' = outgoing self w @ [VERSION_5, word_of_int m] \<and> flowing self w'"
    by blast
  then show ?thesis by (cases "r \<le> 0") (auto simp: hev_socks5_server_write_auth_method_def)
qed

lemma write_auth_user_ex:
  "\<exists>r w'. hev_socks5_server_write_auth_user m self w = Some (r, self, w') \<and> (r = 0 \<or> r = - 1) \<and> only_sock (s_fd self) w w' \<and>
     incoming self w' = incoming self w \<and>
     (flowing self w \<longrightarrow> r = 0 \<and> outgoing self w' = outgoing self w @ [1, word_of_int m] \<and> flowing self w')"
proof -
  have ne: "[1, word_of_int m] \<noteq> ([] :: u8 list)" by simp
  from send_ex [OF ne, of self w] obtain r w' where
    "server_send self [1, word_of_int m] w = Some (r, self, w')" "only_sock (s_fd self) w w'" "incoming self w' = incoming self w"
    "flowing self w \<longrightarrow> r = int (length [1, word_of_int m :: u8]) \<and> outgoing self w' = outgoing self w @ [1, word_of_int m] \<and> flowing self w'"
    by blast
  then show ?thesis by (cases "r \<le> 0") (auto simp: hev_socks5_server_write_auth_user_def)
qed

lemma minus_or: "(- 1 :: int) OR r = - 1" "(0 :: int) OR r = r"
  by simp_all

lemma obj_same [simp]: "incoming (self\<lparr>sv_obj := ob\<rparr>) w = incoming self w" "outgoing (self\<lparr>sv_obj := ob\<rparr>) w = outgoing self w"
  "flowing (self\<lparr>sv_obj := ob\<rparr>) w = flowing self w"
  by (simp_all add: incoming_def outgoing_def flowing_def)

lemma auth_ex:
  assumes "auth_inv (w_auth w) xs" and "sv_obj self = AuthObj" and "1 < w_auth_ref w"
  shows "\<exists>r self' w'. hev_socks5_server_auth self w = Some (r, self', w') \<and> (r = 0 \<or> r = - 1) \<and>
     (case admitted (w_auth w) xs (incoming self w) of
        Some (m, rest) \<Rightarrow>
          (r = 0 \<longrightarrow> self' = self\<lparr>sv_obj := UserObj m\<rparr> \<and> takes_user m w w') \<and>
          (self' = self \<and> only_sock (s_fd self) w w' \<or> self' = self\<lparr>sv_obj := UserObj m\<rparr> \<and> takes_user m w w') \<and>
          (flowing self w \<longrightarrow> r = 0 \<and> outgoing self w' = outgoing self w @ [VERSION_5, AUTH_METHOD_USER, 1, RES_REP_SUCC] \<and>
             incoming self w' = rest \<and> flowing self w')
      | None \<Rightarrow> r = - 1 \<and> self' = self \<and> only_sock (s_fd self) w w')"
proof -
  let ?i = "incoming self w" and ?c = "chosen self (incoming self w)"
  have want: "wanted self = AUTH_METHOD_USER" using assms(2) by (simp add: wanted_def)
  from read_auth_method_ex [of self w] obtain w1 where
    r1: "hev_socks5_server_read_auth_method self w = Some (?c, self, w1)" "only_sock (s_fd self) w w1"
      "outgoing self w1 = outgoing self w" "flowing self w1 = flowing self w"
      "\<forall>ms rest. greeting_of ?i = Some (ms, rest) \<longrightarrow> incoming self w1 = rest" by blast
  from write_auth_method_ex [of ?c self w1] obtain r w2 where
    r2: "hev_socks5_server_write_auth_method ?c self w1 = Some (r, self, w2)" "r = 0 \<or> r = - 1" "only_sock (s_fd self) w1 w2"
      "incoming self w2 = incoming self w1"
      "flowing self w1 \<longrightarrow> r = 0 \<and> outgoing self w2 = outgoing self w1 @ [VERSION_5, word_of_int ?c] \<and> flowing self w2" by blast
  note o2 = only_sock_trans [OF r1(2) r2(3)]
  show ?thesis
  proof (cases "?c = uint AUTH_METHOD_USER")
    case False
    then have c: "?c = - 1" using want by (auto simp: chosen_def split: option.split_asm prod.split_asm if_split_asm)
    then have "admitted (w_auth w) xs ?i = None"
      using want by (auto simp: admitted_def chosen_def split: option.splits prod.splits if_split_asm)
    then show ?thesis using r1(1) r2(1,2) c o2 by (auto simp: hev_socks5_server_auth_def)
  next
    case True
    then obtain ms rest where g: "greeting_of ?i = Some (ms, rest)" "AUTH_METHOD_USER \<in> set ms"
      using want by (auto simp: chosen_def split: option.split_asm prod.split_asm if_split_asm)
    have adm: "admitted (w_auth w) xs ?i = login (w_auth w) xs rest" using g by (simp add: admitted_def)
    have i2: "incoming self w2 = rest" using r1(5) r2(4) g by simp
    show ?thesis
    proof (cases "r < 0")
      case r: True
      then have nf: "\<not> flowing self w" using r1(4) r2(5) by auto
      have run: "hev_socks5_server_auth self w = Some (- 1, self, w2)"
        using r1(1) r2(1) r by (simp add: hev_socks5_server_auth_def)
      show ?thesis unfolding adm using run nf o2 by (cases "login (w_auth w) xs rest") auto
    next
      case r: False
      have au: "w_auth w2 = w_auth w" "w_auth_ref w2 = w_auth_ref w" using only_sock_auth [OF o2] by simp_all
      from read_auth_user_ex [of w2 xs self] assms au i2 obtain s self3 w3 where
        r3: "hev_socks5_server_read_auth_user self w2 = Some (s, self3, w3)"
          "outgoing self w3 = outgoing self w2" "flowing self w3 = flowing self w2"
          "case login (w_auth w) xs rest of
             Some (m, rest) \<Rightarrow> s = 0 \<and> self3 = self\<lparr>sv_obj := UserObj m\<rparr> \<and> incoming self w3 = rest \<and> takes_user m w2 w3
           | None \<Rightarrow> s = - 1 \<and> self3 = self \<and> only_sock (s_fd self) w2 w3" by auto
      from write_auth_user_ex [of s self3 w3] obtain t w4 where
        r4: "hev_socks5_server_write_auth_user s self3 w3 = Some (t, self3, w4)" "t = 0 \<or> t = - 1"
          "only_sock (s_fd self3) w3 w4" "incoming self3 w4 = incoming self3 w3"
          "flowing self3 w3 \<longrightarrow> t = 0 \<and> outgoing self3 w4 = outgoing self3 w3 @ [1, word_of_int s] \<and> flowing self3 w4" by blast
      have run: "hev_socks5_server_auth self w = Some (if s OR t < 0 then - 1 else 0, self3, w4)"
        using r1(1) r2(1) r r3(1) r4(1) True by (simp add: hev_socks5_server_auth_def)
      show ?thesis
      proof (cases "login (w_auth w) xs rest")
        case None
        then have "s = - 1" "self3 = self" "only_sock (s_fd self) w w4"
          using r3(4) r4(3) only_sock_trans [OF o2, of w3] only_sock_trans [of "s_fd self" w w3 w4] by auto
        then show ?thesis unfolding adm using None run by (simp add: minus_or)
      next
        case (Some p)
        obtain m rest' where p: "p = (m, rest')" by (cases p)
        have l: "s = 0" "self3 = self\<lparr>sv_obj := UserObj m\<rparr>" "incoming self w3 = rest'" "takes_user m w2 w3"
          using r3(4) Some p by simp_all
        have tk: "takes_user m w w4" using takes_user_sock [OF takes_user_sock' [OF o2 l(4)] r4(3)] .
        have "outgoing self w4 = outgoing self w @ [VERSION_5, AUTH_METHOD_USER, 1, RES_REP_SUCC] \<and> t = 0 \<and> flowing self w4"
          if "flowing self w"
          using that r1(3,4) r2(5) r3(2,3) r4(5) l(1,2) True by simp
        moreover have "incoming self w4 = rest'" using r4(4) l(2,3) by simp
        ultimately show ?thesis unfolding adm using Some p run l(1,2) tk r4(2) by auto
      qed
    qed
  qed
qed


text \<open>A session without an authenticator lets in whoever offers that.\<close>

lemma auth_free_ex:
  assumes "sv_obj self = NoObj"
  shows "\<exists>r w'. hev_socks5_server_auth self w = Some (r, self, w') \<and> (r = 0 \<or> r = - 1) \<and> only_sock (s_fd self) w w' \<and>
     (case greeting_of (incoming self w) of
        Some (ms, rest) \<Rightarrow>
          if AUTH_METHOD_NONE \<in> set ms
          then flowing self w \<longrightarrow> r = 0 \<and> outgoing self w' = outgoing self w @ [VERSION_5, AUTH_METHOD_NONE] \<and>
             incoming self w' = rest \<and> flowing self w'
          else r = - 1
      | None \<Rightarrow> r = - 1)"
proof -
  let ?i = "incoming self w" and ?c = "chosen self (incoming self w)"
  have want: "wanted self = AUTH_METHOD_NONE" using assms by (simp add: wanted_def)
  from read_auth_method_ex [of self w] obtain w1 where
    r1: "hev_socks5_server_read_auth_method self w = Some (?c, self, w1)" "only_sock (s_fd self) w w1"
      "outgoing self w1 = outgoing self w" "flowing self w1 = flowing self w"
      "\<forall>ms rest. greeting_of ?i = Some (ms, rest) \<longrightarrow> incoming self w1 = rest" by blast
  from write_auth_method_ex [of ?c self w1] obtain r w2 where
    r2: "hev_socks5_server_write_auth_method ?c self w1 = Some (r, self, w2)" "r = 0 \<or> r = - 1" "only_sock (s_fd self) w1 w2"
      "incoming self w2 = incoming self w1"
      "flowing self w1 \<longrightarrow> r = 0 \<and> outgoing self w2 = outgoing self w1 @ [VERSION_5, word_of_int ?c] \<and> flowing self w2" by blast
  note o2 = only_sock_trans [OF r1(2) r2(3)]
  have c: "?c = (case greeting_of ?i of Some (ms, _) \<Rightarrow> if AUTH_METHOD_NONE \<in> set ms then 0 else - 1 | None \<Rightarrow> - 1)"
    unfolding chosen_def want by (simp split: option.split prod.split)
  have run: "hev_socks5_server_auth self w = Some (if r < 0 \<or> ?c \<noteq> 0 then - 1 else 0, self, w2)"
    using r1(1) r2(1) c by (auto simp: hev_socks5_server_auth_def split: option.splits prod.splits if_splits)
  show ?thesis
  proof (cases "?c = 0")
    case False
    then show ?thesis using run o2 c by (auto split: option.splits prod.splits if_splits)
  next
    case True
    then obtain ms rest where g: "greeting_of ?i = Some (ms, rest)" "AUTH_METHOD_NONE \<in> set ms"
      using c by (auto split: option.split_asm prod.split_asm if_split_asm)
    then show ?thesis using run True o2 r1 r2 by auto
  qed
qed

end
