(* ===== verification/Server_Session.thy ===== *)
theory Server_Session
  imports Server_Login Udp_Relay
begin

text \<open>
  The handshake of the server after the login: the request, the sockets it opens for the session and
  the answer; what a session leaves behind when it is destroyed.
\<close>

section \<open>The request\<close>

lemma into_sockaddr6_total:
  assumes "length b = addr_size" and "addr_atype b \<in> {Some ADDR_TYPE_IPV4, Some ADDR_TYPE_IPV6, Some ADDR_TYPE_NAME}"
  shows "\<exists>r. hev_socks5_addr_into_sockaddr6 lc b sa fam = Some r"
proof -
  have l: "\<exists>p. load16 (drop n b) = Some p" if "n + 2 \<le> addr_size" for n
    using that assms(1) by (cases "drop n b" rule: load16.cases) (auto dest: arg_cong [where f = length])
  have nl: "addr_name_len b = Some (b ! 1)" using assms(1) by (simp add: addr_name_len_def byte_at_def addr_size_def)
  have ln: "\<exists>p. load16 (drop (2 + unat (b ! 1)) b) = Some p" using u8_less [of "b ! 1"] by (intro l) (simp add: addr_size_def)
  have c: "\<exists>s. cstr (n @ [0]) = Some s" for n :: "u8 list"
    by (induction n) (auto simp: cstr.simps)
  show ?thesis
    using assms u8_less [of "b ! 1"] l [of 5] l [of 17] ln nl c [of "take (unat (b ! 1)) (drop 2 b)"]
    by (auto simp del: split_paired_Ex simp: hev_socks5_addr_into_sockaddr6_def hev_socks5_ipv4_into_sockaddr6_def hev_socks5_ipv6_into_sockaddr6_def
        memget_def addr_size_def)
qed


text \<open>The resolver and the parser hand out whole addresses, as documented.\<close>

definition libc_ok :: "libc \<Rightarrow> bool" where
  "libc_ok lc \<longleftrightarrow> (\<forall>s a. inet_pton6 lc s = Some a \<longrightarrow> length a = 16) \<and>
     (\<forall>s f g a. getaddrinfo lc s f = Some (g, a) \<longrightarrow> (if g = AF_INET then 4 else 16) \<le> length a)"

lemma pton4_loop_length: "pton4_loop s ds saw cur = Some a \<Longrightarrow> length a = 4"
  by (induction s ds saw cur rule: pton4_loop.induct) (auto simp: Let_def split: if_split_asm)

lemma into_sockaddr6_length:
  assumes "libc_ok lc" and "length (sin6_addr sa) = 16" and "hev_socks5_addr_into_sockaddr6 lc b sa fam = Some (r, sa', fam')"
  shows "length (sin6_addr sa') = 16"
proof -
  have n: "length (sin6_addr sa') = 16" if "hev_socks5_name_into_sockaddr6 lc nm p sa f = (r, sa', f')" for nm p f r f'
  proof (cases "inet_pton4 nm")
    case (Some a)
    then have "length a = 4" by (simp add: inet_pton4_def pton4_loop_length)
    then show ?thesis using that Some
      by (auto simp: hev_socks5_name_into_sockaddr6_def hev_socks5_name_resolve_ipv4_def Let_def)
  next
    case none: None
    show ?thesis
    proof (cases "inet_pton6 lc nm")
      case (Some a)
      then have "length a = 16" using assms(1) by (simp add: libc_ok_def)
      then show ?thesis using that none Some
        by (auto simp: hev_socks5_name_into_sockaddr6_def hev_socks5_name_resolve_ipv4_def hev_socks5_name_resolve_ipv6_def Let_def)
    next
      case none6: None
      have run: "hev_socks5_name_into_sockaddr6 lc nm p sa f = hev_socks5_name_resolve_name lc nm
          (sa\<lparr>sin6_family := AF_INET6, sin6_port := htons p, sin6_addr := replicate 10 0 @ drop 10 (sin6_addr sa)\<rparr>) f"
        using none none6 by (simp add: hev_socks5_name_into_sockaddr6_def hev_socks5_name_resolve_ipv4_def
            hev_socks5_name_resolve_ipv6_def Let_def)
      show ?thesis
      proof (cases "getaddrinfo lc nm f")
        case None
        then show ?thesis using that assms(2) unfolding run by (auto simp: hev_socks5_name_resolve_name_def)
      next
        case (Some q)
        obtain g a where q: "q = (g, a)" by (cases q)
        have "(if g = AF_INET then 4 else 16) \<le> length a" using assms(1) Some q by (auto simp: libc_ok_def)
        then show ?thesis using that Some q assms(2) unfolding run
          by (auto simp: hev_socks5_name_resolve_name_def split: if_split_asm)
      qed
    qed
  qed
  from assms(3) obtain t where t: "addr_atype b = Some t"
    by (auto simp: hev_socks5_addr_into_sockaddr6_def split: bind_split_asm)
  consider "t = ADDR_TYPE_IPV4" | "t = ADDR_TYPE_IPV6" | "t = ADDR_TYPE_NAME"
    | "t \<noteq> ADDR_TYPE_IPV4" "t \<noteq> ADDR_TYPE_IPV6" "t \<noteq> ADDR_TYPE_NAME" by blast
  then show ?thesis
  proof cases
    case 3
    then obtain nm p where "hev_socks5_name_into_sockaddr6 lc nm p sa fam = (r, sa', fam')"
      using assms(3) t by (auto simp: hev_socks5_addr_into_sockaddr6_def split: bind_split_asm)
    then show ?thesis by (rule n)
  qed (use assms(2,3) t in \<open>auto simp: hev_socks5_addr_into_sockaddr6_def hev_socks5_ipv4_into_sockaddr6_def
      hev_socks5_ipv6_into_sockaddr6_def memget_def split: bind_split_asm if_split_asm\<close>)
qed

lemma stack_addr_length: "length bs \<le> addr_size \<Longrightarrow> length (stack_addr bs w) = addr_size"
  by (simp add: stack_addr_def)

lemma read_request_ex:
  assumes "libc_ok (w_libc w)" and "length (sin6_addr addr) = 16"
  shows "\<exists>res cmd rep addr' fam w'. hev_socks5_server_read_request RES_REP_SUCC addr self w =
       Some (res, cmd, rep, addr', self\<lparr>s_addr_family := fam\<rparr>, w') \<and> only_sock (s_fd self) w w' \<and>
     (res = 0 \<or> res = - 1) \<and> (res = 0 \<and> rep = RES_REP_SUCC \<longrightarrow> cmd \<noteq> None) \<and> length (sin6_addr addr') = 16"
proof -
  let ?run = "hev_socks5_server_read_request RES_REP_SUCC addr self w"
  let ?goal = "\<lambda>res cmd rep addr' fam w'. ?run = Some (res, cmd, rep, addr', self\<lparr>s_addr_family := fam\<rparr>, w') \<and>
     only_sock (s_fd self) w w' \<and> (res = 0 \<or> res = - 1) \<and> (res = 0 \<and> rep = RES_REP_SUCC \<longrightarrow> cmd \<noteq> None) \<and>
     length (sin6_addr addr') = 16"
  have early: "\<exists>res cmd rep addr' fam w'. ?goal res cmd rep addr' fam w'"
    if "?run = Some (res, None, rep, a, self, w')" "only_sock (s_fd self) w w'" "res = - 1 \<or> res = 0 \<and> rep \<noteq> RES_REP_SUCC"
      "length (sin6_addr a) = 16" for res rep a w'
    using that by (intro exI [of _ res] exI [of _ None] exI [of _ rep] exI [of _ a] exI [of _ "s_addr_family self"] exI [of _ w']) auto
  from recv_ex [of self 5 w] obtain r req w1 where
    r1: "server_recv self 5 w = Some (r, req, self, w1)" "only_sock (s_fd self) w w1" by blast
  show ?thesis
  proof (cases "r = 5 \<and> req ! 0 = VERSION_5 \<and> req ! 3 \<in> {ADDR_TYPE_IPV4, ADDR_TYPE_IPV6, ADDR_TYPE_NAME}")
    case False
    then consider "r \<noteq> 5" | "r = 5" "req ! 0 \<noteq> VERSION_5"
      | "r = 5" "req ! 0 = VERSION_5" "req ! 3 \<notin> {ADDR_TYPE_IPV4, ADDR_TYPE_IPV6, ADDR_TYPE_NAME}" by blast
    then show ?thesis
    proof cases
      case 1
      then show ?thesis using r1 assms(2) by (intro early [of "- 1" _ addr w1]) (simp_all add: hev_socks5_server_read_request_def)
    next
      case 2
      then show ?thesis using r1 assms(2)
        by (intro early [of 0 RES_REP_FAIL addr w1]) (simp_all add: hev_socks5_server_read_request_def)
    next
      case 3
      then show ?thesis using r1 assms(2)
        by (intro early [of 0 RES_REP_ADDR addr w1]) (simp_all add: hev_socks5_server_read_request_def)
    qed
  next
    case True
    let ?n = "request_addrlen (req ! 3) (req ! 4)"
    from recv_ex [of self ?n w1] obtain s bs w2 where
      r2: "server_recv self ?n w1 = Some (s, bs, self, w2)" "only_sock (s_fd self) w1 w2"
        "if ?n \<le> length (incoming self w1) then s = int ?n \<and> bs = take ?n (incoming self w1) \<and> incoming self w2 = drop ?n (incoming self w1)
         else s \<noteq> int ?n" by blast
    note o2 = only_sock_trans [OF r1(2) r2(2)]
    show ?thesis
    proof (cases "s = int ?n")
      case False
      then show ?thesis using r1 r2 o2 True assms(2)
        by (intro early [of 0 RES_REP_ADDR addr w2]) (auto simp: hev_socks5_server_read_request_def Let_def)
    next
      case s: True
      then have lb: "length bs = ?n" using r2(3) by (auto split: if_split_asm)
      let ?b = "stack_addr ([req ! 3, req ! 4] @ bs) w2"
      have "length ([req ! 3, req ! 4] @ bs) \<le> addr_size" using lb u8_less [of "req ! 4"] by (simp add: addr_size_def request_addrlen_def)
      then have l: "length ?b = addr_size" by (rule stack_addr_length)
      have t: "addr_atype ?b = Some (req ! 3)" by (simp add: stack_addr_def addr_atype_def byte_at_def)
      from into_sockaddr6_total [OF l, of "w_libc w2" addr "s_addr_family self"] t True obtain x sa fam where
        i: "hev_socks5_addr_into_sockaddr6 (w_libc w2) ?b addr (s_addr_family self) = Some (x, sa, fam)" by auto
      have la: "length (sin6_addr sa) = 16"
        using into_sockaddr6_length [OF _ assms(2) i] assms(1) only_sock_fields(7) [OF o2] by simp
      have run: "?run = (if x < 0 then Some (0, None, RES_REP_ADDR, sa, self, w2)
          else Some (0, Some (req ! 1), RES_REP_SUCC, sa, self\<lparr>s_addr_family := fam\<rparr>, w2))"
        using r1(1) r2(1) True s i
        by (simp add: hev_socks5_server_read_request_def hev_socks5_get_addr_family_def hev_socks5_set_addr_family_def Let_def
            del: append.simps)
      show ?thesis
      proof (cases "x < 0")
        case True
        then show ?thesis using run o2 la by (intro early [of 0 RES_REP_ADDR sa w2]) simp_all
      next
        case False
        then show ?thesis using run o2 la by auto
      qed
    qed
  qed
qed


text \<open>A whole request for an address that resolves is read as such.\<close>

lemma read_request_ok:
  assumes "incoming self w = request cmd a @ rest" and "addr_ok a" and "resolve (w_libc w) (s_addr_family self) a = Some sa"
  shows "\<exists>fam w'. hev_socks5_server_read_request RES_REP_SUCC zero_sockaddr self w =
       Some (0, Some cmd, RES_REP_SUCC, sa, self\<lparr>s_addr_family := fam\<rparr>, w') \<and> only_sock (s_fd self) w w' \<and>
     outgoing self w' = outgoing self w \<and> flowing self w' = flowing self w"
proof -
  let ?i = "incoming self w"
  obtain x y q where wire: "wire_addr a = x # y # q" using wire_addr_ge_2 by blast
  have i: "?i = [VERSION_5, cmd, 0, x, y] @ q @ rest" using assms(1) wire by (simp add: request_def)
  have at: "x \<in> {ADDR_TYPE_IPV4, ADDR_TYPE_IPV6, ADDR_TYPE_NAME}" using wire by (cases a) auto
  let ?n = "request_addrlen x y"
  have n: "length q = ?n" using wire assms(2)
    by (cases a) (auto simp: request_addrlen_def dest: arg_cong [where f = length])
  from recv_ex [of self 5 w] obtain r req w1 where
    r1: "server_recv self 5 w = Some (r, req, self, w1)" "only_sock (s_fd self) w w1"
      "outgoing self w1 = outgoing self w" "flowing self w1 = flowing self w"
      "if 5 \<le> length ?i then r = int 5 \<and> req = take 5 ?i \<and> incoming self w1 = drop 5 ?i else r \<noteq> int 5" by blast
  have h: "r = 5" "req = [VERSION_5, cmd, 0, x, y]" "incoming self w1 = q @ rest"
    using r1(5) unfolding i by (simp_all add: eval_nat_numeral)
  from recv_ex [of self ?n w1] obtain s bs w2 where
    r2: "server_recv self ?n w1 = Some (s, bs, self, w2)" "only_sock (s_fd self) w1 w2"
      "outgoing self w2 = outgoing self w1" "flowing self w2 = flowing self w1"
      "if ?n \<le> length (incoming self w1) then s = int ?n \<and> bs = take ?n (incoming self w1) \<and> incoming self w2 = drop ?n (incoming self w1)
       else s \<noteq> int ?n" by blast
  have g: "s = int ?n" "bs = q" using r2(5) unfolding h(3) n [symmetric] by simp_all
  note o2 = only_sock_trans [OF r1(2) r2(2)]
  have b: "stack_addr ([x, y] @ bs) w2 = wire_addr a @ map (w_stack w2) [length ([x, y] @ bs)..<addr_size]"
    using g wire by (simp add: stack_addr_def)
  from into_sockaddr6_wire [OF assms(2,3), of "map (w_stack w2) [length ([x, y] @ bs)..<addr_size]"] obtain z fam where
    z: "hev_socks5_addr_into_sockaddr6 (w_libc w) (stack_addr ([x, y] @ bs) w2) zero_sockaddr (s_addr_family self) = Some (z, sa, fam)"
      "0 \<le> z" unfolding b by blast
  have lc: "w_libc w2 = w_libc w" using only_sock_fields(7) [OF o2] .
  have "hev_socks5_server_read_request RES_REP_SUCC zero_sockaddr self w =
      Some (0, Some cmd, RES_REP_SUCC, sa, self\<lparr>s_addr_family := fam\<rparr>, w2)"
    using r1(1) r2(1) h g(1) at z lc
    by (simp add: hev_socks5_server_read_request_def hev_socks5_get_addr_family_def hev_socks5_set_addr_family_def Let_def
        del: append.simps)
  then show ?thesis using o2 r1(3,4) r2(3,4) by auto
qed

section \<open>The answer\<close>

definition answer :: "u8 \<Rightarrow> sockaddr6 \<Rightarrow> u8 list" where
  "answer rep addr = [VERSION_5, rep, 0] @ wire_addr (source addr)"

lemma write_response_ex:
  assumes "length (sin6_addr addr) = 16"
  shows "\<exists>r w'. hev_socks5_server_write_response rep addr self w = Some (r, self, w') \<and> (r = 0 \<or> r = - 1) \<and>
     only_sock (s_fd self) w w' \<and>
     (flowing self w \<longrightarrow> r = 0 \<and> outgoing self w' = outgoing self w @ answer rep addr)"
proof -
  have l: "length (stack_addr [] w) = addr_size" by (rule stack_addr_length) simp
  have p: "sin6_port addr = htons (ntohs (sin6_port addr))" by simp
  have ok: "addr_ok (source addr)" using assms by (rule source_ok)
  have src: "(if v4mapped (sin6_addr addr) then Ipv4 (drop 12 (sin6_addr addr)) (ntohs (sin6_port addr))
      else Ipv6 (sin6_addr addr) (ntohs (sin6_port addr))) = source addr" by (simp add: source_def)
  from from_sockaddr6_holds [OF l assms p] obtain b where
    b: "hev_socks5_addr_from_sockaddr6 (stack_addr [] w) addr = Some (if v4mapped (sin6_addr addr) then 7 else 19, b)"
      "holds_addr b (source addr)" unfolding src by blast
  have len: "length (wire_addr (source addr)) = nat (if v4mapped (sin6_addr addr) then 7 else 19)"
    using assms by (simp add: source_def)
  have get: "memget b 0 (length (wire_addr (source addr))) = Some (wire_addr (source addr))"
    using b(2) wire_addr_fits [OF ok] by (simp add: holds_addr_def memget_def)
  have ne: "answer rep addr \<noteq> []" by (simp add: answer_def)
  from send_ex [OF ne, of self w] obtain r w' where
    s: "server_send self (answer rep addr) w = Some (r, self, w')" "only_sock (s_fd self) w w'"
      "flowing self w \<longrightarrow> r = int (length (answer rep addr)) \<and> outgoing self w' = outgoing self w @ answer rep addr \<and> flowing self w'"
    by blast
  have run: "hev_socks5_server_write_response rep addr self w = Some (if r \<le> 0 then - 1 else 0, self, w')"
    using b(1) get s(1) unfolding hev_socks5_server_write_response_def answer_def len by simp
  have "flowing self w \<longrightarrow> \<not> r \<le> 0" using s(3) ne by auto
  then show ?thesis using run s(2,3) by auto
qed


section \<open>Opening the sockets\<close>

text \<open>What the calls that open, bind and connect leave alone.\<close>

definition keeps :: "'z srv_world_scheme \<Rightarrow> 'z srv_world_scheme \<Rightarrow> bool" where
  "keeps w w' \<longleftrightarrow> w_sock w' = w_sock w \<and> w_auth w' = w_auth w \<and> w_auth_ref w' = w_auth_ref w \<and> w_live w' = w_live w \<and>
     w_libc w' = w_libc w \<and> w_set w' = w_set w \<and> w_stack w' = w_stack w \<and> set (w_names w') \<subseteq> set (w_names w)"

lemma keeps_refl [simp]: "keeps w w"
  by (simp add: keeps_def)

lemma keeps_trans [trans]: "keeps w w' \<Longrightarrow> keeps w' w'' \<Longrightarrow> keeps w w''"
  by (auto simp: keeps_def)

lemma only_sys_keeps: "only_sys w w' \<Longrightarrow> keeps w w' \<and> w_open w' = w_open w"
  by (auto simp: only_sys_def keeps_def)

lemma sys_keeps: "sys w = (r, w') \<Longrightarrow> keeps w w' \<and> w_open w' = w_open w"
  using only_sys_keeps [OF sys_only, of w] by simp

lemma close_keeps: "keeps w (close fd (hev_task_del_fd fd' w))" "set (w_open (close fd (hev_task_del_fd fd' w))) = set (w_open w) - {fd}"
  by (auto simp: keeps_def close_def hev_task_del_fd_def)

lemma socket_keeps:
  assumes "hev_socks5_socket type w = (fd, w')"
  shows "keeps w w' \<and> set (w_open w') \<subseteq> (if fd < 0 then set (w_open w) else insert fd (set (w_open w)))"
proof -
  obtain f w1 where s1: "hev_task_io_socket_socket w = (f, w1)" by (cases "hev_task_io_socket_socket w")
  obtain g w0 where s0: "sys w = (g, w0)" by (cases "sys w")
  have k1: "keeps w w1 \<and> set (w_open w1) \<subseteq> (if f < 0 then set (w_open w) else insert f (set (w_open w)))"
    using s1 sys_keeps [OF s0]
    by (auto simp: hev_task_io_socket_socket_def s0 close_def keeps_def Let_def split: if_split_asm option.split_asm)
  obtain r w2 where s2: "sys w1 = (r, w2)" by (cases "sys w1")
  let ?w3 = "if f \<in> set (w_poll w2) then w2 else w2\<lparr>w_poll := f # w_poll w2\<rparr>"
  have k3: "keeps w1 ?w3 \<and> w_open ?w3 = w_open w1" using sys_keeps [OF s2] by (auto simp: keeps_def)
  have k4: "keeps w1 (snd (sys ?w3)) \<and> w_open (snd (sys ?w3)) = w_open w1"
    using k3 only_sys_keeps [OF sys_only, of ?w3] keeps_trans [of w1 ?w3] by simp
  have k5: "keeps w1 (close f w2) \<and> set (w_open (close f w2)) \<subseteq> set (w_open w1) - {f}"
    using sys_keeps [OF s2] by (auto simp: keeps_def close_def)
  have run: "(fd, w') = (if f < 0 then (- 1, w1) else if r < 0 then (- 1, close f w2)
     else (f, if type = SOCK_DGRAM then snd (sys ?w3) else ?w3))"
    using assms by (auto simp: hev_socks5_socket_def s1 s2 Let_def hev_task_add_fd_def hev_task_mod_fd_def split: if_split_asm)
  consider "f < 0" | "0 \<le> f" "r < 0" | "0 \<le> f" "0 \<le> r" by linarith
  then show ?thesis
  proof cases
    case 1
    then show ?thesis using run k1 by simp
  next
    case 2
    then show ?thesis using run k1 k5 keeps_trans [of w w1 w'] by auto
  next
    case 3
    then have "fd = f" "w' = snd (sys ?w3) \<or> w' = ?w3" using run by (auto split: if_split_asm)
    then show ?thesis using k1 k3 k4 3 keeps_trans [of w w1 w'] by auto
  qed
qed

text \<open>The session owns every descriptor that it opened.\<close>

definition owned :: "'a server_scheme \<Rightarrow> int set" where
  "owned self = {sv_fd0 self, sv_fd1 self} \<inter> {0..}"

lemma server_connect_ex:
  assumes "sc_bind klass = hev_socks5_bind"
  shows "\<exists>r self' w'. hev_socks5_server_connect klass addr self w = Some (r, self', w') \<and> (r = 0 \<or> r = - 1) \<and> keeps w w' \<and>
     set (w_open w') \<subseteq> set (w_open w) \<union> owned self' \<and>
     s_fd self' = s_fd self \<and> sv_obj self' = sv_obj self \<and> sv_fd1 self' = sv_fd1 self"
proof -
  obtain fd w1 where so: "hev_socks5_socket SOCK_STREAM w = (fd, w1)" by (cases "hev_socks5_socket SOCK_STREAM w")
  note k1 = socket_keeps [OF so]
  let ?self = "hev_socks5_set_timeout self (hev_socks5_get_connect_timeout (w_set w1))"
  from connect_returns [of ?self w1] obtain r w2 where
    c: "hev_task_io_socket_connect hev_socks5_task_io_yielder ?self w1 = Some (r, ?self, w2)" "only_sys w1 w2" by blast
  note k2 = only_sys_keeps [OF c(2)]
  have st: "s_fd (hev_socks5_set_timeout x t) = s_fd x" "sv_obj (hev_socks5_set_timeout x t) = sv_obj x"
    "sv_fd1 (hev_socks5_set_timeout x t) = sv_fd1 x" for x :: "'a server_scheme" and t
    by (simp_all add: hev_socks5_set_timeout_def)
  have run: "hev_socks5_server_connect klass addr self w = (if fd < 0 then Some (- 1, self, w1)
      else if r < 0 then Some (- 1, ?self, close fd (hev_task_del_fd fd w2))
      else Some (0, (hev_socks5_set_timeout ?self (hev_socks5_get_tcp_timeout (w_set w2)))\<lparr>sv_fd0 := fd\<rparr>, w2))"
    using c(1) by (simp add: hev_socks5_server_connect_def so assms hev_socks5_bind_def Let_def)
  consider "fd < 0" | "0 \<le> fd" "r < 0" | "0 \<le> fd" "0 \<le> r" by linarith
  then show ?thesis
  proof cases
    case 1
    then show ?thesis using run k1 by auto
  next
    case 2
    have "keeps w (close fd (hev_task_del_fd fd w2))"
      using keeps_trans [OF keeps_trans [of w w1 w2] close_keeps(1)] k1 k2 by blast
    then show ?thesis using run k1 k2 2 st close_keeps(2) [of fd fd w2] by auto
  next
    case 3
    then show ?thesis using run k1 k2 keeps_trans [of w w1 w2] by (auto simp: st owned_def)
  qed
qed

lemma server_bind_ex:
  assumes "sc_udp_bind klass = hev_socks5_server_udp_bind" and "\<forall>sa. Some sa \<in> set (w_names w) \<longrightarrow> length (sin6_addr sa) = 16"
    and "\<forall>a. addr = Some a \<longrightarrow> length (sin6_addr a) = 16"
  shows "\<exists>r addr' self' w'. hev_socks5_server_bind klass addr self w = (r, addr', self', w') \<and> (r = 0 \<or> r = - 1) \<and> keeps w w' \<and>
     set (w_open w') \<subseteq> set (w_open w) \<union> owned self' \<and>
     s_fd self' = s_fd self \<and> sv_obj self' = sv_obj self \<and> (\<forall>a. addr' = Some a \<longrightarrow> length (sin6_addr a) = 16)"
proof -
  obtain fd w1 where so: "hev_socks5_socket SOCK_DGRAM w = (fd, w1)" by (cases "hev_socks5_socket SOCK_DGRAM w")
  note k1 = socket_keeps [OF so]
  show ?thesis
  proof (cases "fd < 0 \<or> addr = None")
    case True
    then show ?thesis using k1 by (cases "fd < 0") (auto simp: hev_socks5_server_bind_def so assms(3) owned_def)
  next
    case False
    then obtain a where a: "addr = Some a" "0 \<le> fd" by auto
    let ?self = "self\<lparr>sv_fd0 := fd\<rparr>"
    obtain fd2 w2 where so2: "hev_socks5_socket SOCK_DGRAM w1 = (fd2, w2)" by (cases "hev_socks5_socket SOCK_DGRAM w1")
    note k2 = socket_keeps [OF so2]
    obtain x w3 where s3: "sys w2 = (x, w3)" by (cases "sys w2")
    note k3 = sys_keeps [OF s3]
    obtain y a' w4 where b: "hev_socks5_server_udp_bind ?self fd2 a w3 = (y, a', w4)"
      by (cases "hev_socks5_server_udp_bind ?self fd2 a w3") auto
    have names: "\<forall>sa. Some sa \<in> set (w_names w3) \<longrightarrow> length (sin6_addr sa) = 16"
    proof -
      have "keeps w w3" using k1 k2 k3 keeps_trans [of w w1 w2] keeps_trans [of w w2 w3] by blast
      then have "set (w_names w3) \<subseteq> set (w_names w)" by (simp add: keeps_def)
      then show ?thesis using assms(2) by blast
    qed
    have k4: "keeps w3 w4 \<and> w_open w4 = w_open w3 \<and> (y = 0 \<or> y = - 1) \<and> length (sin6_addr a') = 16"
    proof -
      have gk: "keeps v v' \<and> w_open v' = w_open v \<and> (r = 0 \<or> r = - 1) \<and> length (sin6_addr sa) = 16 \<and>
          (\<forall>s. Some s \<in> set (w_names v') \<longrightarrow> length (sin6_addr s) = 16)"
        if "getsockname old v = (r, sa, v')" "length (sin6_addr old) = 16" "\<forall>s. Some s \<in> set (w_names v) \<longrightarrow> length (sin6_addr s) = 16"
        for old v r sa and v' :: "'b srv_world_scheme"
        using that by (auto simp: getsockname_def keeps_def split: list.split_asm option.split_asm)
      obtain p q v1 where g1: "getsockname a w3 = (p, q, v1)" by (cases "getsockname a w3") auto
      have n1: "length (sin6_addr a) = 16" using assms(3) a by simp
      note h1 = gk [OF g1 n1 names]
      obtain z v2 where s2: "sys v1 = (z, v2)" by (cases "sys v1")
      note h2 = sys_keeps [OF s2]
      have "set (w_names v2) \<subseteq> set (w_names v1)" using h2 by (simp add: keeps_def)
      then have nm2: "\<forall>s. Some s \<in> set (w_names v2) \<longrightarrow> length (sin6_addr s) = 16" using h1 by blast
      obtain p2 q2 v3 where g2: "getsockname (q\<lparr>sin6_port := 0\<rparr>) v2 = (p2, q2, v3)"
        by (cases "getsockname (q\<lparr>sin6_port := 0\<rparr>) v2") auto
      have n2: "length (sin6_addr (q\<lparr>sin6_port := 0\<rparr>)) = 16" "\<forall>s. Some s \<in> set (w_names v2) \<longrightarrow> length (sin6_addr s) = 16"
        using h1 nm2 by simp_all
      note h3 = gk [OF g2 n2]
      have "(y, a', w4) = (if p < 0 then (- 1, q, v1) else if z < 0 then (- 1, q\<lparr>sin6_port := 0\<rparr>, v2)
          else if p2 < 0 then (- 1, q2, v3) else (0, q2, v3))"
        using b by (simp add: hev_socks5_server_udp_bind_def g1 s2 g2 Let_def split: if_split_asm)
      then show ?thesis using h1 h2 h3 n2(1) keeps_trans [of w3 v1 v2] keeps_trans [of w3 v2 v3]
        by (auto split: if_split_asm)
    qed
    have run: "hev_socks5_server_bind klass addr self w = (if fd2 < 0 then (- 1, Some a, ?self, w2)
        else if x < 0 then (- 1, Some a, ?self, close fd2 (hev_task_del_fd fd2 w3))
        else if y < 0 then (- 1, Some a', ?self, close fd2 (hev_task_del_fd fd2 w4))
        else (0, Some a', ?self\<lparr>sv_fd1 := fd2\<rparr>, w4))"
      using a by (simp add: hev_socks5_server_bind_def so so2 s3 assms(1) b Let_def)
    have w12: "keeps w w2" and w13: "keeps w w3" and w14: "keeps w w4"
      using k1 k2 k3 k4 keeps_trans [of w w1 w2] keeps_trans [of w w2 w3] keeps_trans [of w w3 w4] by blast+
    consider "fd2 < 0" | "0 \<le> fd2" "x < 0" | "0 \<le> fd2" "0 \<le> x" "y < 0" | "0 \<le> fd2" "0 \<le> x" "0 \<le> y" by linarith
    then show ?thesis
    proof cases
      case 1
      then show ?thesis using run k1 k2 w12 a assms(3) by (auto simp: owned_def)
    next
      case 2
      have "set (w_open (close fd2 (hev_task_del_fd fd2 w3))) \<subseteq> set (w_open w) \<union> owned ?self"
        using k1 k2 k3 a 2 close_keeps(2) [of fd2 fd2 w3] by (auto simp: owned_def)
      then show ?thesis using run 2 keeps_trans [OF w13 close_keeps(1)] a assms(3) by auto
    next
      case 3
      have "set (w_open (close fd2 (hev_task_del_fd fd2 w4))) \<subseteq> set (w_open w) \<union> owned ?self"
        using k1 k2 k3 k4 a 3 close_keeps(2) [of fd2 fd2 w4] by (auto simp: owned_def)
      then show ?thesis using run 3 keeps_trans [OF w14 close_keeps(1)] k4 by auto
    next
      case 4
      have "set (w_open w4) \<subseteq> set (w_open w) \<union> owned (?self\<lparr>sv_fd1 := fd2\<rparr>)"
        using k1 k2 k3 k4 a 4 by (auto simp: owned_def)
      then show ?thesis using run 4 w14 k4 by auto
    qed
  qed
qed


section \<open>The handshake\<close>

lemma server_command_ex:
  assumes "klass = hev_socks5_server_class" and "\<forall>sa. Some sa \<in> set (w_names w) \<longrightarrow> length (sin6_addr sa) = 16"
    and "length (sin6_addr addr) = 16" and "owned self = {}"
  shows "\<exists>rep addr' self' w'. server_command klass cmd addr self w = Some (rep, addr', self', w') \<and> keeps w w' \<and>
     set (w_open w') \<subseteq> set (w_open w) \<union> owned self' \<and>
     s_fd self' = s_fd self \<and> sv_obj self' = sv_obj self \<and> length (sin6_addr addr') = 16"
proof -
  have k: "sc_bind klass = hev_socks5_bind" "sc_udp_bind klass = hev_socks5_server_udp_bind"
    using assms(1) by (simp_all add: hev_socks5_server_class_def)
  have ty: "owned (x\<lparr>s_type := t\<rparr>) = owned x" for x :: "'a server_scheme" and t by (simp add: owned_def)
  consider "cmd = REQ_CMD_CONNECT" | "cmd = REQ_CMD_UDP_ASC" | "cmd = REQ_CMD_FWD_UDP"
    | "cmd \<noteq> REQ_CMD_CONNECT" "cmd \<noteq> REQ_CMD_UDP_ASC" "cmd \<noteq> REQ_CMD_FWD_UDP" by blast
  then show ?thesis
  proof cases
    case 1
    from server_connect_ex [OF k(1), of addr self w] obtain r self' w' where
      c: "hev_socks5_server_connect klass addr self w = Some (r, self', w')" "keeps w w'"
        "set (w_open w') \<subseteq> set (w_open w) \<union> owned self'" "s_fd self' = s_fd self" "sv_obj self' = sv_obj self" by blast
    then show ?thesis using 1 assms(3) ty by (simp add: server_command_def)
  next
    case 2
    from server_bind_ex [OF k(2) assms(2), of "Some addr" self] assms(3) obtain r addr' self' w' where
      c: "hev_socks5_server_bind klass (Some addr) self w = (r, addr', self', w')" "keeps w w'"
        "set (w_open w') \<subseteq> set (w_open w) \<union> owned self'" "s_fd self' = s_fd self" "sv_obj self' = sv_obj self"
        "\<forall>a. addr' = Some a \<longrightarrow> length (sin6_addr a) = 16" by auto
    then show ?thesis using 2 assms(3) ty by (cases addr') (simp_all add: server_command_def)
  next
    case 3
    from server_bind_ex [OF k(2) assms(2), of None self] obtain r addr' self' w' where
      c: "hev_socks5_server_bind klass None self w = (r, addr', self', w')" "keeps w w'"
        "set (w_open w') \<subseteq> set (w_open w) \<union> owned self'" "s_fd self' = s_fd self" "sv_obj self' = sv_obj self" by auto
    then show ?thesis using 3 assms(3) ty by (simp add: server_command_def)
  next
    case 4
    then show ?thesis using assms(3,4) by (auto simp: server_command_def)
  qed
qed

text \<open>What follows the login.\<close>

definition handshake_tail :: "('a, 'z) server_class \<Rightarrow> 'a server_scheme \<Rightarrow> 'z srv_world_scheme \<Rightarrow> ('a, 'z) srv_run" where
  "handshake_tail klass self w = do {
       (res, cmd, rep, addr, self, w) \<leftarrow> hev_socks5_server_read_request RES_REP_SUCC zero_sockaddr self w;
       if res < 0 then Some (- 1, self, w)
       else do {
         (rep, addr, self, w) \<leftarrow> (if rep = RES_REP_SUCC then do { c \<leftarrow> cmd; server_command klass c addr self w }
            else Some (rep, addr, self, w));
         (res, self, w) \<leftarrow> hev_socks5_server_write_response rep addr self w;
         if res < 0 \<or> rep \<noteq> RES_REP_SUCC then Some (- 1, self, w) else Some (0, self, w)
       }
     }"

text \<open>After the login: it returns, and what it opened it owns.\<close>

lemma handshake_tail_ex:
  assumes "klass = hev_socks5_server_class" and "\<forall>sa. Some sa \<in> set (w_names w) \<longrightarrow> length (sin6_addr sa) = 16"
    and "libc_ok (w_libc w)" and "owned self = {}"
  shows "\<exists>r self' w'. handshake_tail klass self w = Some (r, self', w') \<and> (r = 0 \<or> r = - 1) \<and>
     set (w_open w') \<subseteq> set (w_open w) \<union> owned self' \<and> s_fd self' = s_fd self \<and> sv_obj self' = sv_obj self \<and>
     w_auth w' = w_auth w \<and> w_auth_ref w' = w_auth_ref w \<and> w_live w' = w_live w"
proof -
  have z: "length (sin6_addr zero_sockaddr) = 16" by (simp add: zero_sockaddr_def)
  from read_request_ex [OF assms(3) z, of self] obtain res cmd rep addr fam w1 where
    q: "hev_socks5_server_read_request RES_REP_SUCC zero_sockaddr self w = Some (res, cmd, rep, addr, self\<lparr>s_addr_family := fam\<rparr>, w1)"
      "only_sock (s_fd self) w w1" "res = 0 \<or> res = - 1" "res = 0 \<and> rep = RES_REP_SUCC \<longrightarrow> cmd \<noteq> None" "length (sin6_addr addr) = 16"
    by blast
  let ?self = "self\<lparr>s_addr_family := fam\<rparr>"
  have own: "owned ?self = {}" using assms(4) by (simp add: owned_def)
  note f1 = only_sock_fields [OF q(2)] and a1 = only_sock_auth [OF q(2)]
  show ?thesis
  proof (cases "res < 0")
    case True
    then show ?thesis using q(1) f1 a1 by (simp add: handshake_tail_def)
  next
    case False
    then have r0: "res = 0" using q(3) by auto
    have names: "\<forall>sa. Some sa \<in> set (w_names w1) \<longrightarrow> length (sin6_addr sa) = 16" using assms(2) a1 by simp
    have "\<exists>rep' addr' self' w'. (if rep = RES_REP_SUCC then do { c \<leftarrow> cmd; server_command klass c addr ?self w1 }
          else Some (rep, addr, ?self, w1)) = Some (rep', addr', self', w') \<and> keeps w1 w' \<and>
        set (w_open w') \<subseteq> set (w_open w1) \<union> owned self' \<and>
        s_fd self' = s_fd self \<and> sv_obj self' = sv_obj self \<and> length (sin6_addr addr') = 16"
    proof (cases "rep = RES_REP_SUCC")
      case True
      then obtain c where c: "cmd = Some c" using q(4) r0 by auto
      from server_command_ex [OF assms(1) names q(5) own, of c] show ?thesis using True c by auto
    next
      case rep: False
      then show ?thesis using q(5) own by simp
    qed
    then obtain rep' addr' self' w2 where
      c: "(if rep = RES_REP_SUCC then do { c \<leftarrow> cmd; server_command klass c addr ?self w1 }
          else Some (rep, addr, ?self, w1)) = Some (rep', addr', self', w2)" "keeps w1 w2"
        "set (w_open w2) \<subseteq> set (w_open w1) \<union> owned self'"
        "s_fd self' = s_fd self" "sv_obj self' = sv_obj self" "length (sin6_addr addr') = 16" by blast
    from write_response_ex [OF c(6), of rep' self' w2] obtain x w3 where
      s: "hev_socks5_server_write_response rep' addr' self' w2 = Some (x, self', w3)" "x = 0 \<or> x = - 1" "only_sock (s_fd self') w2 w3"
      by blast
    note f3 = only_sock_fields [OF s(3)] and a3 = only_sock_auth [OF s(3)]
    have run: "handshake_tail klass self w = Some (if x < 0 \<or> rep' \<noteq> RES_REP_SUCC then - 1 else 0, self', w3)"
      unfolding handshake_tail_def q(1) r0 using c(1) s(1) by simp
    have "set (w_open w3) \<subseteq> set (w_open w) \<union> owned self'" using c(3) f1(2) f3(2) by simp
    moreover have "w_auth w3 = w_auth w" "w_auth_ref w3 = w_auth_ref w" "w_live w3 = w_live w"
      using c(2) a1 a3 f1(5) f3(5) by (simp_all add: keeps_def)
    ultimately show ?thesis unfolding run using c(4,5) by auto
  qed
qed

end
