(* ===== verification/Server_Props.thy ===== *)
theory Server_Props
  imports Server_Session
begin

text \<open>
  The properties of the server: nothing happens for a client that has not logged in, a session gives
  back everything it took, and the server and the client of this program understand each other.
\<close>

text \<open>No user has so many references that one more would wrap.\<close>

definition refs_ok :: "auth \<Rightarrow> ptr list \<Rightarrow> bool" where
  "refs_ok a xs \<longleftrightarrow> (\<forall>m\<in>set xs. \<forall>u. a_users a m = Some u \<longrightarrow> 0 < u_ref u \<and> u_ref u < - 1)"

section \<open>An example\<close>

text \<open>A server with the user \<open>root\<close>, and one connection, 3, on which the given pieces arrive.\<close>

definition srv_conn :: "rx list \<Rightarrow> int list \<Rightarrow> srv_world" where
  "srv_conn rx rs = \<lparr>w_sock = (\<lambda>_. \<lparr>sk_rx = rx, sk_tx = [TxOk 1], sk_out = [], sk_dg = [], sk_sent = [], sk_shut = False\<rparr>),
     w_errno = 0, w_sys = rs, w_open = [3], w_poll = [], w_alloc = [], w_live = 2, w_stack = (\<lambda>_. 0),
     w_libc = \<lparr>inet_pton6 = (\<lambda>_. None), inet_ntop = (\<lambda>_ _. []), getaddrinfo = (\<lambda>_ _. None)\<rparr>, w_protect = None,
     w_set = misc_defaults, w_auth = auth_one, w_auth_ref = 2, w_names = []\<rparr>"

definition srv_session :: server where
  "srv_session = \<lparr>s_fd = 3, s_timeout = - 1, s_type = TYPE_NONE, s_udp_associated = False, s_addr_family = AF_UNSPEC,
     sv_fd0 = - 1, sv_fd1 = - 1, sv_obj = AuthObj\<rparr>"

lemma auth_one_refs: "refs_ok auth_one [16]"
proof -
  have "(1 :: u32) < - 1" by (simp add: word_less_nat_alt unsigned_minus_1_eq_mask mask_eq_exp_minus_1)
  then show ?thesis by (simp add: refs_ok_def auth_one_def)
qed

lemma srv_example:
  "sv_obj srv_session = AuthObj" "auth_inv auth_one [16]" "w_auth_ref (srv_conn rx rs) = 2"
  "refs_ok auth_one [16]" "owned srv_session = {}" "libc_ok (w_libc (srv_conn rx rs))" "w_open (srv_conn rx rs) = [3]"
  "s_fd srv_session = 3" "s_timeout srv_session = - 1" "s_addr_family srv_session = AF_UNSPEC" "w_names (srv_conn rx rs) = []"
  "rx_of (srv_conn rx rs) 3 = rx" "tx_of (srv_conn rx rs) 3 = [TxOk 1]" "out_of (srv_conn rx rs) 3 = []" "w_auth (srv_conn rx rs) = auth_one"
  "w_sys (srv_conn rx rs) = rs" "w_protect (srv_conn rx rs) = None" "w_set (srv_conn rx rs) = misc_defaults"
  "name_of (user_at auth_one 16) = [114, 111, 111, 116]" "pass_of (user_at auth_one 16) = [112, 119]"
  using auth_one_inv(1) auth_one_refs
  by (simp_all add: srv_session_def srv_conn_def owned_def libc_ok_def)
     (simp_all add: auth_one_def user_at_def name_of_def pass_of_def)

section \<open>The login\<close>

lemma timeout_fields [simp]: "s_fd (hev_socks5_set_timeout self t) = s_fd self" "s_type (hev_socks5_set_timeout self t) = s_type self"
  "s_addr_family (hev_socks5_set_timeout self t) = s_addr_family self" "s_udp_associated (hev_socks5_set_timeout self t) = s_udp_associated self"
  "socks5.more (hev_socks5_set_timeout self t) = socks5.more self"
  by (simp_all add: hev_socks5_set_timeout_def)

lemma timeout_server [simp]: "sv_fd0 (hev_socks5_set_timeout self t) = sv_fd0 self" "sv_fd1 (hev_socks5_set_timeout self t) = sv_fd1 self"
  "sv_obj (hev_socks5_set_timeout self t) = sv_obj self"
  by (simp_all add: hev_socks5_set_timeout_def)

abbreviation listening :: "'a server_scheme \<Rightarrow> 'z world_scheme \<Rightarrow> 'a server_scheme" where
  "listening self w \<equiv> hev_socks5_set_timeout self (tcp_timeout (w_set w))"

text \<open>
  C4: Nobody gets anything from a server with an authenticator without a valid login: when the bytes of
  the client do not start with a greeting that offers the login and the name and password of one of
  the users, the handshake fails, no system call is made, no descriptor opened, no other socket
  touched, and the authenticator with its users is as before.
\<close>

theorem server_no_login_no_access:
  assumes "sv_obj self = AuthObj" and "auth_inv (w_auth w) xs" and "1 < w_auth_ref w"
    and "\<nexists>m nm pw. m \<in> set xs \<and> name_of (user_at (w_auth w) m) = nm \<and> pass_of (user_at (w_auth w) m) = pw \<and>
       (\<exists>ms bs rest. greeting_of (incoming (listening self w) w) = Some (ms, bs) \<and> AUTH_METHOD_USER \<in> set ms \<and>
          login_of bs = Some (nm, pw, rest))"
  shows "\<exists>w'. hev_socks5_server_handshake klass self w = Some (- 1, listening self w, w') \<and>
     only_sock (s_fd self) w w' \<and> w_auth w' = w_auth w \<and> w_auth_ref w' = w_auth_ref w"
proof -
  let ?self = "listening self w"
  have ob: "sv_obj ?self = AuthObj" using assms(1) by simp
  have none: "admitted (w_auth w) xs (incoming ?self w) = None"
  proof (rule ccontr)
    assume "admitted (w_auth w) xs (incoming ?self w) \<noteq> None"
    then obtain ms bs nm pw rest m where "greeting_of (incoming ?self w) = Some (ms, bs)" "AUTH_METHOD_USER \<in> set ms"
      "login_of bs = Some (nm, pw, rest)" "account (w_auth w) xs nm pw = Some m"
      by (auto simp: admitted_def login_def split: option.split_asm prod.split_asm if_split_asm)
    then show False using assms(4) account_iff [OF assms(2)] by blast
  qed
  from auth_ex [OF assms(2) ob assms(3)] none obtain w' where
    a: "hev_socks5_server_auth ?self w = Some (- 1, ?self, w')" "only_sock (s_fd self) w w'" by auto
  then show ?thesis using only_sock_auth [OF a(2)]
    by (simp add: hev_socks5_server_handshake_def hev_socks5_get_tcp_timeout_def Let_def)
qed

lemma server_no_login_no_access_witness:
  "\<exists>w'. hev_socks5_server_handshake hev_socks5_server_class srv_session (srv_conn [RxData [5, 1, 0], RxErr] []) =
      Some (- 1, listening srv_session (srv_conn [RxData [5, 1, 0], RxErr] []), w') \<and> w_auth w' = auth_one"
  using server_no_login_no_access [of srv_session "srv_conn [RxData [5, 1, 0], RxErr] []" "[16]" hev_socks5_server_class]
  by (auto simp: srv_example incoming_def hev_socks5_set_timeout_def misc_defaults_def)

section \<open>What a session leaves behind\<close>

lemma auth_state:
  assumes "sv_obj self = NoObj \<or> sv_obj self = AuthObj \<and> auth_inv (w_auth w) xs \<and> 1 < w_auth_ref w"
  shows "\<exists>r self' w'. hev_socks5_server_auth self w = Some (r, self', w') \<and> (r = 0 \<or> r = - 1) \<and> same_env w w' \<and>
     (self' = self \<and> w_auth w' = w_auth w \<and> w_auth_ref w' = w_auth_ref w \<or>
      (\<exists>m\<in>set xs. sv_obj self = AuthObj \<and> self' = self\<lparr>sv_obj := UserObj m\<rparr> \<and> user_ref (w_auth w) m = Some (w_auth w') \<and>
         w_auth_ref w' = w_auth_ref w - 1))"
  using assms
proof (elim disjE conjE)
  assume "sv_obj self = NoObj"
  from auth_free_ex [OF this, of w] obtain r w' where
    "hev_socks5_server_auth self w = Some (r, self, w')" "r = 0 \<or> r = - 1" "only_sock (s_fd self) w w'" by blast
  then show ?thesis using only_sock_env [of "s_fd self" w w'] only_sock_auth [of "s_fd self" w w'] by blast
next
  assume o: "sv_obj self = AuthObj" and i: "auth_inv (w_auth w) xs" and n: "1 < w_auth_ref w"
  have m: "m \<in> set xs" if "admitted (w_auth w) xs (incoming self w) = Some (m, rest)" for m rest
    using that account_iff [OF i]
    by (auto simp: admitted_def login_def split: option.split_asm prod.split_asm if_split_asm)
  from auth_ex [OF i o n] obtain r self' w' where
    a: "hev_socks5_server_auth self w = Some (r, self', w')" "r = 0 \<or> r = - 1" and
    c: "case admitted (w_auth w) xs (incoming self w) of
        Some (m, rest) \<Rightarrow>
          (r = 0 \<longrightarrow> self' = self\<lparr>sv_obj := UserObj m\<rparr> \<and> takes_user m w w') \<and>
          (self' = self \<and> only_sock (s_fd self) w w' \<or> self' = self\<lparr>sv_obj := UserObj m\<rparr> \<and> takes_user m w w') \<and>
          (flowing self w \<longrightarrow> r = 0 \<and> outgoing self w' = outgoing self w @ [VERSION_5, AUTH_METHOD_USER, 1, RES_REP_SUCC] \<and>
             incoming self w' = rest \<and> flowing self w')
      | None \<Rightarrow> r = - 1 \<and> self' = self \<and> only_sock (s_fd self) w w'"
    by blast
  have "self' = self \<and> only_sock (s_fd self) w w' \<or>
      (\<exists>x\<in>set xs. self' = self\<lparr>sv_obj := UserObj x\<rparr> \<and> takes_user x w w')"
  proof (cases "admitted (w_auth w) xs (incoming self w)")
    case None
    then show ?thesis using c by simp
  next
    case (Some q)
    obtain x rest where q: "q = (x, rest)" by (cases q)
    then show ?thesis using c Some m by auto
  qed
  then consider "self' = self" "only_sock (s_fd self) w w'"
    | x where "x \<in> set xs" "self' = self\<lparr>sv_obj := UserObj x\<rparr>" "takes_user x w w'" by blast
  then show ?thesis
  proof cases
    case 1
    then show ?thesis using a(1,2) only_sock_env [of "s_fd self" w w'] only_sock_auth [of "s_fd self" w w'] by blast
  next
    case 2
    then show ?thesis using a(1,2) o by (auto simp: takes_user_def)
  qed
qed

lemma user_ref_unref:
  assumes "user_ref a m = Some a'" and "a_users a m = Some u" and "0 < u_ref u" and "u_ref u < - 1"
  shows "user_unref a' m = Some a"
proof -
  have "u_ref u + 1 > 1"
  proof -
    have "unat (- 1 :: u32) = 2 ^ 32 - 1" by (simp add: unsigned_minus_1_eq_mask mask_eq_exp_minus_1)
    then have "unat (u_ref u) < 2 ^ 32 - 1" "0 < unat (u_ref u)" using assms(3,4) by (simp_all add: word_less_nat_alt)
    then have "unat (u_ref u + 1) = unat (u_ref u) + 1" by (simp add: unat_word_ariths)
    then show ?thesis using \<open>0 < unat (u_ref u)\<close> by (simp add: word_less_nat_alt)
  qed
  moreover have "a\<lparr>a_users := (a_users a)(m \<mapsto> u)\<rparr> = a" using assms(2) by (simp add: fun_upd_idem)
  ultimately show ?thesis using assms(1,2) by (auto simp: user_ref_def user_unref_def Let_def)
qed

text \<open>Whatever the login did, dropping the reference of the session brings the users back.\<close>

lemma obj_unref_login:
  assumes "sv_obj self = NoObj \<or> sv_obj self = AuthObj \<and> auth_inv (w_auth w) xs \<and> 1 < w_auth_ref w \<and> refs_ok (w_auth w) xs"
    and "self' = self \<and> w_auth w' = w_auth w \<and> w_auth_ref w' = w_auth_ref w \<or>
      (\<exists>m\<in>set xs. sv_obj self = AuthObj \<and> self' = self\<lparr>sv_obj := UserObj m\<rparr> \<and> user_ref (w_auth w) m = Some (w_auth w') \<and>
         w_auth_ref w' = w_auth_ref w - 1)"
  shows "obj_unref (sv_obj self') w' = Some (w'\<lparr>w_auth := w_auth w,
      w_auth_ref := w_auth_ref w - (if sv_obj self = AuthObj then 1 else 0)\<rparr>)"
  using assms(2)
proof (elim disjE conjE bexE)
  assume a: "self' = self" "w_auth w' = w_auth w" "w_auth_ref w' = w_auth_ref w"
  show ?thesis
  proof (cases "sv_obj self = AuthObj")
    case True
    then have "1 < w_auth_ref w" using assms(1) by auto
    then show ?thesis using a True by (auto simp: obj_unref_def auth_unref_def Let_def)
  next
    case False
    then have o: "sv_obj self = NoObj" using assms(1) by auto
    have "w'\<lparr>w_auth := w_auth w', w_auth_ref := w_auth_ref w'\<rparr> = w'" by simp
    then show ?thesis using a o by (simp add: obj_unref_def)
  qed
next
  fix m
  assume m: "m \<in> set xs" "sv_obj self = AuthObj" "self' = self\<lparr>sv_obj := UserObj m\<rparr>"
    "user_ref (w_auth w) m = Some (w_auth w')" "w_auth_ref w' = w_auth_ref w - 1"
  then have ok: "refs_ok (w_auth w) xs" using assms(1) by auto
  obtain u where u: "a_users (w_auth w) m = Some u" using m(4) by (auto simp: user_ref_def split: bind_split_asm)
  then have "0 < u_ref u" "u_ref u < - 1" using ok m(1) by (auto simp: refs_ok_def)
  from user_ref_unref [OF m(4) u this] have un: "user_unref (w_auth w') m = Some (w_auth w)" .
  have "w'\<lparr>w_auth := w_auth w, w_auth_ref := w_auth_ref w - 1\<rparr> = w'\<lparr>w_auth := w_auth w\<rparr>" by (simp flip: m(5))
  then show ?thesis using un m(2,3) by (simp add: obj_unref_def)
qed

text \<open>
  C20: A session of the server takes nothing with it: whatever the client sends and however the calls
  fail, the handshake returns, and destroying the session afterwards closes the connection and
  every descriptor the handshake opened, gives back the reference to the authenticator or to the
  user, leaves the users with the references they had, and frees the session.
\<close>

theorem server_session_releases:
  assumes "\<forall>sa. Some sa \<in> set (w_names w) \<longrightarrow> length (sin6_addr sa) = 16" and "libc_ok (w_libc w)" and "owned self = {}"
    and "0 \<le> s_fd self"
    and "sv_obj self = NoObj \<or> sv_obj self = AuthObj \<and> auth_inv (w_auth w) xs \<and> 1 < w_auth_ref w \<and> refs_ok (w_auth w) xs"
  shows "\<exists>r self' w' w''. hev_socks5_server_handshake hev_socks5_server_class self w = Some (r, self', w') \<and>
     hev_socks5_server_destruct self' w' = Some w'' \<and> (r = 0 \<or> r = - 1) \<and>
     set (w_open w'') \<subseteq> set (w_open w) - {s_fd self} \<and> w_auth w'' = w_auth w \<and>
     w_auth_ref w'' = w_auth_ref w - (if sv_obj self = AuthObj then 1 else 0) \<and> w_live w'' = w_live w - 1"
proof -
  let ?self = "listening self w"
  let ?set = "\<lambda>self' w'. self' = ?self \<and> w_auth w' = w_auth w \<and> w_auth_ref w' = w_auth_ref w \<or>
      (\<exists>m\<in>set xs. sv_obj ?self = AuthObj \<and> self' = ?self\<lparr>sv_obj := UserObj m\<rparr> \<and> user_ref (w_auth w) m = Some (w_auth w') \<and>
         w_auth_ref w' = w_auth_ref w - 1)"
  have ok: "sv_obj ?self = NoObj \<or> sv_obj ?self = AuthObj \<and> auth_inv (w_auth w) xs \<and> 1 < w_auth_ref w \<and> refs_ok (w_auth w) xs"
    using assms(5) by simp
  then have "sv_obj ?self = NoObj \<or> sv_obj ?self = AuthObj \<and> auth_inv (w_auth w) xs \<and> 1 < w_auth_ref w" by blast
  from auth_state [OF this] obtain r1 self1 w1 where
    a: "hev_socks5_server_auth ?self w = Some (r1, self1, w1)" "r1 = 0 \<or> r1 = - 1" "same_env w w1" "?set self1 w1" by blast
  have s1: "s_fd self1 = s_fd self" "owned self1 = {}" using a(4) assms(3) by (auto simp: owned_def)
  have e1: "w_names w1 = w_names w" "w_libc w1 = w_libc w" "w_open w1 = w_open w" "w_live w1 = w_live w" using a(3) by (simp_all add: same_env_def)
  obtain r self' w' where
    h: "hev_socks5_server_handshake hev_socks5_server_class self w = Some (r, self', w')" "r = 0 \<or> r = - 1"
      "set (w_open w') \<subseteq> set (w_open w1) \<union> owned self'" "s_fd self' = s_fd self1" "sv_obj self' = sv_obj self1"
      "w_auth w' = w_auth w1" "w_auth_ref w' = w_auth_ref w1" "w_live w' = w_live w1"
  proof (cases "r1 < 0")
    case True
    then have "hev_socks5_server_handshake hev_socks5_server_class self w = Some (- 1, self1, w1)"
      using a(1) by (simp add: hev_socks5_server_handshake_def hev_socks5_get_tcp_timeout_def Let_def)
    then show thesis using that by auto
  next
    case False
    have n: "\<forall>sa. Some sa \<in> set (w_names w1) \<longrightarrow> length (sin6_addr sa) = 16" "libc_ok (w_libc w1)" using assms(1,2) e1 by simp_all
    have run: "hev_socks5_server_handshake hev_socks5_server_class self w = handshake_tail hev_socks5_server_class self1 w1"
      using a(1) False by (simp add: hev_socks5_server_handshake_def hev_socks5_get_tcp_timeout_def handshake_tail_def Let_def)
    show thesis using handshake_tail_ex [OF refl n s1(2)] that unfolding run by blast
  qed
  define w2 where "w2 = (if sv_fd0 self' \<ge> 0 then close (sv_fd0 self') (hev_task_del_fd (sv_fd0 self') w') else w')"
  define w3 where "w3 = (if sv_fd1 self' \<ge> 0 then close (sv_fd1 self') (hev_task_del_fd (sv_fd1 self') w2) else w2)"
  have k: "w_auth w3 = w_auth w1" "w_auth_ref w3 = w_auth_ref w1" "w_live w3 = w_live w" "set (w_open w3) \<subseteq> set (w_open w)"
    using h(3,6,7,8) e1 unfolding w3_def w2_def by (auto simp: close_def hev_task_del_fd_def owned_def)
  have "?set self1 w3" using a(4) k by simp
  from obj_unref_login [OF ok this] have
    u: "obj_unref (sv_obj self') w3 = Some (w3\<lparr>w_auth := w_auth w, w_auth_ref := w_auth_ref w - (if sv_obj self = AuthObj then 1 else 0)\<rparr>)"
    using h(5) by simp
  have fd: "s_fd self' = s_fd self" using h(4) s1(1) by simp
  have "hev_socks5_server_destruct self' w' = Some (hev_socks5_destruct self'
      (w3\<lparr>w_auth := w_auth w, w_auth_ref := w_auth_ref w - (if sv_obj self = AuthObj then 1 else 0)\<rparr>))"
    using u unfolding hev_socks5_server_destruct_def Let_def w2_def [symmetric] w3_def [symmetric] by simp
  then show ?thesis using h(1,2) k(3,4) assms(4) fd
    by (auto simp: hev_socks5_destruct_def hev_free_def close_def hev_task_del_fd_def)
qed


lemma server_session_releases_witness:
  "\<exists>r self' w' w''. hev_socks5_server_handshake hev_socks5_server_class srv_session
       (srv_conn [RxData [5, 1, 2, 1, 4, 114, 111, 111, 116, 2, 112, 119], RxAgain 5, RxData [5, 3, 0, 1, 0, 0, 0, 0, 0, 0]] [7, 0, 0, 8]) =
       Some (r, self', w') \<and> hev_socks5_server_destruct self' w' = Some w'' \<and> w_open w'' = [] \<and> w_auth w'' = auth_one \<and> w_auth_ref w'' = 1"
  using server_session_releases [of "srv_conn [RxData [5, 1, 2, 1, 4, 114, 111, 111, 116, 2, 112, 119], RxAgain 5,
      RxData [5, 3, 0, 1, 0, 0, 0, 0, 0, 0]] [7, 0, 0, 8]" srv_session "[16]"]
  by (auto simp: srv_example)

section \<open>Server and client\<close>

text \<open>What a client of this program sends is a greeting and a login in the sense of the server.\<close>

lemma greeting_of_client:
  "greeting_of (greeting c @ rest) = Some ([if c_user c = None \<or> c_pass c = None then AUTH_METHOD_NONE else AUTH_METHOD_USER], rest)"
  by (simp add: greeting_def)

lemma login_of_client:
  assumes "c_user c = Some u" and "c_pass c = Some p" and "cstr u = Some nm" and "cstr p = Some pw"
    and "nm \<noteq> []" and "length nm < 256" and "pw \<noteq> []" and "length pw < 256"
  shows "login_of (creds c @ rest) = Some (nm, pw, rest)"
proof -
  have n: "unat (of_nat (length nm) :: u8) = length nm" "unat (of_nat (length pw) :: u8) = length pw"
    using assms(6,8) by (simp_all add: unat_of_nat)
  then have z: "(of_nat (length nm) :: u8) \<noteq> 0" "(of_nat (length pw) :: u8) \<noteq> 0"
    using assms(5,7) by (metis length_0_conv unsigned_0)+
  have c: "creds c = [1, of_nat (length nm)] @ nm @ [of_nat (length pw)] @ pw"
    using assms by (simp add: creds_def wire_text_def)
  show ?thesis unfolding c using n z by (simp del: of_nat_unat uint_nat)
qed

lemma response_ok_answer:
  assumes "length (sin6_addr sa) = 16"
  shows "response_ok (answer RES_REP_SUCC sa)"
  using assms by (simp add: answer_def source_def hi8_def)

text \<open>Connecting succeeds when the kernel hands out a descriptor and accepts the connection.\<close>

lemma set_timeout_twice:
  assumes "s_timeout self = t" and "t \<noteq> 0" and "t' \<noteq> 0"
  shows "hev_socks5_set_timeout (hev_socks5_set_timeout self t') t = self"
  using assms by (simp add: hev_socks5_set_timeout_def)

lemma server_connect_ok:
  assumes "w_sys w = fd # 0 # 0 # rs" and "0 \<le> fd" and "w_protect w = None" and "sc_bind klass = hev_socks5_bind"
    and "s_timeout self = tcp_timeout (w_set w)" and "tcp_timeout (w_set w) \<noteq> 0" and "connect_timeout (w_set w) \<noteq> 0"
  shows "\<exists>w'. hev_socks5_server_connect klass sa self w = Some (0, self\<lparr>sv_fd0 := fd\<rparr>, w') \<and> keeps w w'"
proof -
  let ?w1 = "w\<lparr>w_open := fd # w_open w, w_sys := 0 # rs\<rparr>"
  have so: "\<exists>w1. hev_socks5_socket SOCK_STREAM w = (fd, w1) \<and> keeps w w1 \<and> w_sys w1 = 0 # rs"
    using assms(1-3)
    by (auto simp: hev_socks5_socket_def hev_task_io_socket_socket_def sys_def hev_task_add_fd_def hev_task_mod_fd_def keeps_def Let_def)
  then obtain w1 where w1: "hev_socks5_socket SOCK_STREAM w = (fd, w1)" "keeps w w1" "w_sys w1 = 0 # rs" by blast
  let ?s = "hev_socks5_set_timeout self (hev_socks5_get_connect_timeout (w_set w1))"
  have set: "w_set w1 = w_set w" using w1(2) by (simp add: keeps_def)
  have c: "hev_task_io_socket_connect hev_socks5_task_io_yielder ?s w1 = Some (0, ?s, w1\<lparr>w_sys := rs\<rparr>)"
    using w1(3) by (subst hev_task_io_socket_connect.simps) (simp add: sys_def)
  have t: "hev_socks5_set_timeout ?s (hev_socks5_get_tcp_timeout (w_set (w1\<lparr>w_sys := rs\<rparr>))) = self"
    using set_timeout_twice [OF assms(5,6,7)] set by (simp add: hev_socks5_get_tcp_timeout_def hev_socks5_get_connect_timeout_def)
  have "hev_socks5_server_connect klass sa self w = Some (0, self\<lparr>sv_fd0 := fd\<rparr>, w1\<lparr>w_sys := rs\<rparr>)"
    using c t assms(2,4) by (simp add: hev_socks5_server_connect_def w1(1) hev_socks5_bind_def Let_def)
  moreover have "keeps w (w1\<lparr>w_sys := rs\<rparr>)" using w1(2) by (simp add: keeps_def)
  ultimately show ?thesis by blast
qed

text \<open>
  C8: The server serves a client of this program: when what the client sends is its greeting, the
  credentials of a user of the authenticator and a request to connect to an address that resolves,
  and the target accepts, the handshake succeeds, the session belongs to that user and to the
  connection, and what the server has sent is an acceptance as the client's handshake wants it.
\<close>

theorem server_serves_client:
  assumes "sv_obj self = AuthObj" and "auth_inv (w_auth w) xs" and "1 < w_auth_ref w"
    and "c_user c = Some u" and "c_pass c = Some p" and "cstr u = Some nm" and "cstr p = Some pw"
    and "nm \<noteq> []" and "length nm < 256" and "pw \<noteq> []" and "length pw < 256"
    and "m \<in> set xs" and "name_of (user_at (w_auth w) m) = nm" and "pass_of (user_at (w_auth w) m) = pw"
    and "avail (tcp_timeout (w_set w)) (rx_of w (s_fd self)) = greeting c @ creds c @ request REQ_CMD_CONNECT a @ rest"
    and "tx_flows (tcp_timeout (w_set w)) (tx_of w (s_fd self))"
    and "addr_ok a" and "resolve (w_libc w) (s_addr_family self) a = Some sa" and "length (sin6_addr sa) = 16"
    and "w_sys w = fd # 0 # 0 # rs" and "0 \<le> fd" and "w_protect w = None"
    and "s_timeout self \<noteq> 0" and "tcp_timeout (w_set w) \<noteq> 0" and "connect_timeout (w_set w) \<noteq> 0"
  shows "\<exists>self' w' bs. hev_socks5_server_handshake hev_socks5_server_class self w = Some (0, self', w') \<and>
     s_type self' = TYPE_TCP \<and> sv_fd0 self' = fd \<and> sv_obj self' = UserObj m \<and>
     out_of w' (s_fd self) = out_of w (s_fd self) @ bs \<and> replies_ok bs"
proof -
  let ?self = "listening self w" and ?t = "tcp_timeout (w_set w)"
  let ?req = "request REQ_CMD_CONNECT a @ rest"
  have t: "s_timeout ?self = ?t" using assms(23) by (simp add: hev_socks5_set_timeout_def)
  have ob: "sv_obj ?self = AuthObj" using assms(1) by simp
  have i: "incoming ?self w = greeting c @ creds c @ ?req" using assms(15) t by (simp add: incoming_def)
  have fl: "flowing ?self w" using assms(16) t by (simp add: flowing_def)
  have "account (w_auth w) xs nm pw = Some m" using account_iff [OF assms(2)] assms(12-14) by blast
  then have adm: "admitted (w_auth w) xs (incoming ?self w) = Some (m, ?req)"
    unfolding i using login_of_client [OF assms(4-11), of ?req] assms(4,5)
    by (simp add: admitted_def greeting_of_client login_def)
  from auth_ex [OF assms(2) ob assms(3)] adm fl obtain r self1 w1 where
    a: "hev_socks5_server_auth ?self w = Some (r, self1, w1)" "r = 0"
      "self1 = ?self\<lparr>sv_obj := UserObj m\<rparr>" "takes_user m w w1" "incoming ?self w1 = ?req" "flowing ?self w1"
      "outgoing ?self w1 = outgoing ?self w @ [VERSION_5, AUTH_METHOD_USER, 1, RES_REP_SUCC]" by auto
  have e1: "w_sys w1 = w_sys w" "w_libc w1 = w_libc w" "w_protect w1 = w_protect w" "w_set w1 = w_set w"
    using a(4) by (simp_all add: takes_user_def same_env_def)
  have i1: "incoming self1 w1 = ?req" "flowing self1 w1" using a(3,5,6) by simp_all
  have rs: "resolve (w_libc w1) (s_addr_family self1) a = Some sa" using assms(18) e1 a(3) by simp
  from read_request_ok [OF i1(1) assms(17) rs] obtain fam w2 where
    q: "hev_socks5_server_read_request RES_REP_SUCC zero_sockaddr self1 w1 =
        Some (0, Some REQ_CMD_CONNECT, RES_REP_SUCC, sa, self1\<lparr>s_addr_family := fam\<rparr>, w2)" "only_sock (s_fd self1) w1 w2"
      "outgoing self1 w2 = outgoing self1 w1" "flowing self1 w2 = flowing self1 w1" by blast
  let ?self2 = "self1\<lparr>s_addr_family := fam\<rparr>"
  note f2 = only_sock_fields [OF q(2)]
  have c: "w_sys w2 = fd # 0 # 0 # rs" "w_protect w2 = None" "s_timeout ?self2 = tcp_timeout (w_set w2)"
      "tcp_timeout (w_set w2) \<noteq> 0" "connect_timeout (w_set w2) \<noteq> 0" "sc_bind hev_socks5_server_class = hev_socks5_bind"
    using f2 e1 assms(20,22,24,25) t a(3) by (simp_all add: hev_socks5_server_class_def)
  from server_connect_ok [OF c(1) assms(21) c(2,6,3,4,5), of sa] obtain w3 where
    w3: "hev_socks5_server_connect hev_socks5_server_class sa ?self2 w2 = Some (0, ?self2\<lparr>sv_fd0 := fd\<rparr>, w3)" "keeps w2 w3" by blast
  let ?self3 = "?self2\<lparr>sv_fd0 := fd, s_type := TYPE_TCP\<rparr>"
  have sk: "w_sock w3 = w_sock w2" using w3(2) by (simp add: keeps_def)
  from write_response_ex [OF assms(19), of RES_REP_SUCC ?self3 w3] obtain x w4 where
    s: "hev_socks5_server_write_response RES_REP_SUCC sa ?self3 w3 = Some (x, ?self3, w4)"
      "flowing ?self3 w3 \<longrightarrow> x = 0 \<and> outgoing ?self3 w4 = outgoing ?self3 w3 @ answer RES_REP_SUCC sa" by blast
  have s3: "flowing ?self3 w3" "outgoing ?self3 w3 = outgoing self1 w1" "outgoing ?self3 w4 = out_of w4 (s_fd self)"
    using q(3,4) i1(2) sk a(3) by (simp_all add: flowing_def outgoing_def)
  have run: "hev_socks5_server_handshake hev_socks5_server_class self w = Some (0, ?self3, w4)"
    using a(1,2) q(1) w3(1) s(1,2) s3(1)
    by (simp add: hev_socks5_server_handshake_def hev_socks5_get_tcp_timeout_def server_command_def Let_def)
  have "out_of w4 (s_fd self) = out_of w (s_fd self) @ [VERSION_5, AUTH_METHOD_USER, 1, RES_REP_SUCC] @ answer RES_REP_SUCC sa"
    using s(2) s3 a(3,7) by (simp add: outgoing_def)
  moreover have "replies_ok ([VERSION_5, AUTH_METHOD_USER, 1, RES_REP_SUCC] @ answer RES_REP_SUCC sa)"
    using response_ok_answer [OF assms(19)] by simp
  ultimately show ?thesis using run a(3) by fastforce
qed

definition root_client :: client where
  "root_client = \<lparr>s_fd = 9, s_timeout = 1, s_type = TYPE_TCP, s_udp_associated = False, s_addr_family = AF_INET,
     c_user = Some [114, 111, 111, 116, 0], c_pass = Some [112, 119, 0]\<rparr>"

lemma server_serves_client_witness:
  "\<exists>self' w' bs. hev_socks5_server_handshake hev_socks5_server_class srv_session
       (srv_conn [RxData [5, 1, 2, 1, 4, 114, 111, 111], RxAgain 5, RxData ([116, 2, 112, 119] @ request REQ_CMD_CONNECT (Ipv4 [1, 2, 3, 4] 80))]
          [7, 0, 0]) = Some (0, self', w') \<and> sv_fd0 self' = 7 \<and> sv_obj self' = UserObj 16 \<and> out_of w' 3 = bs \<and> replies_ok bs"
  using server_serves_client [of srv_session "srv_conn [RxData [5, 1, 2, 1, 4, 114, 111, 111], RxAgain 5,
        RxData ([116, 2, 112, 119] @ request REQ_CMD_CONNECT (Ipv4 [1, 2, 3, 4] 80))] [7, 0, 0]" "[16]" root_client
      "[114, 111, 111, 116, 0]" "[112, 119, 0]" "[114, 111, 111, 116]" "[112, 119]" 16 "Ipv4 [1, 2, 3, 4] 80" "[]"
      "\<lparr>sin6_family = AF_INET6, sin6_port = htons 80, sin6_addr = v4_bytes [1, 2, 3, 4]\<rparr>" 7 "[]"]
  by (auto simp: srv_example root_client_def greeting_def creds_def wire_text_def misc_defaults_def waits_def
      resolve_def v4_bytes_def request_def)

end
