(* ===== verification/Hev_Config.thy ===== *)
theory Hev_Config
  imports Socks5_Addr
begin

text \<open>
  The configuration, \<open>hev-config.c\<close>: the static variables it fills from a YAML document, the
  functions that walk the document, and the getters the rest of the program reads. The document
  comes from the YAML library, which hands out an array of nodes; a scalar there is a terminated
  string, so \<open>text_of\<close> is what the string functions see of it.
\<close>

section \<open>The document\<close>

datatype ynode = YScalar "u8 list" | YMapping "(nat \<times> nat) list" | YSequence "nat list"

type_synonym ydoc = "ynode list"

definition yaml_document_get_node :: "ydoc \<Rightarrow> nat \<Rightarrow> ynode option" where
  "yaml_document_get_node doc index = (if index > 0 \<and> index \<le> length doc then Some (doc ! (index - 1)) else None)"

definition yaml_document_get_root_node :: "ydoc \<Rightarrow> ynode option" where
  "yaml_document_get_root_node doc = (if doc \<noteq> [] then Some (doc ! 0) else None)"

definition text_of :: "u8 list \<Rightarrow> u8 list" where
  "text_of v = takeWhile (\<lambda>c. c \<noteq> 0) v"

definition lit :: "string \<Rightarrow> u8 list" where
  "lit s = map of_char s"

section \<open>Library functions on strings\<close>

text \<open>\<open>strncpy (dst, value, n)\<close> into an array that may be longer.\<close>

definition copy_text :: "u8 list \<Rightarrow> u8 list \<Rightarrow> nat \<Rightarrow> u8 list" where
  "copy_text dst value n = take n (value @ replicate n 0) @ drop n dst"

definition tolower :: "u8 \<Rightarrow> u8" where
  "tolower c = (if 65 \<le> c \<and> c \<le> 90 then c + 32 else c)"

fun strcasecmp :: "u8 list \<Rightarrow> u8 list \<Rightarrow> int" where
  "strcasecmp [] [] = 0"
| "strcasecmp [] (b # bs) = - uint (tolower b)"
| "strcasecmp (a # as) [] = uint (tolower a)"
| "strcasecmp (a # as) (b # bs) =
     (if tolower a = tolower b then strcasecmp as bs else uint (tolower a) - uint (tolower b))"

definition digit_val :: "u8 \<Rightarrow> nat" where
  "digit_val c =
     (if 48 \<le> c \<and> c \<le> 57 then unat c - 48
      else if 97 \<le> c \<and> c \<le> 122 then unat c - 87
      else if 65 \<le> c \<and> c \<le> 90 then unat c - 55 else 36)"

definition isspace :: "u8 \<Rightarrow> bool" where
  "isspace c \<longleftrightarrow> c = 32 \<or> 9 \<le> c \<and> c \<le> 13"

fun digits :: "nat \<Rightarrow> nat \<Rightarrow> u8 list \<Rightarrow> nat" where
  "digits base acc [] = acc"
| "digits base acc (c # s) = (if digit_val c < base then digits base (acc * base + digit_val c) s else acc)"

fun sign_of :: "u8 list \<Rightarrow> bool \<times> u8 list" where
  "sign_of (c # s) = (if c = 45 then (True, s) else if c = 43 then (False, s) else (False, c # s))"
| "sign_of [] = (False, [])"

text \<open>The base 0 means that the prefix decides: \<open>0x\<close> for 16, another \<open>0\<close> for 8.\<close>

fun base_of :: "nat \<Rightarrow> u8 list \<Rightarrow> nat \<times> u8 list" where
  "base_of base (a # b # s) =
     (if base = 0 then
        if a = 48 \<and> (b = 120 \<or> b = 88) then (16, s) else if a = 48 then (8, a # b # s) else (10, a # b # s)
      else (base, a # b # s))"
| "base_of base s = (if base = 0 then 10 else base, s)"

definition strto :: "nat \<Rightarrow> u8 list \<Rightarrow> bool \<times> nat" where
  "strto base s = (let (neg, s) = sign_of (dropWhile isspace s); (base, s) = base_of base s in (neg, digits base 0 s))"

text \<open>\<open>unsigned long\<close> and \<open>long\<close> have 64 bits.\<close>

definition strtoul :: "u8 list \<Rightarrow> nat \<Rightarrow> 64 word" where
  "strtoul s base =
     (let (neg, n) = strto base s
      in if n \<ge> 2 ^ 64 then - 1 else if neg then - of_nat n else of_nat n)"

definition strtol :: "u8 list \<Rightarrow> nat \<Rightarrow> 64 word" where
  "strtol s base =
     (let (neg, n) = strto base s
      in if neg then of_int (- min (int n) (2 ^ 63)) else of_int (min (int n) (2 ^ 63 - 1)))"

text \<open>The conversion of a \<open>long\<close> to an \<open>int\<close>.\<close>

definition to_int :: "64 word \<Rightarrow> int" where
  "to_int v = sint (ucast v :: u32)"

section \<open>The variables\<close>

record srv_conf =
  srv_user :: "u8 list option"
  srv_pass :: "u8 list option"
  srv_mark :: u32
  srv_udp_in_udp :: bool
  srv_port :: u16
  srv_pipeline :: bool
  srv_fastopen :: bool
  srv_udp_addr :: "u8 list"
  srv_addr :: "u8 list"

record config =
  tun_name :: "u8 list"
  tun_mtu :: u32
  multi_queue :: int
  icmp :: bool
  tun_ipv4_address :: "u8 list"
  tun_ipv6_address :: "u8 list"
  tun_post_up_script :: "u8 list"
  tun_pre_down_script :: "u8 list"
  srv :: srv_conf
  mapdns_address :: u32
  mapdns_port :: int
  mapdns_network :: u32
  mapdns_netmask :: u32
  mapdns_cache_size :: int
  misc_log_file :: "u8 list"
  misc_pid_file :: "u8 list"
  misc_max_session_count :: int
  misc_task_stack_size :: int
  misc_tcp_buffer_size :: int
  misc_udp_recv_buffer_size :: int
  misc_udp_copy_buffer_nums :: int
  misc_connect_timeout :: int
  misc_tcp_read_write_timeout :: int
  misc_udp_read_write_timeout :: int
  misc_limit_nofile :: int
  misc_log_level :: nat

definition TCP_SND_BUF :: int where "TCP_SND_BUF = 8 * 8191"
definition UDP_BUF_SIZE :: int where "UDP_BUF_SIZE = 1500"
definition TASK_STACK_SIZE :: int where "TASK_STACK_SIZE = 20480"

abbreviation (input) "LOG_DEBUG \<equiv> 0 :: nat"
abbreviation (input) "LOG_INFO \<equiv> 1 :: nat"
abbreviation (input) "LOG_WARN \<equiv> 2 :: nat"
abbreviation (input) "LOG_ERROR \<equiv> 3 :: nat"

definition srv_zero :: srv_conf where
  "srv_zero = \<lparr>srv_user = None, srv_pass = None, srv_mark = 0, srv_udp_in_udp = False, srv_port = 0,
     srv_pipeline = False, srv_fastopen = False, srv_udp_addr = replicate 256 0, srv_addr = replicate 256 0\<rparr>"

definition hev_config_reset :: config where
  "hev_config_reset = \<lparr>tun_name = replicate 64 0, tun_mtu = 8500, multi_queue = 0, icmp = False,
     tun_ipv4_address = replicate 16 0, tun_ipv6_address = replicate 64 0,
     tun_post_up_script = replicate 1024 0, tun_pre_down_script = replicate 1024 0, srv = srv_zero,
     mapdns_address = 0, mapdns_port = 0, mapdns_network = 0, mapdns_netmask = 0, mapdns_cache_size = 0,
     misc_log_file = replicate 1024 0, misc_pid_file = replicate 1024 0, misc_max_session_count = 0, misc_task_stack_size = 86016,
     misc_tcp_buffer_size = 65536, misc_udp_recv_buffer_size = 524288, misc_udp_copy_buffer_nums = 10, misc_connect_timeout = 10000,
     misc_tcp_read_write_timeout = 300000, misc_udp_read_write_timeout = 60000, misc_limit_nofile = 65535, misc_log_level = LOG_WARN\<rparr>"

section \<open>Walking a mapping\<close>

text \<open>
  The loop over the pairs of a mapping. A pair without key or value is skipped and a key that is no
  scalar ends the loop; the body, which gets the key and the value's node, may end it too, or fail.
\<close>

datatype flow = Next | Break | Fail

fun walk :: "ydoc \<Rightarrow> (u8 list \<Rightarrow> ynode option \<Rightarrow> 's \<Rightarrow> flow \<times> 's) \<Rightarrow> (nat \<times> nat) list \<Rightarrow> 's \<Rightarrow> flow \<times> 's" where
  "walk doc f [] s = (Next, s)"
| "walk doc f ((k, v) # ps) s =
     (if k = 0 \<or> v = 0 then walk doc f ps s
      else case yaml_document_get_node doc k of
        Some (YScalar key) \<Rightarrow>
          (case f (text_of key) (yaml_document_get_node doc v) s of
             (Next, s) \<Rightarrow> walk doc f ps s
           | (Break, s) \<Rightarrow> (Next, s)
           | (Fail, s) \<Rightarrow> (Fail, s))
      | _ \<Rightarrow> (Next, s))"

text \<open>Most bodies want a scalar value and end the loop at anything else.\<close>

fun scalar :: "(u8 list \<Rightarrow> u8 list \<Rightarrow> 's \<Rightarrow> 's) \<Rightarrow> u8 list \<Rightarrow> ynode option \<Rightarrow> 's \<Rightarrow> flow \<times> 's" where
  "scalar f key (Some (YScalar v)) s = (Next, f key (text_of v) s)"
| "scalar f key _ s = (Break, s)"

text \<open>\<open>if (!base || YAML_MAPPING_NODE != base->type) return -1;\<close>\<close>

definition with_mapping :: "ynode option \<Rightarrow> 's \<Rightarrow> ((nat \<times> nat) list \<Rightarrow> int \<times> 's) \<Rightarrow> int \<times> 's" where
  "with_mapping base s f = (case base of Some (YMapping ps) \<Rightarrow> f ps | _ \<Rightarrow> (- 1, s))"

section \<open>The sections\<close>

definition hev_config_parse_tunnel_ipv4 :: "ydoc \<Rightarrow> ynode option \<Rightarrow> config \<Rightarrow> int \<times> config" where
  "hev_config_parse_tunnel_ipv4 doc base c =
     with_mapping base c (\<lambda>ps. (0, snd (walk doc (scalar (\<lambda>key value c.
        if key = lit ''address'' then c\<lparr>tun_ipv4_address := copy_text (tun_ipv4_address c) value 15\<rparr> else c)) ps c)))"

definition hev_config_parse_tunnel_ipv6 :: "ydoc \<Rightarrow> ynode option \<Rightarrow> config \<Rightarrow> int \<times> config" where
  "hev_config_parse_tunnel_ipv6 doc base c =
     with_mapping base c (\<lambda>ps. (0, snd (walk doc (scalar (\<lambda>key value c.
        if key = lit ''address'' then c\<lparr>tun_ipv6_address := copy_text (tun_ipv6_address c) value 63\<rparr> else c)) ps c)))"

definition tunnel_scalar :: "u8 list \<Rightarrow> u8 list \<Rightarrow> config \<Rightarrow> config" where
  "tunnel_scalar key value c =
     (if key = lit ''name'' then c\<lparr>tun_name := copy_text (tun_name c) value 63\<rparr>
      else if key = lit ''mtu'' then c\<lparr>tun_mtu := ucast (strtoul value 10)\<rparr>
      else if key = lit ''multi-queue'' then c\<lparr>multi_queue := strcasecmp value (lit ''false'')\<rparr>
      else if key = lit ''ipv4'' then c\<lparr>tun_ipv4_address := copy_text (tun_ipv4_address c) value 15\<rparr>
      else if key = lit ''ipv6'' then c\<lparr>tun_ipv6_address := copy_text (tun_ipv6_address c) value 63\<rparr>
      else if key = lit ''icmp'' then c\<lparr>icmp := strcasecmp value (lit ''reply'') = 0\<rparr>
      else if key = lit ''post-up-script'' then c\<lparr>tun_post_up_script := copy_text (tun_post_up_script c) value 1023\<rparr>
      else if key = lit ''pre-down-script'' then c\<lparr>tun_pre_down_script := copy_text (tun_pre_down_script c) value 1023\<rparr>
      else c)"

definition tunnel_pair :: "ydoc \<Rightarrow> u8 list \<Rightarrow> ynode option \<Rightarrow> config \<Rightarrow> flow \<times> config" where
  "tunnel_pair doc key node c =
     (case node of
        None \<Rightarrow> (Break, c)
      | Some (YScalar v) \<Rightarrow> (Next, tunnel_scalar key (text_of v) c)
      | Some _ \<Rightarrow>
          (Next, if key = lit ''ipv4'' then snd (hev_config_parse_tunnel_ipv4 doc node c)
             else if key = lit ''ipv6'' then snd (hev_config_parse_tunnel_ipv6 doc node c) else c))"

definition hev_config_parse_tunnel :: "ydoc \<Rightarrow> ynode option \<Rightarrow> config \<Rightarrow> int \<times> config" where
  "hev_config_parse_tunnel doc base c = with_mapping base c (\<lambda>ps. (0, snd (walk doc (tunnel_pair doc) ps c)))"

text \<open>The local pointers of \<open>hev_config_parse_socks5\<close>.\<close>

record socks5_keys =
  k_addr :: "u8 list option"
  k_port :: "u8 list option"
  k_udpm :: "u8 list option"
  k_udpa :: "u8 list option"
  k_user :: "u8 list option"
  k_pass :: "u8 list option"
  k_mark :: "u8 list option"
  k_pipe :: "u8 list option"
  k_tfso :: "u8 list option"

definition no_keys :: socks5_keys where
  "no_keys = \<lparr>k_addr = None, k_port = None, k_udpm = None, k_udpa = None, k_user = None, k_pass = None,
     k_mark = None, k_pipe = None, k_tfso = None\<rparr>"

definition socks5_scalar :: "u8 list \<Rightarrow> u8 list \<Rightarrow> socks5_keys \<Rightarrow> socks5_keys" where
  "socks5_scalar key value k =
     (if key = lit ''port'' then k\<lparr>k_port := Some value\<rparr>
      else if key = lit ''address'' then k\<lparr>k_addr := Some value\<rparr>
      else if key = lit ''udp'' then k\<lparr>k_udpm := Some value\<rparr>
      else if key = lit ''udp-address'' then k\<lparr>k_udpa := Some value\<rparr>
      else if key = lit ''pipeline'' then k\<lparr>k_pipe := Some value\<rparr>
      else if key = lit ''username'' then k\<lparr>k_user := Some value\<rparr>
      else if key = lit ''password'' then k\<lparr>k_pass := Some value\<rparr>
      else if key = lit ''mark'' then k\<lparr>k_mark := Some value\<rparr>
      else if key = lit ''tcp-fastopen'' then k\<lparr>k_tfso := Some value\<rparr>
      else k)"

text \<open>\<open>given k f\<close>: the option is there and its value satisfies \<open>f\<close>.\<close>

definition given :: "'v option \<Rightarrow> ('v \<Rightarrow> bool) \<Rightarrow> bool" where
  "given k f \<longleftrightarrow> (case k of None \<Rightarrow> False | Some v \<Rightarrow> f v)"

definition set_pipe :: "socks5_keys \<Rightarrow> srv_conf \<Rightarrow> srv_conf" where
  "set_pipe k s = (if given (k_pipe k) (\<lambda>v. strcasecmp v (lit ''true'') = 0) then s\<lparr>srv_pipeline := True\<rparr> else s)"

definition set_udp :: "socks5_keys \<Rightarrow> srv_conf \<Rightarrow> srv_conf" where
  "set_udp k s = (if given (k_udpm k) (\<lambda>v. strcasecmp v (lit ''udp'') = 0) then s\<lparr>srv_udp_in_udp := True\<rparr> else s)"

definition set_udp_addr :: "socks5_keys \<Rightarrow> srv_conf \<Rightarrow> srv_conf" where
  "set_udp_addr k s = (case k_udpa k of None \<Rightarrow> s | Some v \<Rightarrow> s\<lparr>srv_udp_addr := copy_text (srv_udp_addr s) v 255\<rparr>)"

definition set_login :: "socks5_keys \<Rightarrow> srv_conf \<Rightarrow> srv_conf" where
  "set_login k s =
     (case (k_user k, k_pass k) of
        (Some u, Some p) \<Rightarrow> s\<lparr>srv_user := Some (copy_text (replicate 256 0) u 255),
                              srv_pass := Some (copy_text (replicate 256 0) p 255)\<rparr>
      | _ \<Rightarrow> s)"

definition set_mark :: "socks5_keys \<Rightarrow> srv_conf \<Rightarrow> srv_conf" where
  "set_mark k s = (case k_mark k of None \<Rightarrow> s | Some v \<Rightarrow> s\<lparr>srv_mark := ucast (strtoul v 0)\<rparr>)"

definition set_fastopen :: "socks5_keys \<Rightarrow> srv_conf \<Rightarrow> srv_conf" where
  "set_fastopen k s = (case k_tfso k of None \<Rightarrow> s | Some v \<Rightarrow> s\<lparr>srv_fastopen := strcasecmp v (lit ''true'') = 0\<rparr>)"

definition set_server :: "socks5_keys \<Rightarrow> u8 list \<Rightarrow> u8 list \<Rightarrow> srv_conf \<Rightarrow> srv_conf" where
  "set_server k addr port s =
     set_fastopen k (set_mark k (set_login k (set_udp_addr k (set_udp k (set_pipe k
       (s\<lparr>srv_addr := copy_text (srv_addr s) addr 255, srv_port := ucast (strtoul port 10)\<rparr>))))))"

lemmas set_server_defs = set_server_def set_fastopen_def set_mark_def set_login_def set_udp_addr_def set_udp_def set_pipe_def

definition hev_config_parse_socks5 :: "ydoc \<Rightarrow> ynode option \<Rightarrow> config \<Rightarrow> int \<times> config" where
  "hev_config_parse_socks5 doc base c = with_mapping base c (\<lambda>ps.
     let k = snd (walk doc (scalar socks5_scalar) ps no_keys) in
     case (k_port k, k_addr k) of
       (Some port, Some addr) \<Rightarrow>
         if (k_user k \<noteq> None) \<noteq> (k_pass k \<noteq> None) then (- 1, c)
         else (0, c\<lparr>srv := set_server k addr port (srv c)\<rparr>)
     | _ \<Rightarrow> (- 1, c))"

text \<open>\<open>inet_pton\<close> stores four bytes, the first one lowest, and leaves the variable alone when it fails.\<close>

definition load32 :: "u8 list \<Rightarrow> u32" where
  "load32 b = ucast (b ! 0) OR push_bit 8 (ucast (b ! 1)) OR push_bit 16 (ucast (b ! 2)) OR push_bit 24 (ucast (b ! 3))"

definition ntohl :: "u32 \<Rightarrow> u32" where
  "ntohl v = push_bit 24 (v AND 0xFF) OR push_bit 8 (v AND 0xFF00) OR
     (drop_bit 8 v AND 0xFF00) OR (drop_bit 24 v AND 0xFF)"

definition pton_into :: "u8 list \<Rightarrow> u32 \<Rightarrow> u32" where
  "pton_into value v = (case inet_pton4 value of None \<Rightarrow> v | Some b \<Rightarrow> load32 b)"

definition mapdns_scalar :: "u8 list \<Rightarrow> u8 list \<Rightarrow> config \<Rightarrow> config" where
  "mapdns_scalar key value c =
     (if key = lit ''address'' then c\<lparr>mapdns_address := pton_into value (mapdns_address c)\<rparr>
      else if key = lit ''port'' then c\<lparr>mapdns_port := to_int (strtoul value 10)\<rparr>
      else if key = lit ''network'' then c\<lparr>mapdns_network := pton_into value (mapdns_network c)\<rparr>
      else if key = lit ''netmask'' then c\<lparr>mapdns_netmask := pton_into value (mapdns_netmask c)\<rparr>
      else if key = lit ''cache-size'' then c\<lparr>mapdns_cache_size := to_int (strtoul value 10)\<rparr>
      else c)"

definition hev_config_parse_mapdns :: "ydoc \<Rightarrow> ynode option \<Rightarrow> config \<Rightarrow> int \<times> config" where
  "hev_config_parse_mapdns doc base c = with_mapping base c (\<lambda>ps.
     let c = snd (walk doc (scalar mapdns_scalar) ps c)
     in (0, c\<lparr>mapdns_network := ntohl (mapdns_network c), mapdns_netmask := ntohl (mapdns_netmask c)\<rparr>))"

definition hev_config_parse_log_level :: "u8 list \<Rightarrow> nat" where
  "hev_config_parse_log_level value =
     (if value = lit ''debug'' then LOG_DEBUG
      else if value = lit ''info'' then LOG_INFO
      else if value = lit ''error'' then LOG_ERROR
      else LOG_WARN)"

text \<open>The three timeouts are local until the end.\<close>

record timeouts =
  t_tcp :: int
  t_udp :: int
  t_both :: int

definition misc_scalar :: "u8 list \<Rightarrow> u8 list \<Rightarrow> config \<times> timeouts \<Rightarrow> config \<times> timeouts" where
  "misc_scalar key value ct =
     (let (c, t) = ct in
      if key = lit ''task-stack-size'' then (c\<lparr>misc_task_stack_size := to_int (strtoul value 10)\<rparr>, t)
      else if key = lit ''tcp-buffer-size'' then (c\<lparr>misc_tcp_buffer_size := to_int (strtoul value 10)\<rparr>, t)
      else if key = lit ''udp-recv-buffer-size'' then (c\<lparr>misc_udp_recv_buffer_size := to_int (strtoul value 10)\<rparr>, t)
      else if key = lit ''udp-copy-buffer-nums'' then (c\<lparr>misc_udp_copy_buffer_nums := to_int (strtoul value 10)\<rparr>, t)
      else if key = lit ''max-session-count'' then (c\<lparr>misc_max_session_count := to_int (strtoul value 10)\<rparr>, t)
      else if key = lit ''connect-timeout'' then (c\<lparr>misc_connect_timeout := to_int (strtoul value 10)\<rparr>, t)
      else if key = lit ''read-write-timeout'' then (c, t\<lparr>t_both := to_int (strtoul value 10)\<rparr>)
      else if key = lit ''tcp-read-write-timeout'' then (c, t\<lparr>t_tcp := to_int (strtoul value 10)\<rparr>)
      else if key = lit ''udp-read-write-timeout'' then (c, t\<lparr>t_udp := to_int (strtoul value 10)\<rparr>)
      else if key = lit ''pid-file'' then (c\<lparr>misc_pid_file := copy_text (misc_pid_file c) value 1023\<rparr>, t)
      else if key = lit ''log-file'' then (c\<lparr>misc_log_file := copy_text (misc_log_file c) value 1023\<rparr>, t)
      else if key = lit ''log-level'' then (c\<lparr>misc_log_level := hev_config_parse_log_level value\<rparr>, t)
      else if key = lit ''limit-nofile'' then (c\<lparr>misc_limit_nofile := to_int (strtol value 10)\<rparr>, t)
      else (c, t))"

definition set_timeouts :: "timeouts \<Rightarrow> config \<Rightarrow> config" where
  "set_timeouts t c =
     (let tcp = (if t_tcp t \<le> 0 then t_both t else t_tcp t);
          udp = (if t_udp t \<le> 0 then t_both t else t_udp t);
          c = (if tcp > 0 then c\<lparr>misc_tcp_read_write_timeout := tcp\<rparr> else c)
      in if udp > 0 then c\<lparr>misc_udp_read_write_timeout := udp\<rparr> else c)"

definition hev_config_parse_misc :: "ydoc \<Rightarrow> ynode option \<Rightarrow> config \<Rightarrow> int \<times> config" where
  "hev_config_parse_misc doc base c = with_mapping base c (\<lambda>ps.
     let (c, t) = snd (walk doc (scalar misc_scalar) ps (c, \<lparr>t_tcp = - 1, t_udp = - 1, t_both = - 1\<rparr>))
     in (0, set_timeouts t c))"

section \<open>The document\<close>

definition doc_pair :: "ydoc \<Rightarrow> u8 list \<Rightarrow> ynode option \<Rightarrow> config \<Rightarrow> flow \<times> config" where
  "doc_pair doc key node c =
     (let (res, c) =
        (if key = lit ''tunnel'' then hev_config_parse_tunnel doc node c
         else if key = lit ''socks5'' then hev_config_parse_socks5 doc node c
         else if key = lit ''mapdns'' then hev_config_parse_mapdns doc node c
         else if key = lit ''misc'' then hev_config_parse_misc doc node c
         else (0, c))
      in (if res < 0 then Fail else Next, c))"

definition int_ok :: "int \<Rightarrow> bool" where
  "int_ok i \<longleftrightarrow> - (2 ^ 31) \<le> i \<and> i < 2 ^ 31"

text \<open>The sizes after the loop; an overflow of \<open>int\<close> there is undefined.\<close>

definition fit_sizes :: "config \<Rightarrow> config option" where
  "fit_sizes c =
     (let c = (if misc_tcp_buffer_size c > TCP_SND_BUF then c\<lparr>misc_tcp_buffer_size := TCP_SND_BUF\<rparr> else c);
          udp_buffer_size = UDP_BUF_SIZE * misc_udp_copy_buffer_nums c;
          min_task_stack_size = TASK_STACK_SIZE + (if misc_tcp_buffer_size c > udp_buffer_size then misc_tcp_buffer_size c else udp_buffer_size)
      in if \<not> int_ok udp_buffer_size \<or> \<not> int_ok min_task_stack_size then None
         else Some (if misc_task_stack_size c < min_task_stack_size then c\<lparr>misc_task_stack_size := min_task_stack_size\<rparr> else c))"

definition hev_config_parse_doc :: "ydoc \<Rightarrow> config \<Rightarrow> (int \<times> config) option" where
  "hev_config_parse_doc doc c =
     (case yaml_document_get_root_node doc of
        Some (YMapping ps) \<Rightarrow>
          (case walk doc (doc_pair doc) ps c of
             (Fail, c) \<Rightarrow> Some (- 1, c)
           | (_, c) \<Rightarrow> map_option (\<lambda>c. (0, c)) (fit_sizes c))
      | _ \<Rightarrow> Some (- 1, c))"

text \<open>\<open>load\<close> is the YAML library, \<open>file\<close> what \<open>fopen\<close> finds.\<close>

definition hev_config_init_from_str :: "(u8 list \<Rightarrow> ydoc option) \<Rightarrow> u8 list \<Rightarrow> (int \<times> config) option" where
  "hev_config_init_from_str load str =
     (case load str of None \<Rightarrow> Some (- 1, hev_config_reset) | Some doc \<Rightarrow> hev_config_parse_doc doc hev_config_reset)"

definition hev_config_init_from_file :: "(u8 list \<Rightarrow> ydoc option) \<Rightarrow> u8 list option \<Rightarrow> (int \<times> config) option" where
  "hev_config_init_from_file load file =
     (case file of
        None \<Rightarrow> Some (- 1, hev_config_reset)
      | Some str \<Rightarrow>
          (case load str of None \<Rightarrow> Some (- 1, hev_config_reset) | Some doc \<Rightarrow> hev_config_parse_doc doc hev_config_reset))"

section \<open>Getters\<close>

text \<open>Those that hand out a string give NULL for an empty one.\<close>

definition text_or_null :: "u8 list \<Rightarrow> u8 list option" where
  "text_or_null buf = (if buf ! 0 = 0 then None else Some buf)"

definition hev_config_get_tunnel_name :: "config \<Rightarrow> u8 list option" where
  "hev_config_get_tunnel_name c = text_or_null (tun_name c)"

definition hev_config_get_tunnel_ipv4_address :: "config \<Rightarrow> u8 list option" where
  "hev_config_get_tunnel_ipv4_address c = text_or_null (tun_ipv4_address c)"

definition hev_config_get_tunnel_ipv6_address :: "config \<Rightarrow> u8 list option" where
  "hev_config_get_tunnel_ipv6_address c = text_or_null (tun_ipv6_address c)"

definition hev_config_get_tunnel_post_up_script :: "config \<Rightarrow> u8 list option" where
  "hev_config_get_tunnel_post_up_script c = text_or_null (tun_post_up_script c)"

definition hev_config_get_tunnel_pre_down_script :: "config \<Rightarrow> u8 list option" where
  "hev_config_get_tunnel_pre_down_script c = text_or_null (tun_pre_down_script c)"

definition hev_config_get_misc_pid_file :: "config \<Rightarrow> u8 list option" where
  "hev_config_get_misc_pid_file c = text_or_null (misc_pid_file c)"

definition hev_config_get_misc_log_file :: "config \<Rightarrow> u8 list option" where
  "hev_config_get_misc_log_file c =
     (case text_or_null (misc_log_file c) of
        None \<Rightarrow> None
      | Some buf \<Rightarrow> if text_of buf = lit ''null'' then None else Some buf)"

definition hev_config_get_tunnel_mtu :: "config \<Rightarrow> u32" where
  "hev_config_get_tunnel_mtu c = tun_mtu c"

definition hev_config_get_tunnel_multi_queue :: "config \<Rightarrow> int" where
  "hev_config_get_tunnel_multi_queue c = multi_queue c"

definition hev_config_get_tunnel_icmp :: "config \<Rightarrow> bool" where
  "hev_config_get_tunnel_icmp c = icmp c"

definition hev_config_get_socks5_server :: "config \<Rightarrow> srv_conf" where
  "hev_config_get_socks5_server c = srv c"

definition hev_config_get_mapdns_address :: "config \<Rightarrow> u32" where
  "hev_config_get_mapdns_address c = mapdns_address c"

definition hev_config_get_mapdns_port :: "config \<Rightarrow> int" where
  "hev_config_get_mapdns_port c = mapdns_port c"

definition hev_config_get_mapdns_network :: "config \<Rightarrow> u32" where
  "hev_config_get_mapdns_network c = mapdns_network c"

definition hev_config_get_mapdns_netmask :: "config \<Rightarrow> u32" where
  "hev_config_get_mapdns_netmask c = mapdns_netmask c"

definition hev_config_get_mapdns_cache_size :: "config \<Rightarrow> int" where
  "hev_config_get_mapdns_cache_size c = mapdns_cache_size c"

definition hev_config_get_misc_task_stack_size :: "config \<Rightarrow> int" where
  "hev_config_get_misc_task_stack_size c = misc_task_stack_size c"

definition hev_config_get_misc_tcp_buffer_size :: "config \<Rightarrow> int" where
  "hev_config_get_misc_tcp_buffer_size c = misc_tcp_buffer_size c"

definition hev_config_get_misc_udp_recv_buffer_size :: "config \<Rightarrow> int" where
  "hev_config_get_misc_udp_recv_buffer_size c = misc_udp_recv_buffer_size c"

definition hev_config_get_misc_udp_copy_buffer_nums :: "config \<Rightarrow> int" where
  "hev_config_get_misc_udp_copy_buffer_nums c = misc_udp_copy_buffer_nums c"

definition hev_config_get_misc_max_session_count :: "config \<Rightarrow> int" where
  "hev_config_get_misc_max_session_count c = misc_max_session_count c"

definition hev_config_get_misc_connect_timeout :: "config \<Rightarrow> int" where
  "hev_config_get_misc_connect_timeout c = misc_connect_timeout c"

definition hev_config_get_misc_tcp_read_write_timeout :: "config \<Rightarrow> int" where
  "hev_config_get_misc_tcp_read_write_timeout c = misc_tcp_read_write_timeout c"

definition hev_config_get_misc_udp_read_write_timeout :: "config \<Rightarrow> int" where
  "hev_config_get_misc_udp_read_write_timeout c = misc_udp_read_write_timeout c"

definition hev_config_get_misc_limit_nofile :: "config \<Rightarrow> int" where
  "hev_config_get_misc_limit_nofile c = misc_limit_nofile c"

definition hev_config_get_misc_log_level :: "config \<Rightarrow> nat" where
  "hev_config_get_misc_log_level c = misc_log_level c"

section \<open>What a document can do\<close>

lemma walk_invariant:
  assumes "\<And>key node s. P s \<Longrightarrow> P (snd (f key node s))" and "P s"
  shows "P (snd (walk doc f ps s))"
  using assms(2)
proof (induction ps arbitrary: s)
  case (Cons p ps)
  obtain k v where p: "p = (k, v)" by (cases p)
  have "P s'" if "f key node s = (r, s')" for key node r s' using assms(1) [OF Cons.prems, of key node] that by simp
  then show ?case using Cons by (auto simp: p split: option.split ynode.split prod.split flow.split)
qed simp

lemma snd_scalar: "snd (scalar f key node s) = (case node of Some (YScalar v) \<Rightarrow> f key (text_of v) s | _ \<Rightarrow> s)"
  by (auto split: option.split ynode.split)

lemma scalar_invariant: "(\<And>key value s. P s \<Longrightarrow> P (f key value s)) \<Longrightarrow> P s \<Longrightarrow> P (snd (scalar f key node s))"
  by (auto simp: snd_scalar split: option.split ynode.split)

text \<open>An array of \<open>n\<close> characters that holds a terminated string.\<close>

definition text_ok :: "nat \<Rightarrow> u8 list \<Rightarrow> bool" where
  "text_ok n buf \<longleftrightarrow> length buf = n \<and> last buf = 0"

lemma text_ok_copy [intro]: "text_ok n dst \<Longrightarrow> m < n \<Longrightarrow> text_ok n (copy_text dst value m)"
  by (auto simp: text_ok_def copy_text_def)

lemma text_ok_replicate [simp]: "0 < n \<Longrightarrow> text_ok n (replicate n 0)"
  by (simp add: text_ok_def)

definition srv_wf :: "srv_conf \<Rightarrow> bool" where
  "srv_wf s \<longleftrightarrow> text_ok 256 (srv_addr s) \<and> text_ok 256 (srv_udp_addr s) \<and> (srv_user s = None \<longleftrightarrow> srv_pass s = None) \<and>
     (\<forall>u. srv_user s = Some u \<longrightarrow> text_ok 256 u) \<and> (\<forall>p. srv_pass s = Some p \<longrightarrow> text_ok 256 p)"

definition config_wf :: "config \<Rightarrow> bool" where
  "config_wf c \<longleftrightarrow> text_ok 64 (tun_name c) \<and> text_ok 16 (tun_ipv4_address c) \<and> text_ok 64 (tun_ipv6_address c) \<and>
     text_ok 1024 (tun_post_up_script c) \<and> text_ok 1024 (tun_pre_down_script c) \<and>
     text_ok 1024 (misc_log_file c) \<and> text_ok 1024 (misc_pid_file c) \<and> srv_wf (srv c)"

end
