(* ===== verification/Config_Props.thy ===== *)
theory Config_Props
  imports Hev_Config
begin

text \<open>
  What the rest of the program may rely on after the configuration was read: terminated strings of
  the declared sizes, user and password together, buffers that fit; and what the server section
  of a document means.
\<close>

section \<open>Well-formed variables\<close>

lemma config_wf_tunnel_scalar: "config_wf c \<Longrightarrow> config_wf (tunnel_scalar key value c)"
  by (simp add: tunnel_scalar_def config_wf_def text_ok_copy)

lemma config_wf_with_mapping: "config_wf c \<Longrightarrow> (\<And>ps. config_wf (snd (f ps))) \<Longrightarrow> config_wf (snd (with_mapping base c f))"
  by (auto simp: with_mapping_def split: option.split ynode.split)

lemma config_wf_scalars:
  "config_wf c \<Longrightarrow> (\<And>k v c. config_wf c \<Longrightarrow> config_wf (f k v c)) \<Longrightarrow> config_wf (snd (walk doc (scalar f) ps c))"
  by (rule walk_invariant) (simp_all add: scalar_invariant)

lemma config_wf_ipv4: "config_wf c \<Longrightarrow> config_wf (snd (hev_config_parse_tunnel_ipv4 doc base c))"
  unfolding hev_config_parse_tunnel_ipv4_def
  by (rule config_wf_with_mapping, assumption) (simp, erule config_wf_scalars, auto simp: config_wf_def)

lemma config_wf_ipv6: "config_wf c \<Longrightarrow> config_wf (snd (hev_config_parse_tunnel_ipv6 doc base c))"
  unfolding hev_config_parse_tunnel_ipv6_def
  by (rule config_wf_with_mapping, assumption) (simp, erule config_wf_scalars, auto simp: config_wf_def)

lemma config_wf_tunnel: "config_wf c \<Longrightarrow> config_wf (snd (hev_config_parse_tunnel doc base c))"
proof -
  have "config_wf c \<Longrightarrow> config_wf (snd (tunnel_pair doc key node c))" for key node c
    by (simp add: tunnel_pair_def config_wf_tunnel_scalar config_wf_ipv4 config_wf_ipv6 split: option.split ynode.split)
  then have walk: "config_wf c \<Longrightarrow> config_wf (snd (walk doc (tunnel_pair doc) ps c))" for ps by (rule walk_invariant)
  assume "config_wf c"
  then show ?thesis unfolding hev_config_parse_tunnel_def by (rule config_wf_with_mapping) (simp add: walk \<open>config_wf c\<close>)
qed

lemma config_wf_mapdns: "config_wf c \<Longrightarrow> config_wf (snd (hev_config_parse_mapdns doc base c))"
proof -
  have step: "config_wf c \<Longrightarrow> config_wf (mapdns_scalar key v c)" for key v c
    by (simp add: mapdns_scalar_def config_wf_def)
  have net: "config_wf c \<Longrightarrow> config_wf (c\<lparr>mapdns_network := n, mapdns_netmask := m\<rparr>)" for c n m by (simp add: config_wf_def)
  assume c: "config_wf c"
  then show ?thesis unfolding hev_config_parse_mapdns_def
  proof (rule config_wf_with_mapping)
    fix ps
    have "config_wf (snd (walk doc (scalar mapdns_scalar) ps c))" by (rule config_wf_scalars [OF c step])
    from net [OF this] show "config_wf (snd (let c = snd (walk doc (scalar mapdns_scalar) ps c)
       in (0 :: int, c\<lparr>mapdns_network := ntohl (mapdns_network c), mapdns_netmask := ntohl (mapdns_netmask c)\<rparr>)))"
      by (simp add: Let_def)
  qed
qed

lemma misc_scalar_wf: "config_wf (fst ct) \<Longrightarrow> config_wf (fst (misc_scalar key value ct))"
  by (cases ct) (simp add: misc_scalar_def config_wf_def text_ok_copy)

lemma set_timeouts_wf: "config_wf c \<Longrightarrow> config_wf (set_timeouts t c)"
  by (simp add: set_timeouts_def config_wf_def Let_def)

lemma config_wf_misc: "config_wf c \<Longrightarrow> config_wf (snd (hev_config_parse_misc doc base c))"
proof -
  have "config_wf (fst (snd (scalar misc_scalar key node ct)))" if "config_wf (fst ct)" for key node ct
    using misc_scalar_wf [OF that] that by (auto simp: snd_scalar split: option.split ynode.split)
  then have walk: "config_wf (fst ct) \<Longrightarrow> config_wf (fst (snd (walk doc (scalar misc_scalar) ps ct)))" for ps ct
    by (rule walk_invariant [where P = "\<lambda>ct. config_wf (fst ct)"])
  assume c: "config_wf c"
  then show ?thesis unfolding hev_config_parse_misc_def
    by (rule config_wf_with_mapping) (simp add: set_timeouts_wf walk c Let_def split_beta)
qed

lemma srv_wf_set_server: "srv_wf s \<Longrightarrow> srv_wf (set_server k addr port s)"
proof -
  assume s: "srv_wf s"
  have "srv_wf s \<Longrightarrow> srv_wf (set_pipe k s)" "srv_wf s \<Longrightarrow> srv_wf (set_udp k s)" "srv_wf s \<Longrightarrow> srv_wf (set_udp_addr k s)"
    "srv_wf s \<Longrightarrow> srv_wf (set_login k s)" "srv_wf s \<Longrightarrow> srv_wf (set_mark k s)" "srv_wf s \<Longrightarrow> srv_wf (set_fastopen k s)" for s
    by (auto simp: set_server_defs srv_wf_def split: option.split)
  moreover have "srv_wf (s\<lparr>srv_addr := copy_text (srv_addr s) addr 255, srv_port := p\<rparr>)" for p
    using s by (auto simp: srv_wf_def)
  ultimately show ?thesis unfolding set_server_def by presburger
qed

lemma config_wf_socks5: "config_wf c \<Longrightarrow> config_wf (snd (hev_config_parse_socks5 doc base c))"
  unfolding hev_config_parse_socks5_def Let_def
  by (rule config_wf_with_mapping) (auto simp: config_wf_def srv_wf_set_server split: option.split)

lemma config_wf_doc_pair: "config_wf c \<Longrightarrow> config_wf (snd (doc_pair doc key node c))"
  using config_wf_tunnel [of c doc node] config_wf_socks5 [of c doc node] config_wf_mapdns [of c doc node] config_wf_misc [of c doc node]
  by (auto simp: doc_pair_def Let_def split: prod.split if_split_asm)

lemma config_wf_reset: "config_wf hev_config_reset"
  by (simp add: config_wf_def hev_config_reset_def srv_wf_def srv_zero_def)

lemma config_wf_fit: "config_wf c \<Longrightarrow> fit_sizes c = Some c' \<Longrightarrow> config_wf c'"
  by (auto simp: fit_sizes_def Let_def config_wf_def split: if_split_asm)

lemma fit_sizes_bounds:
  assumes "fit_sizes c = Some c'"
  shows "misc_tcp_buffer_size c' \<le> TCP_SND_BUF" and "TASK_STACK_SIZE + misc_tcp_buffer_size c' \<le> misc_task_stack_size c'"
    and "TASK_STACK_SIZE + UDP_BUF_SIZE * misc_udp_copy_buffer_nums c' \<le> misc_task_stack_size c'"
  using assms by (auto simp: fit_sizes_def Let_def TCP_SND_BUF_def split: if_split_asm)

lemma parse_doc_wf:
  assumes "hev_config_parse_doc doc c = Some (res, c')" and "config_wf c"
  shows "config_wf c' \<and> (res < 0 \<or> (\<exists>c1. fit_sizes c1 = Some c'))"
proof -
  have "config_wf (snd (walk doc (doc_pair doc) ps c))" for ps by (rule walk_invariant [OF config_wf_doc_pair assms(2)])
  then have inv: "walk doc (doc_pair doc) ps c = (f, c1) \<Longrightarrow> config_wf c1" for ps f c1 by (metis snd_conv)
  have fit: "walk doc (doc_pair doc) ps c = (f, c1) \<Longrightarrow> fit_sizes c1 = Some c' \<Longrightarrow> config_wf c'" for ps f c1
    using config_wf_fit inv by blast
  show ?thesis using assms inv fit
    by (auto simp: hev_config_parse_doc_def split: option.split_asm ynode.split_asm prod.split_asm flow.split_asm)
qed

text \<open>
  C19: Whatever the document says, when the configuration has been read every string variable is a
  terminated string in an array of its declared size and the server has both a user and a password
  or neither; when reading succeeded, the TCP buffer is at most lwIP's send buffer and the stack of
  a session task has room for the TCP buffer and for all UDP buffers.
\<close>

theorem config_wellformed:
  assumes "hev_config_init_from_str load str = Some (res, c)"
  shows "config_wf c \<and> (0 \<le> res \<longrightarrow> misc_tcp_buffer_size c \<le> TCP_SND_BUF \<and>
     TASK_STACK_SIZE + misc_tcp_buffer_size c \<le> misc_task_stack_size c \<and>
     TASK_STACK_SIZE + UDP_BUF_SIZE * misc_udp_copy_buffer_nums c \<le> misc_task_stack_size c)"
proof (cases "load str")
  case None
  then show ?thesis using assms config_wf_reset by (auto simp: hev_config_init_from_str_def)
next
  case (Some doc)
  then have "hev_config_parse_doc doc hev_config_reset = Some (res, c)" using assms by (simp add: hev_config_init_from_str_def)
  from parse_doc_wf [OF this config_wf_reset] show ?thesis using fit_sizes_bounds by auto
qed

section \<open>The server section\<close>

text \<open>A mapping whose keys and values are all scalars, as the list of its texts.\<close>

definition entry :: "ydoc \<Rightarrow> nat \<times> nat \<Rightarrow> u8 list \<times> u8 list \<Rightarrow> bool" where
  "entry doc p kv \<longleftrightarrow> (\<exists>k v. yaml_document_get_node doc (fst p) = Some (YScalar k) \<and>
     yaml_document_get_node doc (snd p) = Some (YScalar v) \<and> kv = (text_of k, text_of v))"

lemma entry_walk:
  "list_all2 (entry doc) ps kvs \<Longrightarrow> walk doc (scalar f) ps s = (Next, fold (\<lambda>(k, v). f k v) kvs s)"
proof (induction ps kvs arbitrary: s rule: list_all2_induct)
  case (Cons p ps kv kvs)
  then show ?case by (cases p) (auto simp: entry_def yaml_document_get_node_def split: if_split_asm)
qed simp

text \<open>The value of a key: the last one, if there are several.\<close>

definition value_of :: "(u8 list \<times> u8 list) list \<Rightarrow> string \<Rightarrow> u8 list option" where
  "value_of kvs key = map_of (rev kvs) (lit key)"

lemma lit_inject [simp]: "lit a = lit b \<longleftrightarrow> a = b"
proof
  have "inj (of_char :: char \<Rightarrow> u8)"
  proof (rule injI)
    fix a b :: char
    assume "(of_char a :: u8) = of_char b"
    then have "unat (of_nat (of_char a) :: u8) = unat (of_nat (of_char b) :: u8)" by (simp only: of_nat_of_char)
    moreover have "unat (of_nat (of_char c) :: u8) = of_char c" for c
      using nat_of_char_less_256 [of c] by (simp add: unsigned_of_nat take_bit_eq_mod)
    ultimately show "a = b" by simp
  qed
  then show "lit a = lit b \<Longrightarrow> a = b" by (simp add: lit_def)
qed simp

lemma value_of_snoc: "value_of (kvs @ [(k, v)]) key = (if k = lit key then Some v else value_of kvs key)"
  by (simp add: value_of_def)

lemma socks5_keys_of:
  "fold (\<lambda>(k, v). socks5_scalar k v) kvs no_keys =
     \<lparr>k_addr = value_of kvs ''address'', k_port = value_of kvs ''port'', k_udpm = value_of kvs ''udp'',
      k_udpa = value_of kvs ''udp-address'', k_user = value_of kvs ''username'', k_pass = value_of kvs ''password'',
      k_mark = value_of kvs ''mark'', k_pipe = value_of kvs ''pipeline'', k_tfso = value_of kvs ''tcp-fastopen''\<rparr>"
proof (induction kvs rule: rev_induct)
  case (snoc kv kvs)
  obtain k v where kv: "kv = (k, v)" by (cases kv)
  have "fold (\<lambda>(k, v). socks5_scalar k v) (kvs @ [kv]) no_keys =
     socks5_scalar k v (fold (\<lambda>(k, v). socks5_scalar k v) kvs no_keys)" by (simp add: kv)
  also note snoc.IH
  finally show ?case by (simp add: kv value_of_snoc socks5_scalar_def)
qed (simp add: no_keys_def value_of_def)

lemma set_server_fields:
  "srv_addr (set_server k addr port s) = copy_text (srv_addr s) addr 255"
  "srv_port (set_server k addr port s) = ucast (strtoul port 10)"
  "srv_udp_in_udp (set_server k addr port s) =
     (srv_udp_in_udp s \<or> given (k_udpm k) (\<lambda>v. strcasecmp v (lit ''udp'') = 0))"
  "srv_user (set_server k addr port s) =
     (case (k_user k, k_pass k) of (Some u, Some p) \<Rightarrow> Some (copy_text (replicate 256 0) u 255) | _ \<Rightarrow> srv_user s)"
  "srv_pass (set_server k addr port s) =
     (case (k_user k, k_pass k) of (Some u, Some p) \<Rightarrow> Some (copy_text (replicate 256 0) p 255) | _ \<Rightarrow> srv_pass s)"
  by (simp_all add: set_server_defs split: option.split)

text \<open>
  C34: A server section of scalars is read as a table in which the last value of a key counts: it is
  refused exactly when port or address is missing or when only one of user and password is there,
  and then the server is unchanged; otherwise address and port are the ones given, the address cut
  to 255 characters and the port to 16 bits, and user and password are set exactly when they are given.
\<close>

theorem config_socks5_section:
  assumes "list_all2 (entry doc) ps kvs"
  shows "\<exists>res c'. hev_config_parse_socks5 doc (Some (YMapping ps)) c = (res, c') \<and>
     (res = 0 \<longleftrightarrow> value_of kvs ''port'' \<noteq> None \<and> value_of kvs ''address'' \<noteq> None \<and>
        (value_of kvs ''username'' = None \<longleftrightarrow> value_of kvs ''password'' = None)) \<and>
     (res \<noteq> 0 \<longrightarrow> res = - 1 \<and> c' = c) \<and>
     (res = 0 \<longrightarrow> srv_addr (srv c') = copy_text (srv_addr (srv c)) (the (value_of kvs ''address'')) 255 \<and>
        srv_port (srv c') = ucast (strtoul (the (value_of kvs ''port'')) 10) \<and>
        srv_udp_in_udp (srv c') = (srv_udp_in_udp (srv c) \<or> given (value_of kvs ''udp'') (\<lambda>v. strcasecmp v (lit ''udp'') = 0)) \<and>
        (case (value_of kvs ''username'', value_of kvs ''password'') of
           (Some u, Some p) \<Rightarrow> srv_user (srv c') = Some (copy_text (replicate 256 0) u 255) \<and>
                              srv_pass (srv c') = Some (copy_text (replicate 256 0) p 255)
         | _ \<Rightarrow> srv_user (srv c') = srv_user (srv c) \<and> srv_pass (srv c') = srv_pass (srv c)))"
proof -
  have "snd (walk doc (scalar socks5_scalar) ps no_keys) = fold (\<lambda>(k, v). socks5_scalar k v) kvs no_keys"
    by (simp add: entry_walk [OF assms])
  note keys = this [unfolded socks5_keys_of]
  note parse = hev_config_parse_socks5_def with_mapping_def Let_def keys
  show ?thesis
  proof (cases "(value_of kvs ''port'' = None \<or> value_of kvs ''address'' = None) \<or>
      (value_of kvs ''username'' = None) \<noteq> (value_of kvs ''password'' = None)")
    case True
    then have "hev_config_parse_socks5 doc (Some (YMapping ps)) c = (- 1, c)" by (auto simp: parse split: option.split)
    with True show ?thesis by auto
  next
    case False
    then obtain port addr where pa: "value_of kvs ''port'' = Some port" "value_of kvs ''address'' = Some addr"
      "(value_of kvs ''username'' = None) = (value_of kvs ''password'' = None)" by auto
    have "hev_config_parse_socks5 doc (Some (YMapping ps)) c = (0, c\<lparr>srv := set_server
       (fold (\<lambda>(k, v). socks5_scalar k v) kvs no_keys) addr port (srv c)\<rparr>)"
      using pa by (simp add: parse socks5_keys_of)
    then show ?thesis using pa by (simp add: set_server_fields socks5_keys_of split: option.split)
  qed
qed

text \<open>The document \<open>socks5: {port: 1080, address: h}\<close>.\<close>

definition small_doc :: ydoc where
  "small_doc = [YMapping [(2, 3)], YScalar (lit ''socks5''), YMapping [(4, 5), (6, 7)], YScalar (lit ''port''), YScalar (lit ''1080''),
     YScalar (lit ''address''), YScalar (lit ''h'')]"

lemma lit_simps: "lit [] = []" "lit (c # s) = of_char c # lit s"
  by (simp_all add: lit_def)

lemma small_doc_entries:
  "list_all2 (entry small_doc) [(4, 5), (6, 7)] [(lit ''port'', lit ''1080''), (lit ''address'', lit ''h'')]"
  by (simp add: entry_def small_doc_def yaml_document_get_node_def text_of_def lit_simps)

lemma config_socks5_section_witness:
  "let c' = snd (hev_config_parse_socks5 small_doc (Some (YMapping [(4, 5), (6, 7)])) hev_config_reset)
   in srv_port (srv c') = 1080 \<and> srv_addr (srv c') = 104 # replicate 255 0 \<and> srv_user (srv c') = None"
proof -
  have v: "value_of [(lit ''port'', lit ''1080''), (lit ''address'', lit ''h'')] ''port'' = Some (lit ''1080'')"
    "value_of [(lit ''port'', lit ''1080''), (lit ''address'', lit ''h'')] ''address'' = Some (lit ''h'')"
    "value_of [(lit ''port'', lit ''1080''), (lit ''address'', lit ''h'')] ''username'' = None"
    "value_of [(lit ''port'', lit ''1080''), (lit ''address'', lit ''h'')] ''password'' = None"
    by (simp_all add: value_of_def)
  have p: "strtoul (lit ''1080'') 10 = 1080"
    by (simp add: strtoul_def strto_def isspace_def digit_val_def lit_simps)
  have a: "copy_text (replicate 256 0) (lit ''h'') 255 = 104 # replicate 255 0"
    using replicate_add [of 254 1 "0 :: u8"] by (simp add: copy_text_def lit_simps)
  show ?thesis
    using config_socks5_section [OF small_doc_entries, of hev_config_reset, unfolded v]
    by (auto simp: p a hev_config_reset_def srv_zero_def)
qed

lemma config_wellformed_witness:
  "let c = snd (the (hev_config_init_from_str (\<lambda>_. Some small_doc) []))
   in config_wf c \<and> misc_tcp_buffer_size c = 65528 \<and> misc_task_stack_size c = 86016"
proof -
  obtain c where c: "hev_config_init_from_str (\<lambda>_. Some small_doc) [] = Some (0, c)"
    "misc_tcp_buffer_size c = 65528" "misc_task_stack_size c = 86016"
    by (simp add: hev_config_init_from_str_def hev_config_parse_doc_def small_doc_def yaml_document_get_root_node_def
        yaml_document_get_node_def doc_pair_def text_of_def lit_simps hev_config_parse_socks5_def with_mapping_def
        socks5_scalar_def no_keys_def fit_sizes_def hev_config_reset_def int_ok_def
        TCP_SND_BUF_def UDP_BUF_SIZE_def TASK_STACK_SIZE_def)
  then show ?thesis using config_wellformed [OF c(1)] by simp
qed

end
