(* ===== verification/Session.thy ===== *)
theory Session
  imports Task_Splice Hev_Config
begin

text \<open>
  What the two kinds of sessions share, \<open>hev-socks5-session.c\<close>: connecting to the configured
  server, logging in, the handshake, and handing over to the splicer of the kind. The virtual
  methods of the kind are arguments; log messages and the waking of tasks are left out.
\<close>

text \<open>\<open>setsockopt\<close> with a mark is one system call; the code ignores the result of the other option.\<close>

definition set_sock_mark :: "int \<Rightarrow> u32 \<Rightarrow> 'z world_scheme \<Rightarrow> int \<times> 'z world_scheme" where
  "set_sock_mark fd mark w = sys w"

definition hev_socks5_session_bind ::
  "srv_conf \<Rightarrow> 'a socks5_scheme \<Rightarrow> int \<Rightarrow> sockaddr6 \<Rightarrow> 'z world_scheme \<Rightarrow> int \<times> 'z world_scheme" where
  "hev_socks5_session_bind sv self fd dest w =
     (let mark = srv_mark sv in
      if mark \<noteq> 0 then let (res, w) = set_sock_mark fd mark w in if res < 0 then (- 1, w) else (0, w)
      else (0, w))"

definition hev_socks5_session_run ::
  "srv_conf \<Rightarrow> ('a, 'z) client_class \<Rightarrow> ('a client_scheme \<Rightarrow> 'z world_scheme \<Rightarrow> ('a client_scheme \<times> 'z world_scheme) option) \<Rightarrow>
     'a client_scheme \<Rightarrow> 'z world_scheme \<Rightarrow> ('a client_scheme \<times> 'z world_scheme) option" where
  "hev_socks5_session_run sv klass splicer self w = do {
     (res, self, w) \<leftarrow> hev_socks5_client_connect klass self (srv_addr sv) (uint (srv_port sv)) w;
     if res < 0 then Some (self, w)
     else do {
       let self = (if srv_user sv \<noteq> None \<and> srv_pass sv \<noteq> None
                   then hev_socks5_client_set_auth self (srv_user sv) (srv_pass sv) else self);
       (res, self, w) \<leftarrow> hev_socks5_client_handshake klass self (srv_pipeline sv) w;
       if res < 0 then Some (self, w) else splicer self w
     }
   }"

definition hev_socks5_session_terminate :: "'a socks5_scheme \<Rightarrow> 'a socks5_scheme" where
  "hev_socks5_session_terminate self = hev_socks5_set_timeout self 0"

end
