(* ===== verification/Session_Tcp.thy ===== *)
theory Session_Tcp
  imports Session Ring_Buffer
begin

text \<open>
  A TCP session, \<open>hev-socks5-session-tcp.c\<close>: it relays between a connection of the application,
  which lwIP terminates, and the socket to the server. What lwIP delivers waits in a chain of
  buffers, what the socket delivers in a ring buffer until the application has acknowledged it. The
  session's task and the callbacks of lwIP interleave where the task waits: for the mutex and when
  it yields.
\<close>

unbundle bit_operations_syntax

section \<open>The connection of the application\<close>

text \<open>
  lwIP's side of the connection: \<open>l_in\<close> are the bytes it has delivered so far, \<open>l_recved\<close> counts
  those reported back with \<open>tcp_recved\<close>, \<open>l_out\<close> are those it has taken with \<open>tcp_write\<close>, \<open>l_acked\<close>
  counts those acknowledged; \<open>l_err\<close> scripts which of its next calls fail, and \<open>l_failed\<close> tells that
  one has. \<open>l_fin\<close> is the end of stream sent to the application, \<open>l_aborted\<close> a connection that was
  reset.
\<close>

record tcp_world = world +
  l_in :: "u8 list"
  l_recved :: nat
  l_out :: "u8 list"
  l_acked :: nat
  l_err :: "bool list"
  l_failed :: bool
  l_fin :: bool
  l_aborted :: bool

definition l_call :: "'z tcp_world_scheme \<Rightarrow> bool \<times> 'z tcp_world_scheme" where
  "l_call w = (case l_err w of [] \<Rightarrow> (True, w) | b # es \<Rightarrow> (b, w\<lparr>l_err := es, l_failed := (l_failed w \<or> \<not> b)\<rparr>))"

text \<open>The length is cut to the 16 bits of the parameter.\<close>

definition tcp_write :: "u8 list \<Rightarrow> 'z tcp_world_scheme \<Rightarrow> bool \<times> 'z tcp_world_scheme" where
  "tcp_write bs w =
     (let (ok, w) = l_call w in (ok, if ok then w\<lparr>l_out := l_out w @ take (length bs mod 2 ^ 16) bs\<rparr> else w))"

definition tcp_output :: "'z tcp_world_scheme \<Rightarrow> bool \<times> 'z tcp_world_scheme" where
  "tcp_output w = l_call w"

definition tcp_recved :: "int \<Rightarrow> 'z tcp_world_scheme \<Rightarrow> 'z tcp_world_scheme" where
  "tcp_recved s w = w\<lparr>l_recved := l_recved w + unat (word_of_int s :: u16)\<rparr>"

text \<open>A chain of buffers is the list of their contents, NULL the empty one.\<close>

type_synonym pbufs = "u8 list list"

fun pbuf_free_header_loop :: "pbufs \<Rightarrow> nat \<Rightarrow> pbufs" where
  "pbuf_free_header_loop [] free_left = []"
| "pbuf_free_header_loop (p # ps) free_left =
     (if free_left = 0 then p # ps
      else if length p \<le> free_left then pbuf_free_header_loop ps (free_left - length p)
      else drop free_left p # ps)"

definition pbuf_free_header :: "pbufs \<Rightarrow> u16 \<Rightarrow> pbufs" where
  "pbuf_free_header q sz = pbuf_free_header_loop q (unat sz)"

definition pbuf_cat :: "pbufs \<Rightarrow> pbufs \<Rightarrow> pbufs" where
  "pbuf_cat h t = h @ t"

section \<open>The session\<close>

record session_tcp = client_tcp +
  st_queue :: pbufs
  st_pcb :: bool
  st_buffer :: "ring option"
  st_eof :: bool

text \<open>The direction to the server, up to the mutex: the number of bytes sent, or the result.\<close>

definition tcp_splice_f_send :: "'a session_tcp_scheme \<Rightarrow> 'z tcp_world_scheme \<Rightarrow> (int + int) \<times> 'z tcp_world_scheme" where
  "tcp_splice_f_send self w =
     (let iov = take 64 (st_queue self) in
      if iov \<noteq> [] then
        (let (s, _, w) = sock_send (s_fd self) (concat iov) w in
         if 0 \<ge> s then (Inl (if 0 > s \<and> w_errno w = EAGAIN then 0 else - 1), w) else (Inr s, w))
      else if st_eof self then (Inl (- 1), shutdown_wr (s_fd self) w)
      else (Inl 0, w))"

text \<open>With the mutex; the result is 1.\<close>

definition tcp_splice_f_sent ::
  "int \<Rightarrow> 'a session_tcp_scheme \<Rightarrow> 'z tcp_world_scheme \<Rightarrow> 'a session_tcp_scheme \<times> 'z tcp_world_scheme" where
  "tcp_splice_f_sent s self w =
     (self\<lparr>st_queue := pbuf_free_header (st_queue self) (word_of_int s)\<rparr>,
      if st_pcb self then tcp_recved s w else w)"

text \<open>The direction to the application, up to the mutex.\<close>

definition tcp_splice_b_recv ::
  "'a session_tcp_scheme \<Rightarrow> 'z tcp_world_scheme \<Rightarrow> (int \<times> 'a session_tcp_scheme \<times> 'z tcp_world_scheme) option" where
  "tcp_splice_b_recv self w = do {
     buffer \<leftarrow> st_buffer self;
     let iov = hev_ring_buffer_writing buffer;
     if iov \<noteq> [] then
       (let (s, bs, _, w) = sock_recv (s_fd self) (sum_list (map snd iov)) w in
        if 0 \<ge> s then Some (if 0 > s \<and> w_errno w = EAGAIN then 0 else - 1, self, w)
        else Some (1, self\<lparr>st_buffer := Some (ring_fill buffer bs)\<rparr>, w))
     else Some (0, self, w)
   }"

fun tcp_write_iov :: "u8 list \<Rightarrow> iovec list \<Rightarrow> 'z tcp_world_scheme \<Rightarrow> bool \<times> 'z tcp_world_scheme" where
  "tcp_write_iov mem [] w = (True, w)"
| "tcp_write_iov mem ((off, len) # iov) w =
     (let (ok, w) = tcp_write (take len (drop off mem)) w;
          (oks, w) = tcp_write_iov mem iov w
      in (ok \<and> oks, w))"

definition tcp_splice_b_flush ::
  "int \<Rightarrow> 'a session_tcp_scheme \<Rightarrow> 'z tcp_world_scheme \<Rightarrow> (int \<times> 'a session_tcp_scheme \<times> 'z tcp_world_scheme) option" where
  "tcp_splice_b_flush res self w =
     (if \<not> st_pcb self then Some (- 1, self, w)
      else do {
        buffer \<leftarrow> st_buffer self;
        let iov = hev_ring_buffer_reading buffer;
        if iov \<noteq> [] then
          (let (ok, w) = tcp_write_iov (ring_data buffer) iov w;
               buffer = hev_ring_buffer_read_finish buffer (sum_list (map snd iov));
               (ok', w) = tcp_output w
           in Some (if ok \<and> ok' then 1 else - 1, self\<lparr>st_buffer := Some buffer\<rparr>, w))
        else if res < 0 then Some (res, self, w\<lparr>l_fin := True\<rparr>)
        else Some (res, self, w)
      })"

text \<open>The callbacks of lwIP.\<close>

definition tcp_recv_handler :: "pbufs option \<Rightarrow> 'a session_tcp_scheme \<Rightarrow> 'a session_tcp_scheme" where
  "tcp_recv_handler p self =
     (case p of
        Some p \<Rightarrow> if st_queue self \<noteq> [] then self\<lparr>st_queue := pbuf_cat (st_queue self) p\<rparr> else self\<lparr>st_queue := p\<rparr>
      | None \<Rightarrow> self\<lparr>st_eof := True\<rparr>)"

definition tcp_sent_handler :: "u16 \<Rightarrow> 'a session_tcp_scheme \<Rightarrow> 'a session_tcp_scheme option" where
  "tcp_sent_handler len self = do {
     buffer \<leftarrow> st_buffer self;
     Some (self\<lparr>st_buffer := Some (hev_ring_buffer_read_release buffer (unat len))\<rparr>)
   }"

definition tcp_err_handler :: "'a session_tcp_scheme \<Rightarrow> 'a session_tcp_scheme" where
  "tcp_err_handler self = hev_socks5_session_terminate (self\<lparr>st_pcb := False\<rparr>)"

section \<open>Construction and destruction\<close>

text \<open>The address the application connected to is the local one of the connection.\<close>

definition hev_socks5_session_tcp_construct ::
  "mdns option \<Rightarrow> lwip_addr \<Rightarrow> u16 \<Rightarrow> 'a session_tcp_scheme \<Rightarrow> 'z world_scheme \<Rightarrow>
     (int \<times> 'a session_tcp_scheme \<times> mdns option \<times> 'z world_scheme) option" where
  "hev_socks5_session_tcp_construct dns ip port self w = do {
     (res, addr, dns) \<leftarrow> hev_socks5_addr_from_lwip dns (stack_addr [] w) ip port;
     if res < 0 then Some (- 1, self, dns, w)
     else do {
       (res, self, w) \<leftarrow> hev_socks5_client_tcp_construct self addr w;
       if res < 0 then Some (- 1, self, dns, w) else Some (0, self\<lparr>st_pcb := True\<rparr>, dns, w)
     }
   }"

definition session_tcp_zero :: session_tcp where
  "session_tcp_zero = \<lparr>s_fd = 0, s_timeout = 0, s_type = TYPE_NONE, s_udp_associated = False, s_addr_family = 0,
     c_user = None, c_pass = None, ct_addr = None, st_queue = [], st_pcb = False, st_buffer = None, st_eof = False\<rparr>"

definition hev_socks5_session_tcp_new ::
  "mdns option \<Rightarrow> lwip_addr \<Rightarrow> u16 \<Rightarrow> 'z world_scheme \<Rightarrow> (session_tcp option \<times> mdns option \<times> 'z world_scheme) option" where
  "hev_socks5_session_tcp_new dns ip port w = do {
     let (ok, w) = hev_malloc w;
     if \<not> ok then Some (None, dns, w)
     else do {
       (res, self, dns, w) \<leftarrow> hev_socks5_session_tcp_construct dns ip port session_tcp_zero w;
       if res < 0 then Some (None, dns, hev_free w) else Some (Some self, dns, w)
     }
   }"

definition hev_socks5_session_tcp_destruct :: "'a session_tcp_scheme \<Rightarrow> 'z tcp_world_scheme \<Rightarrow> 'z tcp_world_scheme" where
  "hev_socks5_session_tcp_destruct self w =
     hev_socks5_client_tcp_destruct self (if st_pcb self then w\<lparr>l_aborted := True\<rparr> else w)"

definition hev_socks5_session_tcp_class :: "srv_conf \<Rightarrow> ('a client_tcp_ext, 'z) client_class" where
  "hev_socks5_session_tcp_class sv = hev_socks5_client_tcp_class\<lparr>bind_socket := hev_socks5_session_bind sv\<rparr>"

section \<open>The splicer\<close>

text \<open>
  Where the task is: before the splicer; at the top of its loop; after sending, waiting for the mutex;
  before the direction to the application; after receiving, waiting for the mutex; after both
  directions; in the loop that waits for the last acknowledgements; past the splicer.
\<close>

datatype spc = PStart | PTop | PSent int | PBack | PFlush int | PLoop | PDrain | PEnd

record tcp_run =
  obj :: session_tcp
  env :: tcp_world
  at :: spc
  res_f :: int
  res_b :: int

text \<open>\<open>task_io_yielder\<close>; keeping the list of sessions in order is part of the tunnel.\<close>

definition tcp_yield :: "yield_type \<Rightarrow> nat \<Rightarrow> session_tcp \<Rightarrow> tcp_world \<Rightarrow> int" where
  "tcp_yield type left self w = fst (hev_socks5_task_io_yielder type left self w)"

text \<open>
  A step of \<open>hev_socks5_session_tcp_splice\<close>; \<open>size\<close> is the configured buffer size and \<open>left\<close> the time
  left when the task is woken up. The buffer lives on the stack.
\<close>

fun splice_step :: "nat \<Rightarrow> nat \<Rightarrow> spc \<Rightarrow> tcp_run \<Rightarrow> tcp_run option" where
  "splice_step n left PStart r =
     (if \<not> st_pcb (obj r) then Some (r\<lparr>at := PEnd\<rparr>)
      else Some (r\<lparr>obj := (obj r)\<lparr>st_buffer := Some (hev_ring_buffer_alloca (map (w_stack (env r)) [0..<n]))\<rparr>,
                   res_f := 1, res_b := 1, at := PTop\<rparr>))"
| "splice_step n left PTop r =
     (if res_f r \<ge> 0 then
        (case tcp_splice_f_send (obj r) (env r) of
           (Inl res, w) \<Rightarrow> Some (r\<lparr>env := w, res_f := res, at := PBack\<rparr>)
         | (Inr s, w) \<Rightarrow> Some (r\<lparr>env := w, at := PSent s\<rparr>))
      else Some (r\<lparr>at := PBack\<rparr>))"
| "splice_step n left (PSent s) r =
     (let (self, w) = tcp_splice_f_sent s (obj r) (env r)
      in Some (r\<lparr>obj := self, env := w, res_f := 1, at := PBack\<rparr>))"
| "splice_step n left PBack r =
     (if res_b r \<ge> 0 then do {
        (res, self, w) \<leftarrow> tcp_splice_b_recv (obj r) (env r);
        Some (r\<lparr>obj := self, env := w, at := PFlush res\<rparr>)
      } else Some (r\<lparr>at := PLoop\<rparr>))"
| "splice_step n left (PFlush res) r = do {
     (res, self, w) \<leftarrow> tcp_splice_b_flush res (obj r) (env r);
     Some (r\<lparr>obj := self, env := w, res_b := res, at := PLoop\<rparr>)
   }"
| "splice_step n left PLoop r =
     (if res_f r > 0 \<or> res_b r > 0 then
        Some (r\<lparr>at := (if tcp_yield TASK_YIELD left (obj r) (env r) < 0 then PDrain else PTop)\<rparr>)
      else if res_f r AND res_b r = 0 then
        Some (r\<lparr>at := (if tcp_yield TASK_WAITIO left (obj r) (env r) < 0 then PDrain else PTop)\<rparr>)
      else Some (r\<lparr>at := PDrain\<rparr>))"
| "splice_step n left PDrain r =
     (if \<not> st_pcb (obj r) then Some (r\<lparr>at := PEnd\<rparr>)
      else do {
        buffer \<leftarrow> st_buffer (obj r);
        if hev_ring_buffer_get_use_size buffer = 0 then Some (r\<lparr>at := PEnd\<rparr>)
        else Some (r\<lparr>at := (if tcp_yield TASK_WAITIO left (obj r) (env r) < 0 then PEnd else PDrain)\<rparr>)
      })"
| "splice_step n left PEnd r = None"

section \<open>The session in its surroundings\<close>

text \<open>
  What lwIP promises: it delivers buffers that are not empty, nothing after the end of stream, never
  more than the window beyond what was reported back, and acknowledges only what was written. It
  calls back only as long as the connection is there. Past the splicer the task runs on to the
  destructor, whose first act is to take the mutex of the tunnel and the callbacks away: nobody waits
  while holding the mutex, except a task that asks for it twice and stays for ever (see the theory of
  the tunnel's sessions), and then lwIP does not call anybody either. Any task may terminate the session.
\<close>

definition TCP_WND :: nat where "TCP_WND = 8 * 8191"

inductive tcp_step :: "nat \<Rightarrow> tcp_run \<Rightarrow> tcp_run \<Rightarrow> bool" for n where
  task: "splice_step n left (at r) r = Some r' \<Longrightarrow> tcp_step n r r'"
| recv: "st_pcb (obj r) \<Longrightarrow> at r \<noteq> PEnd \<Longrightarrow> \<not> st_eof (obj r) \<Longrightarrow> p \<noteq> [] \<Longrightarrow> [] \<notin> set p \<Longrightarrow>
     length (l_in (env r)) + length (concat p) \<le> l_recved (env r) + TCP_WND \<Longrightarrow>
     tcp_step n r (r\<lparr>obj := tcp_recv_handler (Some p) (obj r), env := (env r)\<lparr>l_in := l_in (env r) @ concat p\<rparr>\<rparr>)"
| fin: "st_pcb (obj r) \<Longrightarrow> at r \<noteq> PEnd \<Longrightarrow> tcp_step n r (r\<lparr>obj := tcp_recv_handler None (obj r)\<rparr>)"
| sent: "st_pcb (obj r) \<Longrightarrow> at r \<noteq> PEnd \<Longrightarrow> l_acked (env r) + unat len \<le> length (l_out (env r)) \<Longrightarrow> 0 < len \<Longrightarrow>
     tcp_sent_handler len (obj r) = Some self \<Longrightarrow>
     tcp_step n r (r\<lparr>obj := self, env := (env r)\<lparr>l_acked := l_acked (env r) + unat len\<rparr>\<rparr>)"
| err: "st_pcb (obj r) \<Longrightarrow> at r \<noteq> PEnd \<Longrightarrow> tcp_step n r (r\<lparr>obj := tcp_err_handler (obj r)\<rparr>)"
| kill: "at r \<noteq> PEnd \<Longrightarrow> tcp_step n r (r\<lparr>obj := hev_socks5_session_terminate (obj r)\<rparr>)"

text \<open>A session after its handshake.\<close>

definition tcp_begin :: "tcp_run \<Rightarrow> bool" where
  "tcp_begin r \<longleftrightarrow> at r = PStart \<and> st_queue (obj r) = [] \<and> st_buffer (obj r) = None \<and> \<not> st_eof (obj r) \<and>
     l_in (env r) = [] \<and> l_recved (env r) = 0 \<and> l_out (env r) = [] \<and> l_acked (env r) = 0 \<and>
     \<not> l_failed (env r) \<and> \<not> l_fin (env r) \<and> \<not> sk_shut (w_sock (env r) (s_fd (obj r)))"

inductive_cases tcp_stepE: "tcp_step n r r'"

end
