(* ===== verification/Session_Tcp_Props.thy ===== *)
theory Session_Tcp_Props
  imports Session_Tcp Splice_Props
begin

text \<open>
  A TCP session relays faithfully: in every interleaving of its task with the callbacks of lwIP,
  each direction delivers a prefix of what it was given, and the end of stream only after all of it.
\<close>

section \<open>One call on the socket\<close>

definition rx_clean :: "rx list \<Rightarrow> bool" where
  "rx_clean es \<longleftrightarrow> RxErr \<notin> set es \<and> RxData [] \<notin> set es"

definition tx_clean :: "tx list \<Rightarrow> bool" where
  "tx_clean es \<longleftrightarrow> TxErr \<notin> set es \<and> TxOk 0 \<notin> set es"

lemma sock_send_form:
  assumes "sock_send fd bs w = (s, l, w')"
  shows "\<exists>k t e. w' = w\<lparr>w_sock := (w_sock w)(fd := (w_sock w fd)\<lparr>sk_tx := t, sk_out := sk_out (w_sock w fd) @ take k bs\<rparr>), w_errno := e\<rparr> \<and>
     (0 < s \<longrightarrow> s = int k \<and> k \<le> length bs) \<and> (s \<le> 0 \<longrightarrow> take k bs = []) \<and>
     (tx_clean (sk_tx (w_sock w fd)) \<longrightarrow> tx_clean t \<and> (bs \<noteq> [] \<and> s \<le> 0 \<longrightarrow> s < 0 \<and> e = EAGAIN))"
proof (cases "sk_tx (w_sock w fd)")
  case Nil
  then show ?thesis using assms
    by (intro exI [of _ "length bs"] exI [of _ "[]"] exI [of _ "w_errno w"]) (auto simp: sock_send_def tx_clean_def Let_def)
next
  case (Cons x es)
  show ?thesis
  proof (cases x)
    case (TxOk n)
    then show ?thesis using assms Cons
      by (intro exI [of _ "min n (length bs)"] exI [of _ es] exI [of _ "w_errno w"]) (auto simp: sock_send_def tx_clean_def min_def Let_def split: if_split_asm)
  next
    case (TxAgain n)
    then show ?thesis using assms Cons
      by (intro exI [of _ 0] exI [of _ es] exI [of _ EAGAIN]) (auto simp: sock_send_def tx_clean_def Let_def)
  next
    case TxErr
    then show ?thesis using assms Cons
      by (intro exI [of _ 0] exI [of _ es] exI [of _ EIO]) (auto simp: sock_send_def tx_clean_def Let_def)
  qed
qed

lemma sock_recv_form:
  assumes "sock_recv fd len w = (s, bs, l, w')" and "0 < len"
  shows "\<exists>es e. w' = w\<lparr>w_sock := (w_sock w)(fd := (w_sock w fd)\<lparr>sk_rx := es\<rparr>), w_errno := e\<rparr> \<and>
     s \<le> int (length bs) \<and> length bs \<le> len \<and> (s \<le> 0 \<longrightarrow> bs = []) \<and>
     (0 < s \<longrightarrow> s = int (length bs)) \<and> (sk_rx (w_sock w fd) = [] \<longrightarrow> s = 0 \<and> es = []) \<and> rx_bytes (sk_rx (w_sock w fd)) = bs @ rx_bytes es \<and>
     (rx_clean (sk_rx (w_sock w fd)) \<longrightarrow> rx_clean es \<and> (s \<le> 0 \<and> \<not> (s < 0 \<and> e = EAGAIN) \<longrightarrow> es = []))"
proof (cases "sk_rx (w_sock w fd)")
  case Nil
  then have "(w_sock w fd)\<lparr>sk_rx := []\<rparr> = w_sock w fd" by (cases "w_sock w fd") simp
  then have "w = w\<lparr>w_sock := (w_sock w)(fd := (w_sock w fd)\<lparr>sk_rx := []\<rparr>), w_errno := w_errno w\<rparr>" by simp
  moreover have "s = 0" "bs = []" "w' = w" using assms Nil by (auto simp: sock_recv_def Let_def)
  ultimately show ?thesis using Nil
    by (intro exI [of _ "[]"] exI [of _ "w_errno w"]) (simp add: rx_clean_def)
next
  case (Cons x es)
  show ?thesis
  proof (cases x)
    case (RxData d)
    then show ?thesis using assms Cons
      by (intro exI [of _ "if drop len d = [] then es else RxData (drop len d) # es"] exI [of _ "w_errno w"])
        (auto simp: sock_recv_def rx_clean_def Let_def split: if_split_asm)
  next
    case (RxAgain n)
    then show ?thesis using assms Cons
      by (intro exI [of _ es] exI [of _ EAGAIN]) (auto simp: sock_recv_def rx_clean_def Let_def)
  next
    case RxErr
    then show ?thesis using assms Cons
      by (intro exI [of _ es] exI [of _ EIO]) (auto simp: sock_recv_def rx_clean_def Let_def)
  qed
qed

section \<open>One pass of data to lwIP\<close>

lemma tcp_write_form:
  assumes "tcp_write bs w = (ok, w')"
  shows "\<exists>o' e f. w' = w\<lparr>l_out := o', l_err := e, l_failed := f\<rparr> \<and> (l_failed w \<longrightarrow> f) \<and> (ok \<or> f) \<and>
     length o' \<le> length (l_out w) + length bs \<and> (length bs < 2 ^ 16 \<and> \<not> f \<longrightarrow> o' = l_out w @ bs)"
  using assms
  by (intro exI [of _ "l_out w'"] exI [of _ "l_err w'"] exI [of _ "l_failed w'"])
    (auto simp: tcp_write_def l_call_def split: list.split_asm if_split_asm)

lemma tcp_output_form:
  assumes "tcp_output w = (ok, w')"
  shows "\<exists>e f. w' = w\<lparr>l_err := e, l_failed := f\<rparr> \<and> (l_failed w \<longrightarrow> f) \<and> (ok \<or> f)"
  using assms
  by (intro exI [of _ "l_err w'"] exI [of _ "l_failed w'"]) (auto simp: tcp_output_def l_call_def split: list.split_asm)

lemma tcp_write_iov_form:
  assumes "tcp_write_iov mem iov w = (ok, w')" and "\<forall>(off, len) \<in> set iov. len < 2 ^ 16"
  shows "\<exists>o' e f. w' = w\<lparr>l_out := o', l_err := e, l_failed := f\<rparr> \<and> (l_failed w \<longrightarrow> f) \<and> (ok \<or> f) \<and>
     length o' \<le> length (l_out w) + length (iov_load mem iov) \<and> (\<not> f \<longrightarrow> o' = l_out w @ iov_load mem iov)"
  using assms
proof (induction mem iov w arbitrary: ok w' rule: tcp_write_iov.induct)
  case (1 mem w)
  then show ?case
    by (intro exI [of _ "l_out w'"] exI [of _ "l_err w'"] exI [of _ "l_failed w'"]) auto
next
  case (2 mem off len iov w)
  obtain ok1 w1 where w1: "tcp_write (take len (drop off mem)) w = (ok1, w1)" by fastforce
  obtain oks w2 where w2: "tcp_write_iov mem iov w1 = (oks, w2)" by fastforce
  from tcp_write_form [OF w1] obtain o1 e1 f1 where f1: "w1 = w\<lparr>l_out := o1, l_err := e1, l_failed := f1\<rparr>" "l_failed w \<longrightarrow> f1"
    "ok1 \<or> f1" "length o1 \<le> length (l_out w) + length (take len (drop off mem))"
    "length (take len (drop off mem)) < 2 ^ 16 \<and> \<not> f1 \<longrightarrow> o1 = l_out w @ take len (drop off mem)" by blast
  from "2.IH" [OF w1 [symmetric] refl w2] "2.prems"(2) obtain o2 e2 f2 where f2: "w2 = w1\<lparr>l_out := o2, l_err := e2, l_failed := f2\<rparr>"
    "l_failed w1 \<longrightarrow> f2" "oks \<or> f2" "length o2 \<le> length (l_out w1) + length (iov_load mem iov)"
    "\<not> f2 \<longrightarrow> o2 = l_out w1 @ iov_load mem iov" by auto
  have "ok = (ok1 \<and> oks)" "w' = w2" using "2.prems"(1) w1 w2 by auto
  then show ?case using f1 f2 "2.prems"(2)
    by (intro exI [of _ o2] exI [of _ e2] exI [of _ f2]) auto
qed

lemma iov_load_length:
  "\<forall>(off, len) \<in> set iov. off + len \<le> length mem \<Longrightarrow> length (iov_load mem iov) = sum_list (map snd iov)"
  by (induction mem iov rule: iov_load.induct) auto

lemma reading_facts:
  assumes "ring_holds b us rd"
  shows "sum_list (map snd (hev_ring_buffer_reading b)) = length rd"
    and "\<forall>(off, len) \<in> set (hev_ring_buffer_reading b). len \<le> ring_max_size b"
    and "hev_ring_buffer_reading b = [] \<longleftrightarrow> rd = []"
proof -
  have size: "length (ring_data b) = ring_max_size b" "ring_rda_size b = length rd"
    using assms by (auto simp: ring_holds_def ring_at_def)
  have bound: "\<forall>(off, len) \<in> set (hev_ring_buffer_reading b). off + len \<le> length (ring_data b)"
    using reading_in_bounds [OF assms] by auto
  from iov_load_length [OF bound] show "sum_list (map snd (hev_ring_buffer_reading b)) = length rd"
    by (simp add: reading_segments [OF assms])
  show "\<forall>(off, len) \<in> set (hev_ring_buffer_reading b). len \<le> ring_max_size b" using bound size by fastforce
  show "hev_ring_buffer_reading b = [] \<longleftrightarrow> rd = []" using size(2) by (simp add: hev_ring_buffer_reading_def Let_def)
qed

section \<open>The chain of buffers\<close>

lemma concat_pbuf_free_header_loop: "concat (pbuf_free_header_loop q k) = drop k (concat q)"
  by (induction q k rule: pbuf_free_header_loop.induct) auto

lemma pbuf_free_header_loop_clean: "[] \<notin> set q \<Longrightarrow> [] \<notin> set (pbuf_free_header_loop q k)"
  by (induction q k rule: pbuf_free_header_loop.induct) auto

lemma concat_take: "\<exists>k. concat (take n q) = take k (concat q)"
  by (metis append_eq_conv_conj append_take_drop_id concat_append)

lemma concat_clean_nonempty: "[] \<notin> set q \<Longrightarrow> concat q = [] \<longleftrightarrow> q = []"
  by (cases q) auto

section \<open>The invariant\<close>

text \<open>
  \<open>sending\<close> counts the bytes at the head of the queue that are already on the socket. \<open>out0\<close> is
  what the handshake had sent, \<open>src\<close> what the server sends, and \<open>C\<close> and \<open>T\<close> tell that the socket does
  not fail on the receiving and on the sending side.
\<close>

definition sending :: "spc \<Rightarrow> int" where
  "sending pc = (case pc of PSent s \<Rightarrow> s | _ \<Rightarrow> 0)"

lemma sending_simps [simp]:
  "sending (PSent s) = s" "sending PStart = 0" "sending PTop = 0" "sending PBack = 0" "sending (PFlush res) = 0"
  "sending PLoop = 0" "sending PDrain = 0" "sending PEnd = 0"
  by (simp_all add: sending_def)

abbreviation "rsock r \<equiv> w_sock (env r) (s_fd (obj r))"

definition fwd_inv :: "u8 list \<Rightarrow> tcp_run \<Rightarrow> bool" where
  "fwd_inv out0 r \<longleftrightarrow> (let q = concat (st_queue (obj r)); k = sending (at r) in
     length q \<le> TCP_WND \<and> [] \<notin> set (st_queue (obj r)) \<and> 0 \<le> k \<and> k \<le> int (length q) \<and>
     (st_pcb (obj r) \<longrightarrow> l_recved (env r) + length q = length (l_in (env r))) \<and>
     out0 @ l_in (env r) = sk_out (rsock r) @ drop (nat k) q \<and>
     (sk_shut (rsock r) \<longrightarrow> st_eof (obj r) \<and> st_queue (obj r) = []))"

definition bwd_inv :: "nat \<Rightarrow> u8 list \<Rightarrow> tcp_run \<Rightarrow> bool" where
  "bwd_inv n src r \<longleftrightarrow>
     (case st_buffer (obj r) of
        None \<Rightarrow> (at r = PStart \<or> at r = PEnd) \<and> l_out (env r) = [] \<and> l_acked (env r) = 0 \<and> \<not> l_fin (env r) \<and>
          src = rx_bytes (sk_rx (rsock r))
      | Some b \<Rightarrow> at r \<noteq> PStart \<and> ring_max_size b = n \<and>
          (\<exists>us rd. ring_holds b us rd \<and> length (l_out (env r)) \<le> l_acked (env r) + length us \<and>
             (\<not> l_failed (env r) \<longrightarrow> src = l_out (env r) @ rd @ rx_bytes (sk_rx (rsock r)))))"

definition end_inv :: "bool \<Rightarrow> bool \<Rightarrow> tcp_run \<Rightarrow> bool" where
  "end_inv C T r \<longleftrightarrow>
     (C \<longrightarrow> rx_clean (sk_rx (rsock r))) \<and> (T \<longrightarrow> tx_clean (sk_tx (rsock r))) \<and>
     (C \<longrightarrow> (\<forall>res. at r = PFlush res \<longrightarrow> res < 0 \<longrightarrow> sk_rx (rsock r) = [])) \<and>
     (C \<and> l_fin (env r) \<longrightarrow> sk_rx (rsock r) = [] \<and> (\<forall>b. st_buffer (obj r) = Some b \<longrightarrow> ring_rda_size b = 0)) \<and>
     (C \<and> st_pcb (obj r) \<and> \<not> l_failed (env r) \<and> at r \<noteq> PStart \<and> res_b r < 0 \<longrightarrow> l_fin (env r)) \<and>
     (T \<and> at r \<noteq> PStart \<and> at r \<noteq> PEnd \<and> res_f r < 0 \<longrightarrow> sk_shut (rsock r))"

definition tcp_inv :: "nat \<Rightarrow> u8 list \<Rightarrow> u8 list \<Rightarrow> bool \<Rightarrow> bool \<Rightarrow> tcp_run \<Rightarrow> bool" where
  "tcp_inv n out0 src C T r \<longleftrightarrow> fwd_inv out0 r \<and> bwd_inv n src r \<and> end_inv C T r"

lemmas tcp_inv_defs = tcp_inv_def fwd_inv_def bwd_inv_def end_inv_def

text \<open>Each part looks at some of the state only.\<close>

lemma fwd_frame:
  assumes "fwd_inv out0 r" and "st_queue (obj r') = st_queue (obj r)" and "st_pcb (obj r') \<longrightarrow> st_pcb (obj r)"
    and "st_eof (obj r) \<longrightarrow> st_eof (obj r')" and "l_in (env r') = l_in (env r)" and "l_recved (env r') = l_recved (env r)"
    and "sk_out (rsock r') = sk_out (rsock r)" and "sk_shut (rsock r') = sk_shut (rsock r)" and "sending (at r') = sending (at r)"
  shows "fwd_inv out0 r'"
  using assms unfolding fwd_inv_def Let_def by (simp only:) blast

lemma bwd_frame:
  assumes "bwd_inv n src r" and "st_buffer (obj r') = st_buffer (obj r)" and "l_out (env r') = l_out (env r)"
    and "l_acked (env r') = l_acked (env r)" and "l_failed (env r') = l_failed (env r)" and "l_fin (env r') = l_fin (env r)"
    and "sk_rx (rsock r') = sk_rx (rsock r)" and "at r' = PStart \<longleftrightarrow> at r = PStart" and "at r = PEnd \<longrightarrow> at r' = PEnd"
  shows "bwd_inv n src r'"
  using assms unfolding bwd_inv_def by (auto split: option.split_asm)

lemma end_frame:
  assumes "end_inv C T r" and "st_buffer (obj r') = st_buffer (obj r)" and "st_pcb (obj r') \<longrightarrow> st_pcb (obj r)"
    and "l_failed (env r') = l_failed (env r)" and "l_fin (env r') = l_fin (env r)"
    and "sk_rx (rsock r') = sk_rx (rsock r)" and "sk_tx (rsock r') = sk_tx (rsock r)" and "sk_shut (rsock r') = sk_shut (rsock r)"
    and "res_f r' = res_f r" and "res_b r' = res_b r" and "at r' \<noteq> PStart \<longrightarrow> at r \<noteq> PStart"
    and "at r' \<noteq> PEnd \<longrightarrow> at r \<noteq> PEnd" and "\<forall>res. at r' = PFlush res \<longrightarrow> at r = PFlush res"
  shows "end_inv C T r'"
  using assms unfolding end_inv_def by auto

lemmas frames = fwd_frame bwd_frame end_frame

section \<open>Steps of the task\<close>

text \<open>A move of the task that changes nothing else.\<close>

lemma inv_move:
  assumes "tcp_inv n out0 src C T r" and "at r \<noteq> PStart" and "pc \<noteq> PStart" and "sending (at r) = 0" and "sending pc = 0"
    and "at r \<noteq> PEnd" and "\<forall>res. pc \<noteq> PFlush res"
  shows "tcp_inv n out0 src C T (r\<lparr>at := pc\<rparr>)"
  using assms(1) unfolding tcp_inv_def
  by (elim conjE, intro conjI) (erule fwd_frame bwd_frame end_frame; use assms(2-7) in simp)+

lemma inv_start:
  assumes "0 < n" and "int n \<le> TCP_SND_BUF" and "tcp_inv n out0 src C T r" and "at r = PStart" and "splice_step n left PStart r = Some r'"
  shows "tcp_inv n out0 src C T r'"
proof -
  let ?mem = "map (w_stack (env r)) [0..<n]"
  let ?b = "hev_ring_buffer_alloca ?mem"
  have b: "ring_holds ?b [] []"
    by (rule ring_holds_alloca) (use assms(1,2) in \<open>auto simp: usize_max_def TCP_SND_BUF_def\<close>)
  have sz: "ring_max_size ?b = n" by (simp add: hev_ring_buffer_alloca_def)
  have none: "st_buffer (obj r) = None" "l_out (env r) = []" "l_acked (env r) = 0" "\<not> l_fin (env r)" "src = rx_bytes (sk_rx (rsock r))"
    using assms(3,4) by (auto simp: tcp_inv_def bwd_inv_def split: option.split_asm)
  have clean: "C \<longrightarrow> rx_clean (sk_rx (rsock r))" "T \<longrightarrow> tx_clean (sk_tx (rsock r))"
    using assms(3) by (auto simp: tcp_inv_def end_inv_def)
  have fwd: "fwd_inv out0 r" using assms(3) by (simp add: tcp_inv_def)
  show ?thesis
  proof (cases "st_pcb (obj r)")
    case True
    let ?r = "r\<lparr>obj := (obj r)\<lparr>st_buffer := Some ?b\<rparr>, res_f := 1, res_b := 1, at := PTop\<rparr>"
    have "bwd_inv n src ?r" unfolding bwd_inv_def using b sz none by (auto intro!: exI [of _ "[]"])
    moreover have "fwd_inv out0 ?r" using fwd by (rule fwd_frame) (simp_all add: assms(4))
    moreover have "end_inv C T ?r" using clean none by (simp add: end_inv_def)
    ultimately show ?thesis using True assms(5) by (simp add: tcp_inv_def)
  next
    case False
    let ?r = "r\<lparr>at := PEnd\<rparr>"
    have "bwd_inv n src ?r" unfolding bwd_inv_def using none by auto
    moreover have "fwd_inv out0 ?r" using fwd by (rule fwd_frame) (simp_all add: assms(4))
    moreover have "end_inv C T ?r" using clean none False by (simp add: end_inv_def)
    ultimately show ?thesis using False assms(5) by (simp add: tcp_inv_def)
  qed
qed

lemma inv_top:
  assumes "tcp_inv n out0 src C T r" and "at r = PTop" and "splice_step n left PTop r = Some r'"
  shows "tcp_inv n out0 src C T r'"
proof (cases "res_f r \<ge> 0")
  case False
  with assms(3) have "r' = r\<lparr>at := PBack\<rparr>" by simp
  then show ?thesis using inv_move [OF assms(1), of PBack] assms(2) by simp
next
  case True
  note inv = assms(1) [unfolded tcp_inv_def]
  let ?self = "obj r" and ?q = "st_queue (obj r)"
  from inv have fwd: "fwd_inv out0 r" and bwd: "bwd_inv n src r" and fin: "end_inv C T r" by auto
  show ?thesis
  proof (cases "?q = []")
    case q: True
    have "r' = (if st_eof ?self then r\<lparr>env := shutdown_wr (s_fd ?self) (env r), res_f := - 1, at := PBack\<rparr>
       else r\<lparr>res_f := 0, at := PBack\<rparr>)"
      using assms(3) True q by (simp add: tcp_splice_f_send_def split: if_split_asm)
    then show ?thesis using fwd bwd fin assms(2) q
      by (auto simp: tcp_inv_defs Let_def shutdown_wr_def split: option.split_asm)
  next
    case q: False
    let ?bs = "concat (take 64 ?q)"
    have bs: "?bs \<noteq> []" using q fwd by (cases ?q) (auto simp: fwd_inv_def Let_def)
    obtain m where m: "?bs = take m (concat ?q)" using concat_take by blast
    obtain s l w where sd: "sock_send (s_fd ?self) ?bs (env r) = (s, l, w)" by (cases "sock_send (s_fd ?self) ?bs (env r)")
    from sock_send_form [OF this] bs obtain k t e where
      w: "w = (env r)\<lparr>w_sock := (w_sock (env r))(s_fd ?self := (rsock r)\<lparr>sk_tx := t, sk_out := sk_out (rsock r) @ take k ?bs\<rparr>), w_errno := e\<rparr>"
      and k: "0 < s \<Longrightarrow> s = int k \<and> k \<le> length ?bs" "s \<le> 0 \<Longrightarrow> take k ?bs = []"
      and t: "tx_clean (sk_tx (rsock r)) \<Longrightarrow> tx_clean t \<and> (s \<le> 0 \<longrightarrow> s < 0 \<and> e = EAGAIN)" by blast
    have f: "tcp_splice_f_send ?self (env r) = (if 0 \<ge> s then (Inl (if 0 > s \<and> w_errno w = EAGAIN then 0 else - 1), w) else (Inr s, w))"
      using q sd by (simp add: tcp_splice_f_send_def)
    show ?thesis
    proof (cases "0 < s")
      case pos: True
      have r': "r' = r\<lparr>env := w, at := PSent s\<rparr>" using assms(3) True f pos by auto
      have "take k ?bs = take k (concat ?q)" "k \<le> length (concat ?q)" using k(1) [OF pos] unfolding m by (auto simp: min_def split: if_split_asm)
      then have "fwd_inv out0 r'" using fwd k(1) [OF pos] pos assms(2) unfolding fwd_inv_def r' w by (simp add: Let_def)
      moreover have "bwd_inv n src r'" using bwd by (rule bwd_frame) (simp_all add: r' w assms(2))
      moreover have "end_inv C T r'" using fin t True unfolding end_inv_def r' w by (simp add: assms(2))
      ultimately show ?thesis by (simp add: tcp_inv_def)
    next
      case neg: False
      then have e: "sk_out (rsock r) @ take k ?bs = sk_out (rsock r)" using k(2) by simp
      have r': "r' = r\<lparr>env := w, res_f := (if 0 > s \<and> e = EAGAIN then 0 else - 1), at := PBack\<rparr>"
        using assms(3) True f neg w by auto
      have "fwd_inv out0 r'" using fwd by (rule fwd_frame) (simp_all add: r' w assms(2) e)
      moreover have "bwd_inv n src r'" using bwd by (rule bwd_frame) (simp_all add: r' w assms(2))
      moreover have "end_inv C T r'" using fin t neg unfolding end_inv_def r' w by (auto simp: assms(2))
      ultimately show ?thesis by (simp add: tcp_inv_def)
    qed
  qed
qed

lemma inv_sent:
  assumes "tcp_inv n out0 src C T r" and "at r = PSent s" and "splice_step n left (PSent s) r = Some r'"
  shows "tcp_inv n out0 src C T r'"
proof -
  from assms(1) have fwd: "fwd_inv out0 r" and bwd: "bwd_inv n src r" and fin: "end_inv C T r" by (auto simp: tcp_inv_def)
  let ?q = "concat (st_queue (obj r))"
  have s: "0 \<le> s" "s \<le> int (length ?q)" "length ?q \<le> TCP_WND" using fwd assms(2) by (auto simp: fwd_inv_def Let_def)
  then have u: "unat (word_of_int s :: u16) = nat s"
    by (simp add: TCP_WND_def unsigned_of_int take_bit_int_eq_self)
  have r': "r' = r\<lparr>obj := (obj r)\<lparr>st_queue := pbuf_free_header (st_queue (obj r)) (word_of_int s)\<rparr>,
      env := (if st_pcb (obj r) then tcp_recved s (env r) else env r), res_f := 1, at := PBack\<rparr>"
    using assms(3) by (simp add: tcp_splice_f_sent_def)
  have "concat (pbuf_free_header (st_queue (obj r)) (word_of_int s)) = drop (nat s) ?q"
    by (simp add: pbuf_free_header_def concat_pbuf_free_header_loop u)
  moreover have "[] \<notin> set (pbuf_free_header (st_queue (obj r)) (word_of_int s))"
    using fwd by (simp add: pbuf_free_header_def pbuf_free_header_loop_clean fwd_inv_def Let_def)
  moreover have "st_queue (obj r) = [] \<Longrightarrow> pbuf_free_header (st_queue (obj r)) (word_of_int s) = []" by (simp add: pbuf_free_header_def)
  ultimately have "fwd_inv out0 r'" using fwd s assms(2) unfolding fwd_inv_def r' by (auto simp: Let_def tcp_recved_def u)
  moreover have "bwd_inv n src r'" using bwd by (rule bwd_frame) (simp_all add: r' assms(2) tcp_recved_def)
  moreover have "end_inv C T r'" using fin unfolding end_inv_def r' by (simp add: assms(2) tcp_recved_def)
  ultimately show ?thesis by (simp add: tcp_inv_def)
qed

lemma inv_back:
  assumes "tcp_inv n out0 src C T r" and "at r = PBack" and "splice_step n left PBack r = Some r'"
  shows "tcp_inv n out0 src C T r'"
proof (cases "res_b r \<ge> 0")
  case False
  with assms(3) have "r' = r\<lparr>at := PLoop\<rparr>" by simp
  then show ?thesis using inv_move [OF assms(1), of PLoop] assms(2) by simp
next
  case True
  from assms(1) have fwd: "fwd_inv out0 r" and bwd: "bwd_inv n src r" and fin: "end_inv C T r" by (auto simp: tcp_inv_def)
  obtain b us rd where b: "st_buffer (obj r) = Some b" "ring_max_size b = n" "ring_holds b us rd"
    "length (l_out (env r)) \<le> l_acked (env r) + length us"
    "\<not> l_failed (env r) \<Longrightarrow> src = l_out (env r) @ rd @ rx_bytes (sk_rx (rsock r))"
    using bwd assms(2) by (auto simp: bwd_inv_def split: option.split_asm)
  let ?iov = "hev_ring_buffer_writing b"
  show ?thesis
  proof (cases "?iov = []")
    case iov: True
    have r': "r' = r\<lparr>at := PFlush 0\<rparr>" using assms(3) True b(1) iov by (simp add: tcp_splice_b_recv_def)
    have "fwd_inv out0 r'" using fwd by (rule fwd_frame) (simp_all add: r' assms(2))
    moreover have "bwd_inv n src r'" using bwd by (rule bwd_frame) (simp_all add: r' assms(2))
    moreover have "end_inv C T r'" using fin unfolding end_inv_def r' by (simp add: assms(2))
    ultimately show ?thesis by (simp add: tcp_inv_def)
  next
    case iov: False
    have use: "ring_use_size b = length us + length rd" "length us + length rd \<le> ring_max_size b" "ring_rda_size b = length rd"
      using b(3) by (auto simp: ring_holds_def ring_at_def)
    then have "length us + length rd < n" using iov b(2) by (auto simp: hev_ring_buffer_writing_def split: if_split_asm)
    then have sp: "sum_list (map snd ?iov) = n - (length us + length rd)" "0 < sum_list (map snd ?iov)"
      using writing_space [OF b(3)] b(2) by auto
    obtain s bs l w where rc: "sock_recv (s_fd (obj r)) (sum_list (map snd ?iov)) (env r) = (s, bs, l, w)"
      by (cases "sock_recv (s_fd (obj r)) (sum_list (map snd ?iov)) (env r)")
    from sock_recv_form [OF rc sp(2)] obtain es e where
      w: "w = (env r)\<lparr>w_sock := (w_sock (env r))(s_fd (obj r) := (rsock r)\<lparr>sk_rx := es\<rparr>), w_errno := e\<rparr>"
      and bs: "length bs \<le> n - (length us + length rd)" "s \<le> 0 \<Longrightarrow> bs = []"
      and rx: "rx_bytes (sk_rx (rsock r)) = bs @ rx_bytes es" and more: "sk_rx (rsock r) = [] \<Longrightarrow> s = 0 \<and> es = []"
      and cl: "rx_clean (sk_rx (rsock r)) \<Longrightarrow> rx_clean es \<and> (s \<le> 0 \<and> \<not> (s < 0 \<and> e = EAGAIN) \<longrightarrow> es = [])" unfolding sp(1) by blast
    show ?thesis
    proof (cases "0 < s")
      case pos: True
      have r': "r' = r\<lparr>obj := (obj r)\<lparr>st_buffer := Some (ring_fill b bs)\<rparr>, env := w, at := PFlush 1\<rparr>"
        using assms(3) True b(1) iov rc pos by (auto simp: tcp_splice_b_recv_def)
      have h: "ring_holds (ring_fill b bs) us (rd @ bs)"
        using ring_fill_window [OF b(3)] bs(1) b(2) use(2) by simp
      have "fwd_inv out0 r'" using fwd by (rule fwd_frame) (simp_all add: r' w assms(2))
      moreover have "bwd_inv n src r'" unfolding bwd_inv_def r' w using h b(2,4,5) rx by auto
      moreover have "end_inv C T r'"
        using fin cl True more pos unfolding end_inv_def r' w by (auto simp: assms(2))
      ultimately show ?thesis by (simp add: tcp_inv_def)
    next
      case neg: False
      have r': "r' = r\<lparr>env := w, at := PFlush (if 0 > s \<and> e = EAGAIN then 0 else - 1)\<rparr>"
        using assms(3) True b(1) iov rc neg w by (auto simp: tcp_splice_b_recv_def)
      have "fwd_inv out0 r'" using fwd by (rule fwd_frame) (simp_all add: r' w assms(2))
      moreover have "bwd_inv n src r'" unfolding bwd_inv_def r' w using b rx bs(2) neg by auto
      moreover have "end_inv C T r'" using fin cl more neg unfolding end_inv_def r' w by (auto simp: assms(2) b(1))
      ultimately show ?thesis by (simp add: tcp_inv_def)
    qed
  qed
qed

lemma inv_flush:
  assumes "int n \<le> TCP_SND_BUF" and "tcp_inv n out0 src C T r" and "at r = PFlush res" and "splice_step n left (PFlush res) r = Some r'"
  shows "tcp_inv n out0 src C T r'"
proof -
  from assms(2) have fwd: "fwd_inv out0 r" and bwd: "bwd_inv n src r" and fin: "end_inv C T r" by (auto simp: tcp_inv_def)
  obtain b us rd where b: "st_buffer (obj r) = Some b" "ring_max_size b = n" "ring_holds b us rd"
    "length (l_out (env r)) \<le> l_acked (env r) + length us"
    "\<not> l_failed (env r) \<Longrightarrow> src = l_out (env r) @ rd @ rx_bytes (sk_rx (rsock r))"
    using bwd assms(3) by (auto simp: bwd_inv_def split: option.split_asm)
  let ?iov = "hev_ring_buffer_reading b"
  note rf = reading_facts [OF b(3)]
  consider (gone) "\<not> st_pcb (obj r)" | (none) "st_pcb (obj r)" "?iov = []" | (data) "st_pcb (obj r)" "?iov \<noteq> []" by blast
  then show ?thesis
  proof cases
    case gone
    then have r': "r' = r\<lparr>res_b := - 1, at := PLoop\<rparr>" using assms(4) by (simp add: tcp_splice_b_flush_def)
    have "fwd_inv out0 r'" using fwd by (rule fwd_frame) (simp_all add: r' assms(3))
    moreover have "bwd_inv n src r'" using bwd by (rule bwd_frame) (simp_all add: r' assms(3))
    moreover have "end_inv C T r'" using fin gone unfolding end_inv_def r' by (simp add: assms(3))
    ultimately show ?thesis by (simp add: tcp_inv_def)
  next
    case none
    then have rd: "rd = []" "ring_rda_size b = 0" using rf(3) b(3) by (auto simp: ring_holds_def ring_at_def)
    have r': "r' = r\<lparr>env := (if res < 0 then (env r)\<lparr>l_fin := True\<rparr> else env r), res_b := res, at := PLoop\<rparr>"
      using assms(4) none b(1) by (auto simp: tcp_splice_b_flush_def)
    have "fwd_inv out0 r'" using fwd by (rule fwd_frame) (simp_all add: r' assms(3))
    moreover have "bwd_inv n src r'" using bwd unfolding bwd_inv_def r' by (auto simp: assms(3) b(1))
    moreover have "end_inv C T r'" using fin rd unfolding end_inv_def r' by (auto simp: assms(3) b(1))
    ultimately show ?thesis by (simp add: tcp_inv_def)
  next
    case data
    have "\<forall>(off, len) \<in> set ?iov. len < 2 ^ 16" using rf(2) b(2) assms(1) by (fastforce simp: TCP_SND_BUF_def)
    moreover obtain ok w1 where w1: "tcp_write_iov (ring_data b) ?iov (env r) = (ok, w1)" by fastforce
    ultimately obtain o1 e1 f1 where f1: "w1 = (env r)\<lparr>l_out := o1, l_err := e1, l_failed := f1\<rparr>" "l_failed (env r) \<longrightarrow> f1" "ok \<or> f1"
      "length o1 \<le> length (l_out (env r)) + length rd" "\<not> f1 \<longrightarrow> o1 = l_out (env r) @ rd"
      using tcp_write_iov_form [of "ring_data b" ?iov "env r" ok w1] unfolding reading_segments [OF b(3)] by blast
    obtain ok' w2 where w2: "tcp_output w1 = (ok', w2)" by fastforce
    from tcp_output_form [OF this] obtain e2 f2 where f2: "w2 = w1\<lparr>l_err := e2, l_failed := f2\<rparr>" "l_failed w1 \<longrightarrow> f2" "ok' \<or> f2" by blast
    let ?b = "hev_ring_buffer_read_finish b (length rd)"
    have w: "w2 = (env r)\<lparr>l_out := o1, l_err := e2, l_failed := f2\<rparr>" using f1(1) f2(1) by simp
    have r': "r' = r\<lparr>obj := (obj r)\<lparr>st_buffer := Some ?b\<rparr>, env := w2, res_b := (if ok \<and> ok' then 1 else - 1), at := PLoop\<rparr>"
      using assms(4) data b(1) w1 w2 by (simp add: tcp_splice_b_flush_def Let_def rf(1))
    have h: "ring_holds ?b (us @ rd) []" "ring_max_size ?b = n" "ring_rda_size ?b = 0"
      using read_finish_window [OF b(3), of "length rd"] b(2)
      by (auto simp: ring_holds_def ring_at_def hev_ring_buffer_read_finish_def)
    have "fwd_inv out0 r'" using fwd by (rule fwd_frame) (simp_all add: r' w assms(3))
    moreover have "length o1 \<le> l_acked (env r) + length (us @ rd)" "\<not> f2 \<Longrightarrow> src = o1 @ [] @ rx_bytes (sk_rx (rsock r))"
      using f1 f2 b(4,5) by auto
    with h(1) have "\<exists>us rd. ring_holds ?b us rd \<and> length o1 \<le> l_acked (env r) + length us \<and>
       (\<not> f2 \<longrightarrow> src = o1 @ rd @ rx_bytes (sk_rx (rsock r)))" by blast
    then have "bwd_inv n src r'" unfolding bwd_inv_def r' w using h(2) by simp
    moreover have "end_inv C T r'" using fin h(3) f1 f2 unfolding end_inv_def r' w by (auto simp: assms(3))
    ultimately show ?thesis by (simp add: tcp_inv_def)
  qed
qed

lemma inv_loop:
  assumes "tcp_inv n out0 src C T r" and "at r = PLoop" and "splice_step n left PLoop r = Some r'"
  shows "tcp_inv n out0 src C T r'"
  using assms(3) inv_move [OF assms(1), of PDrain] inv_move [OF assms(1), of PTop] assms(2) by (auto split: if_split_asm)

lemma inv_drain:
  assumes "tcp_inv n out0 src C T r" and "at r = PDrain" and "splice_step n left PDrain r = Some r'"
  shows "tcp_inv n out0 src C T r'"
  using assms(3) inv_move [OF assms(1), of PDrain] inv_move [OF assms(1), of PEnd] assms(2)
  by (simp split: if_split_asm bind_split_asm)

lemma inv_task:
  assumes "0 < n" and "int n \<le> TCP_SND_BUF" and "tcp_inv n out0 src C T r" and "splice_step n left (at r) r = Some r'"
  shows "tcp_inv n out0 src C T r'"
proof (cases "at r")
  case PStart then show ?thesis using assms inv_start by metis
next
  case PTop then show ?thesis using assms inv_top by metis
next
  case (PSent s) then show ?thesis using assms inv_sent by metis
next
  case PBack then show ?thesis using assms inv_back by metis
next
  case (PFlush res) then show ?thesis using assms inv_flush by metis
next
  case PLoop then show ?thesis using assms inv_loop by metis
next
  case PDrain then show ?thesis using assms inv_drain by metis
next
  case PEnd then show ?thesis using assms(4) by simp
qed

section \<open>Steps of the surroundings\<close>

lemma inv_recv:
  assumes "tcp_inv n out0 src C T r" and "st_pcb (obj r)" and "\<not> st_eof (obj r)" and "[] \<notin> set p"
    and "length (l_in (env r)) + length (concat p) \<le> l_recved (env r) + TCP_WND"
  shows "tcp_inv n out0 src C T (r\<lparr>obj := tcp_recv_handler (Some p) (obj r), env := (env r)\<lparr>l_in := l_in (env r) @ concat p\<rparr>\<rparr>)"
proof -
  have h: "tcp_recv_handler (Some p) (obj r) = (obj r)\<lparr>st_queue := st_queue (obj r) @ p\<rparr>"
    by (simp add: tcp_recv_handler_def pbuf_cat_def)
  from assms(1) have fwd: "fwd_inv out0 r" and bwd: "bwd_inv n src r" and fin: "end_inv C T r" by (auto simp: tcp_inv_def)
  let ?q = "concat (st_queue (obj r))" and ?k = "nat (sending (at r))"
  have k: "?k \<le> length ?q" "out0 @ l_in (env r) = sk_out (rsock r) @ drop ?k ?q" using fwd by (auto simp: fwd_inv_def Let_def)
  then have "out0 @ l_in (env r) @ concat p = sk_out (rsock r) @ drop ?k (?q @ concat p)" by simp
  then show ?thesis unfolding tcp_inv_def h
    using fwd assms(2-5) by (intro conjI bwd_frame [OF bwd] end_frame [OF fin]) (auto simp: fwd_inv_def Let_def)
qed

lemma inv_sent_handler:
  assumes "tcp_inv n out0 src C T r" and "l_acked (env r) + unat len \<le> length (l_out (env r))"
    and "tcp_sent_handler len (obj r) = Some self"
  shows "tcp_inv n out0 src C T (r\<lparr>obj := self, env := (env r)\<lparr>l_acked := l_acked (env r) + unat len\<rparr>\<rparr>)"
proof -
  from assms(1) have fwd: "fwd_inv out0 r" and bwd: "bwd_inv n src r" and fin: "end_inv C T r" by (auto simp: tcp_inv_def)
  obtain b where b: "st_buffer (obj r) = Some b" "self = (obj r)\<lparr>st_buffer := Some (hev_ring_buffer_read_release b (unat len))\<rparr>"
    using assms(3) by (cases "st_buffer (obj r)") (auto simp: tcp_sent_handler_def)
  then obtain us rd where u: "at r \<noteq> PStart" "ring_max_size b = n" "ring_holds b us rd" "length (l_out (env r)) \<le> l_acked (env r) + length us"
    "\<not> l_failed (env r) \<longrightarrow> src = l_out (env r) @ rd @ rx_bytes (sk_rx (rsock r))" using bwd by (auto simp: bwd_inv_def)
  then have "unat len \<le> length us" using assms(2) by simp
  from release_window [OF u(3) this] u(4) this
  have "ring_holds (hev_ring_buffer_read_release b (unat len)) (drop (unat len) us) rd"
    "length (l_out (env r)) \<le> l_acked (env r) + unat len + length (drop (unat len) us)" by auto
  moreover have "ring_rda_size (hev_ring_buffer_read_release b k) = ring_rda_size b" for k
    by (simp add: hev_ring_buffer_read_release_def Let_def)
  ultimately have w: "ring_holds (hev_ring_buffer_read_release b (unat len)) (drop (unat len) us) rd"
    "length (l_out (env r)) \<le> l_acked (env r) + unat len + length (drop (unat len) us)"
    "ring_rda_size (hev_ring_buffer_read_release b (unat len)) = ring_rda_size b" by blast+
  let ?r = "r\<lparr>obj := self, env := (env r)\<lparr>l_acked := l_acked (env r) + unat len\<rparr>\<rparr>"
  have "fwd_inv out0 ?r" using fwd by (rule fwd_frame) (simp_all add: b(2))
  moreover have "bwd_inv n src ?r" unfolding bwd_inv_def b(2) using u(1,2,5) w(1,2) by (simp del: length_drop) blast
  moreover have "end_inv C T ?r" using fin unfolding end_inv_def b(2) by (simp add: b(1) w(3))
  ultimately show ?thesis by (simp add: tcp_inv_def)
qed

lemma terminate_simps [simp]:
  "st_queue (hev_socks5_session_terminate self) = st_queue self" "st_pcb (hev_socks5_session_terminate self) = st_pcb self"
  "st_buffer (hev_socks5_session_terminate self) = st_buffer self" "st_eof (hev_socks5_session_terminate self) = st_eof self"
  "s_fd (hev_socks5_session_terminate self) = s_fd self"
  by (simp_all add: hev_socks5_session_terminate_def hev_socks5_set_timeout_def)

lemma inv_step:
  assumes "0 < n" and "int n \<le> TCP_SND_BUF" and "tcp_inv n out0 src C T r" and "tcp_step n r r'"
  shows "tcp_inv n out0 src C T r'"
  using assms(4)
proof (cases rule: tcp_step.cases)
  case (task left)
  then show ?thesis using inv_task [OF assms(1-3)] by blast
next
  case (recv p)
  then show ?thesis using inv_recv [OF assms(3)] by blast
next
  case (fin)
  then show ?thesis using assms(3)
    by (auto simp: tcp_inv_defs tcp_recv_handler_def Let_def split: option.split_asm)
next
  case (sent len self)
  then show ?thesis using inv_sent_handler [OF assms(3)] by blast
next
  case err
  from assms(3) show ?thesis unfolding tcp_inv_def err(1)
    by (elim conjE, intro conjI) (erule fwd_frame bwd_frame end_frame; simp add: tcp_err_handler_def)+
next
  case kill
  from assms(3) show ?thesis unfolding tcp_inv_def kill(1)
    by (elim conjE, intro conjI) (erule fwd_frame bwd_frame end_frame; simp)+
qed

lemma inv_reach:
  assumes "tcp_begin r0" and "0 < n" and "int n \<le> TCP_SND_BUF" and "(tcp_step n)\<^sup>*\<^sup>* r0 r"
  shows "tcp_inv n (sk_out (rsock r0)) (rx_bytes (sk_rx (rsock r0))) (rx_clean (sk_rx (rsock r0))) (tx_clean (sk_tx (rsock r0))) r"
  using assms(4)
proof (induction rule: rtranclp_induct)
  case base
  show ?case using assms(1) by (simp add: tcp_begin_def tcp_inv_defs Let_def)
qed (use inv_step assms(2,3) in blast)

lemma never_stuck:
  assumes "tcp_inv n out0 src C T r" and "at r \<noteq> PEnd"
  shows "splice_step n left (at r) r \<noteq> None"
proof -
  have "st_buffer (obj r) \<noteq> None" if "at r \<noteq> PStart"
    using assms that by (auto simp: tcp_inv_def bwd_inv_def split: option.split_asm)
  then show ?thesis using assms(2)
    by (cases "at r") (auto simp: tcp_splice_b_recv_def tcp_splice_b_flush_def tcp_splice_f_sent_def Let_def split: prod.split sum.split)
qed

section \<open>What the session promises\<close>

text \<open>
  Once the end of stream is written or a write has failed, the direction to the application is over; the
  end of stream is written behind everything that was received.
\<close>

definition b_over :: "tcp_run \<Rightarrow> bool" where
  "b_over r \<longleftrightarrow> res_b r < 0 \<and> at r \<noteq> PStart \<and> (\<forall>res. at r \<noteq> PFlush res)"

definition fin_inv :: "tcp_run \<Rightarrow> bool" where
  "fin_inv r \<longleftrightarrow> (l_fin (env r) \<or> l_failed (env r) \<longrightarrow> b_over r) \<and>
     (l_fin (env r) \<longrightarrow> \<not> l_failed (env r) \<and> (\<forall>b. st_buffer (obj r) = Some b \<longrightarrow> ring_rda_size b = 0))"

definition app_side :: "tcp_world \<Rightarrow> bool \<times> bool \<times> u8 list" where
  "app_side w = (l_fin w, l_failed w, l_out w)"

lemma send_app_side: "sock_send fd bs w = (s, l, w') \<Longrightarrow> app_side w' = app_side w"
  by (drule sock_send_form) (auto simp: app_side_def)

lemma f_send_app_side: "app_side (snd (tcp_splice_f_send self w)) = app_side w"
proof (cases "take 64 (st_queue self) = []")
  case True
  then show ?thesis by (simp add: tcp_splice_f_send_def shutdown_wr_def app_side_def)
next
  case False
  obtain s l w' where "sock_send (s_fd self) (concat (take 64 (st_queue self))) w = (s, l, w')" by (metis prod_cases3)
  then show ?thesis using False send_app_side by (auto simp: tcp_splice_f_send_def)
qed

text \<open>A step other than the flush of a direction that is over writes nothing and keeps it over.\<close>

lemma over_task:
  assumes "b_over r" and "splice_step n left (at r) r = Some r'"
  shows "b_over r' \<and> app_side (env r') = app_side (env r) \<and> st_buffer (obj r') = st_buffer (obj r)"
proof (cases "at r")
  case PTop
  then show ?thesis using assms f_send_app_side [of "obj r" "env r"]
    by (auto simp: b_over_def split: if_split_asm prod.split_asm sum.split_asm)
next
  case (PSent s)
  then show ?thesis using assms by (auto simp: b_over_def tcp_splice_f_sent_def tcp_recved_def app_side_def Let_def split: if_split_asm)
qed (use assms in \<open>auto simp: b_over_def split: if_split_asm bind_split_asm\<close>)

lemma over_step:
  assumes "b_over r" and "tcp_step n r r'"
  shows "b_over r' \<and> app_side (env r') = app_side (env r) \<and>
     (\<forall>b'. st_buffer (obj r') = Some b' \<longrightarrow> (\<exists>b. st_buffer (obj r) = Some b \<and> ring_rda_size b' = ring_rda_size b))"
  using assms(2)
proof (cases rule: tcp_step.cases)
  case (task left)
  then show ?thesis using over_task [OF assms(1)] by auto
next
  case (sent len self)
  then obtain b where "st_buffer (obj r) = Some b" "self = (obj r)\<lparr>st_buffer := Some (hev_ring_buffer_read_release b (unat len))\<rparr>"
    by (auto simp: tcp_sent_handler_def bind_eq_Some_conv)
  moreover have "ring_rda_size (hev_ring_buffer_read_release b k) = ring_rda_size b" for b k
    by (simp add: hev_ring_buffer_read_release_def Let_def)
  ultimately show ?thesis using sent(1) assms(1) by (simp add: b_over_def app_side_def)
qed (use assms(1) in \<open>auto simp: b_over_def app_side_def tcp_recv_handler_def tcp_err_handler_def split: option.split\<close>)

lemma quiet_step:
  assumes "\<not> l_fin (env r)" and "\<not> l_failed (env r)" and "\<forall>res. at r \<noteq> PFlush res" and "tcp_step n r r'"
  shows "\<not> l_fin (env r') \<and> \<not> l_failed (env r')"
  using assms(4)
proof (cases rule: tcp_step.cases)
  case (task left)
  then show ?thesis
  proof (cases "at r")
    case PTop
    then show ?thesis using assms(1,2) task f_send_app_side [of "obj r" "env r"]
      by (auto simp: app_side_def split: if_split_asm prod.split_asm sum.split_asm)
  next
    case PBack
    have rc: "l_fin w' = l_fin w \<and> l_failed w' = l_failed w" if "sock_recv fd len w = (s, bs, l, w')" for fd len s bs l and w w' :: tcp_world
      using that by (auto simp: sock_recv_def Let_def split: if_split_asm list.split_asm rx.split_asm)
    from PBack show ?thesis using assms(1,2) task
      by (auto simp: tcp_splice_b_recv_def Let_def dest!: rc split: if_split_asm bind_split_asm prod.split_asm)
  qed (use assms task in \<open>auto simp: tcp_splice_f_sent_def tcp_recved_def Let_def split: if_split_asm bind_split_asm\<close>)
qed (use assms in simp_all)

lemma flush_fin:
  assumes "tcp_inv n out0 src C T r" and "at r = PFlush res" and "fin_inv r" and "int n \<le> TCP_SND_BUF"
    and "splice_step n left (PFlush res) r = Some r'"
  shows "fin_inv r'"
proof -
  have quiet: "\<not> l_fin (env r)" "\<not> l_failed (env r)" using assms(2,3) by (auto simp: fin_inv_def b_over_def)
  obtain b us rd where b: "st_buffer (obj r) = Some b" "ring_max_size b = n" "ring_holds b us rd"
    using assms(1,2) by (auto simp: tcp_inv_def bwd_inv_def split: option.split_asm)
  let ?iov = "hev_ring_buffer_reading b"
  note rf = reading_facts [OF b(3)]
  show ?thesis
  proof (cases "?iov = []")
    case True
    then have "ring_rda_size b = 0" using rf(3) b(3) by (auto simp: ring_holds_def ring_at_def)
    then show ?thesis using assms(5) quiet b(1) True
      by (auto simp: tcp_splice_b_flush_def fin_inv_def b_over_def split: if_split_asm)
  next
    case False
    have "\<forall>(off, len) \<in> set ?iov. len < 2 ^ 16" using rf(2) b(2) assms(4) by (fastforce simp: TCP_SND_BUF_def)
    moreover obtain ok w1 where w1: "tcp_write_iov (ring_data b) ?iov (env r) = (ok, w1)" by fastforce
    ultimately obtain o1 e1 f1 where f1: "w1 = (env r)\<lparr>l_out := o1, l_err := e1, l_failed := f1\<rparr>" "ok \<or> f1"
      using tcp_write_iov_form [of "ring_data b" ?iov "env r" ok w1] by blast
    obtain ok' w2 where w2: "tcp_output w1 = (ok', w2)" by fastforce
    from tcp_output_form [OF this] obtain e2 f2 where f2: "w2 = w1\<lparr>l_err := e2, l_failed := f2\<rparr>" by blast
    have bad: "tcp_write_iov mem iov w = (ok, w') \<Longrightarrow> ok \<Longrightarrow> l_failed w' = l_failed w" for mem iov ok and w w' :: tcp_world
      by (induction iov arbitrary: w ok w') (auto simp: tcp_write_def l_call_def Let_def split: prod.split_asm list.split_asm if_split_asm)
    have "l_failed w2 = l_failed w1" if ok'
      using w2 that by (auto simp: tcp_output_def l_call_def split: list.split_asm if_split_asm)
    then have "ok \<and> ok' \<Longrightarrow> \<not> l_failed w2" using bad [OF w1] quiet(2) by simp
    moreover have "\<not> l_fin w2" using quiet(1) f1(1) f2 by simp
    ultimately show ?thesis using assms(5) b(1) False w1 w2
      by (auto simp: tcp_splice_b_flush_def fin_inv_def b_over_def Let_def quiet split: if_split_asm)
  qed
qed

lemma fin_step:
  assumes "int n \<le> TCP_SND_BUF" and "tcp_inv n out0 src C T r" and "fin_inv r" and "tcp_step n r r'"
  shows "fin_inv r'"
proof (cases "b_over r")
  case True
  then show ?thesis using over_step [OF True assms(4)] assms(3) by (auto simp: fin_inv_def app_side_def)
next
  case False
  then have q: "\<not> l_fin (env r)" "\<not> l_failed (env r)" using assms(3) by (auto simp: fin_inv_def)
  show ?thesis
  proof (cases "\<exists>res left. at r = PFlush res \<and> splice_step n left (PFlush res) r = Some r'")
    case True
    then show ?thesis using flush_fin [OF assms(2) _ assms(3,1)] by blast
  next
    case other: False
    have "\<not> l_fin (env r') \<and> \<not> l_failed (env r')"
    proof (cases "\<exists>res. at r = PFlush res")
      case True
      from assms(4) show ?thesis by (cases rule: tcp_step.cases) (use q other True in auto)
    next
      case False
      then show ?thesis using quiet_step [OF q _ assms(4)] by blast
    qed
    then show ?thesis by (simp add: fin_inv_def)
  qed
qed

lemma fin_reach:
  assumes "tcp_begin r0" and "0 < n" and "int n \<le> TCP_SND_BUF" and "(tcp_step n)\<^sup>*\<^sup>* r0 r"
  shows "fin_inv r"
  using assms(4)
proof (induction rule: rtranclp_induct)
  case base
  show ?case using assms(1) by (simp add: tcp_begin_def fin_inv_def)
next
  case (step r1 r2)
  then show ?case using fin_step [OF assms(3) inv_reach [OF assms(1-3) step.hyps(1)]] by blast
qed

lemma over_stays: "(tcp_step n)\<^sup>*\<^sup>* r r' \<Longrightarrow> b_over r \<Longrightarrow> b_over r' \<and> app_side (env r') = app_side (env r)"
proof (induction rule: rtranclp_induct)
  case (step r1 r2)
  then show ?case using over_step [OF _ step.hyps(2)] by simp
qed simp

text \<open>
  C1: In every interleaving of a TCP session with the callbacks of lwIP, the server gets a prefix of
  what the application sent, in order, and the end of stream only behind all of it. Unless lwIP refuses
  data, the application gets a prefix of what the server sent, in order. The application gets the end of
  stream only when lwIP has refused nothing, behind all that was received from the server, which is all
  the server sent when the receiving did not fail; and nothing is written after it. The task never does
  anything undefined.
\<close>

theorem session_tcp_relays:
  assumes "tcp_begin r0" and "0 < n" and "int n \<le> TCP_SND_BUF" and "(tcp_step n)\<^sup>*\<^sup>* r0 r"
  shows "(\<exists>rest. sk_out (rsock r0) @ l_in (env r) = sk_out (rsock r) @ rest) \<and>
     (sk_shut (rsock r) \<longrightarrow> st_eof (obj r) \<and> sk_out (rsock r) = sk_out (rsock r0) @ l_in (env r)) \<and>
     (\<not> l_failed (env r) \<longrightarrow> (\<exists>rest. rx_bytes (sk_rx (rsock r0)) = l_out (env r) @ rest)) \<and>
     (l_fin (env r) \<longrightarrow> \<not> l_failed (env r) \<and>
        rx_bytes (sk_rx (rsock r0)) = l_out (env r) @ rx_bytes (sk_rx (rsock r)) \<and>
        (rx_clean (sk_rx (rsock r0)) \<longrightarrow> l_out (env r) = rx_bytes (sk_rx (rsock r0))) \<and>
        (\<forall>r'. (tcp_step n)\<^sup>*\<^sup>* r r' \<longrightarrow> l_fin (env r') \<and> l_out (env r') = l_out (env r))) \<and>
     (at r \<noteq> PEnd \<longrightarrow> (\<forall>left. splice_step n left (at r) r \<noteq> None))"
proof -
  note inv = inv_reach [OF assms]
  have parts: "fwd_inv (sk_out (rsock r0)) r" "bwd_inv n (rx_bytes (sk_rx (rsock r0))) r"
    "end_inv (rx_clean (sk_rx (rsock r0))) (tx_clean (sk_tx (rsock r0))) r" using inv by (auto simp: tcp_inv_def)
  have fin: "\<not> l_failed (env r) \<and> rx_bytes (sk_rx (rsock r0)) = l_out (env r) @ rx_bytes (sk_rx (rsock r)) \<and>
     (rx_clean (sk_rx (rsock r0)) \<longrightarrow> l_out (env r) = rx_bytes (sk_rx (rsock r0))) \<and>
     (\<forall>r'. (tcp_step n)\<^sup>*\<^sup>* r r' \<longrightarrow> l_fin (env r') \<and> l_out (env r') = l_out (env r))" if l: "l_fin (env r)"
  proof -
    have f: "\<not> l_failed (env r)" "\<forall>b. st_buffer (obj r) = Some b \<longrightarrow> ring_rda_size b = 0" "b_over r"
      "rx_clean (sk_rx (rsock r0)) \<longrightarrow> sk_rx (rsock r) = []"
      using parts(3) fin_reach [OF assms] l by (auto simp: end_inv_def fin_inv_def)
    obtain b us rd where "st_buffer (obj r) = Some b" "ring_holds b us rd"
      "rx_bytes (sk_rx (rsock r0)) = l_out (env r) @ rd @ rx_bytes (sk_rx (rsock r))"
      using parts(2) l f(1) unfolding bwd_inv_def by (cases "st_buffer (obj r)") auto
    moreover from this have "rd = []" using f(2) by (auto simp: ring_holds_def ring_at_def)
    ultimately have b: "rx_bytes (sk_rx (rsock r0)) = l_out (env r) @ rx_bytes (sk_rx (rsock r))" by simp
    have "\<forall>r'. (tcp_step n)\<^sup>*\<^sup>* r r' \<longrightarrow> l_fin (env r') \<and> l_out (env r') = l_out (env r)"
    proof (intro allI impI)
      fix r' assume "(tcp_step n)\<^sup>*\<^sup>* r r'"
      from over_stays [OF this f(3)] l show "l_fin (env r') \<and> l_out (env r') = l_out (env r)" by (simp add: app_side_def)
    qed
    moreover have "rx_clean (sk_rx (rsock r0)) \<longrightarrow> l_out (env r) = rx_bytes (sk_rx (rsock r0))"
      unfolding b using f(4) by simp
    ultimately show ?thesis using f(1) b by (intro conjI)
  qed
  have "\<not> l_failed (env r) \<longrightarrow> (\<exists>rest. rx_bytes (sk_rx (rsock r0)) = l_out (env r) @ rest)"
    using parts(2) by (auto simp: bwd_inv_def split: option.split_asm)
  moreover have "\<exists>rest. sk_out (rsock r0) @ l_in (env r) = sk_out (rsock r) @ rest"
    "sk_shut (rsock r) \<longrightarrow> st_eof (obj r) \<and> sk_out (rsock r) = sk_out (rsock r0) @ l_in (env r)"
    using parts(1) by (auto simp: fwd_inv_def Let_def)
  moreover have "at r \<noteq> PEnd \<longrightarrow> (\<forall>left. splice_step n left (at r) r \<noteq> None)" using never_stuck [OF inv] by blast
  moreover note impI [of "l_fin (env r)", OF fin]
  ultimately show ?thesis by (intro conjI)
qed

text \<open>
  C16: When the loop of a TCP session ends by itself, with a socket that did not fail, a connection
  that is still there and no data refused by lwIP, then everything was relayed: the server has all
  the application sent and the end of stream, the application all the server sent and the end of stream.
\<close>

theorem session_tcp_complete:
  assumes "tcp_begin r0" and "0 < n" and "int n \<le> TCP_SND_BUF" and "(tcp_step n)\<^sup>*\<^sup>* r0 r"
    and "rx_clean (sk_rx (rsock r0))" and "tx_clean (sk_tx (rsock r0))"
    and "at r = PLoop" and "res_f r < 0" and "res_b r < 0" and "st_pcb (obj r)" and "\<not> l_failed (env r)"
  shows "sk_shut (rsock r) \<and> sk_out (rsock r) = sk_out (rsock r0) @ l_in (env r) \<and>
     l_fin (env r) \<and> l_out (env r) = rx_bytes (sk_rx (rsock r0))"
proof -
  note inv = inv_reach [OF assms(1-4), unfolded tcp_inv_def]
  have fin: "sk_shut (rsock r)" "l_fin (env r)" "sk_rx (rsock r) = []" "\<forall>b. st_buffer (obj r) = Some b \<longrightarrow> ring_rda_size b = 0"
    using inv assms(5-11) by (auto simp: end_inv_def)
  obtain b us rd where b: "st_buffer (obj r) = Some b" "ring_holds b us rd"
    "rx_bytes (sk_rx (rsock r0)) = l_out (env r) @ rd @ rx_bytes (sk_rx (rsock r))"
    using inv assms(7,11) by (auto simp: bwd_inv_def split: option.split_asm)
  then have "rd = []" using fin(4) by (auto simp: ring_holds_def ring_at_def)
  moreover have "sk_out (rsock r) = sk_out (rsock r0) @ l_in (env r)"
    using inv fin(1) assms(7) by (auto simp: fwd_inv_def Let_def)
  ultimately show ?thesis using fin b(3) by simp
qed

section \<open>A run\<close>

datatype event = Task | Recv pbufs | Fin

fun exec :: "nat \<Rightarrow> event list \<Rightarrow> tcp_run \<Rightarrow> tcp_run option" where
  "exec n [] r = Some r"
| "exec n (Task # es) r = Option.bind (splice_step n 100 (at r) r) (exec n es)"
| "exec n (Recv p # es) r =
     (if st_pcb (obj r) \<and> at r \<noteq> PEnd \<and> \<not> st_eof (obj r) \<and> p \<noteq> [] \<and> [] \<notin> set p \<and>
        length (l_in (env r)) + length (concat p) \<le> l_recved (env r) + TCP_WND
      then exec n es (r\<lparr>obj := tcp_recv_handler (Some p) (obj r), env := (env r)\<lparr>l_in := l_in (env r) @ concat p\<rparr>\<rparr>) else None)"
| "exec n (Fin # es) r =
     (if st_pcb (obj r) \<and> at r \<noteq> PEnd then exec n es (r\<lparr>obj := tcp_recv_handler None (obj r)\<rparr>) else None)"

lemma exec_steps: "exec n es r = Some r' \<Longrightarrow> (tcp_step n)\<^sup>*\<^sup>* r r'"
proof (induction n es r rule: exec.induct)
  case (2 n es r)
  then obtain r1 where "splice_step n 100 (at r) r = Some r1" "exec n es r1 = Some r'" by (auto simp: bind_eq_Some_conv)
  then show ?case using 2 tcp_step.task by (metis converse_rtranclp_into_rtranclp)
next
  case (3 n p es r)
  then show ?case using tcp_step.recv [of r p n] by (auto split: if_split_asm intro: converse_rtranclp_into_rtranclp)
next
  case (4 n es r)
  then show ?case using tcp_step.fin [of r n] by (auto split: if_split_asm intro: converse_rtranclp_into_rtranclp)
qed auto

text \<open>The handshake has sent the byte 9; the server sends 7 and 8, the application 1, 2 and 3.\<close>

definition tcp_r0 :: tcp_run where
  "tcp_r0 = \<lparr>obj = session_tcp_zero\<lparr>s_fd := 3, s_timeout := 1000, st_pcb := True\<rparr>,
     env = \<lparr>w_sock = (\<lambda>_. \<lparr>sk_rx = [RxData [7, 8]], sk_tx = [TxOk 2], sk_out = [9], sk_dg = [], sk_sent = [], sk_shut = False\<rparr>),
       w_errno = 0, w_sys = [], w_open = [3], w_poll = [3], w_alloc = [], w_live = 1, w_stack = (\<lambda>_. 0),
       w_libc = \<lparr>inet_pton6 = (\<lambda>_. None), inet_ntop = (\<lambda>_ _. []), getaddrinfo = (\<lambda>_ _. None)\<rparr>, w_protect = None, w_set = misc_defaults,
       l_in = [], l_recved = 0, l_out = [], l_acked = 0, l_err = [], l_failed = False, l_fin = False, l_aborted = False\<rparr>,
     at = PStart, res_f = 0, res_b = 0\<rparr>"

definition tcp_events :: "event list" where
  "tcp_events = [Task, Recv [[1, 2], [3]], Task, Task, Task, Task, Task, Fin, Task, Task, Task, Task, Task, Task, Task]"

lemma tcp_r0_begin: "tcp_begin tcp_r0"
  by (simp add: tcp_begin_def tcp_r0_def session_tcp_zero_def)

lemma tcp_r0_runs: "map_option (\<lambda>r. (at r, res_f r, res_b r, st_pcb (obj r), l_failed (env r), l_in (env r), l_fin (env r)))
     (exec 4 tcp_events tcp_r0) = Some (PLoop, - 1, - 1, True, False, [1, 2, 3], True)"
  by (simp add: tcp_events_def tcp_r0_def session_tcp_zero_def tcp_splice_f_send_def tcp_splice_f_sent_def tcp_splice_b_recv_def
      tcp_splice_b_flush_def sock_send_def sock_recv_def tcp_write_def tcp_output_def l_call_def tcp_recved_def
      tcp_recv_handler_def pbuf_cat_def pbuf_free_header_def tcp_yield_def hev_socks5_task_io_yielder_def hev_task_sleep_def
      hev_ring_buffer_alloca_def hev_ring_buffer_writing_def hev_ring_buffer_reading_def ring_fill_def
      hev_ring_buffer_write_finish_def hev_ring_buffer_read_finish_def usub_small uadd_small usize_max_def
      shutdown_wr_def TCP_WND_def Let_def)

lemma tcp_r0_start: "sk_out (rsock tcp_r0) = [9]" "sk_rx (rsock tcp_r0) = [RxData [7, 8]]" "sk_tx (rsock tcp_r0) = [TxOk 2]"
  by (simp_all add: tcp_r0_def session_tcp_zero_def)

lemma session_tcp_relays_witness:
  "\<exists>r rest. (tcp_step 4)\<^sup>*\<^sup>* tcp_r0 r \<and> l_in (env r) = [1, 2, 3] \<and> [9, 1, 2, 3] = sk_out (rsock r) @ rest \<and>
     l_fin (env r) \<and> l_out (env r) = [7, 8]"
proof -
  obtain r where r: "exec 4 tcp_events tcp_r0 = Some r" "l_in (env r) = [1, 2, 3]" "l_fin (env r)" using tcp_r0_runs by auto
  have "0 < (4 :: nat)" "int 4 \<le> TCP_SND_BUF" by (simp_all add: TCP_SND_BUF_def)
  note rel = session_tcp_relays [OF tcp_r0_begin this exec_steps [OF r(1)], unfolded tcp_r0_start]
  from rel obtain rest where "[9] @ l_in (env r) = sk_out (rsock r) @ rest" by blast
  moreover from rel r(3) have "rx_clean [RxData [7, 8]] \<longrightarrow> l_out (env r) = rx_bytes [RxData [7, 8]]" by blast
  ultimately show ?thesis using exec_steps [OF r(1)] r(2,3) by (auto simp: rx_clean_def)
qed

lemma session_tcp_complete_witness:
  "\<exists>r. (tcp_step 4)\<^sup>*\<^sup>* tcp_r0 r \<and> sk_out (rsock r) = [9, 1, 2, 3] \<and> sk_shut (rsock r) \<and> l_out (env r) = [7, 8] \<and> l_fin (env r)"
proof -
  obtain r where r: "exec 4 tcp_events tcp_r0 = Some r" "l_in (env r) = [1, 2, 3]" "at r = PLoop" "res_f r < 0" "res_b r < 0"
    "st_pcb (obj r)" "\<not> l_failed (env r)" using tcp_r0_runs by auto
  from session_tcp_complete [OF tcp_r0_begin _ _ exec_steps [OF r(1)] _ _ r(3-7)] show ?thesis
    using exec_steps [OF r(1)] r(2) by (auto simp: TCP_SND_BUF_def tcp_r0_start rx_clean_def tx_clean_def)
qed

text \<open>
  When lwIP refuses the first of two segments and takes the second, the application gets a stream with
  a hole: here the bytes 6 and 7 are lost in front of 8.
\<close>

theorem session_tcp_hole:
  "let b = \<lparr>ring_rp = 2, ring_wp = 1, ring_rda_size = 3, ring_use_size = 3, ring_max_size = 4, ring_data = [8, 0, 6, 7]\<rparr>;
       self = session_tcp_zero\<lparr>st_pcb := True, st_buffer := Some b\<rparr>
   in ring_holds b [] [6, 7, 8] \<and>
     (\<exists>res self' w'. tcp_splice_b_flush 1 self ((env tcp_r0)\<lparr>l_err := [False, True, True]\<rparr>) = Some (res, self', w') \<and>
        res = - 1 \<and> l_out w' = [8])"
proof -
  have "ring_at \<lparr>ring_rp = 2, ring_wp = 1, ring_rda_size = 3, ring_use_size = 3, ring_max_size = 4, ring_data = [8, 0, 6, 7]\<rparr> 2 [] [6, 7, 8]"
    by (simp add: ring_at_def cyc_def usize_max_def)
  then show ?thesis
    by (auto simp: ring_holds_def tcp_splice_b_flush_def hev_ring_buffer_reading_def usub_small usize_max_def tcp_write_def
        tcp_output_def l_call_def tcp_r0_def session_tcp_zero_def)
qed

end
