(* ===== verification/Session_Udp.thy ===== *)
theory Session_Udp
  imports Session Udp_Relay
begin

text \<open>
  A UDP session, \<open>hev-socks5-session-udp.c\<close>: lwIP hands it the datagrams that an application sends
  to one address; they wait in a list until the session's task has sent them, framed, to the server.
  What the server sends back goes to the application through lwIP.
\<close>

unbundle bit_operations_syntax

section \<open>The application's side\<close>

text \<open>
  \<open>d_out\<close> are the datagrams lwIP has taken for the application, with the address and port they come
  from; \<open>d_err\<close> scripts which of its next calls fail; \<open>d_removed\<close> tells that the PCB was removed.
\<close>

record dgram_world = world +
  d_err :: "bool list"
  d_out :: "(lwip_addr \<times> u16 \<times> u8 list) list"
  d_removed :: bool

definition d_call :: "'z dgram_world_scheme \<Rightarrow> bool \<times> 'z dgram_world_scheme" where
  "d_call w = (case d_err w of [] \<Rightarrow> (True, w) | b # es \<Rightarrow> (b, w\<lparr>d_err := es\<rparr>))"

definition udp_sendfrom :: "u8 list \<Rightarrow> lwip_addr \<Rightarrow> u16 \<Rightarrow> 'z dgram_world_scheme \<Rightarrow> bool \<times> 'z dgram_world_scheme" where
  "udp_sendfrom bs ip port w =
     (let (ok, w) = d_call w;
          n = (if ip_type ip = IPADDR_V4 then 4 else 16)
      in (ok, if ok then w\<lparr>d_out := d_out w @ [(ip\<lparr>ip_bytes := take n (ip_bytes ip)\<rparr>, port, bs)]\<rparr> else w))"

section \<open>The session\<close>

text \<open>The data of a frame is the chain of buffers lwIP has delivered, as the list of their contents.\<close>

record udp_frame =
  fr_addr :: "u8 list"
  fr_data :: "u8 list list"

text \<open>The address is kept as its four bytes, an integer of zero being no address.\<close>

record session_udp = client_udp +
  su_list :: "udp_frame list"
  su_pcb :: bool
  su_frames :: int
  su_addr :: "u8 list"
  su_port :: u16

definition UDP_POOL_SIZE :: int where "UDP_POOL_SIZE = 512"

definition session_udp_iface :: "srv_conf \<Rightarrow> ('a client_udp_ext client_ext, 'z) udp_iface" where
  "session_udp_iface sv = \<lparr>iface_get_fd = hev_socks5_client_udp_get_fd, iface_binder = hev_socks5_session_bind sv\<rparr>"

text \<open>
  The direction to the server. While the first part waits for the socket the list may get more
  frames at its end; the second part removes those that were sent.
\<close>

fun frame_msgs :: "nat \<Rightarrow> udp_frame list \<Rightarrow> udp_msg list option" where
  "frame_msgs 0 frs = Some []"
| "frame_msgs (Suc n) [] = None"
| "frame_msgs (Suc n) (fr # frs) =
     (case fr_data fr of
        [] \<Rightarrow> None
      | b # _ \<Rightarrow> map_option (\<lambda>ms. \<lparr>m_addr = At (fr_addr fr), m_buf = b, m_len = length b, m_mem = b\<rparr> # ms) (frame_msgs n frs))"

definition udp_fwd_f_send ::
  "srv_conf \<Rightarrow> nat \<Rightarrow> 'a session_udp_scheme \<Rightarrow> 'z world_scheme \<Rightarrow> ((int + nat) \<times> 'a session_udp_scheme \<times> 'z world_scheme) option" where
  "udp_fwd_f_send sv num self w =
     (let res = su_frames self in
      if res \<le> 0 then Some (Inl 0, self, w)
      else do {
        let res = (if res > int num then int num else res);
        msgv \<leftarrow> frame_msgs (nat res) (su_list self);
        (res, self, w) \<leftarrow> hev_socks5_udp_sendmmsg (session_udp_iface sv) msgv self w;
        Some (if res \<le> 0 then Inl (- 1) else Inr (nat res), self, w)
      })"

fun udp_fwd_f_sent :: "nat \<Rightarrow> 'a session_udp_scheme \<Rightarrow> 'z world_scheme \<Rightarrow> ('a session_udp_scheme \<times> 'z world_scheme) option" where
  "udp_fwd_f_sent 0 self w = Some (self, w)"
| "udp_fwd_f_sent (Suc n) self w =
     (case su_list self of
        [] \<Rightarrow> None
      | _ # frs \<Rightarrow> udp_fwd_f_sent n (self\<lparr>su_list := frs, su_frames := su_frames self - 1\<rparr>) (hev_free w))"

text \<open>The direction to the application; the buffers and messages live on the stack.\<close>

definition udp_bufs :: "nat \<Rightarrow> 'z world_scheme \<Rightarrow> udp_msg list" where
  "udp_bufs num w = map (\<lambda>i. let b = map (w_stack w) [UDP_BUF_SIZE * i..<UDP_BUF_SIZE * Suc i]
     in \<lparr>m_addr = Wild, m_buf = b, m_len = UDP_BUF_SIZE, m_mem = b\<rparr>) [0..<num]"

definition reply_from :: "u8 list \<Rightarrow> 'a session_udp_scheme \<Rightarrow> 'z world_scheme \<Rightarrow> (int \<times> lwip_addr \<times> u16) option" where
  "reply_from a self w =
     (if su_addr self \<noteq> [0, 0, 0, 0] \<and> su_port self \<noteq> 0
      then Some (0, \<lparr>ip_type = IPADDR_V4, ip_bytes = su_addr self\<rparr>, su_port self)
      else hev_socks5_addr_into_lwip a \<lparr>ip_type = IPADDR_ANY, ip_bytes = map (w_stack w) [0..<16]\<rparr> 0)"

fun udp_out_loop :: "nat \<Rightarrow> udp_msg list \<Rightarrow> 'a session_udp_scheme \<Rightarrow> 'z dgram_world_scheme \<Rightarrow> (int \<times> 'z dgram_world_scheme) option" where
  "udp_out_loop 0 ms self w = Some (1, w)"
| "udp_out_loop (Suc n) [] self w = None"
| "udp_out_loop (Suc n) (m # ms) self w =
     (case m_addr m of
        Wild \<Rightarrow> None
      | Null \<Rightarrow> udp_out_loop n ms self w
      | At a \<Rightarrow>
          if m_len m = 0 then udp_out_loop n ms self w
          else do {
            (ret, ip, port) \<leftarrow> reply_from a self w;
            if ret < 0 then Some (- 1, w)
            else do {
              b \<leftarrow> memget (m_buf m) 0 (m_len m);
              let (ok, w) = d_call w;
              if \<not> ok then Some (- 1, w)
              else let (ok, w) = udp_sendfrom b ip port w in
                if \<not> ok then Some (- 1, w) else udp_out_loop n ms self w
            }
          })"

definition hev_socks5_session_udp_fwd_b ::
  "srv_conf \<Rightarrow> nat \<Rightarrow> 'a session_udp_scheme \<Rightarrow> 'z dgram_world_scheme \<Rightarrow> (int \<times> 'a session_udp_scheme \<times> 'z dgram_world_scheme) option" where
  "hev_socks5_session_udp_fwd_b sv num self w = do {
     (res, msgv, self, w) \<leftarrow> hev_socks5_udp_recvmmsg (session_udp_iface sv) (udp_bufs num w) True self w;
     if res \<le> 0 then Some (if res = - 1 \<and> w_errno w = EAGAIN then 0 else - 1, self, w)
     else do {
       (res, w) \<leftarrow> udp_out_loop (nat res) msgv self w;
       Some (res, self, w)
     }
   }"

text \<open>
  The callback of lwIP; \<open>ip\<close> and \<open>port\<close> are the address the datagrams of the session go to. What the
  allocated block holds before is unknown, as on the stack.
\<close>

definition udp_recv_handler ::
  "mdns option \<Rightarrow> lwip_addr \<Rightarrow> u16 \<Rightarrow> u8 list list option \<Rightarrow> 'a session_udp_scheme \<Rightarrow> 'z world_scheme \<Rightarrow>
     ('a session_udp_scheme \<times> mdns option \<times> 'z world_scheme) option" where
  "udp_recv_handler dns ip port p self w =
     (case p of
        None \<Rightarrow> Some (hev_socks5_session_terminate self, dns, w)
      | Some data \<Rightarrow>
          if su_frames self > UDP_POOL_SIZE then Some (self, dns, w)
          else let (ok, w) = hev_malloc w in
            if \<not> ok then Some (self, dns, w)
            else do {
              (_, addr, dns) \<leftarrow> hev_socks5_addr_from_lwip dns (stack_addr [] w) ip port;
              t \<leftarrow> addr_atype addr;
              let self = (if t = ADDR_TYPE_NAME then self\<lparr>su_addr := take 4 (ip_bytes ip), su_port := port\<rparr> else self);
              Some (self\<lparr>su_frames := su_frames self + 1, su_list := su_list self @ [\<lparr>fr_addr = addr, fr_data = data\<rparr>]\<rparr>, dns, w)
            })"

section \<open>The relay address of the server\<close>

definition hev_socks5_addr_get_port :: "u8 list \<Rightarrow> u16 option" where
  "hev_socks5_addr_get_port addr = do {
     t \<leftarrow> addr_atype addr;
     if t = ADDR_TYPE_IPV4 then load16 (drop 5 addr)
     else if t = ADDR_TYPE_IPV6 then load16 (drop 17 addr)
     else if t = ADDR_TYPE_NAME then do { l \<leftarrow> addr_name_len addr; load16 (drop (2 + unat l) addr) }
     else Some 0
   }"

text \<open>The configured address, if there is one, with the port the server gave.\<close>

definition relay_addr :: "srv_conf \<Rightarrow> u8 list \<Rightarrow> u8 list option" where
  "relay_addr sv addr =
     (if srv_udp_in_udp sv \<and> srv_udp_addr sv ! 0 \<noteq> 0 then do {
        port \<leftarrow> hev_socks5_addr_get_port addr;
        map_option snd (hev_socks5_addr_from_name addr (srv_udp_addr sv) port)
      } else Some addr)"

definition hev_socks5_session_udp_set_upstream_addr ::
  "srv_conf \<Rightarrow> 'a client_udp_scheme \<Rightarrow> u8 list \<Rightarrow> 'z world_scheme \<Rightarrow> (int \<times> 'a client_udp_scheme \<times> 'z world_scheme) option" where
  "hev_socks5_session_udp_set_upstream_addr sv self addr w = do {
     addr \<leftarrow> relay_addr sv addr;
     hev_socks5_client_udp_set_upstream_addr (hev_socks5_session_bind sv) self addr w
   }"

section \<open>Construction and destruction\<close>

definition hev_socks5_session_udp_construct :: "srv_conf \<Rightarrow> 'a session_udp_scheme \<Rightarrow> int \<times> 'a session_udp_scheme" where
  "hev_socks5_session_udp_construct sv self =
     (let type = (if srv_udp_in_udp sv then TYPE_UDP_IN_UDP else TYPE_UDP_IN_TCP);
          (res, self) = hev_socks5_client_udp_construct self type
      in if res < 0 then (- 1, self) else (0, self\<lparr>su_pcb := True\<rparr>))"

definition session_udp_zero :: session_udp where
  "session_udp_zero = \<lparr>s_fd = 0, s_timeout = 0, s_type = TYPE_NONE, s_udp_associated = False, s_addr_family = 0,
     c_user = None, c_pass = None, cu_fd = 0, su_list = [], su_pcb = False, su_frames = 0, su_addr = [0, 0, 0, 0], su_port = 0\<rparr>"

definition hev_socks5_session_udp_new :: "srv_conf \<Rightarrow> 'z world_scheme \<Rightarrow> session_udp option \<times> 'z world_scheme" where
  "hev_socks5_session_udp_new sv w =
     (let (ok, w) = hev_malloc w in
      if \<not> ok then (None, w)
      else let (res, self) = hev_socks5_session_udp_construct sv session_udp_zero
           in if res < 0 then (None, hev_free w) else (Some self, w))"

definition hev_socks5_session_udp_destruct :: "'a session_udp_scheme \<Rightarrow> 'z dgram_world_scheme \<Rightarrow> 'z dgram_world_scheme" where
  "hev_socks5_session_udp_destruct self w =
     (let w = fold (\<lambda>_. hev_free) (su_list self) w
      in hev_socks5_client_udp_destruct self (if su_pcb self then w\<lparr>d_removed := True\<rparr> else w))"

definition hev_socks5_session_udp_class :: "srv_conf \<Rightarrow> ('a client_udp_ext, 'z) client_class" where
  "hev_socks5_session_udp_class sv = hev_socks5_client_udp_class\<lparr>bind_socket := hev_socks5_session_bind sv,
     set_upstream_addr := hev_socks5_session_udp_set_upstream_addr sv\<rparr>"

section \<open>The splicer\<close>

text \<open>
  Where the task is: before the splicer, at the top of its loop, after sending, before the direction to
  the application, after both, and past the splicer.
\<close>

datatype upc = UStart | UTop | USent nat | UBack | ULoop | UEnd

text \<open>
  \<open>hist\<close> is an auxiliary variable: the chains that lwIP has delivered while the session had room for
  them, each with the name table as it was then. It is not read off the list of the session.
\<close>

record udp_run =
  uobj :: session_udp
  uenv :: dgram_world
  uat :: upc
  uf :: int
  ub :: int
  hist :: "(mdns option \<times> u8 list list) list"

fun udp_splice_step :: "srv_conf \<Rightarrow> nat \<Rightarrow> nat \<Rightarrow> upc \<Rightarrow> udp_run \<Rightarrow> udp_run option" where
  "udp_splice_step sv num left UStart r =
     (let fd = hev_socks5_udp_get_fd (session_udp_iface sv :: (_, unit) udp_iface) (uobj r); w = uenv r
      in Some (r\<lparr>uenv := (if fst (hev_task_mod_fd fd w) < 0 then snd (hev_task_add_fd fd w) else w), uf := 1, ub := 1, uat := UTop\<rparr>))"
| "udp_splice_step sv num left UTop r =
     (if uf r \<ge> 0 then do {
        (res, self, w) \<leftarrow> udp_fwd_f_send sv num (uobj r) (uenv r);
        Some (case res of
            Inl res \<Rightarrow> r\<lparr>uobj := self, uenv := w, uf := res, uat := UBack\<rparr>
          | Inr n \<Rightarrow> r\<lparr>uobj := self, uenv := w, uat := USent n\<rparr>)
      } else Some (r\<lparr>uat := UBack\<rparr>))"
| "udp_splice_step sv num left (USent n) r = do {
     (self, w) \<leftarrow> udp_fwd_f_sent n (uobj r) (uenv r);
     Some (r\<lparr>uobj := self, uenv := w, uf := 1, uat := UBack\<rparr>)
   }"
| "udp_splice_step sv num left UBack r =
     (if ub r \<ge> 0 then do {
        (res, self, w) \<leftarrow> hev_socks5_session_udp_fwd_b sv num (uobj r) (uenv r);
        Some (r\<lparr>uobj := self, uenv := w, ub := res, uat := ULoop\<rparr>)
      } else Some (r\<lparr>uat := ULoop\<rparr>))"
| "udp_splice_step sv num left ULoop r =
     (if uf r > 0 \<or> ub r > 0 \<or> uf r AND ub r = 0 then
        (let type = (if uf r > 0 \<or> ub r > 0 then TASK_YIELD else TASK_WAITIO);
             (y, self, w) = udp_task_io_yielder type left (uobj r) (uenv r)
         in Some (r\<lparr>uobj := self, uenv := w, uat := (if y \<noteq> 0 then UEnd else UTop)\<rparr>))
      else Some (r\<lparr>uat := UEnd\<rparr>))"
| "udp_splice_step sv num left UEnd r = None"

section \<open>The session in its surroundings\<close>

text \<open>
  lwIP delivers chains of at least one buffer, to an address of four or sixteen bytes, with the name
  table in whatever state it is then; any task may terminate the session. Both may happen at every
  point of the splicer, and past its end as long as the destructor has not begun. The destructor frees
  the list and then takes the mutex of the tunnel; nobody waits while holding it, except a task that
  asks for it twice and stays for ever (see the theory of the tunnel's sessions), and then lwIP does
  not call anybody either.
\<close>

definition names_ok :: "mdns option \<Rightarrow> bool" where
  "names_ok dns \<longleftrightarrow> (case dns of
     None \<Rightarrow> True
   | Some d \<Rightarrow> (\<forall>ip. 0 \<le> sint (ip AND NOT (m_mask d))) \<and>
       (\<exists>xs ls. dns_inv d xs ls \<and> (\<forall>(name, _) \<in> set (dns_view d ls). length name < 256)))"

definition lwip_addr_ok :: "lwip_addr \<Rightarrow> bool" where
  "lwip_addr_ok ip \<longleftrightarrow> (case ip_type ip of
     IPADDR_V4 \<Rightarrow> length (ip_bytes ip) = 4 | IPADDR_V6 \<Rightarrow> length (ip_bytes ip) = 16 | IPADDR_ANY \<Rightarrow> False)"

text \<open>There is room for a datagram: the list is not full and the allocation succeeds.\<close>

definition udp_room :: "'a session_udp_scheme \<Rightarrow> 'z world_scheme \<Rightarrow> bool" where
  "udp_room self w \<longleftrightarrow> su_frames self \<le> UDP_POOL_SIZE \<and> fst (hev_malloc w)"

definition delivered :: "u8 list list option \<Rightarrow> 'a session_udp_scheme \<Rightarrow> 'z world_scheme \<Rightarrow> u8 list list list" where
  "delivered data self w = (case data of None \<Rightarrow> [] | Some d \<Rightarrow> if udp_room self w then [d] else [])"

inductive udp_step :: "srv_conf \<Rightarrow> nat \<Rightarrow> lwip_addr \<Rightarrow> u16 \<Rightarrow> udp_run \<Rightarrow> udp_run \<Rightarrow> bool" for sv num ip port where
  task: "udp_splice_step sv num left (uat r) r = Some r' \<Longrightarrow> udp_step sv num ip port r r'"
| recv: "names_ok dns \<Longrightarrow> data \<noteq> Some [] \<Longrightarrow>
     udp_recv_handler dns ip port data (uobj r) (uenv r) = Some (self, dns', w) \<Longrightarrow>
     udp_step sv num ip port r
       (r\<lparr>uobj := self, uenv := w, hist := hist r @ map (Pair dns) (delivered data (uobj r) (uenv r))\<rparr>)"
| kill: "udp_step sv num ip port r (r\<lparr>uobj := hev_socks5_session_terminate (uobj r)\<rparr>)"

inductive_cases udp_stepE: "udp_step sv num ip port r r'"

text \<open>A session after its handshake.\<close>

definition udp_begin :: "udp_run \<Rightarrow> bool" where
  "udp_begin r \<longleftrightarrow> uat r = UStart \<and> su_list (uobj r) = [] \<and> su_frames (uobj r) = 0 \<and> hist r = []"

end
