(* ===== verification/Session_Udp_Props.thy ===== *)
theory Session_Udp_Props
  imports Session_Udp
begin

text \<open>
  A UDP session relays datagrams: towards the server one frame for each datagram, in order, whatever
  the callback does in between; towards the application each datagram with the address it comes from.
\<close>

section \<open>The callback\<close>

text \<open>
  The destination of a datagram in the words of the server: the name the table has for the address at
  that moment, or the address.
\<close>

definition name_now :: "mdns option \<Rightarrow> lwip_addr \<Rightarrow> u8 list option" where
  "name_now dns ip = (case dns of
     None \<Rightarrow> None
   | Some d \<Rightarrow> if ip_type ip \<noteq> IPADDR_V4 then None else
       case host32 (ip_bytes ip) of
         None \<Rightarrow> None
       | Some h \<Rightarrow> (case hev_mapped_dns_lookup d h of Some (Some name, _) \<Rightarrow> cstr name | _ \<Rightarrow> None))"

definition goes_to :: "mdns option \<Rightarrow> lwip_addr \<Rightarrow> u16 \<Rightarrow> socks_addr \<Rightarrow> bool" where
  "goes_to dns ip port a \<longleftrightarrow> a = (case name_now dns ip of
     Some s \<Rightarrow> Domain s port
   | None \<Rightarrow> if ip_type ip = IPADDR_V4 then Ipv4 (ip_bytes ip) port else Ipv6 (ip_bytes ip) port)"

text \<open>A frame stands for a datagram with the data of its first buffer.\<close>

definition frame_holds :: "udp_frame \<Rightarrow> datagram \<Rightarrow> bool" where
  "frame_holds fr f \<longleftrightarrow> (\<exists>bs. fr_data fr = snd f # bs) \<and> (\<exists>r. fr_addr fr = wire_addr (fst f) @ r) \<and> addr_ok (fst f)"

lemma host32_total: "length b = 4 \<Longrightarrow> \<exists>ip. host32 b = Some ip"
  by (auto simp: host32_def eval_nat_numeral length_Suc_conv)

lemma names_ok_lookup:
  assumes "names_ok (Some d)"
  shows "\<exists>r d'. hev_mapped_dns_lookup d ip = Some (r, d') \<and>
     (\<forall>name. r = Some name \<longrightarrow> (\<exists>s. cstr name = Some s \<and> length s < 256))"
proof -
  let ?i = "nat (sint (ip AND NOT (m_mask d)))"
  obtain xs ls where d: "dns_inv d xs ls" "\<forall>(name, _) \<in> set (dns_view d ls). length name < 256"
    and ip: "0 \<le> sint (ip AND NOT (m_mask d))" using assms by (auto simp: names_ok_def)
  from lookup_refines [OF d(1) ip] obtain r d' ls' where
    r: "hev_mapped_dns_lookup d ip = Some (r, d')" "(Option.bind r cstr, dns_view d' ls') = lru_lookup (dns_view d ls) ?i"
      "r = None \<longleftrightarrow> ?i \<notin> snd ` set (dns_view d ls)" by blast
  have "\<exists>s. cstr name = Some s \<and> length s < 256" if n: "r = Some name" for name
  proof -
    have "?i \<in> snd ` set (dns_view d ls)" using r(3) n by simp
    then have "?i \<in> fst ` set (map (\<lambda>(nm, i). (i, nm)) (dns_view d ls))" by force
    then obtain nm where nm: "map_of (map (\<lambda>(nm, i). (i, nm)) (dns_view d ls)) ?i = Some nm" by (metis map_of_eq_None_iff not_None_eq)
    then have "(?i, nm) \<in> set (map (\<lambda>(nm, i). (i, nm)) (dns_view d ls))" by (rule map_of_SomeD)
    then have "(nm, ?i) \<in> set (dns_view d ls)" by auto
    moreover have "cstr name = Some nm" using r(2) nm n by simp
    ultimately show ?thesis using d(2) by auto
  qed
  then show ?thesis using r(1) by blast
qed

lemma from_lwip_total:
  assumes "names_ok dns" and "lwip_addr_ok ip" and "length b = addr_size"
  shows "\<exists>addr dns' a. hev_socks5_addr_from_lwip dns b ip port = Some (0, addr, dns') \<and> holds_addr addr a \<and> goes_to dns ip port a"
proof (cases "ip_type ip")
  case IPADDR_V4
  then have l: "length (ip_bytes ip) = 4" using assms(2) by (simp add: lwip_addr_ok_def)
  obtain h where h: "host32 (ip_bytes ip) = Some h" using host32_total [OF l] by blast
  obtain b4 where b4: "hev_socks5_addr_from_ipv4 b (ip_bytes ip) (htons port) = Some (7, b4)" "holds_addr b4 (Ipv4 (ip_bytes ip) port)"
    using from_ipv4_holds [OF assms(3), of "ip_bytes ip" port] l by auto
  show ?thesis
  proof (cases dns)
    case None
    then show ?thesis using IPADDR_V4 b4 by (auto simp: hev_socks5_addr_from_lwip_def goes_to_def name_now_def)
  next
    case (Some d)
    from names_ok_lookup [OF assms(1) [unfolded Some], of h] obtain r d' where
      r: "hev_mapped_dns_lookup d h = Some (r, d')" "\<forall>name. r = Some name \<longrightarrow> (\<exists>s. cstr name = Some s \<and> length s < 256)" by blast
    show ?thesis
    proof (cases r)
      case None
      then show ?thesis using IPADDR_V4 \<open>dns = Some d\<close> h r(1) b4
        by (auto simp: hev_socks5_addr_from_lwip_def goes_to_def name_now_def)
    next
      case (Some name)
      then obtain s where s: "cstr name = Some s" "length s < 256" using r(2) by blast
      from from_name_holds [OF assms(3) s, of port] obtain b' where
        "hev_socks5_addr_from_name b name (htons port) = Some (4 + int (length s), b')" "holds_addr b' (Domain s port)" by blast
      moreover have "goes_to dns ip port (Domain s port)"
        using IPADDR_V4 \<open>dns = Some d\<close> h r(1) Some s(1) by (simp add: goes_to_def name_now_def)
      ultimately show ?thesis
        using IPADDR_V4 \<open>dns = Some d\<close> Some h r(1) by (auto simp: hev_socks5_addr_from_lwip_def)
    qed
  qed
next
  case IPADDR_V6
  then have "16 \<le> length (ip_bytes ip)" "take 16 (ip_bytes ip) = ip_bytes ip" using assms(2) by (simp_all add: lwip_addr_ok_def)
  then obtain b' where "hev_socks5_addr_from_ipv6 b (ip_bytes ip) (htons port) = Some (19, b')" "holds_addr b' (Ipv6 (ip_bytes ip) port)"
    using from_ipv6_holds [OF assms(3), of "ip_bytes ip" port] by auto
  moreover have "goes_to dns ip port (Ipv6 (ip_bytes ip) port)"
    using IPADDR_V6 by (simp add: goes_to_def name_now_def split: option.split)
  ultimately show ?thesis using IPADDR_V6 by (auto simp: hev_socks5_addr_from_lwip_def)
next
  case IPADDR_ANY
  then show ?thesis using assms(2) by (simp add: lwip_addr_ok_def)
qed

lemma stack_addr_size [simp]: "length (stack_addr [] w) = addr_size"
  by (simp add: stack_addr_def)

text \<open>What the callback does: nothing to the list, or one more frame.\<close>

definition udp_kept :: "'a session_udp_scheme \<Rightarrow> 'a session_udp_scheme \<Rightarrow> bool" where
  "udp_kept self self' \<longleftrightarrow> s_fd self' = s_fd self \<and> s_type self' = s_type self \<and> (s_timeout self' = s_timeout self \<or> s_timeout self' = 0)"

lemma udp_terminate:
  "udp_kept self (hev_socks5_session_terminate self)" "su_list (hev_socks5_session_terminate self) = su_list self"
  "su_frames (hev_socks5_session_terminate self) = su_frames self"
  by (simp_all add: udp_kept_def hev_socks5_session_terminate_def hev_socks5_set_timeout_def)

lemma session_malloc_sock: "hev_malloc w = (ok, w') \<Longrightarrow> w_sock w' = w_sock w"
  by (auto simp: hev_malloc_def split: list.splits)

lemma delivered_None [simp]: "delivered None self w = []"
  by (simp add: delivered_def)

lemma recv_handler_form:
  assumes "names_ok dns" and "lwip_addr_ok ip" and "data \<noteq> Some []"
  shows "\<exists>self' dns' w' frs fs. udp_recv_handler dns ip port data self w = Some (self', dns', w') \<and> w_sock w' = w_sock w \<and>
     udp_kept self self' \<and> su_list self' = su_list self @ frs \<and> su_frames self' = su_frames self + int (length frs) \<and>
     map fr_data frs = delivered data self w \<and> list_all2 frame_holds frs fs \<and> (\<forall>f\<in>set fs. goes_to dns ip port (fst f)) \<and>
     (frs = [] \<or> length frs = 1 \<and> su_frames self \<le> 512)"
proof (cases data)
  case None
  then show ?thesis by (simp add: udp_recv_handler_def udp_terminate)
next
  case (Some chain)
  obtain b bs where chain: "chain = b # bs" using assms(3) Some by (cases chain) auto
  obtain ok w1 where w1: "hev_malloc w = (ok, w1)" by fastforce
  show ?thesis
  proof (cases "su_frames self > UDP_POOL_SIZE \<or> \<not> ok")
    case True
    then have "delivered data self w = []" using w1 by (auto simp: Some delivered_def udp_room_def)
    with True show ?thesis using Some w1 session_malloc_sock [OF w1] by (auto simp: udp_recv_handler_def udp_kept_def)
  next
    case False
    from from_lwip_total [OF assms(1,2) stack_addr_size, of w1 port] obtain addr dns' a where
      a: "hev_socks5_addr_from_lwip dns (stack_addr [] w1) ip port = Some (0, addr, dns')" "holds_addr addr a" "goes_to dns ip port a" by blast
    from a(2) obtain r where r: "addr = wire_addr a @ r" "addr_ok a" by (rule holds_addr_split)
    obtain x y q where "wire_addr a = x # y # q" using wire_addr_ge_2 by blast
    then obtain t where t: "addr_atype addr = Some t" using r(1) by (auto simp: addr_atype_def byte_at_def)
    have h: "frame_holds \<lparr>fr_addr = addr, fr_data = chain\<rparr> (a, b)" using r chain by (simp add: frame_holds_def)
    let ?self = "if t = ADDR_TYPE_NAME then self\<lparr>su_addr := take 4 (ip_bytes ip), su_port := port\<rparr> else self"
    let ?fr = "\<lparr>fr_addr = addr, fr_data = chain\<rparr>"
    have "udp_recv_handler dns ip port data self w =
        Some (?self\<lparr>su_frames := su_frames ?self + 1, su_list := su_list ?self @ [?fr]\<rparr>, dns', w1)"
      using False w1 a(1) t by (simp add: udp_recv_handler_def Some)
    moreover have "delivered data self w = [chain]" using False w1 by (simp add: Some delivered_def udp_room_def)
    moreover have "su_frames self \<le> 512" using False by (simp add: UDP_POOL_SIZE_def)
    ultimately show ?thesis using session_malloc_sock [OF w1] h a(3)
      by (intro exI [of _ "?self\<lparr>su_frames := su_frames ?self + 1, su_list := su_list ?self @ [?fr]\<rparr>"] exI [of _ dns'] exI [of _ w1]
          exI [of _ "[?fr]"] exI [of _ "[(a, b)]"]) (simp add: udp_kept_def)
  qed
qed

section \<open>The direction to the server\<close>

lemma frame_msgs_holds:
  assumes "list_all2 frame_holds frs fs" and "n \<le> length frs"
  shows "\<exists>ms. frame_msgs n frs = Some ms \<and> list_all2 msg_holds ms (take n fs)"
  using assms
proof (induction n frs arbitrary: fs rule: frame_msgs.induct)
  case (3 n fr frs)
  then obtain f fs' where fs: "fs = f # fs'" "frame_holds fr f" "list_all2 frame_holds frs fs'" by (auto simp: list_all2_Cons1)
  obtain b bs where b: "fr_data fr = b # bs" "b = snd f" using fs(2) by (auto simp: frame_holds_def)
  from "3.IH" [OF b(1) fs(3)] "3.prems"(2) obtain ms where "frame_msgs n frs = Some ms" "list_all2 msg_holds ms (take n fs')" by auto
  moreover have "msg_holds \<lparr>m_addr = At (fr_addr fr), m_buf = b, m_len = length b, m_mem = b\<rparr> f"
    using fs(2) b(2) by (auto simp: msg_holds_def frame_holds_def)
  ultimately show ?case using fs(1) b(1) by auto
qed auto

lemma fwd_f_sent_form:
  assumes "n \<le> length (su_list self)"
  shows "\<exists>w'. udp_fwd_f_sent n self w = Some (self\<lparr>su_list := drop n (su_list self), su_frames := su_frames self - int n\<rparr>, w') \<and>
     w_sock w' = w_sock w"
  using assms
proof (induction n arbitrary: self w)
  case (Suc n)
  then obtain fr frs where l: "su_list self = fr # frs" by (cases "su_list self") auto
  let ?self = "self\<lparr>su_list := frs, su_frames := su_frames self - 1\<rparr>"
  have "n \<le> length (su_list ?self)" using Suc.prems l by simp
  from Suc.IH [OF this, of "hev_free w"] show ?case using l by (auto simp: hev_free_def)
qed simp

lemma frames_addr_ok: "list_all2 frame_holds frs fs \<Longrightarrow> \<forall>f\<in>set fs. addr_ok (fst f)"
  by (induction frs fs rule: list_all2_induct) (auto simp: frame_holds_def)

section \<open>Receiving leaves the rest alone\<close>

definition rx_only :: "int \<Rightarrow> 'z world_scheme \<Rightarrow> 'z world_scheme \<Rightarrow> bool" where
  "rx_only fd w w' \<longleftrightarrow> only_sock fd w w' \<and> tx_of w' fd = tx_of w fd \<and> out_of w' fd = out_of w fd"

lemma rx_only_refl [simp]: "rx_only fd w w"
  by (simp add: rx_only_def)

lemma rx_only_trans: "rx_only fd w w1 \<Longrightarrow> rx_only fd w1 w2 \<Longrightarrow> rx_only fd w w2"
  unfolding rx_only_def using only_sock_trans by metis

lemma sock_recv_rx_only: "sock_recv fd len w = (s, bs, l, w') \<Longrightarrow> rx_only fd w w'"
  by (auto simp: sock_recv_def rx_only_def Let_def split: if_split_asm list.split_asm rx.split_asm)

lemma recv_nonblock_rx_only:
  assumes "hev_task_io_socket_recv y fd len False True self w = Some (r, bs, self', w')"
  shows "self' = self \<and> rx_only fd w w'"
  using assms sock_recv_rx_only [of fd len w] unfolding hev_task_io_socket_recv_def
  by (subst (asm) recv_loop.simps) (auto simp: Let_def split: prod.split_asm)

lemma recv_all_rx_only:
  assumes "hev_task_io_socket_recv y fd len True False self w = Some (r, bs, self', w')" and "plain y self"
  shows "self' = self \<and> rx_only fd w w'"
  using recv_all [OF assms(2), of fd len w] assms(1) by (auto simp: recv_spec_def rx_only_def)

lemma recvmsg_rx_only:
  assumes "hev_task_io_socket_recvmsg y fd iov self w = Some (r, bs, self', w')" and "plain y self"
  shows "self' = self \<and> rx_only fd w w'"
  using recvmsg_all [OF assms(2), of fd iov w] assms(1) by (auto simp: recv_spec_def rx_only_def)

lemma head_rx_only:
  assumes "recv_udp_head fd True self w = Some (r, bs, self', w')" and "s_type self \<noteq> TYPE_UDP_IN_UDP"
  shows "self' = self \<and> rx_only fd w w'"
proof -
  from assms(1) obtain r1 bs1 s1 w1 where
    one: "hev_task_io_socket_recv udp_task_io_yielder fd 5 False True self w = Some (r1, bs1, s1, w1)"
    and rest: "(if 0 < r1 \<and> r1 < 5 then do {
       (more, udp', self, w) \<leftarrow> hev_task_io_socket_recv udp_task_io_yielder fd (nat (5 - r1)) True False s1 w1;
       Some (r1 + more, bs1 @ udp', self, w)
     } else Some (r1, bs1, s1, w1)) = Some (r, bs, self', w')"
    unfolding recv_udp_head_def by (auto simp: bind_eq_Some_conv)
  from recv_nonblock_rx_only [OF one] have s1: "s1 = self" "rx_only fd w w1" by auto
  show ?thesis
  proof (cases "0 < r1 \<and> r1 < 5")
    case True
    then obtain r2 bs2 where "hev_task_io_socket_recv udp_task_io_yielder fd (nat (5 - r1)) True False self w1 = Some (r2, bs2, self', w')"
      using rest s1(1) by (auto simp: bind_eq_Some_conv)
    from recv_all_rx_only [OF this plain_udp [OF assms(2)]] show ?thesis using rx_only_trans [OF s1(2)] by blast
  qed (use rest s1 in auto)
qed

lemma recvmmsg_loop_rx_only:
  assumes "recvmmsg_tcp_loop fd True ms got self w = Some (r, ms', self', w')" and "s_type self \<noteq> TYPE_UDP_IN_UDP"
  shows "self' = self \<and> rx_only fd w w'"
  using assms(1)
proof (induction ms arbitrary: got w)
  case (Cons m ms)
  from Cons.prems obtain r1 udp s1 w1 where head: "recv_udp_head fd True self w = Some (r1, udp, s1, w1)"
    by (auto simp: bind_eq_Some_conv)
  from head_rx_only [OF head assms(2)] have s1: "s1 = self" "rx_only fd w w1" by auto
  have body: "s2 = self \<and> rx_only fd w w2"
    if "hev_task_io_socket_recvmsg udp_task_io_yielder fd iov self w1 = Some (r2, bs, s2, w2)" for iov r2 bs s2 w2
    using recvmsg_rx_only [OF that plain_udp [OF assms(2)]] rx_only_trans [OF s1(2)] by blast
  have next_msg: "self' = self \<and> rx_only fd w w'"
    if "recvmmsg_tcp_loop fd True ms got' self w2 = Some (r, ms', self', w')" "rx_only fd w w2" for got' w2
    using Cons.IH [OF that(1)] rx_only_trans [OF that(2)] by blast
  show ?case using Cons.prems head s1 body next_msg
    by (fastforce simp: bind_eq_Some_conv Let_def split: if_split_asm)
qed simp

lemma recvmmsg_rx_only:
  assumes "hev_socks5_udp_recvmmsg iface ms True self w = Some (r, ms', self', w')" and "s_type self = TYPE_UDP_IN_TCP"
  shows "self' = self \<and> rx_only (iface_get_fd iface self) w w'"
  using recvmmsg_loop_rx_only [of "iface_get_fd iface self" ms "[]" self w r ms' self' w'] assms
  by (simp add: hev_socks5_udp_recvmmsg_def hev_socks5_udp_recvmmsg_tcp_def hev_socks5_udp_get_fd_def)

lemma d_call_sock: "d_call w = (ok, w') \<Longrightarrow> w_sock w' = w_sock w"
  by (auto simp: d_call_def split: list.split_asm)

lemma udp_sendfrom_sock: "udp_sendfrom bs ip port w = (ok, w') \<Longrightarrow> w_sock w' = w_sock w"
  by (auto simp: udp_sendfrom_def Let_def dest!: d_call_sock split: prod.split_asm if_split_asm)

lemma udp_out_loop_sock: "udp_out_loop n ms self w = Some (r, w') \<Longrightarrow> w_sock w' = w_sock w"
proof (induction n ms self w rule: udp_out_loop.induct)
  case (3 n m ms self w)
  show ?case
  proof (cases "m_addr m")
    case Wild
    then show ?thesis using "3.prems" by simp
  next
    case Null
    then show ?thesis using 3 by simp
  next
    case (At a)
    show ?thesis
    proof (cases "m_len m = 0")
      case True
      then show ?thesis using 3 At by simp
    next
      case False
      then obtain ret ip port where rf: "reply_from a self w = Some (ret, ip, port)"
        using "3.prems" At by (auto simp: bind_eq_Some_conv)
      show ?thesis
      proof (cases "ret < 0")
        case True
        then show ?thesis using "3.prems" At False rf by simp
      next
        case nn: False
        then obtain b where b: "memget (m_buf m) 0 (m_len m) = Some b" using "3.prems" At False rf by (auto simp: bind_eq_Some_conv)
        obtain ok w1 where w1: "d_call w = (ok, w1)" by fastforce
        obtain ok' w2 where w2: "udp_sendfrom b ip port w1 = (ok', w2)" by fastforce
        have "w_sock w2 = w_sock w" using d_call_sock [OF w1] udp_sendfrom_sock [OF w2] by simp
        then show ?thesis using "3.prems" "3.IH"(3) [OF At False rf refl refl nn b w1 [symmetric]] At False rf nn b w1 w2 d_call_sock [OF w1]
          by (auto split: if_split_asm)
      qed
    qed
  qed
qed auto

lemma fwd_b_rx_only:
  assumes "hev_socks5_session_udp_fwd_b sv num self w = Some (r, self', w')" and "s_type self = TYPE_UDP_IN_TCP"
  shows "self' = self \<and> tx_of w' (s_fd self) = tx_of w (s_fd self) \<and> out_of w' (s_fd self) = out_of w (s_fd self)"
proof -
  have fd: "iface_get_fd (session_udp_iface sv) self = s_fd self"
    using assms(2) by (simp add: session_udp_iface_def hev_socks5_client_udp_get_fd_def)
  from assms(1) obtain r1 ms s1 w1 where
    one: "hev_socks5_udp_recvmmsg (session_udp_iface sv) (udp_bufs num w) True self w = Some (r1, ms, s1, w1)"
    and rest: "(if r1 \<le> 0 then Some (if r1 = - 1 \<and> w_errno w1 = EAGAIN then 0 else - 1, s1, w1)
       else do { (res, w) \<leftarrow> udp_out_loop (nat r1) ms s1 w1; Some (res, s1, w) }) = Some (r, self', w')"
    unfolding hev_socks5_session_udp_fwd_b_def by (auto simp: bind_eq_Some_conv)
  from recvmmsg_rx_only [OF one assms(2)] have "s1 = self" "tx_of w1 (s_fd self) = tx_of w (s_fd self)"
    "out_of w1 (s_fd self) = out_of w (s_fd self)" by (auto simp: rx_only_def fd)
  moreover have "self' = s1 \<and> w_sock w' = w_sock w1"
    using rest by (auto simp: bind_eq_Some_conv dest: udp_out_loop_sock split: if_split_asm)
  ultimately show ?thesis by simp
qed

section \<open>The invariant\<close>

text \<open>
  \<open>out0\<close> is what was on the stream when the splicer began and \<open>t\<close> the timeout then; once the session
  is terminated a frame may be cut.
\<close>

definition in_flight :: "upc \<Rightarrow> nat" where
  "in_flight pc = (case pc of USent n \<Rightarrow> n | _ \<Rightarrow> 0)"

lemma in_flight_simps [simp]:
  "in_flight (USent n) = n" "in_flight UStart = 0" "in_flight UTop = 0" "in_flight UBack = 0" "in_flight ULoop = 0" "in_flight UEnd = 0"
  by (simp_all add: in_flight_def)

definition gone :: "udp_run \<Rightarrow> nat" where
  "gone r = length (hist r) - length (su_list (uobj r))"

definition arrived :: "lwip_addr \<Rightarrow> u16 \<Rightarrow> mdns option \<times> u8 list list \<Rightarrow> datagram \<Rightarrow> bool" where
  "arrived ip port e f \<longleftrightarrow> (\<exists>bs. snd e = snd f # bs) \<and> goes_to (fst e) ip port (fst f)"

definition list_inv :: "lwip_addr \<Rightarrow> u16 \<Rightarrow> datagram list \<Rightarrow> udp_run \<Rightarrow> bool" where
  "list_inv ip port fs r \<longleftrightarrow>
     su_frames (uobj r) = int (length (su_list (uobj r))) \<and> length (su_list (uobj r)) \<le> 513 \<and>
     map fr_data (su_list (uobj r)) = map snd (drop (gone r) (hist r)) \<and> gone r \<le> length (hist r) \<and>
     list_all2 (arrived ip port) (hist r) fs \<and> list_all2 frame_holds (su_list (uobj r)) (drop (gone r) fs) \<and>
     in_flight (uat r) \<le> length (su_list (uobj r))"

definition wire_inv :: "int \<Rightarrow> int \<Rightarrow> u8 list \<Rightarrow> datagram list \<Rightarrow> udp_run \<Rightarrow> bool" where
  "wire_inv fd t out0 fs r \<longleftrightarrow> s_fd (uobj r) = fd \<and> s_type (uobj r) = TYPE_UDP_IN_TCP \<and>
     (s_timeout (uobj r) = t \<longrightarrow> tx_flows t (tx_of (uenv r) fd) \<and>
        out_of (uenv r) fd = out0 @ concat (map frame (take (gone r + in_flight (uat r)) fs)))"

lemmas udp_inv_defs = list_inv_def wire_inv_def

lemma list_invD:
  assumes "list_inv ip port fs r"
  shows "su_frames (uobj r) = int (length (su_list (uobj r)))" and "length (su_list (uobj r)) \<le> 513"
    and "map fr_data (su_list (uobj r)) = map snd (drop (gone r) (hist r))" and "gone r \<le> length (hist r)"
    and "list_all2 (arrived ip port) (hist r) fs" and "list_all2 frame_holds (su_list (uobj r)) (drop (gone r) fs)"
    and "in_flight (uat r) \<le> length (su_list (uobj r))"
    and "length (su_list (uobj r)) = length (hist r) - gone r" and "length fs = length (hist r)"
proof -
  show "su_frames (uobj r) = int (length (su_list (uobj r)))" "length (su_list (uobj r)) \<le> 513"
    "gone r \<le> length (hist r)" "list_all2 frame_holds (su_list (uobj r)) (drop (gone r) fs)" "in_flight (uat r) \<le> length (su_list (uobj r))"
    using assms unfolding list_inv_def by blast+
  show l: "map fr_data (su_list (uobj r)) = map snd (drop (gone r) (hist r))" and h: "list_all2 (arrived ip port) (hist r) fs"
    using assms unfolding list_inv_def by blast+
  show "length (su_list (uobj r)) = length (hist r) - gone r" using arg_cong [OF l, of length] by simp
  show "length fs = length (hist r)" using h by (simp add: list_all2_lengthD)
qed

lemma inv_keep:
  assumes "list_inv ip port fs r" and "wire_inv fd t out0 fs r" and "t \<noteq> 0"
    and "in_flight (uat r') = in_flight (uat r)" and "hist r' = hist r"
    and "su_list (uobj r') = su_list (uobj r)" and "su_frames (uobj r') = su_frames (uobj r)" and "udp_kept (uobj r) (uobj r')"
    and "tx_of (uenv r') fd = tx_of (uenv r) fd" and "out_of (uenv r') fd = out_of (uenv r) fd"
  shows "list_inv ip port fs r' \<and> wire_inv fd t out0 fs r'"
proof -
  have "gone r' = gone r" using assms(5,6) by (simp add: gone_def)
  then show ?thesis using assms by (auto simp: udp_inv_defs udp_kept_def)
qed

lemma kept_refl [simp]: "udp_kept self self"
  by (simp add: udp_kept_def)

text \<open>Sending takes some of the frames from the front of the list, at most as many as there are messages.\<close>

lemma fwd_f_send_form:
  fixes w :: "'z world_scheme"
  assumes "list_all2 frame_holds (su_list self) fs" and "su_frames self = int (length (su_list self))" and "su_list self \<noteq> []" and "0 < num"
    and "s_type self = TYPE_UDP_IN_TCP"
  shows "\<exists>n k w'. 0 < n \<and> n \<le> length (su_list self) \<and>
     udp_fwd_f_send sv num self w = Some (if k = 0 then Inl (- 1) else Inr n, self, w') \<and>
     out_of w' (s_fd self) = out_of w (s_fd self) @ take k (concat (map frame (take n fs))) \<and>
     (tx_flows (s_timeout self) (tx_of w (s_fd self)) \<longrightarrow> 0 < k \<and> length (concat (map frame (take n fs))) \<le> k \<and>
        tx_flows (s_timeout self) (tx_of w' (s_fd self)))"
proof -
  let ?if = "session_udp_iface sv"
  have pos: "0 < su_frames self" using assms(2,3) by simp
  obtain n where n: "0 < n" "n \<le> length (su_list self)"
    and res: "nat (if su_frames self > int num then int num else su_frames self) = n"
    using pos assms(2,4) by (cases "su_frames self > int num") auto
  from frame_msgs_holds [OF assms(1) n(2)] obtain ms where
    ms: "frame_msgs n (su_list self) = Some ms" "list_all2 msg_holds ms (take n fs)" by blast
  have lf: "length fs = length (su_list self)" using assms(1) by (simp add: list_all2_lengthD)
  have lm: "length ms = n" using list_all2_lengthD [OF ms(2)] n(2) lf by simp
  have ne: "take n fs \<noteq> []" using n lf by auto
  have ok: "\<forall>f\<in>set (take n fs). addr_ok (fst f)" using frames_addr_ok [OF assms(1)] by (meson in_set_takeD)
  have fd: "iface_get_fd ?if self = s_fd self"
    using assms(5) by (simp add: session_udp_iface_def hev_socks5_client_udp_get_fd_def)
  from sendmmsg_stream [OF assms(5) ms(2) ne ok, of ?if w] obtain x k w' where
    s: "hev_socks5_udp_sendmmsg ?if ms self w = Some (x, self, w')"
      "out_of w' (s_fd self) = out_of w (s_fd self) @ take k (concat (map frame (take n fs)))" "x = (if k = 0 then - 1 else int n)"
      "tx_flows (s_timeout self) (tx_of w (s_fd self)) \<longrightarrow> 0 < k \<and> length (concat (map frame (take n fs))) \<le> k \<and>
        tx_flows (s_timeout self) (tx_of w' (s_fd self))"
    unfolding fd lm by blast
  have "udp_fwd_f_send sv num self w = Some (if k = 0 then Inl (- 1) else Inr n, self, w')"
    using pos ms(1) s(1,3) n(1) unfolding udp_fwd_f_send_def Let_def res by auto
  then show ?thesis using n s(2,4) by blast
qed

lemma fwd_f_send_one:
  assumes "su_list self = [fr]" and "frame_holds fr f" and "su_frames self = 1" and "0 < num" and "s_type self = TYPE_UDP_IN_TCP"
    and "tx_flows (s_timeout self) (tx_of w (s_fd self))"
  shows "\<exists>w'. udp_fwd_f_send sv num self w = Some (Inr 1, self, w')"
proof -
  have l: "list_all2 frame_holds (su_list self) [f]" "su_frames self = int (length (su_list self))" "su_list self \<noteq> []"
    using assms(1-3) by simp_all
  from fwd_f_send_form [OF l assms(4,5), of sv w] obtain n k w' where n: "0 < n" "n \<le> length (su_list self)"
    "udp_fwd_f_send sv num self w = Some (if k = 0 then Inl (- 1) else Inr n, self, w')"
    and k: "tx_flows (s_timeout self) (tx_of w (s_fd self)) \<longrightarrow> 0 < k \<and> length (concat (map frame (take n [f]))) \<le> k \<and>
        tx_flows (s_timeout self) (tx_of w' (s_fd self))" by metis
  have "0 < k" using k assms(6) by (rule impE) (rule conjunct1)
  moreover have "n = 1" using n(1,2) assms(1) by simp
  ultimately show ?thesis using n(3) by simp
qed

lemma inv_udp_top:
  assumes "list_inv ip port fs r" and "wire_inv fd t out0 fs r" and "t \<noteq> 0" and "0 < num"
    and "uat r = UTop" and "udp_splice_step sv num left UTop r = Some r'"
  shows "list_inv ip port fs r' \<and> wire_inv fd t out0 fs r'"
proof (cases "uf r \<ge> 0 \<and> su_frames (uobj r) > 0")
  case False
  then show ?thesis using assms(6)
    by (intro inv_keep [OF assms(1-3)]) (auto simp: udp_fwd_f_send_def assms(5) split: if_split_asm)
next
  case True
  let ?self = "uobj r" and ?w = "uenv r" and ?g = "gone r"
  note inv = list_invD [OF assms(1)]
  have obj: "s_fd ?self = fd" "s_type ?self = TYPE_UDP_IN_TCP" using assms(2) by (simp_all add: wire_inv_def)
  note l = inv(6)
  have "su_list ?self \<noteq> []" using True inv(1) by auto
  from fwd_f_send_form [OF l inv(1) this assms(4) obj(2), of sv ?w] obtain n k w' where
    n: "0 < n" "n \<le> length (su_list ?self)" and run: "udp_fwd_f_send sv num ?self ?w = Some (if k = 0 then Inl (- 1) else Inr n, ?self, w')"
    and s: "out_of w' fd = out_of ?w fd @ take k (concat (map frame (take n (drop ?g fs))))"
      "tx_flows (s_timeout ?self) (tx_of ?w fd) \<longrightarrow> 0 < k \<and> length (concat (map frame (take n (drop ?g fs)))) \<le> k \<and>
        tx_flows (s_timeout ?self) (tx_of w' fd)"
    unfolding obj(1) by blast
  show ?thesis
  proof (cases "k = 0")
    case k: True
    have "r' = r\<lparr>uobj := ?self, uenv := w', uf := - 1, uat := UBack\<rparr>" using assms(6) True run k by simp
    then show ?thesis using assms(1,2,5) s(2) k by (auto simp: udp_inv_defs gone_def)
  next
    case k: False
    have r': "r' = r\<lparr>uobj := ?self, uenv := w', uat := USent n\<rparr>" using assms(6) True run k by simp
    have g: "gone r' = ?g" by (simp add: r' gone_def)
    have "out_of w' fd = out0 @ concat (map frame (take (?g + n) fs)) \<and> tx_flows t (tx_of w' fd)" if t: "s_timeout ?self = t"
    proof -
      have "out_of w' fd = out_of ?w fd @ concat (map frame (take n (drop ?g fs)))" using s assms(2) t by (simp add: wire_inv_def)
      moreover have "out_of ?w fd = out0 @ concat (map frame (take ?g fs))" using assms(2,5) t by (simp add: wire_inv_def)
      ultimately show ?thesis using s(2) assms(2) t by (simp add: take_add wire_inv_def)
    qed
    then have "wire_inv fd t out0 fs r'" using assms(2) unfolding wire_inv_def g by (simp add: r')
    moreover have "list_inv ip port fs r'" using inv n(2) unfolding list_inv_def g by (simp add: r')
    ultimately show ?thesis by blast
  qed
qed

lemma inv_udp_sent:
  assumes "list_inv ip port fs r" and "wire_inv fd t out0 fs r" and "uat r = USent n" and "udp_splice_step sv num left (USent n) r = Some r'"
  shows "list_inv ip port fs r' \<and> wire_inv fd t out0 fs r'"
proof -
  note inv = list_invD [OF assms(1)]
  have n: "n \<le> length (su_list (uobj r))" using inv(7) by (simp only: assms(3) in_flight_simps)
  from fwd_f_sent_form [OF n, of "uenv r"] obtain w' where
    w': "udp_fwd_f_sent n (uobj r) (uenv r) = Some ((uobj r)\<lparr>su_list := drop n (su_list (uobj r)), su_frames := su_frames (uobj r) - int n\<rparr>, w')"
      "w_sock w' = w_sock (uenv r)" by blast
  have r': "r' = r\<lparr>uobj := (uobj r)\<lparr>su_list := drop n (su_list (uobj r)), su_frames := su_frames (uobj r) - int n\<rparr>, uenv := w', uf := 1, uat := UBack\<rparr>"
    using assms(4) w'(1) by simp
  have "gone r' = length (hist r) - (length (su_list (uobj r)) - n)" by (simp add: r' gone_def)
  then have g: "gone r' = gone r + n" using n inv(4,8) by linarith
  have d: "map fr_data (drop n (su_list (uobj r))) = map snd (drop (gone r + n) (hist r))"
    using arg_cong [OF inv(3), of "drop n"] by (simp add: drop_map add.commute)
  have h: "list_all2 frame_holds (drop n (su_list (uobj r))) (drop (gone r + n) fs)"
    using list_all2_dropI [OF inv(6), of n] by (simp add: add.commute)
  have "length (drop n (su_list (uobj r))) \<le> 513" "gone r + n \<le> length (hist r)"
    "su_frames (uobj r) - int n = int (length (drop n (su_list (uobj r))))" using inv(1,2,4,8) n by simp_all
  then have "list_inv ip port fs r'" unfolding list_inv_def g using inv(5) d h by (simp add: r' del: length_drop drop_drop)
  moreover have "wire_inv fd t out0 fs r'" using assms(2,3) w'(2) unfolding wire_inv_def g by (simp add: r')
  ultimately show ?thesis by blast
qed

lemma inv_udp_back:
  assumes "list_inv ip port fs r" and "wire_inv fd t out0 fs r" and "t \<noteq> 0" and "uat r = UBack" and "udp_splice_step sv num left UBack r = Some r'"
  shows "list_inv ip port fs r' \<and> wire_inv fd t out0 fs r'"
proof (cases "ub r \<ge> 0")
  case True
  then obtain x self w where b: "hev_socks5_session_udp_fwd_b sv num (uobj r) (uenv r) = Some (x, self, w)"
    "r' = r\<lparr>uobj := self, uenv := w, ub := x, uat := ULoop\<rparr>" using assms(5) by (auto simp: bind_eq_Some_conv)
  have ty: "s_type (uobj r) = TYPE_UDP_IN_TCP" "s_fd (uobj r) = fd" using assms(2) by (simp_all add: wire_inv_def)
  show ?thesis using fwd_b_rx_only [OF b(1) ty(1)] ty(2) b(2) assms(4)
    by (intro inv_keep [OF assms(1-3)]) auto
next
  case False
  then show ?thesis using assms(4,5) by (intro inv_keep [OF assms(1-3)]) auto
qed

lemma yielder_tcp: "s_type self = TYPE_UDP_IN_TCP \<Longrightarrow> \<exists>y. udp_task_io_yielder type left self w = (y, self, w)"
  by (simp add: udp_task_io_yielder_def hev_socks5_task_io_yielder_def Let_def)

lemma inv_udp_task:
  assumes "list_inv ip port fs r" and "wire_inv fd t out0 fs r" and "t \<noteq> 0" and "0 < num"
    and "udp_splice_step sv num left (uat r) r = Some r'"
  shows "list_inv ip port fs r' \<and> wire_inv fd t out0 fs r'"
proof (cases "uat r")
  case UStart
  then show ?thesis using assms(5)
    by (intro inv_keep [OF assms(1-3)]) (auto simp: hev_task_mod_fd_def hev_task_add_fd_def Let_def)
next
  case UTop
  then show ?thesis using inv_udp_top [OF assms(1-4) UTop] assms(5) by simp
next
  case (USent n)
  then show ?thesis using inv_udp_sent [OF assms(1,2) USent] assms(5) by simp
next
  case UBack
  then show ?thesis using inv_udp_back [OF assms(1-3) UBack] assms(5) by simp
next
  case ULoop
  have "s_type (uobj r) = TYPE_UDP_IN_TCP" using assms(2) by (simp add: wire_inv_def)
  then obtain y where "udp_task_io_yielder (if uf r > 0 \<or> ub r > 0 then TASK_YIELD else TASK_WAITIO) left (uobj r) (uenv r) = (y, uobj r, uenv r)"
    using yielder_tcp by blast
  then show ?thesis using assms(5) ULoop
    by (intro inv_keep [OF assms(1-3)]) (auto simp: Let_def split: if_split_asm)
next
  case UEnd
  then show ?thesis using assms(5) by simp
qed

lemma holds_arrived:
  "list_all2 frame_holds frs fs \<Longrightarrow> \<forall>f\<in>set fs. goes_to dns ip port (fst f) \<Longrightarrow>
     list_all2 (arrived ip port) (map (Pair dns) (map fr_data frs)) fs"
  by (induction frs fs rule: list_all2_induct) (auto simp: arrived_def frame_holds_def)

lemma inv_udp_recv:
  assumes "list_inv ip port fs r" and "wire_inv fd t out0 fs r" and "t \<noteq> 0" and "names_ok dns" and "lwip_addr_ok ip" and "data \<noteq> Some []"
    and "udp_recv_handler dns ip port data (uobj r) (uenv r) = Some (self, dns', w)"
    and r': "r' = r\<lparr>uobj := self, uenv := w, hist := hist r @ map (Pair dns) (delivered data (uobj r) (uenv r))\<rparr>"
  shows "\<exists>fs'. list_inv ip port fs' r' \<and> wire_inv fd t out0 fs' r'"
proof -
  from recv_handler_form [OF assms(4-6), of port "uobj r" "uenv r"] assms(7) obtain frs fs1 where
    h: "w_sock w = w_sock (uenv r)" "udp_kept (uobj r) self" "su_list self = su_list (uobj r) @ frs"
      "su_frames self = su_frames (uobj r) + int (length frs)" "map fr_data frs = delivered data (uobj r) (uenv r)"
      "list_all2 frame_holds frs fs1" "\<forall>f\<in>set fs1. goes_to dns ip port (fst f)" "frs = [] \<or> length frs = 1 \<and> su_frames (uobj r) \<le> 512"
    by auto
  note inv = list_invD [OF assms(1)]
  let ?new = "map (Pair dns) (map fr_data frs)"
  have hist: "hist r' = hist r @ ?new" and obj: "uobj r' = self" "uenv r' = w" "uat r' = uat r" unfolding r' h(5) by simp_all
  have "gone r' = length (hist r) + length frs - (length (su_list (uobj r)) + length frs)" by (simp add: gone_def hist obj h(3))
  then have g: "gone r' = gone r" using inv(4,8) by linarith
  have fl: "gone r \<le> length fs" "gone r + in_flight (uat r) \<le> length fs" using inv(4,7,8,9) by linarith+
  have "map fr_data (su_list self) = map snd (drop (gone r) (hist r @ ?new))"
    using inv(3,4) by (simp add: h(3) comp_def)
  moreover have "list_all2 (arrived ip port) (hist r @ ?new) (fs @ fs1)"
    by (rule list_all2_appendI [OF inv(5) holds_arrived [OF h(6,7)]])
  moreover have "list_all2 frame_holds (su_list self) (drop (gone r) (fs @ fs1))"
    using list_all2_appendI [OF inv(6) h(6)] fl(1) by (simp add: h(3))
  moreover have "length (su_list self) \<le> 513" "su_frames self = int (length (su_list self))" "in_flight (uat r) \<le> length (su_list self)"
    using inv(1,2,7) h(8) by (auto simp: h(3,4))
  ultimately have "list_inv ip port (fs @ fs1) r'" using inv(4) unfolding list_inv_def g hist obj by simp
  moreover have "wire_inv fd t out0 (fs @ fs1) r'"
    using assms(2,3) h(1,2) fl(2) unfolding wire_inv_def g obj by (auto simp: udp_kept_def)
  ultimately show ?thesis by blast
qed

lemma udp_inv_reach:
  assumes "udp_begin r0" and "s_type (uobj r0) = TYPE_UDP_IN_TCP" and "s_timeout (uobj r0) \<noteq> 0"
    and "tx_flows (s_timeout (uobj r0)) (tx_of (uenv r0) (s_fd (uobj r0)))" and "lwip_addr_ok ip" and "0 < num"
    and "(udp_step sv num ip port)\<^sup>*\<^sup>* r0 r"
  shows "\<exists>fs. list_inv ip port fs r \<and> wire_inv (s_fd (uobj r0)) (s_timeout (uobj r0)) (out_of (uenv r0) (s_fd (uobj r0))) fs r"
  using assms(7)
proof (induction rule: rtranclp_induct)
  case base
  show ?case using assms(1-4) by (intro exI [of _ "[]"]) (simp add: udp_inv_defs udp_begin_def gone_def)
next
  case (step r r')
  then obtain fs where fs: "list_inv ip port fs r" "wire_inv (s_fd (uobj r0)) (s_timeout (uobj r0)) (out_of (uenv r0) (s_fd (uobj r0))) fs r"
    by blast
  from step.hyps(2) show ?case
  proof (cases rule: udp_step.cases)
    case (task left)
    then show ?thesis using inv_udp_task [OF fs assms(3,6)] by blast
  next
    case (recv dns data self dns' w)
    then show ?thesis using inv_udp_recv [OF fs assms(3) _ assms(5)] by blast
  next
    case kill
    then show ?thesis using udp_terminate by (intro exI [of _ fs] inv_keep [OF fs assms(3)]) auto
  qed
qed

text \<open>
  C2: In every interleaving of a UDP session over the stream with the callback of lwIP, the counter is
  the length of the list and at most 513, and the list holds the last of the chains that lwIP delivered
  while there was room, complete and in order. As long as the session is not terminated and the server
  keeps taking bytes within the timeout, the stream holds exactly one frame for each delivered chain that
  has left the list, in the order of their arrival, with the data of its first buffer and the address it
  went to, or the name the table had for it when it arrived.
\<close>

theorem session_udp_forwards:
  assumes "udp_begin r0" and "s_type (uobj r0) = TYPE_UDP_IN_TCP" and "s_timeout (uobj r0) \<noteq> 0"
    and "tx_flows (s_timeout (uobj r0)) (tx_of (uenv r0) (s_fd (uobj r0)))" and "lwip_addr_ok ip" and "0 < num"
    and "(udp_step sv num ip port)\<^sup>*\<^sup>* r0 r"
  shows "su_frames (uobj r) = int (length (su_list (uobj r))) \<and> length (su_list (uobj r)) \<le> 513 \<and>
     (\<exists>fs done. map snd (hist r) = done @ map fr_data (su_list (uobj r)) \<and> list_all2 (arrived ip port) (hist r) fs \<and>
        list_all2 frame_holds (su_list (uobj r)) (drop (length done) fs) \<and>
        (s_timeout (uobj r) = s_timeout (uobj r0) \<longrightarrow> out_of (uenv r) (s_fd (uobj r)) =
           out_of (uenv r0) (s_fd (uobj r0)) @ concat (map frame (take (length done + in_flight (uat r)) fs))))"
proof -
  from udp_inv_reach [OF assms] obtain fs where fs: "list_inv ip port fs r"
    "wire_inv (s_fd (uobj r0)) (s_timeout (uobj r0)) (out_of (uenv r0) (s_fd (uobj r0))) fs r" by blast
  let ?done = "map snd (take (gone r) (hist r))"
  have "length ?done = gone r" "map snd (hist r) = ?done @ map fr_data (su_list (uobj r))"
    using list_invD(3,4) [OF fs(1)] by (simp_all flip: map_append)
  then show ?thesis using fs unfolding udp_inv_defs by (intro conjI exI [of _ fs] exI [of _ ?done]) simp_all
qed

section \<open>The direction to the application\<close>

text \<open>The address an application sees a datagram come from: the one it sent to, when that stands for a name.\<close>

definition comes_from :: "'a session_udp_scheme \<Rightarrow> socks_addr \<Rightarrow> (lwip_addr \<times> u16) option" where
  "comes_from self a =
     (if su_addr self \<noteq> [0, 0, 0, 0] \<and> su_port self \<noteq> 0
      then Some (\<lparr>ip_type = IPADDR_V4, ip_bytes = take 4 (su_addr self)\<rparr>, su_port self)
      else case a of
        Ipv4 x p \<Rightarrow> Some (\<lparr>ip_type = IPADDR_V4, ip_bytes = x\<rparr>, p)
      | Ipv6 x p \<Rightarrow> Some (\<lparr>ip_type = IPADDR_V6, ip_bytes = x\<rparr>, p)
      | Domain _ _ \<Rightarrow> None)"

definition reply :: "'a session_udp_scheme \<Rightarrow> datagram \<Rightarrow> lwip_addr \<times> u16 \<times> u8 list" where
  "reply self f = (case the (comes_from self (fst f)) of (ip, port) \<Rightarrow> (ip, port, snd f))"

lemma into_lwip_wire:
  assumes "addr_ok a" and "16 \<le> length (ip_bytes ip)"
  shows "hev_socks5_addr_into_lwip (wire_addr a @ q) ip port =
     (case a of
        Ipv4 x p \<Rightarrow> Some (0, \<lparr>ip_type = IPADDR_V4, ip_bytes = x @ drop 4 (ip_bytes ip)\<rparr>, p)
      | Ipv6 x p \<Rightarrow> Some (0, \<lparr>ip_type = IPADDR_V6, ip_bytes = x @ drop 16 (ip_bytes ip)\<rparr>, p)
      | Domain _ _ \<Rightarrow> Some (- 1, ip, port))"
  using assms
  by (cases a) (auto simp: hev_socks5_addr_into_lwip_def addr_atype_def byte_at_def memget_def memput_def htons_def)

lemma reply_from_wire:
  assumes "addr_ok a" and "comes_from self a = Some (ip, port)"
  shows "\<exists>b. reply_from (wire_addr a @ q) self w = Some (0, ip\<lparr>ip_bytes := b\<rparr>, port) \<and>
     take (if ip_type ip = IPADDR_V4 then 4 else 16) b = ip_bytes ip"
proof (cases "su_addr self \<noteq> [0, 0, 0, 0] \<and> su_port self \<noteq> 0")
  case True
  then show ?thesis using assms(2) by (auto simp: comes_from_def reply_from_def)
next
  case False
  then have "reply_from (wire_addr a @ q) self w =
     hev_socks5_addr_into_lwip (wire_addr a @ q) \<lparr>ip_type = IPADDR_ANY, ip_bytes = map (w_stack w) [0..<16]\<rparr> 0"
    by (auto simp: reply_from_def)
  also note into_lwip_wire [OF assms(1)]
  finally show ?thesis using False assms by (cases a) (auto simp: comes_from_def)
qed

lemma out_loop_replies:
  fixes w :: "'z dgram_world_scheme" and self :: "'a session_udp_scheme"
  assumes "list_all2 msg_holds ms fs" and "\<forall>f\<in>set fs. addr_ok (fst f) \<and> comes_from self (fst f) \<noteq> None" and "d_err w = []"
  shows "udp_out_loop (length fs) (ms @ ms') self w =
     Some (1, w\<lparr>d_out := d_out w @ map (reply self) (filter (\<lambda>f. snd f \<noteq> []) fs)\<rparr>)"
  using assms
proof (induction ms fs arbitrary: w rule: list_all2_induct)
  case (Cons m ms f fs)
  obtain q where q: "m_addr m = At (wire_addr (fst f) @ q)" "m_len m = length (snd f)" "memget (m_buf m) 0 (m_len m) = Some (snd f)"
    using Cons(1) msg_data [OF Cons(1)] by (auto simp: msg_holds_def)
  obtain ip port where c: "comes_from self (fst f) = Some (ip, port)" using Cons.prems(1) by auto
  have ih: "udp_out_loop (length fs) (ms @ ms') self w = Some (1, w\<lparr>d_out := d_out w @ map (reply self) (filter (\<lambda>f. snd f \<noteq> []) fs)\<rparr>)"
    if "d_err w = []" for w :: "'z dgram_world_scheme" using Cons.IH Cons.prems(1) that by simp
  from reply_from_wire [OF _ c, of q w] Cons.prems(1) obtain b where
    b: "reply_from (wire_addr (fst f) @ q) self w = Some (0, ip\<lparr>ip_bytes := b\<rparr>, port)"
      "take (if ip_type ip = IPADDR_V4 then 4 else 16) b = ip_bytes ip" by auto
  show ?case
  proof (cases "snd f = []")
    case True
    then show ?thesis using q ih [OF Cons.prems(2)] by simp
  next
    case False
    have rep: "reply self f = (ip, port, snd f)" by (simp add: reply_def c)
    have "d_call w = (True, w)" using Cons.prems(2) by (simp add: d_call_def)
    moreover have "udp_sendfrom (snd f) (ip\<lparr>ip_bytes := b\<rparr>) port w = (True, w\<lparr>d_out := d_out w @ [(ip, port, snd f)]\<rparr>)"
      using Cons.prems(2) b(2) by (simp add: udp_sendfrom_def d_call_def Let_def)
    ultimately show ?thesis using q b(1) False ih [of "w\<lparr>d_out := d_out w @ [(ip, port, snd f)]\<rparr>"] Cons.prems(2)
      by (simp add: rep)
  qed
qed simp

text \<open>
  C37: One round of the other direction hands the application all datagrams that wait on the stream, in
  order and with their data, empty ones left out; each comes from the address the application has sent
  to when that stands for a name, and from its own address otherwise.
\<close>

theorem session_udp_replies:
  assumes "s_type self = TYPE_UDP_IN_TCP" and "all_data (rx_of w (s_fd self))"
    and "avail (s_timeout self) (rx_of w (s_fd self)) = concat (map frame fs)" and "fs \<noteq> []" and "length fs \<le> num"
    and "\<forall>f\<in>set fs. frame_ok f \<and> 3 + length (wire_addr (fst f)) + length (snd f) \<le> UDP_BUF_SIZE \<and> comes_from self (fst f) \<noteq> None"
    and "d_err w = []"
  shows "\<exists>w'. hev_socks5_session_udp_fwd_b sv num self w = Some (1, self, w') \<and>
     d_out w' = d_out w @ map (reply self) (filter (\<lambda>f. snd f \<noteq> []) fs)"
proof -
  let ?if = "session_udp_iface sv" and ?bufs = "udp_bufs num w"
  have fd: "iface_get_fd ?if self = s_fd self"
    using assms(1) by (simp add: session_udp_iface_def hev_socks5_client_udp_get_fd_def)
  have ok: "\<forall>f\<in>set fs. frame_ok f" using assms(6) by blast
  have nb: "length ?bufs = num" "\<forall>m\<in>set ?bufs. length (m_buf m) = m_len m \<and> m_len m = UDP_BUF_SIZE"
    by (auto simp: udp_bufs_def Let_def)
  have "list_all2 slot_for (take (length fs) ?bufs) fs"
    unfolding list_all2_conv_all_nth
  proof (intro conjI allI impI)
    show l: "length (take (length fs) ?bufs) = length fs" using nb(1) assms(5) by simp
    fix i assume "i < length (take (length fs) ?bufs)"
    then have i: "i < length fs" "i < length ?bufs" using l nb(1) assms(5) by auto
    then have "?bufs ! i \<in> set ?bufs" "fs ! i \<in> set fs" by simp_all
    then have "length (m_buf (?bufs ! i)) = m_len (?bufs ! i)" "m_len (?bufs ! i) = UDP_BUF_SIZE"
      "3 + length (wire_addr (fst (fs ! i))) + length (snd (fs ! i)) \<le> UDP_BUF_SIZE" using nb(2) assms(6) by blast+
    then show "slot_for (take (length fs) ?bufs ! i) (fs ! i)"
      using i(1) by (simp add: slot_for_def usize_max_def) (simp add: UDP_BUF_SIZE_def)
  qed
  from recvmmsg_all_frames [of self w ?if fs, unfolded fd, OF assms(1-3) ok assms(4) this, of "drop (length fs) ?bufs"]
  obtain got w1 where r: "hev_socks5_udp_recvmmsg ?if ?bufs True self w = Some (int (length fs), got @ drop (length fs) ?bufs, self, w1)"
    "list_all2 msg_holds got fs" "only_sock (s_fd self) w w1" by auto
  from r(3) obtain sk e where w1: "w1 = w\<lparr>w_sock := (w_sock w)(s_fd self := sk), w_errno := e\<rparr>" by (auto simp: only_sock_def)
  then have "d_err w1 = []" "d_out w1 = d_out w" using assms(7) by simp_all
  moreover have "\<forall>f\<in>set fs. addr_ok (fst f) \<and> comes_from self (fst f) \<noteq> None" using assms(6) by (auto simp: frame_ok_def)
  ultimately have "udp_out_loop (length fs) (got @ drop (length fs) ?bufs) self w1 =
     Some (1, w1\<lparr>d_out := d_out w @ map (reply self) (filter (\<lambda>f. snd f \<noteq> []) fs)\<rparr>)"
    using out_loop_replies [OF r(2), of self w1 "drop (length fs) ?bufs"] by simp
  then show ?thesis using r(1) assms(4) by (simp add: hev_socks5_session_udp_fwd_b_def)
qed

section \<open>A sending that is cut\<close>

text \<open>
  C38: When the socket takes a part of the bytes of all waiting frames and then nothing until the
  timeout, all of these frames count as sent: they leave the list although the stream holds only the first
  of their bytes, and the session goes on; what it sends next stands where the rest should be.
\<close>

theorem session_udp_cut_send:
  assumes "s_type self = TYPE_UDP_IN_TCP" and "list_all2 frame_holds (su_list self) fs" and "su_frames self = int (length fs)"
    and "length fs \<le> num" and "tx_of w (s_fd self) = TxOk k # TxAgain left # es" and "\<not> waits (s_timeout self) left"
    and "0 < k" and "k < length (concat (map frame fs))"
  shows "\<exists>w1 w2. udp_fwd_f_send sv num self w = Some (Inr (length fs), self, w1) \<and>
     udp_fwd_f_sent (length fs) self w1 = Some (self\<lparr>su_list := [], su_frames := 0\<rparr>, w2) \<and>
     out_of w2 (s_fd self) = out_of w (s_fd self) @ take k (concat (map frame fs)) \<and> tx_of w2 (s_fd self) = es"
proof -
  let ?fd = "s_fd self" and ?if = "session_udp_iface sv" and ?bs = "concat (map frame fs)"
  have lf: "length (su_list self) = length fs" using assms(2) by (rule list_all2_lengthD)
  have fs: "0 < length fs" using assms(8) by (cases fs) auto
  from frame_msgs_holds [OF assms(2), of "length fs"] obtain ms where
    ms: "frame_msgs (length fs) (su_list self) = Some ms" "list_all2 msg_holds ms fs" by (auto simp: lf)
  from tcp_iov_frames [OF ms(2) frames_addr_ok [OF assms(2)]] obtain iov where iov: "tcp_iov ms = Some (Some iov)" "concat iov = ?bs" by auto
  have len: "0 < length ?bs" using assms(8) by linarith
  then have ne: "concat iov \<noteq> []" unfolding iov(2) by (rule length_greater_0_conv [THEN iffD1])
  have pl: "plain udp_task_io_yielder self" using assms(1) by (intro plain_udp) simp
  let ?w = "(tx_set ?fd es [] (tx_set ?fd (TxAgain left # es) (take k ?bs) w))\<lparr>w_errno := EAGAIN\<rparr>"
  from send_loop_rounds(4) [OF len pl assms(5)] send_loop_rounds(3) [OF assms(8) pl, of "tx_set ?fd (TxAgain left # es) (take k ?bs) w"]
  have "send_loop udp_task_io_yielder ?fd ?bs 0 self w = Some (int k, self, ?w)" using assms(6-8) by simp
  then have "hev_task_io_socket_sendmsg udp_task_io_yielder ?fd iov self w = Some (int k, self, ?w)"
    using sendmsg_send [OF ne pl, of ?fd w] by (simp add: hev_task_io_socket_send_def iov(2))
  then have "hev_socks5_udp_sendmmsg ?if ms self w = Some (int (length fs), self, ?w)"
    using assms(1,7) iov(1) list_all2_lengthD [OF ms(2)]
    by (simp add: hev_socks5_udp_sendmmsg_def hev_socks5_udp_sendmmsg_tcp_def hev_socks5_udp_get_fd_def session_udp_iface_def
        hev_socks5_client_udp_get_fd_def)
  then have "udp_fwd_f_send sv num self w = Some (Inr (length fs), self, ?w)"
    using ms(1) assms(3,4) fs by (simp add: udp_fwd_f_send_def)
  moreover from fwd_f_sent_form [of "length fs" self ?w] obtain w2 where
    "udp_fwd_f_sent (length fs) self ?w = Some (self\<lparr>su_list := [], su_frames := 0\<rparr>, w2)" "w_sock w2 = w_sock ?w"
    using lf assms(3) by auto
  ultimately show ?thesis by (intro exI [of _ ?w] exI [of _ w2]) (simp add: tx_set_def)
qed

section \<open>Examples\<close>

definition udp_session :: session_udp where
  "udp_session = session_udp_zero\<lparr>s_fd := 3, s_timeout := 1000, s_type := TYPE_UDP_IN_TCP, su_pcb := True\<rparr>"

definition app_world :: "rx list \<Rightarrow> tx list \<Rightarrow> dgram_world" where
  "app_world rx tx = \<lparr>w_sock = (\<lambda>_. \<lparr>sk_rx = rx, sk_tx = tx, sk_out = [9], sk_dg = [], sk_sent = [], sk_shut = False\<rparr>),
     w_errno = 0, w_sys = [], w_open = [3], w_poll = [3], w_alloc = [], w_live = 1, w_stack = (\<lambda>_. 0),
     w_libc = \<lparr>inet_pton6 = (\<lambda>_. None), inet_ntop = (\<lambda>_ _. []), getaddrinfo = (\<lambda>_ _. None)\<rparr>, w_protect = None, w_set = misc_defaults,
     d_err = [], d_out = [], d_removed = False\<rparr>"

lemmas udp_example_defs = udp_session_def session_udp_zero_def app_world_def

lemma session_udp_replies_witness:
  "\<exists>w'. hev_socks5_session_udp_fwd_b srv_zero 10 udp_session (app_world [RxData (frame (Ipv4 [1, 2, 3, 4] 53, [7, 8]))] []) = Some (1, udp_session, w') \<and>
     d_out w' = [(\<lparr>ip_type = IPADDR_V4, ip_bytes = [1, 2, 3, 4]\<rparr>, 53, [7, 8])]"
  using session_udp_replies [of udp_session "app_world [RxData (frame (Ipv4 [1, 2, 3, 4] 53, [7, 8]))] []" "[(Ipv4 [1, 2, 3, 4] 53, [7, 8])]" 10 srv_zero]
  by (simp add: udp_example_defs frame_ok_def comes_from_def reply_def UDP_BUF_SIZE_def)

definition waiting :: session_udp where
  "waiting = udp_session\<lparr>su_list := [\<lparr>fr_addr = wire_addr (Ipv4 [1, 2, 3, 4] 53), fr_data = [[7, 8]]\<rparr>,
     \<lparr>fr_addr = wire_addr (Ipv4 [1, 2, 3, 4] 53), fr_data = [[9]]\<rparr>], su_frames := 2\<rparr>"

lemma session_udp_cut_send_witness:
  "\<exists>w1 w2. udp_fwd_f_send srv_zero 10 waiting (app_world [] [TxOk 4, TxAgain 0]) = Some (Inr 2, waiting, w1) \<and>
     udp_fwd_f_sent 2 waiting w1 = Some (udp_session, w2) \<and> out_of w2 3 = [9, 0, 2, 10, 1]"
proof -
  let ?fs = "[(Ipv4 [1, 2, 3, 4] 53, [7, 8]), (Ipv4 [1, 2, 3, 4] 53, [9])]"
  let ?w = "app_world [] [TxOk 4, TxAgain 0]"
  have w: "s_type waiting = TYPE_UDP_IN_TCP" "list_all2 frame_holds (su_list waiting) ?fs" "su_frames waiting = int (length ?fs)"
    "length ?fs \<le> 10" "tx_of ?w (s_fd waiting) = TxOk 4 # TxAgain 0 # []" "\<not> waits (s_timeout waiting) 0" "0 < (4 :: nat)"
    "4 < length (concat (map frame ?fs))"
    by (simp_all add: waiting_def udp_example_defs frame_holds_def waits_def)
  have "waiting\<lparr>su_list := [], su_frames := 0\<rparr> = udp_session" "s_fd waiting = 3" "length ?fs = 2"
    "out_of ?w 3 @ take 4 (concat (map frame ?fs)) = [9, 0, 2, 10, 1]"
    by (simp_all add: waiting_def udp_example_defs hi8_def lo8_def)
  with session_udp_cut_send [OF w, of srv_zero] show ?thesis by metis
qed

text \<open>A datagram arrives, and the task sends it.\<close>

definition app_addr :: lwip_addr where
  "app_addr = \<lparr>ip_type = IPADDR_V4, ip_bytes = [1, 2, 3, 4]\<rparr>"

definition udp_r0 :: udp_run where
  "udp_r0 = \<lparr>uobj = udp_session, uenv = app_world [] [TxOk 20], uat = UStart, uf = 0, ub = 0, hist = []\<rparr>"

lemma udp_r0_arrival:
  "\<exists>fr r. (udp_step srv_zero 10 app_addr 53)\<^sup>*\<^sup>* udp_r0 r \<and> hist r = [(None, [[7, 8]])] \<and> fr_data fr = [[7, 8]] \<and> frame_holds fr (Ipv4 [1, 2, 3, 4] 53, [7, 8]) \<and>
     uat r = USent 1 \<and> uobj r = udp_session\<lparr>su_list := [fr], su_frames := 1\<rparr>"
proof -
  let ?step = "udp_step srv_zero 10 app_addr 53" and ?w = "app_world [] [TxOk 20]"
  let ?w1 = "?w\<lparr>w_live := 2\<rparr>"
  obtain b where b: "hev_socks5_addr_from_ipv4 (stack_addr [] ?w1) [1, 2, 3, 4] (htons 53) = Some (7, b)" "holds_addr b (Ipv4 [1, 2, 3, 4] 53)"
    using from_ipv4_holds [OF stack_addr_size, of "[1, 2, 3, 4]" ?w1 53] by auto
  from b(2) obtain q where q: "b = wire_addr (Ipv4 [1, 2, 3, 4] 53) @ q" by (rule holds_addr_split)
  let ?fr = "\<lparr>fr_addr = b, fr_data = [[7, 8]]\<rparr>"
  let ?self = "udp_session\<lparr>su_list := [?fr], su_frames := 1\<rparr>"
  have fh: "frame_holds ?fr (Ipv4 [1, 2, 3, 4] 53, [7, 8])" using q by (simp add: frame_holds_def)
  have "hev_malloc ?w = (True, ?w1)" by (simp add: hev_malloc_def app_world_def)
  moreover have "hev_socks5_addr_from_lwip None (stack_addr [] ?w1) app_addr 53 = Some (0, b, None)"
    using b(1) by (simp add: hev_socks5_addr_from_lwip_def app_addr_def)
  moreover have "addr_atype b = Some 1" using q by (simp add: addr_atype_def byte_at_def)
  ultimately have "udp_recv_handler None app_addr 53 (Some [[7, 8]]) udp_session ?w = Some (?self, None, ?w1)"
    by (simp add: udp_recv_handler_def UDP_POOL_SIZE_def udp_session_def session_udp_zero_def)
  with udp_step.recv [of None "Some [[7, 8]]" app_addr 53 udp_r0 ?self None ?w1 srv_zero 10]
  have 1: "?step udp_r0 (udp_r0\<lparr>uobj := ?self, uenv := ?w1, hist := [(None, [[7, 8]])]\<rparr>)"
    by (simp add: udp_r0_def names_ok_def udp_session_def session_udp_zero_def delivered_def udp_room_def UDP_POOL_SIZE_def
        hev_malloc_def app_world_def)
  have 2: "?step (udp_r0\<lparr>uobj := ?self, uenv := ?w1, hist := [(None, [[7, 8]])]\<rparr>) (udp_r0\<lparr>uobj := ?self, uenv := ?w1, hist := [(None, [[7, 8]])], uf := 1, ub := 1, uat := UTop\<rparr>)"
    by (rule udp_step.task [where left = 0])
      (simp add: udp_r0_def Let_def hev_task_mod_fd_def app_world_def udp_session_def session_udp_zero_def hev_socks5_udp_get_fd_def
        session_udp_iface_def hev_socks5_client_udp_get_fd_def)
  have "su_list ?self = [?fr]" "s_type ?self = TYPE_UDP_IN_TCP" "su_frames ?self = 1" "0 < (10 :: nat)"
    "tx_flows (s_timeout ?self) (tx_of ?w1 (s_fd ?self))" by (simp_all add: udp_session_def app_world_def)
  from fwd_f_send_one [OF this(1) fh this(3,4,2,5), of srv_zero] obtain w' where
    "udp_fwd_f_send srv_zero 10 ?self ?w1 = Some (Inr 1, ?self, w')" by (elim exE)
  then have 3: "?step (udp_r0\<lparr>uobj := ?self, uenv := ?w1, hist := [(None, [[7, 8]])], uf := 1, ub := 1, uat := UTop\<rparr>)
     (udp_r0\<lparr>uobj := ?self, uenv := w', hist := [(None, [[7, 8]])], uf := 1, ub := 1, uat := USent 1\<rparr>)"
    by (intro udp_step.task [where left = 0]) (simp add: udp_r0_def)
  show ?thesis
  proof (intro exI conjI)
    show "?step\<^sup>*\<^sup>* udp_r0 (udp_r0\<lparr>uobj := ?self, uenv := w', hist := [(None, [[7, 8]])], uf := 1, ub := 1, uat := USent 1\<rparr>)"
      by (rule converse_rtranclp_into_rtranclp [of ?step, OF 1 converse_rtranclp_into_rtranclp [of ?step, OF 2 r_into_rtranclp [of ?step, OF 3]]])
    show "frame_holds ?fr (Ipv4 [1, 2, 3, 4] 53, [7, 8])" by (rule fh)
  qed simp_all
qed

lemma session_udp_forwards_witness:
  "\<exists>r. (udp_step srv_zero 10 app_addr 53)\<^sup>*\<^sup>* udp_r0 r \<and> uat r = USent 1 \<and>
     out_of (uenv r) 3 = [9] @ frame (Ipv4 [1, 2, 3, 4] 53, [7, 8])"
proof -
  have r0: "udp_begin udp_r0" "s_type (uobj udp_r0) = TYPE_UDP_IN_TCP" "s_timeout (uobj udp_r0) \<noteq> 0"
    "tx_flows (s_timeout (uobj udp_r0)) (tx_of (uenv udp_r0) (s_fd (uobj udp_r0)))" "lwip_addr_ok app_addr" "0 < (10 :: nat)"
    by (simp_all add: udp_begin_def udp_r0_def udp_example_defs app_addr_def lwip_addr_ok_def)
  from udp_r0_arrival obtain fr r where r: "(udp_step srv_zero 10 app_addr 53)\<^sup>*\<^sup>* udp_r0 r" "hist r = [(None, [[7, 8]])]"
    "uat r = USent 1" "uobj r = udp_session\<lparr>su_list := [fr], su_frames := 1\<rparr>" by blast
  from session_udp_forwards [OF r0 r(1)] obtain fs dn where fs: "[[[7, 8]]] = dn @ [fr_data fr]" "list_all2 (arrived app_addr 53) [(None, [[7, 8]])] fs"
    "out_of (uenv r) 3 = [9] @ concat (map frame (take (length dn + 1) fs))"
    using r by (auto simp: udp_r0_def udp_example_defs)
  then have "fs = [(Ipv4 [1, 2, 3, 4] 53, [7, 8])]"
    by (auto simp: list_all2_Cons1 arrived_def goes_to_def name_now_def app_addr_def intro!: prod_eqI)
  then show ?thesis using r(1,3) fs(1,3) by auto
qed

end
