(* ===== verification/Tunnel_Names.thy ===== *)
theory Tunnel_Names
  imports Mapped_Dns_Msg Session_Tcp Session_Udp
begin

text \<open>
  How a name reaches the server: the DNS handler answers a query with an address of the mapped
  network, the application connects to it, and the session that is made for this connection asks
  the server for the name.
\<close>

text \<open>The four bytes of an address on the wire, as lwIP keeps them.\<close>

definition octets :: "u32 \<Rightarrow> u8 list" where
  "octets ip = [ucast (drop_bit 24 ip), ucast (drop_bit 16 ip), ucast (drop_bit 8 ip), ucast ip]"

lemma host32_octets: "host32 (octets ip @ r) = Some ip"
proof -
  have "push_bit 24 (ucast (ucast (drop_bit 24 ip) :: u8)) OR push_bit 16 (ucast (ucast (drop_bit 16 ip) :: u8)) OR
     push_bit 8 (ucast (ucast (drop_bit 8 ip) :: u8)) OR ucast (ucast ip :: u8) = ip" (is "?l = ip")
  proof (rule bit_word_eqI)
    fix n assume n: "n < LENGTH(32)"
    consider "n < 8" | "8 \<le> n" "n < 16" | "16 \<le> n" "n < 24" | "24 \<le> n" by linarith
    then show "bit ?l n \<longleftrightarrow> bit ip n"
      using n by cases (auto simp: bit_simps)
  qed
  then show ?thesis by (simp add: host32_def octets_def)
qed

lemma length_stack_addr [simp]: "length (stack_addr [] w) = addr_size"
  by (simp add: stack_addr_def)

lemma tcp_construct_takes:
  assumes "holds_addr b a" and "w_alloc w = []"
  shows "\<exists>self' w'. hev_socks5_client_tcp_construct self b w = Some (0, self', w') \<and> ct_addr self' = Some (wire_addr a) \<and> s_type self' = TYPE_TCP"
proof -
  obtain r where r: "b = wire_addr a @ r" "addr_ok a" using assms(1) by (rule holds_addr_split)
  then have "hev_socks5_addr_len b = Some (int (length (wire_addr a)))" using addr_len_wire by simp
  moreover have "memget b 0 (length (wire_addr a)) = Some (wire_addr a)" using r by (simp add: memget_def)
  ultimately show ?thesis using assms(2)
    by (simp add: hev_socks5_client_tcp_construct_def hev_socks5_client_construct_def hev_socks5_construct_def hev_malloc_def)
qed

text \<open>A session for an address that the cache maps asks for the name.\<close>

lemma session_asks_for_name:
  assumes "hev_mapped_dns_lookup d ip = Some (Some name, d2)" and "cstr name = Some s" and "length s < 256" and "w_alloc w = []"
  shows "\<exists>self' w'. hev_socks5_session_tcp_construct (Some d) \<lparr>ip_type = IPADDR_V4, ip_bytes = octets ip\<rparr> port self w =
       Some (0, self', Some d2, w') \<and> ct_addr self' = Some (wire_addr (Domain s port)) \<and> s_type self' = TYPE_TCP \<and> st_pcb self'"
proof -
  have h: "host32 (octets ip) = Some ip" using host32_octets [of ip "[]"] by simp
  obtain b where b: "hev_socks5_addr_from_name (stack_addr [] w) name (htons port) = Some (4 + int (length s), b)"
    "holds_addr b (Domain s port)" using from_name_holds [OF length_stack_addr assms(2,3), of w port] by blast
  obtain self' w' where "hev_socks5_client_tcp_construct self b w = Some (0, self', w')"
    "ct_addr self' = Some (wire_addr (Domain s port))" "s_type self' = TYPE_TCP"
    using tcp_construct_takes [OF b(2) assms(4), of self] by blast
  then show ?thesis
    by (simp add: hev_socks5_session_tcp_construct_def hev_socks5_addr_from_lwip_def h assms(1) b(1))
qed

section \<open>The flow of a query\<close>

text \<open>
  The callback of a flow to the mapped DNS: \<open>p\<close> are the buffers of the query, \<open>ip\<close> and \<open>port\<close> the address
  it went to. The response buffer has an unknown content; the flow ends with its first datagram.
\<close>

definition dns_recv_handler ::
  "mdns \<Rightarrow> u8 list list \<Rightarrow> lwip_addr \<Rightarrow> u16 \<Rightarrow> 'z dgram_world_scheme \<Rightarrow> (mdns \<times> 'z dgram_world_scheme) option" where
  "dns_recv_handler dns p ip port w = do {
     let (ok, w) = d_call w;
     (dns, w) \<leftarrow> (if \<not> ok then Some (dns, w)
       else case p of
         [] \<Rightarrow> None
       | q # _ \<Rightarrow> do {
           (res, dns, _, b) \<leftarrow> hev_mapped_dns_handle dns q (length q) (map (w_stack w) [0..<UDP_BUF_SIZE]) UDP_BUF_SIZE;
           Some (dns, if res < 0 then w else snd (udp_sendfrom (take (nat res) b) ip port w))
         });
     Some (dns, w\<lparr>d_removed := True\<rparr>)
   }"

lemma dns_recv_handler_total:
  assumes "dns_inv d xs ls" and "allocs_ok d" and "p \<noteq> []"
  shows "\<exists>d' w' xs' ls'. dns_recv_handler d p ip port w = Some (d', w') \<and> dns_inv d' xs' ls' \<and> d_removed w' \<and>
     length (d_out w') \<le> length (d_out w) + 1"
proof -
  obtain ok w1 where w1: "d_call w = (ok, w1)" by fastforce
  then have out: "d_out w1 = d_out w" by (auto simp: d_call_def split: list.splits)
  obtain q qs where p: "p = q # qs" using assms(3) by (cases p) auto
  have "length q \<le> length q" "UDP_BUF_SIZE \<le> length (map (w_stack w1) [0..<UDP_BUF_SIZE])" by simp_all
  from dns_handle_bounds [OF assms(1,2) this] obtain r d' rb sb xs' ls' where
    h: "hev_mapped_dns_handle d q (length q) (map (w_stack w1) [0..<UDP_BUF_SIZE]) UDP_BUF_SIZE = Some (r, d', rb, sb)" "dns_inv d' xs' ls'"
    by blast
  have "length (d_out (snd (udp_sendfrom bs ip port w1))) \<le> length (d_out w1) + 1" for bs
    by (auto simp: udp_sendfrom_def d_call_def Let_def split: list.splits)
  then show ?thesis using h assms(1) w1 out p by (cases ok) (auto simp: dns_recv_handler_def)
qed

text \<open>
  C6: A name the application asks for is the name the server is asked for: the flow of an address query
  sends one answer, with an address in it, and ends; a TCP session made for a connection to this address
  carries, as its destination, the queried name and the port, in the form the request sends.
\<close>

theorem dns_name_reaches_server:
  assumes "dns_inv d xs ls" and "m_alloc d = (p, True) # rest" and "fresh_node d p"
    and "m_mask d = NOT (Bit_Operations.mask k)" and "m_net d AND Bit_Operations.mask k = 0" and "length (m_records d) \<le> 2 ^ k" and "k < 31"
    and "dns_hdr h" and "\<forall>l\<in>set labels. label_ok l" and "labels \<noteq> []"
    and "length (h @ wire_name labels @ [0, 1, 0, 1] @ post) \<le> UDP_BUF_SIZE"
    and "length (h @ wire_name labels) + 20 \<le> UDP_BUF_SIZE"
    and "length (dotted labels) < 256" and "w_alloc w = []"
    and "d_err dw = []" and "ip_type sip = IPADDR_V4" and "length (ip_bytes sip) = 4"
  shows "\<exists>ip d1 dw' answer d2 self' w'.
     dns_recv_handler d ((h @ wire_name labels @ [0, 1, 0, 1] @ post) # qs) sip sport dw = Some (d1, dw') \<and>
     d_out dw' = d_out dw @ [(sip, sport, answer)] \<and> d_removed dw' \<and>
     length answer = length (h @ wire_name labels) + 20 \<and> drop (length (h @ wire_name labels) + 16) answer = octets ip \<and>
     hev_socks5_session_tcp_construct (Some d1) \<lparr>ip_type = IPADDR_V4, ip_bytes = octets ip\<rparr> port self w = Some (0, self', Some d2, w') \<and>
     ct_addr self' = Some (wire_addr (Domain (dotted labels) port))"
proof -
  let ?q = "h @ wire_name labels @ [0, 1, 0, 1] @ post" and ?n = "length (h @ wire_name labels)"
    and ?res = "map (w_stack dw) [0..<UDP_BUF_SIZE]"
  have "length ?q \<le> length ?res" "?n + 20 \<le> length ?res" using assms(11,12) by simp_all
  from query_resolves [OF assms(1-10) this] obtain ip d1 rb sb name d2 where
    r: "hev_mapped_dns_handle d ?q (length ?q) ?res (length ?res) = Some (int (?n + 20), d1, rb, sb)"
    and t: "take (?n + 20) sb = reply_hdr h @ wire_name labels @ [0, 1, 0, 1] @ answer_bytes ip 12"
    and l: "hev_mapped_dns_lookup d1 ip = Some (Some name, d2)" "cstr name = Some (dotted labels)" by blast
  have hdr: "length (reply_hdr h) = length h" using assms(8) by (simp add: reply_hdr_def dns_hdr_def Let_def)
  then have a: "length (take (?n + 20) sb) = ?n + 20" "drop (?n + 16) (take (?n + 20) sb) = octets ip"
    unfolding t by (simp_all add: answer_bytes_def octets_def)
  have "nat (int (length h) + int (length (wire_name labels)) + 20) = length h + length (wire_name labels) + 20" by linarith
  then have "dns_recv_handler d (?q # qs) sip sport dw =
     Some (d1, dw\<lparr>d_out := d_out dw @ [(sip, sport, take (?n + 20) sb)], d_removed := True\<rparr>)"
    using r assms(15-17) by (simp add: dns_recv_handler_def d_call_def udp_sendfrom_def)
  moreover obtain self' w' where
    "hev_socks5_session_tcp_construct (Some d1) \<lparr>ip_type = IPADDR_V4, ip_bytes = octets ip\<rparr> port self w = Some (0, self', Some d2, w')"
    "ct_addr self' = Some (wire_addr (Domain (dotted labels) port))"
    using session_asks_for_name [OF l assms(13,14), of port self] by blast
  ultimately show ?thesis using a by (intro exI conjI) (assumption | simp)+
qed

definition names_world :: dgram_world where
  "names_world = \<lparr>w_sock = (\<lambda>_. \<lparr>sk_rx = [], sk_tx = [], sk_out = [], sk_dg = [], sk_sent = [], sk_shut = False\<rparr>),
     w_errno = 0, w_sys = [], w_open = [], w_poll = [], w_alloc = [], w_live = 0, w_stack = (\<lambda>_. 0),
     w_libc = \<lparr>inet_pton6 = (\<lambda>_. None), inet_ntop = (\<lambda>_ _. []), getaddrinfo = (\<lambda>_ _. None)\<rparr>, w_protect = None, w_set = misc_defaults,
     d_err = [], d_out = [], d_removed = False\<rparr>"

lemma dns_name_reaches_server_witness:
  "let h = [0, 1, 1, 0, 0, 1, 0, 0, 0, 0, 0, 0]; w = wire_name [[98]]; sip = \<lparr>ip_type = IPADDR_V4, ip_bytes = [198, 18, 0, 2]\<rparr> in
   \<exists>ip d1 dw' answer d2 self' w'.
     dns_recv_handler dns_one [h @ w @ [0, 1, 0, 1] @ []] sip 53 names_world = Some (d1, dw') \<and>
     d_out dw' = d_out names_world @ [(sip, 53, answer)] \<and> d_removed dw' \<and>
     length answer = length (h @ w) + 20 \<and> drop (length (h @ w) + 16) answer = octets ip \<and>
     hev_socks5_session_tcp_construct (Some d1) \<lparr>ip_type = IPADDR_V4, ip_bytes = octets ip\<rparr> 443 session_tcp_zero names_world =
       Some (0, self', Some d2, w') \<and>
     ct_addr self' = Some (wire_addr (Domain (dotted [[98]]) 443))"
  unfolding Let_def
  by (rule dns_name_reaches_server [OF dns_one_inv(1,4,2), where k = 1])
    (simp_all add: dns_one_def dns_hdr_def label_ok_def wire_name_def dotted_def dots_def names_world_def UDP_BUF_SIZE_def)

end
