(* ===== verification/Tunnel_Sync.thy ===== *)
theory Tunnel_Sync
  imports Prelude
begin

text \<open>
  Starting and stopping the tunnel, \<open>hev-socks5-tunnel.c\<close>: the thread that initialises, runs and
  finalises the tunnel, and any number of threads that call \<open>hev_socks5_tunnel_stop\<close>. They meet in
  the atomic word \<open>tsync\<close> and in the socket pair \<open>event_fds\<close>. Every atomic operation and every
  access to the socket pair is a step of its own, and the steps of the threads interleave freely.
\<close>

section \<open>The shared state\<close>

definition SYNC_SEND :: u32 where "SYNC_SEND = 1"
definition SYNC_SENT :: u32 where "SYNC_SENT = 2"
definition SYNC_WAIT :: u32 where "SYNC_WAIT = 4"
definition SYNC_STOP :: u32 where "SYNC_STOP = 8"

lemmas sync_defs = SYNC_SEND_def SYNC_SENT_def SYNC_WAIT_def SYNC_STOP_def

text \<open>\<open>pending\<close> counts the bytes that wait in the socket pair.\<close>

record shared =
  tsync :: u32
  running :: bool
  events_open :: bool
  pending :: nat

section \<open>Stopping\<close>

text \<open>Where a thread is in \<open>hev_socks5_tunnel_stop\<close>; \<open>SHave res\<close> has the lock and what it read with it.\<close>

datatype stop_pc = SIdle | SLock | SHave u32 | SWrite | SUnlock

text \<open>\<open>None\<close>: the write hits a closed descriptor, and the assertion fails.\<close>

fun stop_step :: "stop_pc \<Rightarrow> 'a shared_scheme \<Rightarrow> (stop_pc \<times> 'a shared_scheme) option" where
  "stop_step SIdle g = Some (SLock, g)"
| "stop_step SLock g =
     Some (if tsync g AND SYNC_WAIT \<noteq> 0 then SLock else SHave (tsync g), g\<lparr>tsync := tsync g OR SYNC_WAIT\<rparr>)"
| "stop_step (SHave res) g =
     (if res AND SYNC_SEND \<noteq> 0
      then Some (if tsync g AND SYNC_SENT = 0 then SWrite else SUnlock, g\<lparr>tsync := tsync g OR SYNC_SENT\<rparr>)
      else Some (SUnlock, g\<lparr>tsync := tsync g OR SYNC_STOP\<rparr>))"
| "stop_step SWrite g = (if events_open g then Some (SUnlock, g\<lparr>pending := pending g + 1\<rparr>) else None)"
| "stop_step SUnlock g = Some (SIdle, g\<lparr>tsync := tsync g AND NOT SYNC_WAIT\<rparr>)"

section \<open>The tunnel's own thread\<close>

text \<open>
  Outside; in \<open>init\<close>, after the socket pair is there; initialised; in \<open>hev_task_system_run\<close>; the event
  task after its read, and after it has cleared \<open>run\<close>; all tasks on their way out; in the loop of \<open>fini\<close>
  and after it.
\<close>

datatype main_pc = MIdle | MInit | MReady | MRunning | MGot | MQuit | MEnding | MFini | MClose

text \<open>\<open>hev_socks5_tunnel_init\<close>, as far as the others see it; it may fail before or after the pair is made.\<close>

inductive init_step :: "main_pc \<Rightarrow> 'a shared_scheme \<Rightarrow> main_pc \<Rightarrow> 'a shared_scheme \<Rightarrow> bool" where
  init_pair: "init_step MIdle g MInit (g\<lparr>events_open := True, pending := 0\<rparr>)"
| init_fail_early: "init_step MIdle g MFini g"
| init_fail_late: "init_step MInit g MFini g"
| init_done: "init_step MInit g MReady (g\<lparr>tsync := tsync g OR SYNC_SEND\<rparr>)"

text \<open>
  \<open>hev_socks5_tunnel_run\<close> up to the task system, the event task, which reads as much as an \<open>int\<close>, and
  the loop of \<open>hev_socks5_tunnel_fini\<close>.
\<close>

fun run_step :: "main_pc \<Rightarrow> 'a shared_scheme \<Rightarrow> (main_pc \<times> 'a shared_scheme) option" where
  "run_step MReady g =
     (let g' = g\<lparr>tsync := tsync g AND NOT SYNC_STOP\<rparr>
      in Some (if tsync g AND SYNC_STOP \<noteq> 0 then (MFini, g') else (MRunning, g'\<lparr>running := True\<rparr>)))"
| "run_step _ g = None"

fun event_step :: "main_pc \<Rightarrow> 'a shared_scheme \<Rightarrow> (main_pc \<times> 'a shared_scheme) option" where
  "event_step MRunning g = (if pending g > 0 then Some (MGot, g\<lparr>pending := pending g - 4\<rparr>) else None)"
| "event_step MGot g = Some (MQuit, g\<lparr>running := False\<rparr>)"
| "event_step MQuit g = Some (MEnding, g\<lparr>tsync := tsync g AND NOT SYNC_SENT\<rparr>)"
| "event_step MEnding g = Some (MFini, g)"
| "event_step _ g = None"

fun fini_step :: "main_pc \<Rightarrow> 'a shared_scheme \<Rightarrow> (main_pc \<times> 'a shared_scheme) option" where
  "fini_step MFini g =
     Some (if tsync g AND SYNC_WAIT \<noteq> 0 then MFini else MClose, g\<lparr>tsync := tsync g AND NOT (SYNC_SEND OR SYNC_SENT)\<rparr>)"
| "fini_step MClose g = Some (MIdle, g\<lparr>events_open := False, pending := 0\<rparr>)"
| "fini_step _ g = None"

section \<open>The whole system\<close>

record tsys = shared +
  main :: main_pc
  stops :: "nat \<Rightarrow> stop_pc"

inductive step :: "tsys \<Rightarrow> tsys \<Rightarrow> bool" where
  stop: "stop_step (stops s i) s = Some (pc, s') \<Longrightarrow> step s (s'\<lparr>stops := (stops s)(i := pc)\<rparr>)"
| init: "init_step (main s) s pc s' \<Longrightarrow> step s (s'\<lparr>main := pc\<rparr>)"
| run: "run_step (main s) s = Some (pc, s') \<Longrightarrow> step s (s'\<lparr>main := pc\<rparr>)"
| event: "event_step (main s) s = Some (pc, s') \<Longrightarrow> step s (s'\<lparr>main := pc\<rparr>)"
| fini: "fini_step (main s) s = Some (pc, s') \<Longrightarrow> step s (s'\<lparr>main := pc\<rparr>)"

definition tsys_start :: tsys where
  "tsys_start = \<lparr>tsync = 0, running = False, events_open = False, pending = 0, main = MIdle, stops = (\<lambda>_. SIdle)\<rparr>"

inductive reachable :: "tsys \<Rightarrow> bool" where
  start: "reachable tsys_start"
| more: "reachable s \<Longrightarrow> step s s' \<Longrightarrow> reachable s'"

inductive_cases stepE: "step s s'"
inductive_cases init_stepE: "init_step pc g pc' g'"
inductive_simps init_step_simps: "init_step pc g pc' g'"

section \<open>The bits\<close>

definition SEND :: "u32 \<Rightarrow> bool" where "SEND x \<longleftrightarrow> bit x 0"
definition SENT :: "u32 \<Rightarrow> bool" where "SENT x \<longleftrightarrow> bit x 1"
definition WAIT :: "u32 \<Rightarrow> bool" where "WAIT x \<longleftrightarrow> bit x 2"
definition STOP :: "u32 \<Rightarrow> bool" where "STOP x \<longleftrightarrow> bit x 3"

lemmas has_defs = SEND_def SENT_def WAIT_def STOP_def

lemma sync_tests [simp]:
  "x AND SYNC_SEND = 0 \<longleftrightarrow> \<not> SEND x" "x AND SYNC_SENT = 0 \<longleftrightarrow> \<not> SENT x"
  "x AND SYNC_WAIT = 0 \<longleftrightarrow> \<not> WAIT x" "x AND SYNC_STOP = 0 \<longleftrightarrow> \<not> STOP x"
  using bit_iff_and_push_bit_not_eq_0 [of x 0] bit_iff_and_push_bit_not_eq_0 [of x 1]
    bit_iff_and_push_bit_not_eq_0 [of x 2] bit_iff_and_push_bit_not_eq_0 [of x 3]
  by (simp_all add: has_defs sync_defs)

lemma has_ops [simp]:
  "SEND (x AND y) \<longleftrightarrow> SEND x \<and> SEND y" "SENT (x AND y) \<longleftrightarrow> SENT x \<and> SENT y" "WAIT (x AND y) \<longleftrightarrow> WAIT x \<and> WAIT y" "STOP (x AND y) \<longleftrightarrow> STOP x \<and> STOP y"
  "SEND (x OR y) \<longleftrightarrow> SEND x \<or> SEND y" "SENT (x OR y) \<longleftrightarrow> SENT x \<or> SENT y" "WAIT (x OR y) \<longleftrightarrow> WAIT x \<or> WAIT y" "STOP (x OR y) \<longleftrightarrow> STOP x \<or> STOP y"
  "SEND (NOT x) \<longleftrightarrow> \<not> SEND x" "SENT (NOT x) \<longleftrightarrow> \<not> SENT x" "WAIT (NOT x) \<longleftrightarrow> \<not> WAIT x" "STOP (NOT x) \<longleftrightarrow> \<not> STOP x"
  by (simp_all add: has_defs bit_and_iff bit_or_iff bit_not_iff)

lemma has_consts [simp]:
  "SEND SYNC_SEND" "\<not> SENT SYNC_SEND" "\<not> WAIT SYNC_SEND" "\<not> STOP SYNC_SEND"
  "\<not> SEND SYNC_SENT" "SENT SYNC_SENT" "\<not> WAIT SYNC_SENT" "\<not> STOP SYNC_SENT"
  "\<not> SEND SYNC_WAIT" "\<not> SENT SYNC_WAIT" "WAIT SYNC_WAIT" "\<not> STOP SYNC_WAIT"
  "\<not> SEND SYNC_STOP" "\<not> SENT SYNC_STOP" "\<not> WAIT SYNC_STOP" "STOP SYNC_STOP"
  "\<not> SEND 0" "\<not> SENT 0" "\<not> WAIT 0" "\<not> STOP 0"
  by (simp_all add: has_defs sync_defs)

section \<open>The invariant\<close>

text \<open>The threads between taking the lock and giving it back, and those that will write to the socket pair.\<close>

fun holds :: "stop_pc \<Rightarrow> bool" where
  "holds (SHave _) \<longleftrightarrow> True"
| "holds SWrite \<longleftrightarrow> True"
| "holds SUnlock \<longleftrightarrow> True"
| "holds _ \<longleftrightarrow> False"

fun sends :: "stop_pc \<Rightarrow> bool" where
  "sends (SHave res) \<longleftrightarrow> SEND res"
| "sends SWrite \<longleftrightarrow> True"
| "sends _ \<longleftrightarrow> False"

definition up :: "main_pc \<Rightarrow> bool" where
  "up m \<longleftrightarrow> m \<in> {MReady, MRunning, MGot, MQuit, MEnding}"

definition down :: "main_pc \<Rightarrow> bool" where
  "down m \<longleftrightarrow> m \<in> {MIdle, MInit, MClose}"

definition early :: "main_pc \<Rightarrow> bool" where
  "early m \<longleftrightarrow> m \<in> {MReady, MRunning}"

lemmas mode_defs = up_def down_def early_def

lemma mode_facts: "early m \<Longrightarrow> up m" "down m \<Longrightarrow> \<not> up m" "down m \<Longrightarrow> \<not> early m"
  by (auto simp: mode_defs)

definition lock_inv :: "tsys \<Rightarrow> bool" where
  "lock_inv s \<longleftrightarrow> (\<forall>i j. holds (stops s i) \<longrightarrow> holds (stops s j) \<longrightarrow> i = j) \<and> (WAIT (tsync s) \<longleftrightarrow> (\<exists>i. holds (stops s i)))"

definition life_inv :: "tsys \<Rightarrow> bool" where
  "life_inv s \<longleftrightarrow> (up (main s) \<longrightarrow> SEND (tsync s)) \<and> (down (main s) \<longrightarrow> \<not> SEND (tsync s) \<and> \<not> SENT (tsync s)) \<and>
     (SEND (tsync s) \<longrightarrow> events_open s) \<and> (main s = MInit \<longrightarrow> events_open s)"

definition send_inv :: "tsys \<Rightarrow> bool" where
  "send_inv s \<longleftrightarrow> (\<forall>i. sends (stops s i) \<longrightarrow> \<not> down (main s) \<and> events_open s)"

definition sent_inv :: "tsys \<Rightarrow> bool" where
  "sent_inv s \<longleftrightarrow> (early (main s) \<and> SENT (tsync s) \<longrightarrow> 0 < pending s \<or> (\<exists>i. stops s i = SWrite))"

definition done_inv :: "tsys \<Rightarrow> bool" where
  "done_inv s \<longleftrightarrow> (\<forall>i. stops s i = SUnlock \<longrightarrow>
     (early (main s) \<longrightarrow> STOP (tsync s) \<or> 0 < pending s) \<and> (down (main s) \<longrightarrow> STOP (tsync s)))"

lemma one_holder: "lock_inv s \<Longrightarrow> holds (stops s i) \<Longrightarrow> holds (stops s j) \<Longrightarrow> j = i"
  by (auto simp: lock_inv_def)

lemma no_other: "lock_inv s \<Longrightarrow> holds (stops s i) \<Longrightarrow> j \<noteq> i \<Longrightarrow> \<not> holds (stops s j)"
  by (auto simp: lock_inv_def)

lemma free_lock: "lock_inv s \<Longrightarrow> \<not> WAIT (tsync s) \<Longrightarrow> \<not> holds (stops s i)"
  by (auto simp: lock_inv_def)

lemma not_holds: "\<not> holds pc \<Longrightarrow> \<not> sends pc \<and> pc \<noteq> SWrite \<and> pc \<noteq> SUnlock"
  by (cases pc) auto

text \<open>A step of a stopping thread; \<open>stop_eq\<close> is what it does to the shared state.\<close>

lemma stop_eq:
  assumes "stop_step pc s = Some (pc', s')"
  shows "main s' = main s" and "stops s' = stops s" and "events_open s' = events_open s" and "pending s \<le> pending s'"
    and "SEND (tsync s') = SEND (tsync s)" and "SENT (tsync s) \<Longrightarrow> SENT (tsync s')" and "STOP (tsync s) \<Longrightarrow> STOP (tsync s')"
    and "SENT (tsync s') \<Longrightarrow> SENT (tsync s) \<or> sends pc"
  using assms by (cases pc; simp split: if_split_asm; auto)+

lemma lock_inv_stop:
  assumes "lock_inv s" and "stop_step (stops s i) s = Some (pc, s')"
  shows "lock_inv (s'\<lparr>stops := (stops s)(i := pc)\<rparr>)"
proof (cases "holds (stops s i)")
  case True
  then have w: "WAIT (tsync s)" using assms(1) by (auto simp: lock_inv_def)
  have "(holds pc \<longleftrightarrow> WAIT (tsync s'))" using True w assms(2) by (cases "stops s i") (auto split: if_split_asm)
  then show ?thesis using no_other [OF assms(1) True] by (auto simp: lock_inv_def)
next
  case False
  show ?thesis
  proof (cases "stops s i = SLock \<and> \<not> WAIT (tsync s)")
    case True
    then show ?thesis using assms free_lock [OF assms(1)] by (auto simp: lock_inv_def)
  next
    case nl: False
    then have k: "\<not> holds pc" "WAIT (tsync s') = WAIT (tsync s)" using False assms(2) by (cases "stops s i"; auto)+
    then have "holds (((stops s)(i := pc)) j) = holds (stops s j)" for j using False by simp
    then show ?thesis using assms(1) k unfolding lock_inv_def by simp
  qed
qed

lemma life_inv_stop:
  assumes "life_inv s" and "send_inv s" and "stop_step (stops s i) s = Some (pc, s')"
  shows "life_inv (s'\<lparr>stops := (stops s)(i := pc)\<rparr>)"
  using assms(1,2) stop_eq [OF assms(3)] unfolding life_inv_def send_inv_def by auto

lemma send_inv_stop:
  assumes "send_inv s" and "life_inv s" and "stop_step (stops s i) s = Some (pc, s')"
  shows "send_inv (s'\<lparr>stops := (stops s)(i := pc)\<rparr>)"
proof -
  have "sends pc \<Longrightarrow> sends (stops s i) \<or> SEND (tsync s)"
    using assms(3) by (cases "stops s i") (auto split: if_split_asm)
  then have "sends pc \<Longrightarrow> \<not> down (main s) \<and> events_open s" using assms(1,2) by (auto simp: send_inv_def life_inv_def)
  then show ?thesis using assms(1) stop_eq [OF assms(3)] by (auto simp: send_inv_def)
qed

lemma sent_inv_stop:
  assumes "sent_inv s" and "lock_inv s" and "stop_step (stops s i) s = Some (pc, s')"
  shows "sent_inv (s'\<lparr>stops := (stops s)(i := pc)\<rparr>)"
proof -
  note e = stop_eq [OF assms(3)]
  have "pc = SWrite \<or> 0 < pending s' \<or> SENT (tsync s) \<and> stops s i \<noteq> SWrite" if "SENT (tsync s')"
    using assms(3) that by (cases "stops s i") (auto split: if_split_asm)
  moreover have "0 < pending s' \<or> (\<exists>j. j \<noteq> i \<and> stops s j = SWrite)" if "early (main s)" "SENT (tsync s)" "stops s i \<noteq> SWrite"
  proof -
    note early = that
    consider "0 < pending s" | j where "stops s j = SWrite" using assms(1) early by (auto simp: sent_inv_def)
    then show ?thesis using e(4) early(3) by cases auto
  qed
  ultimately show ?thesis using e(1,2) unfolding sent_inv_def by (auto simp: fun_upd_apply)
qed

lemma done_inv_stop:
  assumes "done_inv s" and "sent_inv s" and "send_inv s" and "life_inv s" and "lock_inv s" and "stop_step (stops s i) s = Some (pc, s')"
  shows "done_inv (s'\<lparr>stops := (stops s)(i := pc)\<rparr>)"
proof -
  note e = stop_eq [OF assms(6)]
  have "(early (main s) \<longrightarrow> STOP (tsync s') \<or> 0 < pending s') \<and> (down (main s) \<longrightarrow> STOP (tsync s'))" if u: "pc = SUnlock"
  proof (cases "stops s i")
    case (SHave res)
    show ?thesis
    proof (cases "SEND res")
      case True
      then have "sends (stops s i)" using SHave by simp
      then have "\<not> down (main s)" using assms(3) unfolding send_inv_def by blast
      moreover have "SENT (tsync s)" using True SHave assms(6) u by (auto split: if_split_asm)
      moreover have "stops s j \<noteq> SWrite" for j using one_holder [OF assms(5), of i j] SHave by auto
      ultimately show ?thesis using assms(2) e(4) by (auto simp: sent_inv_def)
    qed (use SHave assms(6) in auto)
  next
    case SWrite
    then have "sends (stops s i)" by simp
    then have "\<not> down (main s)" using assms(3) unfolding send_inv_def by blast
    then show ?thesis using SWrite assms(6) by (auto split: if_split_asm)
  qed (use u assms(6) in \<open>auto split: if_split_asm\<close>)
  then show ?thesis using assms(1) e unfolding done_inv_def by (auto simp: fun_upd_apply)
qed

section \<open>Steps of the tunnel's own thread\<close>

definition main_step :: "tsys \<Rightarrow> main_pc \<Rightarrow> tsys \<Rightarrow> bool" where
  "main_step s pc g \<longleftrightarrow> init_step (main s) s pc g \<or> run_step (main s) s = Some (pc, g) \<or>
     event_step (main s) s = Some (pc, g) \<or> fini_step (main s) s = Some (pc, g)"

lemma step_cases:
  assumes "step s s'"
  obtains (stop) i pc g where "stop_step (stops s i) s = Some (pc, g)" and "s' = g\<lparr>stops := (stops s)(i := pc)\<rparr>"
  | (main) pc g where "main_step s pc g" and "s' = g\<lparr>main := pc\<rparr>"
  using assms unfolding main_step_def by (elim stepE) blast+

lemma main_step_cases:
  assumes "main_step s pc g"
  obtains (pair) "main s = MIdle" "pc = MInit" "g = s\<lparr>events_open := True, pending := 0\<rparr>"
  | (fails) "main s = MIdle \<or> main s = MInit" "pc = MFini" "g = s"
  | (ready) "main s = MInit" "pc = MReady" "g = s\<lparr>tsync := tsync s OR SYNC_SEND\<rparr>"
  | (go) "main s = MReady" "\<not> STOP (tsync s)" "pc = MRunning" "g = s\<lparr>tsync := tsync s AND NOT SYNC_STOP, running := True\<rparr>"
  | (cancel) "main s = MReady" "STOP (tsync s)" "pc = MFini" "g = s\<lparr>tsync := tsync s AND NOT SYNC_STOP\<rparr>"
  | (read) "main s = MRunning" "0 < pending s" "pc = MGot" "g = s\<lparr>pending := pending s - 4\<rparr>"
  | (quit) "main s = MGot" "pc = MQuit" "g = s\<lparr>running := False\<rparr>"
  | (clear) "main s = MQuit" "pc = MEnding" "g = s\<lparr>tsync := tsync s AND NOT SYNC_SENT\<rparr>"
  | (ends) "main s = MEnding" "pc = MFini" "g = s"
  | (spin) "main s = MFini" "WAIT (tsync s)" "pc = MFini" "g = s\<lparr>tsync := tsync s AND NOT (SYNC_SEND OR SYNC_SENT)\<rparr>"
  | (free) "main s = MFini" "\<not> WAIT (tsync s)" "pc = MClose" "g = s\<lparr>tsync := tsync s AND NOT (SYNC_SEND OR SYNC_SENT)\<rparr>"
  | (shut) "main s = MClose" "pc = MIdle" "g = s\<lparr>events_open := False, pending := 0\<rparr>"
proof -
  consider "init_step (main s) s pc g" | "run_step (main s) s = Some (pc, g)" | "event_step (main s) s = Some (pc, g)"
    | "fini_step (main s) s = Some (pc, g)" using assms unfolding main_step_def by blast
  then show thesis
  proof cases
    case 1
    then show thesis by (cases rule: init_step.cases) (use that in auto)
  next
    case 2
    then have m: "main s = MReady" by (cases "main s") auto
    show thesis
    proof (cases "STOP (tsync s)")
      case True
      show thesis by (rule cancel) (use 2 m True in \<open>auto simp: Let_def\<close>)
    next
      case False
      show thesis by (rule go) (use 2 m False in \<open>auto simp: Let_def\<close>)
    qed
  next
    case 3
    then consider "main s = MRunning" | "main s = MGot" | "main s = MQuit" | "main s = MEnding" by (cases "main s") auto
    then show thesis
    proof cases
      case 1
      show thesis by (rule read) (use 3 1 in \<open>auto split: if_split_asm\<close>)
    next
      case 2
      show thesis by (rule quit) (use 3 2 in auto)
    next
      case c: 3
      show thesis by (rule clear) (use 3 c in auto)
    next
      case 4
      show thesis by (rule ends) (use 3 4 in auto)
    qed
  next
    case 4
    then consider "main s = MFini" "WAIT (tsync s)" | "main s = MFini" "\<not> WAIT (tsync s)" | "main s = MClose"
      by (cases "main s") auto
    then show thesis
    proof cases
      case 1
      show thesis by (rule spin) (use 4 1 in auto)
    next
      case 2
      show thesis by (rule free) (use 4 2 in auto)
    next
      case 3
      show thesis by (rule shut) (use 4 3 in auto)
    qed
  qed
qed

lemma inv_main:
  assumes "main_step s pc g" and "lock_inv s" and "life_inv s" and "send_inv s" and "sent_inv s" and "done_inv s"
  shows "lock_inv (g\<lparr>main := pc\<rparr>)" and "life_inv (g\<lparr>main := pc\<rparr>)" and "send_inv (g\<lparr>main := pc\<rparr>)"
    and "sent_inv (g\<lparr>main := pc\<rparr>)" and "done_inv (g\<lparr>main := pc\<rparr>)"
proof -
  have free: "\<not> sends (stops s i) \<and> stops s i \<noteq> SUnlock" if "\<not> WAIT (tsync s)" for i
    using free_lock [OF assms(2) that, of i] not_holds [of "stops s i"] by blast
  note inv = assms(2-6) [unfolded lock_inv_def life_inv_def send_inv_def sent_inv_def done_inv_def]
  show "lock_inv (g\<lparr>main := pc\<rparr>)" using assms(1) inv(1)
    by (cases rule: main_step_cases) (simp_all add: lock_inv_def)
  show "life_inv (g\<lparr>main := pc\<rparr>)" using assms(1) inv(2)
    by (cases rule: main_step_cases) (simp_all add: life_inv_def mode_defs)
  show "send_inv (g\<lparr>main := pc\<rparr>)" using assms(1) inv(2,3) free
    by (cases rule: main_step_cases) (auto simp: send_inv_def mode_defs)
  show "sent_inv (g\<lparr>main := pc\<rparr>)" using assms(1) inv(2,4)
    by (cases rule: main_step_cases) (simp_all add: sent_inv_def mode_defs)
  show "done_inv (g\<lparr>main := pc\<rparr>)" using assms(1) inv(5) free
    by (cases rule: main_step_cases) (auto simp: done_inv_def mode_defs)
qed

lemma reachable_inv: "reachable s \<Longrightarrow> lock_inv s \<and> life_inv s \<and> send_inv s \<and> sent_inv s \<and> done_inv s"
proof (induction rule: reachable.induct)
  case start
  show ?case by (simp add: tsys_start_def lock_inv_def life_inv_def send_inv_def sent_inv_def done_inv_def mode_defs)
next
  case (more s s')
  from more(2) show ?case
  proof (cases rule: step_cases)
    case (stop i pc g)
    then show ?thesis using more(3) lock_inv_stop life_inv_stop send_inv_stop sent_inv_stop done_inv_stop by blast
  next
    case (main pc g)
    then show ?thesis using more(3) inv_main [OF main(1)] by blast
  qed
qed

section \<open>Stopping is safe\<close>

text \<open>
  C5: In every interleaving of the tunnel's thread with any number of stopping threads, at most one
  stopping thread is inside, none of them ever writes to a socket pair that is closed, and
  finalisation does not close it while a thread that is inside may still write.
\<close>

theorem tunnel_stop_safe:
  assumes "reachable s"
  shows "(\<forall>i. stop_step (stops s i) s \<noteq> None) \<and> (\<forall>i j. holds (stops s i) \<and> holds (stops s j) \<longrightarrow> i = j) \<and>
     (\<forall>i. sends (stops s i) \<longrightarrow> events_open s \<and> main s \<noteq> MClose)"
proof -
  have lock: "lock_inv s" and send: "send_inv s" using reachable_inv [OF assms] by blast+
  have alive: "events_open s \<and> \<not> down (main s)" if "sends (stops s i)" for i using send that unfolding send_inv_def by blast
  have "stop_step (stops s i) s \<noteq> None" for i
  proof (cases "stops s i")
    case SWrite
    then show ?thesis using alive [of i] by simp
  qed auto
  moreover have "events_open s \<and> main s \<noteq> MClose" if "sends (stops s i)" for i using alive [OF that] by (auto simp: down_def)
  ultimately show ?thesis using lock by (simp add: lock_inv_def)
qed

text \<open>Executions, for the examples.\<close>

lemma more_stop:
  assumes "reachable s" and "stop_step (stops s i) s = Some (pc, g)"
  shows "reachable (g\<lparr>stops := (stops s)(i := pc)\<rparr>)"
  using reachable.more [OF assms(1) step.stop [OF assms(2)]] .

definition tsys_at :: "u32 \<Rightarrow> bool \<Rightarrow> bool \<Rightarrow> nat \<Rightarrow> main_pc \<Rightarrow> stop_pc \<Rightarrow> tsys" where
  "tsys_at t r e n m pc = \<lparr>tsync = t, running = r, events_open = e, pending = n, main = m, stops = (\<lambda>_. SIdle)(0 := pc)\<rparr>"

lemma at_start: "reachable (tsys_at 0 False False 0 MIdle SIdle)"
proof -
  have "(\<lambda>_ :: nat. SIdle)(0 := SIdle) = (\<lambda>_. SIdle)" by auto
  then show ?thesis using reachable.start by (simp add: tsys_at_def tsys_start_def)
qed

lemma at_stop:
  assumes "reachable (tsys_at t r e n m pc)"
    and "stop_step pc \<lparr>tsync = t, running = r, events_open = e, pending = n\<rparr> =
       Some (pc', \<lparr>tsync = t', running = r', events_open = e', pending = n'\<rparr>)"
  shows "reachable (tsys_at t' r' e' n' m pc')"
proof -
  let ?s = "tsys_at t r e n m pc" and ?g = "(tsys_at t r e n m pc)\<lparr>tsync := t', running := r', events_open := e', pending := n'\<rparr>"
  have "stop_step (stops ?s 0) ?s = Some (pc', ?g)"
    using assms(2) by (cases pc) (auto simp: tsys_at_def split: if_split_asm)
  from more_stop [OF assms(1) this] show ?thesis by (simp add: tsys_at_def)
qed

lemma at_enter: "reachable (tsys_at t r e n m SIdle) \<Longrightarrow> reachable (tsys_at t r e n m SLock)"
  by (erule at_stop) simp

lemma at_lock: "reachable (tsys_at t r e n m SLock) \<Longrightarrow> \<not> WAIT t \<Longrightarrow> reachable (tsys_at (t OR SYNC_WAIT) r e n m (SHave t))"
  by (erule at_stop) simp

lemma at_sent:
  "reachable (tsys_at t r e n m (SHave v)) \<Longrightarrow> SEND v \<Longrightarrow> \<not> SENT t \<Longrightarrow> reachable (tsys_at (t OR SYNC_SENT) r e n m SWrite)"
  by (erule at_stop) simp

lemma at_stopped: "reachable (tsys_at t r e n m (SHave v)) \<Longrightarrow> \<not> SEND v \<Longrightarrow> reachable (tsys_at (t OR SYNC_STOP) r e n m SUnlock)"
  by (erule at_stop) simp

lemma at_write: "reachable (tsys_at t r True n m SWrite) \<Longrightarrow> reachable (tsys_at t r True (n + 1) m SUnlock)"
  by (erule at_stop) simp

lemma at_unlock: "reachable (tsys_at t r e n m SUnlock) \<Longrightarrow> reachable (tsys_at (t AND NOT SYNC_WAIT) r e n m SIdle)"
  by (erule at_stop) simp

lemma at_pair: "reachable (tsys_at t r e n MIdle pc) \<Longrightarrow> reachable (tsys_at t r True 0 MInit pc)"
  using reachable.more [OF _ step.init, of "tsys_at t r e n MIdle pc"] init_pair by (fastforce simp: tsys_at_def)

lemma at_ready: "reachable (tsys_at t r e n MInit pc) \<Longrightarrow> reachable (tsys_at (t OR SYNC_SEND) r e n MReady pc)"
  using reachable.more [OF _ step.init, of "tsys_at t r e n MInit pc"] init_done by (fastforce simp: tsys_at_def)

lemma at_run: "reachable (tsys_at t r e n MReady pc) \<Longrightarrow> \<not> STOP t \<Longrightarrow> reachable (tsys_at (t AND NOT SYNC_STOP) True e n MRunning pc)"
  using reachable.more [OF _ step.run, of "tsys_at t r e n MReady pc"] by (fastforce simp: tsys_at_def)

lemma at_running: "reachable (tsys_at 1 True True 0 MRunning SIdle)"
  using at_run [OF at_ready [OF at_pair [OF at_start]]] by (simp add: has_defs sync_defs)

lemma at_writing: "reachable (tsys_at 7 True True 0 MRunning SWrite)"
  using at_sent [OF at_lock [OF at_enter [OF at_running]]] by (simp add: has_defs sync_defs)

lemma at_written: "reachable (tsys_at 7 True True 1 MRunning SUnlock)"
  using at_write [OF at_writing] by simp

lemma tunnel_stop_safe_witness:
  "\<exists>s. reachable s \<and> stops s 0 = SWrite \<and> main s = MRunning \<and> (\<forall>i. stop_step (stops s i) s \<noteq> None)"
proof (intro exI conjI)
  show "reachable (tsys_at 7 True True 0 MRunning SWrite)" by (rule at_writing)
  show "\<forall>i. stop_step (stops (tsys_at 7 True True 0 MRunning SWrite) i) (tsys_at 7 True True 0 MRunning SWrite) \<noteq> None"
    by (rule conjunct1 [OF tunnel_stop_safe [OF at_writing]])
qed (simp_all add: tsys_at_def)

section \<open>Stopping has an effect\<close>

lemma early_step:
  assumes "step s s'" and "early (main s)" and "0 < pending s"
  shows "early (main s') \<and> 0 < pending s' \<or> main s' = MGot \<or> main s' = MFini"
  using assms(1)
proof (cases rule: step_cases)
  case (stop i pc g)
  then show ?thesis using stop_eq [OF stop(1)] assms(2,3) by auto
next
  case (main pc g)
  from main(1) show ?thesis
    by (cases rule: main_step_cases) (use main(2) assms(2,3) in \<open>auto simp: early_def\<close>)
qed

text \<open>
  C35: A stop that finds an initialised tunnel is not lost: when the thread that stops is about to give
  the lock back, has not left the stop for a later run and the tunnel has not begun to end, there is
  a byte for the event task to read; whatever happens then, the tunnel either begins to end or the
  byte is still there, and once the task system runs the event task can take it.
\<close>

theorem tunnel_stop_effective:
  assumes "reachable s" and "stops s i = SUnlock" and "\<not> STOP (tsync s)" and "main s = MReady \<or> main s = MRunning"
    and "step\<^sup>*\<^sup>* s s'"
  shows "(main s' = MReady \<or> main s' = MRunning) \<and> 0 < pending s' \<and> (main s' = MRunning \<longrightarrow> (\<exists>u. step s' u \<and> main u = MGot)) \<or>
     (\<exists>u. step\<^sup>*\<^sup>* s u \<and> step\<^sup>*\<^sup>* u s' \<and> (main u = MGot \<or> main u = MFini))"
proof -
  have start: "early (main s) \<and> 0 < pending s"
    using reachable_inv [OF assms(1)] assms(2-4) by (auto simp: done_inv_def early_def)
  have "early (main s') \<and> 0 < pending s' \<or> (\<exists>u. step\<^sup>*\<^sup>* s u \<and> step\<^sup>*\<^sup>* u s' \<and> (main u = MGot \<or> main u = MFini))"
    using assms(5)
  proof (induction rule: rtranclp_induct)
    case (step t t')
    from step.IH show ?case
    proof (elim disjE exE conjE)
      assume "early (main t)" "0 < pending t"
      from early_step [OF step.hyps(2) this] consider "early (main t') \<and> 0 < pending t'" | "main t' = MGot \<or> main t' = MFini"
        by blast
      then show ?case using rtranclp.rtrancl_into_rtrancl [OF step.hyps] by cases blast+
    next
      fix u
      assume "step\<^sup>*\<^sup>* s u" "step\<^sup>*\<^sup>* u t"
      then show "main u = MGot \<Longrightarrow> ?case" "main u = MFini \<Longrightarrow> ?case"
        using rtranclp.rtrancl_into_rtrancl [of step u t t'] step.hyps(2) by blast+
    qed
  qed (use start in simp)
  moreover have "\<exists>u. step s' u \<and> main u = MGot" if "main s' = MRunning" "0 < pending s'"
  proof -
    have "event_step (main s') s' = Some (MGot, s'\<lparr>pending := pending s' - 4\<rparr>)" using that by simp
    from step.event [OF this] show ?thesis by fastforce
  qed
  ultimately show ?thesis by (auto simp: early_def)
qed

definition stop_written :: tsys where
  "stop_written = tsys_at 7 True True 1 MRunning SUnlock"

lemma tunnel_stop_effective_witness:
  "(main stop_written = MReady \<or> main stop_written = MRunning) \<and> 0 < pending stop_written \<and>
     (main stop_written = MRunning \<longrightarrow> (\<exists>u. step stop_written u \<and> main u = MGot)) \<or>
     (\<exists>u. step\<^sup>*\<^sup>* stop_written u \<and> step\<^sup>*\<^sup>* u stop_written \<and> (main u = MGot \<or> main u = MFini))"
proof (rule tunnel_stop_effective)
  show "reachable stop_written" unfolding stop_written_def by (rule at_written)
  show "stops stop_written 0 = SUnlock" "\<not> STOP (tsync stop_written)" "main stop_written = MReady \<or> main stop_written = MRunning"
    by (simp_all add: stop_written_def tsys_at_def has_defs)
qed simp

text \<open>
  C36: A stop that meets the initialisation can be lost: when it has found the tunnel not yet
  initialised and the tunnel is initialised and run before it records that, the tunnel runs on with
  the stop completed, no byte to read and no stopping thread left, and the record that is left
  behind cancels the next run instead.
\<close>

theorem tunnel_stop_lost:
  "\<exists>s. reachable s \<and> main s = MRunning \<and> running s \<and> pending s = 0 \<and> (\<forall>i. stops s i = SIdle) \<and> STOP (tsync s) \<and>
     (\<forall>g :: shared. run_step MReady (g\<lparr>tsync := tsync s\<rparr>) = Some (MFini, g\<lparr>tsync := tsync s AND NOT SYNC_STOP\<rparr>))"
proof -
  have "reachable (tsys_at 4 False True 0 MInit (SHave 0))"
    using at_lock [OF at_enter [OF at_pair [OF at_start]]] by (simp add: sync_defs)
  from at_run [OF at_ready [OF this]] have "reachable (tsys_at 5 True True 0 MRunning (SHave 0))" by (simp add: has_defs sync_defs)
  from at_unlock [OF at_stopped [OF this]] have r: "reachable (tsys_at 9 True True 0 MRunning SIdle)" by (simp add: sync_defs)
  show ?thesis
  proof (intro exI conjI)
    show "reachable (tsys_at 9 True True 0 MRunning SIdle)" by (rule r)
  qed (simp_all add: tsys_at_def has_defs Let_def)
qed

end
