(* ===== verification/Tunnel_Sessions.thy ===== *)
theory Tunnel_Sessions
  imports Hev_List Session_Udp
begin

text \<open>
  The sessions of the tunnel, \<open>hev-socks5-tunnel.c\<close>: a list in the order of their last activity, their
  number, the callbacks that lwIP calls for a new connection or a new flow of datagrams, and the end of
  all sessions when the tunnel stops. A session is known by the address of its list node; of the object
  only the base is needed here.
\<close>

section \<open>The list of sessions\<close>

record tunnel =
  session_set :: dlist
  session_count :: int
  sess :: "ptr \<rightharpoonup> socks5"

text \<open>A new object, with a cleared list node, and the release of the last reference.\<close>

definition sess_alloc :: "ptr \<Rightarrow> socks5 \<Rightarrow> tunnel \<Rightarrow> tunnel" where
  "sess_alloc node obj t = t\<lparr>session_set := (session_set t)\<lparr>l_mem := (l_mem (session_set t))(node \<mapsto> \<lparr>ln_next = 0, ln_prev = 0\<rparr>)\<rparr>,
     sess := (sess t)(node \<mapsto> obj)\<rparr>"

definition sess_free :: "ptr \<Rightarrow> tunnel \<Rightarrow> tunnel" where
  "sess_free node t = t\<lparr>session_set := (session_set t)\<lparr>l_mem := (l_mem (session_set t))(node := None)\<rparr>, sess := (sess t)(node := None)\<rparr>"

definition terminate_at :: "ptr \<Rightarrow> tunnel \<Rightarrow> tunnel option" where
  "terminate_at node t = map_option (\<lambda>s. t\<lparr>sess := (sess t)(node \<mapsto> hev_socks5_session_terminate s)\<rparr>) (sess t node)"

definition hev_socks5_tunnel_insert_session :: "int \<Rightarrow> ptr \<Rightarrow> tunnel \<Rightarrow> tunnel option" where
  "hev_socks5_tunnel_insert_session max_session_count node t = do {
     l \<leftarrow> hev_list_add_tail (session_set t) node;
     let t = t\<lparr>session_set := l, session_count := session_count t + 1\<rparr>;
     if max_session_count = 0 \<or> session_count t < max_session_count then Some t
     else terminate_at (hev_list_first (session_set t)) t
   }"

definition hev_socks5_tunnel_delete_session :: "ptr \<Rightarrow> tunnel \<Rightarrow> tunnel option" where
  "hev_socks5_tunnel_delete_session node t = do {
     l \<leftarrow> hev_list_del (session_set t) node;
     Some (t\<lparr>session_set := l, session_count := session_count t - 1\<rparr>)
   }"

definition hev_socks5_tunnel_update_session :: "int \<Rightarrow> ptr \<Rightarrow> tunnel \<Rightarrow> tunnel option" where
  "hev_socks5_tunnel_update_session max_session_count node t =
     (if max_session_count = 0 then Some t
      else do {
        l \<leftarrow> hev_list_del (session_set t) node;
        l \<leftarrow> hev_list_add_tail l node;
        Some (t\<lparr>session_set := l\<rparr>)
      })"

text \<open>
  The end of \<open>hev_socks5_session_task_entry\<close>, after the session has run. The destructor takes the mutex of
  the tunnel, which is free unless the task of lwIP has locked itself out (below).
\<close>

definition session_task_end :: "ptr \<Rightarrow> tunnel \<Rightarrow> tunnel option" where
  "session_task_end node t = map_option (sess_free node) (hev_socks5_tunnel_delete_session node t)"

text \<open>The loop of the event task over all sessions.\<close>

partial_function (option) terminate_all :: "ptr \<Rightarrow> tunnel \<Rightarrow> tunnel option" where
  "terminate_all node t = (if node = 0 then Some t else do {
     t \<leftarrow> terminate_at node t;
     m \<leftarrow> hev_list_node_next (session_set t) node;
     terminate_all m t
   })"

section \<open>The mutex of the tunnel\<close>

text \<open>
  \<open>hev_task_mutex_lock\<close>, called while nobody but the calling task itself may hold the mutex; \<open>locker\<close>
  tells whether it does. The mutex does not know its owner: a task that holds it and asks for it again
  waits for a wake-up that only it could give, which is \<open>None\<close>.
\<close>

definition hev_task_mutex_lock :: "bool \<Rightarrow> bool option" where
  "hev_task_mutex_lock locker = (if locker then None else Some True)"

text \<open>The task of lwIP hands a packet to lwIP, and so calls the callbacks, with the mutex held.\<close>

definition lwip_io_input :: "(bool \<Rightarrow> 'a option) \<Rightarrow> 'a option" where
  "lwip_io_input input = do { locker \<leftarrow> hev_task_mutex_lock False; input locker }"

text \<open>\<open>hev_object_unref\<close> of the last reference: the destructors of both sessions take the mutex.\<close>

definition sess_unref :: "bool \<Rightarrow> ptr \<Rightarrow> tunnel \<Rightarrow> tunnel option" where
  "sess_unref locker node t = do { _ \<leftarrow> hev_task_mutex_lock locker; Some (sess_free node t) }"

section \<open>New connections\<close>

datatype err = ERR_OK | ERR_MEM | ERR_RST | ERR_ABRT | ERR_OTHER

text \<open>
  \<open>new\<close> is the session, or NULL, and \<open>task\<close> whether there is memory for its task. The second part of
  the result tells whether the PCB is still there: the destructor of a session aborts its connection.
\<close>

definition tcp_accept_handler ::
  "int \<Rightarrow> bool \<Rightarrow> bool \<Rightarrow> err \<Rightarrow> (ptr \<times> socks5) option \<Rightarrow> bool \<Rightarrow> tunnel \<Rightarrow> (err \<times> bool \<times> tunnel) option" where
  "tcp_accept_handler max_session_count locker running err new task t =
     (if err \<noteq> ERR_OK then Some (err, True, t)
      else if \<not> running then Some (ERR_RST, True, t)
      else case new of
        None \<Rightarrow> Some (ERR_MEM, True, t)
      | Some (node, obj) \<Rightarrow>
          let t = sess_alloc node obj t in
          if \<not> task then map_option (\<lambda>t. (ERR_MEM, False, t)) (sess_unref locker node t)
          else map_option (\<lambda>t. (ERR_OK, True, t)) (hev_socks5_tunnel_insert_session max_session_count node t))"

text \<open>What lwIP does with the answer; to abort a PCB that is gone is a use after free.\<close>

definition tcp_process_accept :: "(err \<times> bool \<times> tunnel) option \<Rightarrow> (err \<times> bool \<times> tunnel) option" where
  "tcp_process_accept m = do {
     (err, live, t) \<leftarrow> m;
     if err \<noteq> ERR_OK then
       if err \<noteq> ERR_ABRT then (if live then Some (ERR_ABRT, False, t) else None)
       else Some (ERR_ABRT, live, t)
     else Some (err, live, t)
   }"

text \<open>A new flow of datagrams: it is refused, answered by the mapped DNS, or gets a session.\<close>

datatype flow_fate = Flow_Removed | Flow_Dns | Flow_Session

definition is_dns_server :: "config \<Rightarrow> bool \<Rightarrow> lwip_addr \<Rightarrow> u16 \<Rightarrow> bool" where
  "is_dns_server c dns addr port \<longleftrightarrow> dns \<and> ip_type addr = IPADDR_V4 \<and>
     hev_config_get_mapdns_port c = uint port \<and> hev_config_get_mapdns_address c = load32 (ip_bytes addr)"

definition tunnel_udp_recv_handler ::
  "config \<Rightarrow> bool \<Rightarrow> bool \<Rightarrow> bool \<Rightarrow> lwip_addr \<Rightarrow> u16 \<Rightarrow> (ptr \<times> socks5) option \<Rightarrow> bool \<Rightarrow> tunnel \<Rightarrow> (flow_fate \<times> tunnel) option" where
  "tunnel_udp_recv_handler c locker running dns addr port new task t =
     (if \<not> running then Some (Flow_Removed, t)
      else if is_dns_server c dns addr port then Some (Flow_Dns, t)
      else case new of
        None \<Rightarrow> Some (Flow_Removed, t)
      | Some (node, obj) \<Rightarrow>
          let t = sess_alloc node obj t in
          if \<not> task then map_option (Pair Flow_Removed) (sess_unref locker node t)
          else map_option (\<lambda>t. (Flow_Session, t)) (hev_socks5_tunnel_insert_session (hev_config_get_misc_max_session_count c) node t))"

section \<open>What happens to the sessions\<close>

text \<open>\<open>holds_sessions t xs\<close>: the sessions \<open>xs\<close>, and no others, with their objects and their number.\<close>

definition holds_sessions :: "tunnel \<Rightarrow> ptr list \<Rightarrow> bool" where
  "holds_sessions t xs \<longleftrightarrow> list_at (session_set t) xs \<and> session_count t = int (length xs) \<and>
     dom (sess t) = set xs \<and> dom (l_mem (session_set t)) = set xs"

definition over :: "tunnel \<Rightarrow> ptr set" where
  "over t = {n. \<exists>s. sess t n = Some s \<and> s_timeout s = 0}"

lemma holds_sessionsD:
  assumes "holds_sessions t xs"
  shows "list_at (session_set t) xs" "session_count t = int (length xs)" "dom (sess t) = set xs" "dom (l_mem (session_set t)) = set xs"
    "distinct xs" "0 \<notin> set xs"
  using assms dl.nonnull [of "session_set t" xs] by (auto simp: holds_sessions_def)

lemma terminated_timeout [simp]: "s_timeout (hev_socks5_session_terminate s) = 0"
  by (simp add: hev_socks5_session_terminate_def hev_socks5_set_timeout_def)

lemma terminate_at_form:
  assumes "holds_sessions t xs" and "n \<in> set xs"
  shows "\<exists>t'. terminate_at n t = Some t' \<and> holds_sessions t' xs \<and> over t' = insert n (over t) \<and> session_set t' = session_set t"
proof -
  obtain s where s: "sess t n = Some s" using holds_sessionsD(3) [OF assms(1)] assms(2) by auto
  let ?t = "t\<lparr>sess := (sess t)(n \<mapsto> hev_socks5_session_terminate s)\<rparr>"
  have "over ?t = insert n (over t)" by (auto simp: over_def)
  moreover have "holds_sessions ?t xs" using assms by (auto simp: holds_sessions_def)
  ultimately show ?thesis using s by (auto simp: terminate_at_def)
qed

lemma list_frame_mem: "list_at l xs \<Longrightarrow> n \<notin> set xs \<Longrightarrow> list_at (l\<lparr>l_mem := (l_mem l)(n := v)\<rparr>) xs"
  by (simp add: list_at_def chain_frame)

lemma insert_form:
  assumes "holds_sessions t xs" and "n \<notin> set xs" and "n \<noteq> 0"
  shows "\<exists>t'. hev_socks5_tunnel_insert_session m n (sess_alloc n obj t) = Some t' \<and> holds_sessions t' (xs @ [n]) \<and>
     over t' = over t \<union> (if s_timeout obj = 0 then {n} else {}) \<union>
       (if m \<noteq> 0 \<and> m \<le> int (length xs) + 1 then {hd (xs @ [n])} else {})"
proof -
  note h = holds_sessionsD [OF assms(1)]
  let ?t = "sess_alloc n obj t"
  have at: "list_at (session_set ?t) xs" "n \<in> dom (l_mem (session_set ?t))"
    using list_frame_mem [OF h(1) assms(2)] by (simp_all add: sess_alloc_def)
  obtain l where l: "hev_list_add_tail (session_set ?t) n = Some l" "list_at l (xs @ [n])"
    using wpD [OF dl.add_law [OF at assms(2,3)]] by blast
  let ?t1 = "?t\<lparr>session_set := l, session_count := session_count ?t + 1\<rparr>"
  have "dom (l_mem l) = dom (l_mem (session_set ?t))" using dl.mapped_add [OF l(1)] by blast
  then have t1: "holds_sessions ?t1 (xs @ [n])" using l(2) h by (auto simp: holds_sessions_def sess_alloc_def)
  have "n \<notin> dom (sess t)" using h(3) assms(2) by simp
  then have o1: "over ?t1 = over t \<union> (if s_timeout obj = 0 then {n} else {})" by (auto simp: over_def sess_alloc_def)
  have cnt: "session_count ?t1 = int (length xs) + 1" using h(2) by (simp add: sess_alloc_def)
  have first: "hev_list_first l = hd (xs @ [n])" using dl.first_law [OF l(2)] by simp
  have "hd (xs @ [n]) \<in> set (xs @ [n])" by (rule hd_in_set) simp
  from terminate_at_form [OF t1 this] obtain t2 where t2: "terminate_at (hd (xs @ [n])) ?t1 = Some t2" "holds_sessions t2 (xs @ [n])"
    "over t2 = insert (hd (xs @ [n])) (over ?t1)" by blast
  have run: "hev_socks5_tunnel_insert_session m n ?t =
     (if m = 0 \<or> int (length xs) + 1 < m then Some ?t1 else terminate_at (hd (xs @ [n])) ?t1)"
    using l(1) cnt first by (simp add: hev_socks5_tunnel_insert_session_def Let_def)
  show ?thesis
  proof (cases "m = 0 \<or> int (length xs) + 1 < m")
    case True
    then show ?thesis using run t1 o1 by auto
  next
    case False
    then show ?thesis using run t2 o1 by auto
  qed
qed

lemma update_form:
  assumes "holds_sessions t xs" and "n \<in> set xs"
  shows "\<exists>t'. hev_socks5_tunnel_update_session m n t = Some t' \<and>
     holds_sessions t' (if m = 0 then xs else remove1 n xs @ [n]) \<and> over t' = over t"
proof (cases "m = 0")
  case True
  then show ?thesis using assms(1) by (simp add: hev_socks5_tunnel_update_session_def)
next
  case False
  note h = holds_sessionsD [OF assms(1)]
  have "n \<in> dom (l_mem (session_set t))" using h(4) assms(2) by simp
  from wpD [OF dl.move_to_tail [OF h(1) assms(2) this]] obtain l1 l where
    l: "hev_list_del (session_set t) n = Some l1" "hev_list_add_tail l1 n = Some l" "list_at l (remove1 n xs @ [n])"
    by (auto simp: bind_eq_Some_conv)
  have "dom (l_mem l) = dom (l_mem (session_set t))" using dl.mapped_add [OF l(2)] dl.mapped_del [OF l(1)] by blast
  moreover have "set (remove1 n xs @ [n]) = set xs" using h(5) assms(2) by auto
  moreover have "length (remove1 n xs @ [n]) = length xs"
    using assms(2) by (simp add: length_remove1) (metis Suc_pred length_pos_if_in_set)
  ultimately have "holds_sessions (t\<lparr>session_set := l\<rparr>) (remove1 n xs @ [n])"
    using l(3) h unfolding holds_sessions_def by simp
  then show ?thesis using False l by (auto simp: hev_socks5_tunnel_update_session_def over_def)
qed

lemma end_form:
  assumes "holds_sessions t xs" and "n \<in> set xs"
  shows "\<exists>t'. session_task_end n t = Some t' \<and> holds_sessions t' (remove1 n xs) \<and> over t' = over t - {n}"
proof -
  note h = holds_sessionsD [OF assms(1)]
  from wpD [OF dl.mem_del [OF h(1) assms(2)]] obtain l where
    l: "hev_list_del (session_set t) n = Some l" "list_at l (remove1 n xs)" by blast
  have d: "dom (l_mem l) = set xs" using dl.mapped_del [OF l(1)] h(4) by blast
  have s: "set (remove1 n xs) = set xs - {n}" "n \<notin> set (remove1 n xs)" using h(5) by auto
  let ?t = "sess_free n (t\<lparr>session_set := l, session_count := session_count t - 1\<rparr>)"
  have "int (length (remove1 n xs)) = int (length xs) - 1"
    using assms(2) length_pos_if_in_set [OF assms(2)] by (cases "length xs") (auto simp: length_remove1)
  then have "holds_sessions ?t (remove1 n xs)"
    using list_frame_mem [OF l(2) s(2)] h d s(1) by (auto simp: holds_sessions_def sess_free_def)
  moreover have "over ?t = over t - {n}" by (auto simp: over_def sess_free_def)
  ultimately show ?thesis using l(1) by (auto simp: session_task_end_def hev_socks5_tunnel_delete_session_def)
qed

lemma terminate_all_from:
  assumes "holds_sessions t zs"
  shows "zs = xs @ ys \<Longrightarrow> \<exists>t'. terminate_all (if ys = [] then 0 else hd ys) t = Some t' \<and> holds_sessions t' zs \<and> over t' = over t \<union> set ys"
  using assms
proof (induction ys arbitrary: xs t)
  case Nil
  then show ?case by (simp add: terminate_all.simps)
next
  case (Cons y ys)
  note h = holds_sessionsD [OF Cons.prems(2)]
  have y: "y \<in> set zs" "y \<noteq> 0" using Cons.prems(1) h(6) by auto
  from terminate_at_form [OF Cons.prems(2) y(1)] obtain t1 where
    t1: "terminate_at y t = Some t1" "holds_sessions t1 zs" "over t1 = insert y (over t)" "session_set t1 = session_set t" by blast
  have "hev_list_node_next (session_set t) y = Some (if ys = [] then 0 else hd ys)"
    using Cons.prems(1) h(1) by (intro list_next_at) auto
  moreover obtain t2 where "terminate_all (if ys = [] then 0 else hd ys) t1 = Some t2" "holds_sessions t2 zs" "over t2 = over t1 \<union> set ys"
    using Cons.IH [of "xs @ [y]" t1] Cons.prems(1) t1(2) by auto
  ultimately show ?case using y(2) t1 by (subst terminate_all.simps) auto
qed

section \<open>The order of activity\<close>

datatype sess_event = Insert ptr socks5 | Active ptr | Finish ptr | Stop_All

fun sess_exec :: "int \<Rightarrow> sess_event list \<Rightarrow> tunnel \<Rightarrow> tunnel option" where
  "sess_exec m [] t = Some t"
| "sess_exec m (Insert n obj # es) t = Option.bind (hev_socks5_tunnel_insert_session m n (sess_alloc n obj t)) (sess_exec m es)"
| "sess_exec m (Active n # es) t = Option.bind (hev_socks5_tunnel_update_session m n t) (sess_exec m es)"
| "sess_exec m (Finish n # es) t = Option.bind (session_task_end n t) (sess_exec m es)"
| "sess_exec m (Stop_All # es) t = Option.bind (terminate_all (hev_list_first (session_set t)) t) (sess_exec m es)"

text \<open>The same, on the sequence of sessions and the set of those that are over; \<open>None\<close> for what cannot happen.\<close>

fun lru :: "int \<Rightarrow> sess_event list \<Rightarrow> ptr list \<times> ptr set \<Rightarrow> (ptr list \<times> ptr set) option" where
  "lru m [] s = Some s"
| "lru m (Insert n obj # es) (xs, dead) =
     (if n \<in> set xs \<or> n = 0 \<or> s_timeout obj = 0 then None
      else lru m es (xs @ [n], if m \<noteq> 0 \<and> m \<le> int (length xs) + 1 then insert (hd (xs @ [n])) dead else dead))"
| "lru m (Active n # es) (xs, dead) =
     (if n \<notin> set xs then None else lru m es (if m = 0 then xs else remove1 n xs @ [n], dead))"
| "lru m (Finish n # es) (xs, dead) = (if n \<notin> set xs then None else lru m es (remove1 n xs, dead - {n}))"
| "lru m (Stop_All # es) (xs, dead) = lru m es (xs, dead \<union> set xs)"

text \<open>
  C7: The list of sessions is a list in the order of their last activity: a new session is appended,
  an active one moves to the end, one that has finished is removed and its memory given back, and when
  there are as many as the limit exactly the one that was inactive for longest is told to end. The
  counter is the length, and stopping ends all of them.
\<close>

theorem session_set_lru:
  assumes "holds_sessions t xs" and "lru m es (xs, over t) = Some (ys, dead)"
  shows "\<exists>t'. sess_exec m es t = Some t' \<and> holds_sessions t' ys \<and> over t' = dead"
  using assms
proof (induction es arbitrary: t xs)
  case (Cons e es)
  show ?case
  proof (cases e)
    case (Insert n obj)
    then have n: "n \<notin> set xs" "n \<noteq> 0" "s_timeout obj \<noteq> 0" using Cons.prems(2) by (auto split: if_split_asm)
    from insert_form [OF Cons.prems(1) n(1,2), of m obj] n(3) obtain t1 where
      t1: "hev_socks5_tunnel_insert_session m n (sess_alloc n obj t) = Some t1" "holds_sessions t1 (xs @ [n])"
        "over t1 = (if m \<noteq> 0 \<and> m \<le> int (length xs) + 1 then insert (hd (xs @ [n])) (over t) else over t)" by auto
    then show ?thesis using Cons.IH [OF t1(2)] Cons.prems(2) Insert n by simp
  next
    case (Active n)
    then have n: "n \<in> set xs" using Cons.prems(2) by (auto split: if_split_asm)
    from update_form [OF Cons.prems(1) n, of m] obtain t1 where
      t1: "hev_socks5_tunnel_update_session m n t = Some t1" "holds_sessions t1 (if m = 0 then xs else remove1 n xs @ [n])" "over t1 = over t" by blast
    then show ?thesis using Cons.IH [OF t1(2)] Cons.prems(2) Active n by simp
  next
    case (Finish n)
    then have n: "n \<in> set xs" using Cons.prems(2) by (auto split: if_split_asm)
    from end_form [OF Cons.prems(1) n] obtain t1 where
      t1: "session_task_end n t = Some t1" "holds_sessions t1 (remove1 n xs)" "over t1 = over t - {n}" by blast
    then show ?thesis using Cons.IH [OF t1(2)] Cons.prems(2) Finish n by simp
  next
    case Stop_All
    have "hev_list_first (session_set t) = (if xs = [] then 0 else hd xs)" using dl.first_law [OF holds_sessionsD(1) [OF Cons.prems(1)]] .
    moreover obtain t1 where t1: "terminate_all (if xs = [] then 0 else hd xs) t = Some t1" "holds_sessions t1 xs" "over t1 = over t \<union> set xs"
      using terminate_all_from [OF Cons.prems(1), of "[]" xs] by auto
    ultimately show ?thesis using Cons.IH [OF t1(2)] Cons.prems(2) Stop_All by simp
  qed
qed simp

definition no_sessions :: tunnel where
  "no_sessions = \<lparr>session_set = \<lparr>l_head = 0, l_tail = 0, l_mem = Map.empty\<rparr>, session_count = 0, sess = Map.empty\<rparr>"

lemma no_sessions_holds: "holds_sessions no_sessions []" "over no_sessions = {}"
  by (auto simp: no_sessions_def holds_sessions_def list_at_def over_def)

definition fresh_obj :: socks5 where
  "fresh_obj = \<lparr>s_fd = - 1, s_timeout = - 1, s_type = TYPE_TCP, s_udp_associated = False, s_addr_family = 0\<rparr>"

lemma session_set_lru_witness:
  "\<exists>t. sess_exec 3 [Insert 8 fresh_obj, Insert 16 fresh_obj, Active 8, Insert 24 fresh_obj, Finish 16] no_sessions = Some t \<and>
     holds_sessions t [8, 24] \<and> over t = {}"
proof -
  have "lru 3 [Insert 8 fresh_obj, Insert 16 fresh_obj, Active 8, Insert 24 fresh_obj, Finish 16] ([], over no_sessions) = Some ([8, 24], {})"
    by (simp add: no_sessions_holds fresh_obj_def)
  from session_set_lru [OF no_sessions_holds(1) this] show ?thesis .
qed

section \<open>Accepting\<close>

text \<open>
  C40: Accepting a connection keeps the list, whatever fails on the way: afterwards either there is one
  more session at the end and the connection lives, or the list is as before and lwIP has dropped the
  connection. Only without memory for the task of the new session nothing comes after: the destructor of
  the session asks for the mutex that the task of lwIP holds, which waits for ever.
\<close>

theorem accept_outcome:
  assumes "holds_sessions t xs" and "\<forall>node obj. new = Some (node, obj) \<longrightarrow> node \<notin> set xs \<and> node \<noteq> 0"
  shows "case lwip_io_input (\<lambda>locker. tcp_process_accept (tcp_accept_handler m locker running err new task t)) of
       None \<Rightarrow> err = ERR_OK \<and> running \<and> new \<noteq> None \<and> \<not> task
     | Some (err', live, t') \<Rightarrow>
         if err = ERR_OK \<and> running \<and> new \<noteq> None then task \<and> err' = ERR_OK \<and> live \<and> holds_sessions t' (xs @ [fst (the new)])
         else err' = ERR_ABRT \<and> t' = t \<and> (live \<longleftrightarrow> err = ERR_ABRT)"
proof (cases "err = ERR_OK \<and> running \<and> new \<noteq> None")
  case True
  then obtain n o' where new: "new = Some (n, o')" by auto
  show ?thesis
  proof (cases task)
    case True
    have "n \<notin> set xs" "n \<noteq> 0" using assms(2) new by auto
    from insert_form [OF assms(1) this, of m o'] obtain t1 where
      "hev_socks5_tunnel_insert_session m n (sess_alloc n o' t) = Some t1" "holds_sessions t1 (xs @ [n])" by blast
    then show ?thesis using \<open>err = ERR_OK \<and> running \<and> new \<noteq> None\<close> new True
      by (simp add: lwip_io_input_def hev_task_mutex_lock_def tcp_accept_handler_def tcp_process_accept_def)
  next
    case False
    then show ?thesis using \<open>err = ERR_OK \<and> running \<and> new \<noteq> None\<close> new
      by (simp add: lwip_io_input_def hev_task_mutex_lock_def sess_unref_def tcp_accept_handler_def tcp_process_accept_def Let_def)
  qed
next
  case False
  then show ?thesis
    by (cases new) (auto simp: lwip_io_input_def hev_task_mutex_lock_def tcp_accept_handler_def tcp_process_accept_def)
qed

lemma accept_outcome_witness:
  "(\<exists>t. lwip_io_input (\<lambda>l. tcp_process_accept (tcp_accept_handler 0 l True ERR_OK (Some (8, fresh_obj)) True no_sessions)) = Some (ERR_OK, True, t) \<and>
     holds_sessions t [8]) \<and>
   lwip_io_input (\<lambda>l. tcp_process_accept (tcp_accept_handler 0 l True ERR_OK (Some (8, fresh_obj)) False no_sessions)) = None"
proof
  show "\<exists>t. lwip_io_input (\<lambda>l. tcp_process_accept (tcp_accept_handler 0 l True ERR_OK (Some (8, fresh_obj)) True no_sessions)) =
      Some (ERR_OK, True, t) \<and> holds_sessions t [8]"
    using accept_outcome [OF no_sessions_holds(1), where new = "Some (8, fresh_obj)" and m = 0 and running = True and err = ERR_OK and task = True] by (auto split: option.splits)
  show "lwip_io_input (\<lambda>l. tcp_process_accept (tcp_accept_handler 0 l True ERR_OK (Some (8, fresh_obj)) False no_sessions)) = None"
    using accept_outcome [OF no_sessions_holds(1), where new = "Some (8, fresh_obj)" and m = 0 and running = True and err = ERR_OK and task = False] by (auto split: option.splits)
qed

section \<open>The limit\<close>

text \<open>Connections that lwIP hands over one after the other, before any session's task runs.\<close>

fun accept_burst :: "int \<Rightarrow> (ptr \<times> socks5) list \<Rightarrow> tunnel \<Rightarrow> tunnel option" where
  "accept_burst m [] t = Some t"
| "accept_burst m (new # ns) t = do {
     (_, _, t) \<leftarrow> lwip_io_input (\<lambda>locker. tcp_process_accept (tcp_accept_handler m locker True ERR_OK (Some new) True t));
     accept_burst m ns t
   }"

text \<open>
  C39: The limit on the number of sessions. Whatever sessions there are and however many connections are
  accepted before the tasks of the sessions run, all of them are put into the list, and at most one
  session is told to end, the oldest: it is told so as soon as the number reaches the limit. So a burst
  of connections is not bounded by the limit, and with a limit of one the first connection ends itself.
\<close>

theorem session_limit_burst:
  assumes "holds_sessions t xs" and "m \<noteq> 0" and "distinct (map fst ns)"
    and "\<forall>(n, obj) \<in> set ns. n \<notin> set xs \<and> n \<noteq> 0 \<and> s_timeout obj \<noteq> 0"
  shows "\<exists>t'. accept_burst m ns t = Some t' \<and> holds_sessions t' (xs @ map fst ns) \<and>
     over t' = over t \<union> (if ns \<noteq> [] \<and> m \<le> int (length xs + length ns) then {hd (xs @ map fst ns)} else {})"
  using assms
proof (induction ns arbitrary: t xs)
  case (Cons new ns)
  obtain n obj where new: "new = (n, obj)" by fastforce
  then have n: "n \<notin> set xs" "n \<noteq> 0" "s_timeout obj \<noteq> 0" using Cons.prems(4) by auto
  from insert_form [OF Cons.prems(1) n(1,2), of m obj] obtain t1 where
    t1: "hev_socks5_tunnel_insert_session m n (sess_alloc n obj t) = Some t1" "holds_sessions t1 (xs @ [n])"
    "over t1 = over t \<union> (if m \<le> int (length xs) + 1 then {hd (xs @ [n])} else {})" using n(3) Cons.prems(2) by auto
  have "distinct (map fst ns)" "\<forall>(n', obj) \<in> set ns. n' \<notin> set (xs @ [n]) \<and> n' \<noteq> 0 \<and> s_timeout obj \<noteq> 0"
    using Cons.prems(3,4) new by force+
  from Cons.IH [OF t1(2) Cons.prems(2) this] obtain t' where t': "accept_burst m ns t1 = Some t'" "holds_sessions t' ((xs @ [n]) @ map fst ns)"
    "over t' = over t1 \<union> (if ns \<noteq> [] \<and> m \<le> int (length (xs @ [n]) + length ns) then {hd ((xs @ [n]) @ map fst ns)} else {})" by blast
  have "hd ((xs @ [n]) @ map fst ns) = hd (xs @ [n])" by (cases xs) simp_all
  then have "over t' = over t \<union> (if m \<le> int (length xs + length (new # ns)) then {hd (xs @ map fst (new # ns))} else {})"
    unfolding t'(3) t1(3) new by (cases ns) auto
  moreover have "accept_burst m (new # ns) t = Some t'"
    using t1(1) t'(1) new
    by (simp add: lwip_io_input_def hev_task_mutex_lock_def tcp_accept_handler_def tcp_process_accept_def)
  ultimately show ?case using t'(2) new by simp
qed simp

lemma session_limit_burst_witness:
  "\<exists>t. accept_burst 1 [(8, fresh_obj), (16, fresh_obj), (24, fresh_obj)] no_sessions = Some t \<and> holds_sessions t [8, 16, 24] \<and> over t = {8}"
  using session_limit_burst [OF no_sessions_holds(1), of 1 "[(8, fresh_obj), (16, fresh_obj), (24, fresh_obj)]"]
  by (simp add: no_sessions_holds(2) fresh_obj_def)

section \<open>The first datagram of a flow\<close>

text \<open>
  lwIP makes a block for a datagram no block matches, hands it to the callback, and looks again for a
  match; a block that was removed is made anew. For the \<open>k\<close>-th attempt \<open>at k\<close> tells whether there is
  memory for the block, what the constructor gives and whether there is memory for the task. The
  result is the fate of the flow, none when the datagram was dropped, and the attempts made before; it
  is \<open>None\<close> when lwIP does not return, be it that it looks for ever or that its task waits for ever.
\<close>

record attempt =
  a_pcb :: bool
  a_new :: "(ptr \<times> socks5) option"
  a_task :: bool

partial_function (option) udp_input_again ::
  "config \<Rightarrow> bool \<Rightarrow> bool \<Rightarrow> bool \<Rightarrow> lwip_addr \<Rightarrow> u16 \<Rightarrow> (nat \<Rightarrow> attempt) \<Rightarrow> nat \<Rightarrow> tunnel \<Rightarrow> (flow_fate option \<times> nat \<times> tunnel) option" where
  "udp_input_again c locker running dns addr port att k t =
     (if \<not> a_pcb (att k) then Some (None, k, t)
      else do {
        (fate, t) \<leftarrow> tunnel_udp_recv_handler c locker running dns addr port (a_new (att k)) (a_task (att k)) t;
        if fate = Flow_Removed then udp_input_again c locker running dns addr port att (Suc k) t
        else Some (Some fate, k, t)
      })"

text \<open>The attempts after which lwIP stops: without a block, with the mapped DNS, or with a session.\<close>

definition settles :: "config \<Rightarrow> bool \<Rightarrow> bool \<Rightarrow> lwip_addr \<Rightarrow> u16 \<Rightarrow> attempt \<Rightarrow> bool" where
  "settles c running dns addr port a \<longleftrightarrow>
     \<not> a_pcb a \<or> running \<and> (is_dns_server c dns addr port \<or> a_new a \<noteq> None \<and> a_task a)"

text \<open>The attempts in which the destructor of a session asks for the mutex again.\<close>

definition stuck :: "config \<Rightarrow> bool \<Rightarrow> bool \<Rightarrow> lwip_addr \<Rightarrow> u16 \<Rightarrow> attempt \<Rightarrow> bool" where
  "stuck c running dns addr port a \<longleftrightarrow>
     a_pcb a \<and> running \<and> \<not> is_dns_server c dns addr port \<and> a_new a \<noteq> None \<and> \<not> a_task a"

definition usable :: "ptr list \<Rightarrow> attempt \<Rightarrow> bool" where
  "usable xs a \<longleftrightarrow> (case a_new a of None \<Rightarrow> True | Some (n, _) \<Rightarrow> n \<notin> set xs \<and> n \<noteq> 0)"

lemma handler_refused:
  assumes "\<not> settles c running dns addr port a" and "\<not> stuck c running dns addr port a"
  shows "tunnel_udp_recv_handler c True running dns addr port (a_new a) (a_task a) t = Some (Flow_Removed, t) \<and> a_pcb a"
  using assms by (auto simp: tunnel_udp_recv_handler_def settles_def stuck_def split: option.splits)

lemma handler_stuck:
  assumes "stuck c running dns addr port a"
  shows "tunnel_udp_recv_handler c True running dns addr port (a_new a) (a_task a) t = None \<and> a_pcb a"
  using assms by (auto simp: tunnel_udp_recv_handler_def stuck_def sess_unref_def hev_task_mutex_lock_def Let_def)

lemma handler_settled:
  assumes "holds_sessions t xs" and "usable xs a" and "settles c running dns addr port a" and "a_pcb a"
  obtains fate t' where "tunnel_udp_recv_handler c True running dns addr port (a_new a) (a_task a) t = Some (fate, t')"
    "fate = (if is_dns_server c dns addr port then Flow_Dns else Flow_Session)"
    "holds_sessions t' (if is_dns_server c dns addr port then xs else xs @ [fst (the (a_new a))])"
proof (cases "is_dns_server c dns addr port")
  case True
  with assms show thesis by (intro that [of Flow_Dns t]) (auto simp: tunnel_udp_recv_handler_def settles_def)
next
  case False
  with assms(3,4) obtain n o' where n: "running" "a_new a = Some (n, o')" "a_task a" by (auto simp: settles_def)
  from assms(2) n(2) have "n \<notin> set xs" "n \<noteq> 0" by (simp_all add: usable_def)
  from insert_form [OF assms(1) this, of "hev_config_get_misc_max_session_count c" o'] obtain t1 where
    "hev_socks5_tunnel_insert_session (hev_config_get_misc_max_session_count c) n (sess_alloc n o' t) = Some t1" "holds_sessions t1 (xs @ [n])"
    by blast
  with False n show thesis by (intro that [of Flow_Session t1]) (auto simp: tunnel_udp_recv_handler_def)
qed

lemma again_skips:
  assumes "\<forall>j<n. \<not> settles c running dns addr port (att j) \<and> \<not> stuck c running dns addr port (att j)"
  shows "udp_input_again c True running dns addr port att 0 t = udp_input_again c True running dns addr port att n t"
  using assms
proof (induction n)
  case (Suc n)
  have "udp_input_again c True running dns addr port att n t = udp_input_again c True running dns addr port att (Suc n) t"
    using handler_refused [of c running dns addr port "att n" t] Suc.prems by (subst udp_input_again.simps) simp
  with Suc show ?case by simp
qed simp

lemma again_returns:
  assumes "udp_input_again c l running dns addr port att k t = Some r" and "l"
  shows "\<exists>j\<ge>k. settles c running dns addr port (att j)"
proof -
  define P where "P c l running dns addr port att k t r \<longleftrightarrow> (l \<longrightarrow> (\<exists>j\<ge>k. settles c running dns addr port (att j)))"
    for c l running dns addr port att and k :: nat and t :: tunnel and r :: "flow_fate option \<times> nat \<times> tunnel"
  have "P c l running dns addr port att k t r"
  proof (rule udp_input_again.raw_induct [where P = P, OF _ assms(1)], unfold P_def, intro impI, goal_cases)
    case (1 again c l running dns addr port att k t r)
    consider "settles c running dns addr port (att k)" | "stuck c running dns addr port (att k)"
      | "\<not> settles c running dns addr port (att k)" "\<not> stuck c running dns addr port (att k)" by blast
    then show ?case
    proof cases
      case 1
      then show ?thesis by blast
    next
      case 2
      from handler_stuck [OF this, of t] \<open>l\<close> 1(2) show ?thesis by simp
    next
      case 3
      from handler_refused [OF this, of t] \<open>l\<close> 1(2)
      have "again c l running dns addr port att (Suc k) t = Some r" by simp
      with 1(1) [rule_format, OF this \<open>l\<close>] show ?thesis using Suc_leD by blast
    qed
  qed
  then show ?thesis using assms(2) by (simp add: P_def)
qed

text \<open>
  C14: What becomes of the first datagram of a flow. The task of lwIP gets done with it exactly if one of
  the attempts settles it, and none before it is stuck: an attempt settles it if there is no memory for
  the block, or the tunnel runs and the flow is for the mapped DNS or there is memory for the session and
  for its task; it is stuck if there is memory for the session but not for its task, since the
  destructor of the session then asks for the mutex that the task of lwIP holds. The attempt that settles
  it decides, and the list of sessions has one more exactly for a session. In all other cases, also when
  every attempt is refused because there is no memory for a session, lwIP does not return.
\<close>

theorem flow_input_ends:
  assumes "holds_sessions t xs" and "\<forall>j. usable xs (att j)"
  shows "(case lwip_io_input (\<lambda>locker. udp_input_again c locker running dns addr port att 0 t) of
       None \<Rightarrow> \<forall>j. settles c running dns addr port (att j) \<longrightarrow> (\<exists>k<j. stuck c running dns addr port (att k))
     | Some (fate, k, t') \<Rightarrow> settles c running dns addr port (att k) \<and>
         (\<forall>j<k. \<not> settles c running dns addr port (att j) \<and> \<not> stuck c running dns addr port (att j)) \<and>
         fate = (if \<not> a_pcb (att k) then None else Some (if is_dns_server c dns addr port then Flow_Dns else Flow_Session)) \<and>
         holds_sessions t' (if fate = Some Flow_Session then xs @ [fst (the (a_new (att k)))] else xs))"
proof -
  let ?set = "\<lambda>j. settles c running dns addr port (att j)" and ?stuck = "\<lambda>j. stuck c running dns addr port (att j)"
  have io: "lwip_io_input (\<lambda>locker. udp_input_again c locker running dns addr port att 0 t) = udp_input_again c True running dns addr port att 0 t"
    by (simp add: lwip_io_input_def hev_task_mutex_lock_def)
  show ?thesis
  proof (cases "\<exists>j. ?set j \<or> ?stuck j")
    case False
    with again_returns [of c True running dns addr port att 0 t] show ?thesis unfolding io
      by (cases "udp_input_again c True running dns addr port att 0 t") auto
  next
    case True
    then obtain n where n: "?set n \<or> ?stuck n" "\<forall>j<n. \<not> ?set j \<and> \<not> ?stuck j"
      using exists_least_iff [of "\<lambda>j. ?set j \<or> ?stuck j"] by auto
    note skip = again_skips [OF n(2), of t]
    consider (stuck) "?stuck n" "\<not> ?set n" | (made) "?set n" "a_pcb (att n)" | (dropped) "?set n" "\<not> a_pcb (att n)"
      using n(1) by (auto simp: stuck_def settles_def)
    then show ?thesis
    proof cases
      case stuck
      then have "udp_input_again c True running dns addr port att 0 t = None"
        unfolding skip using handler_stuck [of c running dns addr port "att n" t] by (subst udp_input_again.simps) simp
      then show ?thesis unfolding io using n(2) stuck by simp (metis linorder_neqE_nat)
    next
      case made
      obtain fate t' where
        "tunnel_udp_recv_handler c True running dns addr port (a_new (att n)) (a_task (att n)) t = Some (fate, t')"
        "fate = (if is_dns_server c dns addr port then Flow_Dns else Flow_Session)"
        "holds_sessions t' (if is_dns_server c dns addr port then xs else xs @ [fst (the (a_new (att n)))])"
        by (rule handler_settled [OF assms(1) assms(2) [rule_format] made])
      moreover from calculation made have "udp_input_again c True running dns addr port att 0 t = Some (Some fate, n, t')"
        unfolding skip by (subst udp_input_again.simps) auto
      ultimately show ?thesis unfolding io using n(2) made by (cases "is_dns_server c dns addr port") simp_all
    next
      case dropped
      then have "udp_input_again c True running dns addr port att 0 t = Some (None, n, t)"
        unfolding skip by (subst udp_input_again.simps) simp
      then show ?thesis unfolding io using n(2) assms(1) dropped by simp
    qed
  qed
qed

definition no_task :: "nat \<Rightarrow> attempt" where
  "no_task k = \<lparr>a_pcb = True, a_new = (if k = 0 then None else Some (8, fresh_obj)), a_task = False\<rparr>"

definition late_session :: "nat \<Rightarrow> attempt" where
  "late_session k = \<lparr>a_pcb = True, a_new = (if k = 0 then None else Some (8, fresh_obj)), a_task = True\<rparr>"

lemma late_session_simps: "a_pcb (late_session k)" "a_new (late_session (Suc 0)) = Some (8, fresh_obj)"
  by (simp_all add: late_session_def)

lemma flow_input_ends_witness:
  "lwip_io_input (\<lambda>l. udp_input_again hev_config_reset l True False \<lparr>ip_type = IPADDR_V4, ip_bytes = [8, 8, 8, 8]\<rparr> 53 no_task 0 no_sessions) = None \<and>
   (\<exists>t. lwip_io_input (\<lambda>l. udp_input_again hev_config_reset l True False \<lparr>ip_type = IPADDR_V4, ip_bytes = [8, 8, 8, 8]\<rparr> 53 late_session 0 no_sessions) =
     Some (Some Flow_Session, 1, t) \<and> holds_sessions t [8])"
proof
  let ?ip = "\<lparr>ip_type = IPADDR_V4, ip_bytes = [8, 8, 8, 8]\<rparr>"
  have u: "\<forall>j. usable [] (no_task j)" "\<forall>j. usable [] (late_session j)" by (simp_all add: usable_def no_task_def late_session_def)
  have s: "\<not> settles hev_config_reset True False ?ip 53 (no_task j)"
    "settles hev_config_reset True False ?ip 53 (late_session j) \<longleftrightarrow> j \<noteq> 0"
    "\<not> stuck hev_config_reset True False ?ip 53 (late_session j)" for j
    by (simp_all add: settles_def stuck_def no_task_def late_session_def is_dns_server_def)
  show "lwip_io_input (\<lambda>l. udp_input_again hev_config_reset l True False ?ip 53 no_task 0 no_sessions) = None"
    using flow_input_ends [OF no_sessions_holds(1) u(1), of hev_config_reset True False ?ip 53] s(1) by (auto split: option.splits)
  from flow_input_ends [OF no_sessions_holds(1) u(2), of hev_config_reset True False ?ip 53] s(2,3) obtain k t where
    k: "lwip_io_input (\<lambda>l. udp_input_again hev_config_reset l True False ?ip 53 late_session 0 no_sessions) = Some (Some Flow_Session, k, t)"
    "k \<noteq> 0" "\<forall>j<k. j = 0" "holds_sessions t [fst (the (a_new (late_session k)))]"
    by (auto simp: is_dns_server_def late_session_simps(1) split: option.splits)
  then have "k = 1" by (metis One_nat_def less_one linorder_neqE_nat zero_neq_one)
  with k show "\<exists>t. lwip_io_input (\<lambda>l. udp_input_again hev_config_reset l True False ?ip 53 late_session 0 no_sessions) =
      Some (Some Flow_Session, 1, t) \<and> holds_sessions t [8]"
    by (auto simp: late_session_simps(2))
qed

end
