(* ===== verification/Tunnel_Setup.thy ===== *)
theory Tunnel_Setup
  imports Hev_Config
begin

text \<open>
  Setting up and tearing down the tunnel, \<open>hev-socks5-tunnel.c\<close>: the device, the lwIP interface with its
  listening connection and datagram block, the socket pair and task of the event loop, the tasks of
  lwIP and the mapped DNS. Every call into the system or a library takes its result from a script, a
  negative one being a failure or NULL; what was acquired is in the state. The atomic word that orders
  this with a stop is the subject of \<open>Tunnel_Sync\<close>.
\<close>

record tun_state =
  tun_fd :: int
  tun_fd_local :: bool
  netif :: bool
  tcp_pcb :: bool
  udp_pcb :: bool
  event_fd0 :: int
  event_fd1 :: int
  task_event :: bool
  task_lwip_io :: bool
  task_lwip_timer :: bool
  mapped_dns :: bool
  fds :: "int list"
  lost_pcbs :: nat
  listen_mem :: bool
  scripts :: "bool list"
  results :: "int list"

text \<open>\<open>fds\<close> are the open descriptors of the process, \<open>lost_pcbs\<close> counts connection blocks nothing points
  to any more, \<open>listen_mem\<close> tells whether lwIP has memory for a listening block, and \<open>scripts\<close> tells which of the scripts were run, the one for the end being \<open>True\<close>.\<close>

definition ask :: "tun_state \<Rightarrow> int \<times> tun_state" where
  "ask s = (case results s of [] \<Rightarrow> (- 1, s) | r # rs \<Rightarrow> (r, s\<lparr>results := rs\<rparr>))"

definition shut_fd :: "int \<Rightarrow> tun_state \<Rightarrow> tun_state" where
  "shut_fd fd s = s\<lparr>fds := removeAll fd (fds s)\<rparr>"

text \<open>The kernel gives a new descriptor a number that is not in use.\<close>

definition new_fd :: "tun_state \<Rightarrow> int" where
  "new_fd s = foldr max (fds s) 2 + 1"

definition open_fd :: "tun_state \<Rightarrow> int \<times> tun_state" where
  "open_fd s = (new_fd s, s\<lparr>fds := new_fd s # fds s\<rparr>)"

text \<open>
  A step that fails ends the whole: \<open>if (res < 0) return -1\<close>. Where the result is a pointer the static
  variable is cleared first, which is what it is assigned when the call gives NULL.
\<close>

definition asking :: "tun_state \<Rightarrow> (int \<Rightarrow> tun_state \<Rightarrow> int \<times> tun_state) \<Rightarrow> int \<times> tun_state" where
  "asking s f = (let (r, s) = ask s in if r < 0 then (- 1, s) else f r s)"

definition asking_if :: "bool \<Rightarrow> tun_state \<Rightarrow> (tun_state \<Rightarrow> int \<times> tun_state) \<Rightarrow> int \<times> tun_state" where
  "asking_if b s f = (if b then asking s (\<lambda>_. f) else f s)"

section \<open>The parts\<close>

definition tunnel_init :: "config \<Rightarrow> int \<Rightarrow> tun_state \<Rightarrow> int \<times> tun_state" where
  "tunnel_init c extern_tun_fd s =
     (if extern_tun_fd \<ge> 0 then asking s (\<lambda>_ s. (0, s\<lparr>tun_fd := extern_tun_fd\<rparr>))
      else
        let s = s\<lparr>tun_fd_local := True\<rparr>;
            (res, s) = ask s;
            (fd, s) = (if res < 0 then (res, s) else open_fd s);
            s = s\<lparr>tun_fd := fd\<rparr>
        in if fd < 0 then (- 1, s)
           else asking s (\<lambda>_ s.
             asking_if (hev_config_get_tunnel_ipv4_address c \<noteq> None) s (\<lambda>s.
             asking_if (hev_config_get_tunnel_ipv6_address c \<noteq> None) s (\<lambda>s.
             asking s (\<lambda>_ s.
             (0, if hev_config_get_tunnel_post_up_script c \<noteq> None then s\<lparr>scripts := scripts s @ [False]\<rparr> else s))))))"

definition tunnel_fini :: "config \<Rightarrow> tun_state \<Rightarrow> tun_state" where
  "tunnel_fini c s =
     (if \<not> tun_fd_local s then s
      else
        let s = (if hev_config_get_tunnel_pre_down_script c \<noteq> None then s\<lparr>scripts := scripts s @ [True]\<rparr> else s)
        in if tun_fd s \<ge> 0 then (shut_fd (tun_fd s) s)\<lparr>tun_fd_local := False, tun_fd := - 1\<rparr> else s)"

text \<open>\<open>tcp_listen\<close> gives NULL without memory and then leaves its argument alone; its result is not tested.\<close>

definition gateway_init :: "tun_state \<Rightarrow> int \<times> tun_state" where
  "gateway_init s =
     asking (s\<lparr>netif := False\<rparr>) (\<lambda>_ s. let s = s\<lparr>netif := True\<rparr> in
     asking (s\<lparr>tcp_pcb := False\<rparr>) (\<lambda>_ s.
       let s = (if listen_mem s then s\<lparr>tcp_pcb := True\<rparr> else s\<lparr>tcp_pcb := False, lost_pcbs := lost_pcbs s + 1\<rparr>)
       in asking (s\<lparr>udp_pcb := False\<rparr>) (\<lambda>_ s. (0, s\<lparr>udp_pcb := True\<rparr>))))"

definition gateway_fini :: "tun_state \<Rightarrow> tun_state" where
  "gateway_fini s =
     (let s = (if udp_pcb s then s\<lparr>udp_pcb := False\<rparr> else s);
          s = (if tcp_pcb s then s\<lparr>tcp_pcb := False\<rparr> else s)
      in if netif s then s\<lparr>netif := False\<rparr> else s)"

definition event_task_init :: "tun_state \<Rightarrow> int \<times> tun_state" where
  "event_task_init s =
     asking s (\<lambda>_ s.
       let (fd1, s) = open_fd s; (fd0, s) = open_fd s; s = s\<lparr>event_fd0 := fd0, event_fd1 := fd1\<rparr> in
       asking s (\<lambda>_ s. asking (s\<lparr>task_event := False\<rparr>) (\<lambda>_ s. (0, s\<lparr>task_event := True\<rparr>))))"

definition event_task_fini :: "tun_state \<Rightarrow> tun_state" where
  "event_task_fini s =
     (let s = (if task_event s then s\<lparr>task_event := False\<rparr> else s);
          s = (if event_fd0 s \<ge> 0 then (shut_fd (event_fd0 s) s)\<lparr>event_fd0 := - 1\<rparr> else s)
      in if event_fd1 s \<ge> 0 then (shut_fd (event_fd1 s) s)\<lparr>event_fd1 := - 1\<rparr> else s)"

definition lwip_io_task_init :: "tun_state \<Rightarrow> int \<times> tun_state" where
  "lwip_io_task_init s = asking (s\<lparr>task_lwip_io := False\<rparr>) (\<lambda>_ s. (0, s\<lparr>task_lwip_io := True\<rparr>))"

definition lwip_io_task_fini :: "tun_state \<Rightarrow> tun_state" where
  "lwip_io_task_fini s = (if task_lwip_io s then s\<lparr>task_lwip_io := False\<rparr> else s)"

definition lwip_timer_task_init :: "tun_state \<Rightarrow> int \<times> tun_state" where
  "lwip_timer_task_init s = asking (s\<lparr>task_lwip_timer := False\<rparr>) (\<lambda>_ s. (0, s\<lparr>task_lwip_timer := True\<rparr>))"

definition lwip_timer_task_fini :: "tun_state \<Rightarrow> tun_state" where
  "lwip_timer_task_fini s = (if task_lwip_timer s then s\<lparr>task_lwip_timer := False\<rparr> else s)"

definition mapped_dns_init :: "config \<Rightarrow> tun_state \<Rightarrow> int \<times> tun_state" where
  "mapped_dns_init c s =
     (if hev_config_get_mapdns_cache_size c = 0 then (0, s) else asking s (\<lambda>_ s. (0, s\<lparr>mapped_dns := True\<rparr>)))"

definition mapped_dns_fini :: "tun_state \<Rightarrow> tun_state" where
  "mapped_dns_fini s = (if mapped_dns s then s\<lparr>mapped_dns := False\<rparr> else s)"

section \<open>The whole\<close>

definition hev_socks5_tunnel_fini :: "config \<Rightarrow> tun_state \<Rightarrow> tun_state" where
  "hev_socks5_tunnel_fini c s =
     tunnel_fini c (gateway_fini (event_task_fini (lwip_io_task_fini (lwip_timer_task_fini (mapped_dns_fini s)))))"

fun all_of :: "(tun_state \<Rightarrow> int \<times> tun_state) list \<Rightarrow> tun_state \<Rightarrow> int \<times> tun_state" where
  "all_of [] s = (0, s)"
| "all_of (f # fs) s = (let (res, s) = f s in if res < 0 then (- 1, s) else all_of fs s)"

definition hev_socks5_tunnel_init :: "config \<Rightarrow> int \<Rightarrow> tun_state \<Rightarrow> int \<times> tun_state" where
  "hev_socks5_tunnel_init c fd s =
     (let (res, s) = all_of [tunnel_init c fd, gateway_init, event_task_init, lwip_io_task_init, lwip_timer_task_init, mapped_dns_init c] s
      in if res < 0 then (- 1, hev_socks5_tunnel_fini c s) else (0, s))"

section \<open>Nothing is left behind\<close>

text \<open>
  The descriptors the tunnel holds itself; \<open>owns F s\<close>: the open ones are these and those of \<open>F\<close>, each
  of its own once. \<open>steady\<close> says it for a tunnel that has no socket pair yet.
\<close>

definition own_fds :: "tun_state \<Rightarrow> int list" where
  "own_fds s = (if event_fd0 s \<ge> 0 then [event_fd0 s] else []) @ (if event_fd1 s \<ge> 0 then [event_fd1 s] else []) @
     (if tun_fd_local s \<and> tun_fd s \<ge> 0 then [tun_fd s] else [])"

definition owns :: "int set \<Rightarrow> tun_state \<Rightarrow> bool" where
  "owns F s \<longleftrightarrow> set (fds s) = set (own_fds s) \<union> F \<and> distinct (own_fds s) \<and> set (own_fds s) \<inter> F = {} \<and>
     - 1 \<le> event_fd0 s \<and> - 1 \<le> event_fd1 s"

definition no_events :: "tun_state \<Rightarrow> bool" where
  "no_events s \<longleftrightarrow> event_fd0 s = - 1 \<and> event_fd1 s = - 1"

definition steady :: "int set \<Rightarrow> tun_state \<Rightarrow> bool" where
  "steady F s \<longleftrightarrow> owns F s \<and> no_events s"

definition released :: "tun_state \<Rightarrow> bool" where
  "released s \<longleftrightarrow> no_events s \<and> \<not> netif s \<and> \<not> tcp_pcb s \<and> \<not> udp_pcb s \<and>
     \<not> task_event s \<and> \<not> task_lwip_io s \<and> \<not> task_lwip_timer s \<and> \<not> mapped_dns s"

lemma owns_frame [simp]:
  "owns F (s\<lparr>results := rs\<rparr>) = owns F s" "owns F (s\<lparr>netif := b\<rparr>) = owns F s" "owns F (s\<lparr>tcp_pcb := b\<rparr>) = owns F s"
  "owns F (s\<lparr>udp_pcb := b\<rparr>) = owns F s" "owns F (s\<lparr>lost_pcbs := n\<rparr>) = owns F s" "owns F (s\<lparr>task_event := b\<rparr>) = owns F s"
  "owns F (s\<lparr>task_lwip_io := b\<rparr>) = owns F s" "owns F (s\<lparr>task_lwip_timer := b\<rparr>) = owns F s"
  "owns F (s\<lparr>mapped_dns := b\<rparr>) = owns F s" "owns F (s\<lparr>scripts := l\<rparr>) = owns F s"
  by (simp_all add: owns_def own_fds_def)

lemma no_events_frame [simp]:
  "no_events (s\<lparr>results := rs\<rparr>) = no_events s" "no_events (s\<lparr>netif := b\<rparr>) = no_events s"
  "no_events (s\<lparr>tcp_pcb := b\<rparr>) = no_events s" "no_events (s\<lparr>udp_pcb := b\<rparr>) = no_events s"
  "no_events (s\<lparr>lost_pcbs := n\<rparr>) = no_events s" "no_events (s\<lparr>scripts := l\<rparr>) = no_events s"
  by (simp_all add: no_events_def)

lemma ask_cases:
  obtains r rs where "ask s = (r, s\<lparr>results := rs\<rparr>)"
  by (cases "results s") (auto simp: ask_def intro: that [of "- 1" "results s"])

lemma asking_keeps:
  assumes "\<And>x rs. I (snd (f x (s\<lparr>results := rs\<rparr>)))" and "\<And>rs. I (s\<lparr>results := rs\<rparr>)"
  shows "I (snd (asking s f))"
  using assms by (cases rule: ask_cases [of s]) (simp add: asking_def)

lemma asking_if_keeps:
  assumes "\<And>rs. I (snd (f (s\<lparr>results := rs\<rparr>)))" and "\<And>rs. I (s\<lparr>results := rs\<rparr>)"
  shows "I (snd (asking_if b s f))"
proof (cases b)
  case True
  show ?thesis unfolding asking_if_def if_P [OF True] by (rule asking_keeps [where I = I]) (rule assms)+
next
  case False
  then show ?thesis using assms(1) [of "results s"] by (simp add: asking_if_def)
qed

lemmas keeps_steady = asking_keeps [where I = "steady F" for F] asking_if_keeps [where I = "steady F" for F]
lemmas keeps_owns = asking_keeps [where I = "owns F" for F]

lemma steady_frame [simp]:
  "steady F (s\<lparr>results := rs\<rparr>) = steady F s" "steady F (s\<lparr>netif := b\<rparr>) = steady F s"
  "steady F (s\<lparr>tcp_pcb := b\<rparr>) = steady F s" "steady F (s\<lparr>udp_pcb := b\<rparr>) = steady F s"
  "steady F (s\<lparr>lost_pcbs := n\<rparr>) = steady F s" "steady F (s\<lparr>scripts := l\<rparr>) = steady F s"
  by (simp_all add: steady_def)

lemma steady_external: "\<not> tun_fd_local s \<Longrightarrow> steady F (s\<lparr>tun_fd := fd\<rparr>) = steady F s"
  by (simp add: steady_def owns_def own_fds_def no_events_def)

lemma new_fd_fresh: "x \<in> set (fds s) \<Longrightarrow> x < new_fd s" "2 < new_fd s"
proof -
  have "x \<in> set l \<Longrightarrow> x \<le> foldr max l 2" "2 \<le> foldr max l 2" for l :: "int list" by (induction l) auto
  then show "x \<in> set (fds s) \<Longrightarrow> x < new_fd s" "2 < new_fd s" by (auto simp: new_fd_def le_less_trans)
qed

lemma new_fd_notin: "new_fd s \<notin> set (fds s)"
  using new_fd_fresh(1) [of "new_fd s" s] by blast

lemma steady_device:
  assumes "steady F s" and "\<not> tun_fd_local s"
  shows "steady F (s\<lparr>tun_fd_local := True, results := rs, fds := new_fd s # fds s, tun_fd := new_fd s\<rparr>)"
    and "r < 0 \<Longrightarrow> steady F (s\<lparr>tun_fd_local := True, results := rs, tun_fd := r\<rparr>)"
  using assms new_fd_notin [of s] new_fd_fresh(2) [of s] by (auto simp: steady_def owns_def own_fds_def no_events_def)

lemma tunnel_init_keeps:
  assumes "steady F s" and "\<not> tun_fd_local s"
  shows "steady F (snd (tunnel_init c fd s))"
proof (cases "fd \<ge> 0")
  case True
  from assms show ?thesis
    unfolding tunnel_init_def if_P [OF True] by (intro keeps_steady) (simp_all add: steady_external)
next
  case False
  define s1 where "s1 = s\<lparr>tun_fd_local := True\<rparr>"
  obtain r rs where r: "ask s1 = (r, s1\<lparr>results := rs\<rparr>)" by (rule ask_cases)
  let ?go = "\<lambda>s. asking s (\<lambda>_ s. asking_if (hev_config_get_tunnel_ipv4_address c \<noteq> None) s (\<lambda>s.
      asking_if (hev_config_get_tunnel_ipv6_address c \<noteq> None) s (\<lambda>s. asking s (\<lambda>_ s.
      (0, if hev_config_get_tunnel_post_up_script c \<noteq> None then s\<lparr>scripts := scripts s @ [False]\<rparr> else s)))))"
  have go: "steady F (snd (?go s'))" if "steady F s'" for s' :: tun_state
    using that by (intro keeps_steady) simp_all
  from False go [OF steady_device(1) [OF assms]] steady_device(2) [OF assms, of r] new_fd_fresh(2) [of s] show ?thesis
    by (simp add: tunnel_init_def Let_def s1_def [symmetric] r open_fd_def) (simp add: s1_def new_fd_def)
qed

lemma gateway_init_keeps:
  assumes "steady F s"
  shows "steady F (snd (gateway_init s))"
proof -
  have tail: "steady F (snd (let s = (if listen_mem s' then s'\<lparr>tcp_pcb := True\<rparr> else s'\<lparr>tcp_pcb := False, lost_pcbs := lost_pcbs s' + 1\<rparr>)
       in asking (s\<lparr>udp_pcb := False\<rparr>) (\<lambda>_ s. (0, s\<lparr>udp_pcb := True\<rparr>))))" if "steady F s'" for s'
    unfolding Let_def by (rule keeps_steady) (use that in simp_all)
  show ?thesis unfolding gateway_init_def Let_def [of "_\<lparr>netif := True\<rparr>"]
    by (intro keeps_steady tail) (simp_all add: assms)
qed

lemma event_task_init_keeps:
  assumes "steady F s"
  shows "owns F (snd (event_task_init s))"
  unfolding event_task_init_def
proof (rule keeps_owns)
  fix rs
  let ?s = "s\<lparr>results := rs\<rparr>"
  have *: "owns F (s\<lparr>fds := b # a # fds s, event_fd0 := b, event_fd1 := a\<rparr>)"
    if "a \<notin> set (fds s)" "b \<notin> set (a # fds s)" "2 < a" "2 < b" for a b
    using assms that by (auto simp: steady_def owns_def own_fds_def no_events_def)
  from assms show "owns F ?s" by (simp add: steady_def)
  show "owns F (snd (let (fd1, s) = open_fd ?s; (fd0, s) = open_fd s; s = s\<lparr>event_fd0 := fd0, event_fd1 := fd1\<rparr> in
       asking s (\<lambda>_ s. asking (s\<lparr>task_event := False\<rparr>) (\<lambda>_ s. (0, s\<lparr>task_event := True\<rparr>)))))"
    using * [of "new_fd ?s" "new_fd (?s\<lparr>fds := new_fd ?s # fds s\<rparr>)"] new_fd_notin [of ?s] new_fd_fresh(2) [of ?s]
      new_fd_notin [of "?s\<lparr>fds := new_fd ?s # fds s\<rparr>"] new_fd_fresh(2) [of "?s\<lparr>fds := new_fd ?s # fds s\<rparr>"]
    by (simp add: open_fd_def) (intro keeps_owns; simp)
qed

lemma task_inits_keep:
  "owns F s \<Longrightarrow> owns F (snd (lwip_io_task_init s))" "owns F s \<Longrightarrow> owns F (snd (lwip_timer_task_init s))"
  "owns F s \<Longrightarrow> owns F (snd (mapped_dns_init c s))"
  by (auto simp: lwip_io_task_init_def lwip_timer_task_init_def mapped_dns_init_def intro!: keeps_owns)

definition parts :: "config \<Rightarrow> int \<Rightarrow> (tun_state \<Rightarrow> int \<times> tun_state) list" where
  "parts c fd = [tunnel_init c fd, gateway_init, event_task_init, lwip_io_task_init, lwip_timer_task_init, mapped_dns_init c]"

lemma all_of_keeps:
  assumes "\<And>f s. f \<in> set l \<Longrightarrow> I s \<Longrightarrow> I (snd (f s))" and "I s"
  shows "I (snd (all_of l s))"
  using assms
proof (induction l arbitrary: s)
  case (Cons f l)
  from Cons.prems(1) [of f s] Cons.prems(2) have "I (snd (f s))" by simp
  with Cons.IH [of "snd (f s)"] Cons.prems(1) show ?case by (cases "f s") simp
qed simp

lemma all_of_owns:
  assumes "steady F s" and "\<not> tun_fd_local s"
  shows "owns F (snd (all_of (parts c fd) s))"
proof -
  obtain r1 s1 where 1: "tunnel_init c fd s = (r1, s1)" by fastforce
  obtain r2 s2 where 2: "gateway_init s1 = (r2, s2)" by fastforce
  obtain r3 s3 where 3: "event_task_init s2 = (r3, s3)" by fastforce
  have s: "steady F s1" "steady F s2" "owns F s3"
    using tunnel_init_keeps [OF assms, of c fd] gateway_init_keeps [of F s1] event_task_init_keeps [of F s2] by (simp_all add: 1 2 3)
  have "owns F (snd (all_of [lwip_io_task_init, lwip_timer_task_init, mapped_dns_init c] s3))"
    by (rule all_of_keeps [where I = "owns F", OF _ s(3)]) (auto intro: task_inits_keep)
  with s show ?thesis by (simp add: parts_def 1 2 3 steady_def del: all_of.simps(2)) (simp add: 1 2 3 steady_def)
qed

lemma fini_releases:
  assumes "owns F s"
  shows "released (hev_socks5_tunnel_fini c s)" and "set (fds (hev_socks5_tunnel_fini c s)) = F"
proof -
  define s1 where "s1 = gateway_fini (event_task_fini (lwip_io_task_fini (lwip_timer_task_fini (mapped_dns_fini s))))"
  have fini: "hev_socks5_tunnel_fini c s = tunnel_fini c s1" by (simp add: s1_def hev_socks5_tunnel_fini_def)
  have s1: "released s1" "tun_fd s1 = tun_fd s" "tun_fd_local s1 = tun_fd_local s"
    using assms by (auto simp: s1_def released_def no_events_def owns_def gateway_fini_def event_task_fini_def
      lwip_io_task_fini_def lwip_timer_task_fini_def mapped_dns_fini_def shut_fd_def Let_def)
  have fds: "set (fds s1) = set (fds s) - ((if event_fd0 s \<ge> 0 then {event_fd0 s} else {}) \<union> (if event_fd1 s \<ge> 0 then {event_fd1 s} else {}))"
    by (auto simp: s1_def gateway_fini_def event_task_fini_def
      lwip_io_task_fini_def lwip_timer_task_fini_def mapped_dns_fini_def shut_fd_def Let_def)
  show "released (hev_socks5_tunnel_fini c s)"
    using s1(1) by (simp add: fini released_def no_events_def tunnel_fini_def shut_fd_def Let_def)
  show "set (fds (hev_socks5_tunnel_fini c s)) = F"
    using assms fds s1(2,3) by (auto simp: fini tunnel_fini_def shut_fd_def Let_def owns_def own_fds_def split: if_splits)
qed

text \<open>What a started tunnel has.\<close>

definition set_up :: "config \<Rightarrow> tun_state \<Rightarrow> bool" where
  "set_up c s \<longleftrightarrow> tun_fd s \<ge> 0 \<and> netif s \<and> tcp_pcb s \<and> udp_pcb s \<and> task_event s \<and> task_lwip_io s \<and> task_lwip_timer s \<and>
     event_fd0 s \<ge> 0 \<and> event_fd1 s \<ge> 0 \<and> event_fd0 s \<noteq> event_fd1 s \<and> (mapped_dns s \<longleftrightarrow> hev_config_get_mapdns_cache_size c \<noteq> 0)"

lemma asking_ok:
  assumes "asking s f = (res, t)" and "0 \<le> res"
  obtains x rs where "f x (s\<lparr>results := rs\<rparr>) = (res, t)"
  using assms by (cases rule: ask_cases [of s]) (auto simp: asking_def split: if_split_asm)

lemma asking_if_ok:
  assumes "asking_if b s f = (res, t)" and "0 \<le> res"
  obtains rs where "f (s\<lparr>results := rs\<rparr>) = (res, t)"
proof (cases b)
  case True
  with assms show thesis by (auto simp: asking_if_def elim!: asking_ok intro: that)
next
  case False
  with assms that [of "results s"] show thesis by (simp add: asking_if_def)
qed

lemma tunnel_init_ok:
  assumes "tunnel_init c fd s = (res, t)" and "0 \<le> res"
  shows "tun_fd t \<ge> 0 \<and> mapped_dns t = mapped_dns s \<and> listen_mem t = listen_mem s \<and> lost_pcbs t = lost_pcbs s"
proof (cases "fd \<ge> 0")
  case True
  with assms show ?thesis by (auto simp: tunnel_init_def elim!: asking_ok)
next
  case False
  obtain q rs where q: "ask (s\<lparr>tun_fd_local := True\<rparr>) = (q, s\<lparr>tun_fd_local := True, results := rs\<rparr>)" by (rule ask_cases)
  from assms False show ?thesis
    by (auto simp: tunnel_init_def Let_def q open_fd_def elim!: asking_ok asking_if_ok split: if_split_asm)
qed

lemma gateway_init_ok:
  assumes "gateway_init s = (res, t)" and "0 \<le> res"
  shows "netif t \<and> udp_pcb t \<and> tun_fd t = tun_fd s \<and> mapped_dns t = mapped_dns s \<and> listen_mem t = listen_mem s \<and>
    tcp_pcb t = listen_mem s \<and> lost_pcbs t = lost_pcbs s + (if listen_mem s then 0 else 1)"
  using assms unfolding gateway_init_def Let_def by (elim asking_ok) (auto elim!: asking_ok)

lemma event_task_init_ok:
  assumes "event_task_init s = (res, t)" and "0 \<le> res"
  shows "task_event t \<and> event_fd0 t \<ge> 0 \<and> event_fd1 t \<ge> 0 \<and> event_fd0 t \<noteq> event_fd1 t \<and>
    netif t = netif s \<and> udp_pcb t = udp_pcb s \<and> tcp_pcb t = tcp_pcb s \<and> tun_fd t = tun_fd s \<and> mapped_dns t = mapped_dns s \<and>
    listen_mem t = listen_mem s \<and> lost_pcbs t = lost_pcbs s"
proof -
  have *: "0 \<le> new_fd s1 \<and> new_fd (s1\<lparr>fds := new_fd s1 # fds s1\<rparr>) \<noteq> new_fd s1 \<and> 0 \<le> new_fd (s1\<lparr>fds := new_fd s1 # fds s1\<rparr>)" for s1
    using new_fd_fresh(2) [of s1] new_fd_fresh(2) [of "s1\<lparr>fds := new_fd s1 # fds s1\<rparr>"]
      new_fd_notin [of "s1\<lparr>fds := new_fd s1 # fds s1\<rparr>"] by simp
  from assms(1) obtain rs1 where "(let (fd1, s) = open_fd (s\<lparr>results := rs1\<rparr>); (fd0, s) = open_fd s; s = s\<lparr>event_fd0 := fd0, event_fd1 := fd1\<rparr> in
       asking s (\<lambda>_ s. asking (s\<lparr>task_event := False\<rparr>) (\<lambda>_ s. (0, s\<lparr>task_event := True\<rparr>)))) = (res, t)"
    unfolding event_task_init_def using assms(2) by (elim asking_ok) blast
  with assms(2) * [of "s\<lparr>results := rs1\<rparr>"] show ?thesis
    by (auto simp: open_fd_def Let_def elim!: asking_ok)
qed

lemma all_of_ok:
  assumes "all_of (f # fs) s = (res, t)" and "0 \<le> res"
  obtains s1 r where "f s = (r, s1)" "0 \<le> r" "all_of fs s1 = (res, t)"
  using assms by (cases "f s") (auto split: if_split_asm)

lemma task_inits_ok:
  "lwip_io_task_init s = (res, t) \<Longrightarrow> 0 \<le> res \<Longrightarrow> \<exists>rs. t = s\<lparr>results := rs, task_lwip_io := True\<rparr>"
  "lwip_timer_task_init s = (res, t) \<Longrightarrow> 0 \<le> res \<Longrightarrow> \<exists>rs. t = s\<lparr>results := rs, task_lwip_timer := True\<rparr>"
  unfolding lwip_io_task_init_def lwip_timer_task_init_def by (elim asking_ok; auto)+

lemma mapped_dns_init_ok:
  assumes "mapped_dns_init c s = (res, t)" and "0 \<le> res" and "\<not> mapped_dns s"
  shows "(\<exists>rs. t = s\<lparr>results := rs, mapped_dns := True\<rparr>) \<and> hev_config_get_mapdns_cache_size c \<noteq> 0 \<or>
    t = s \<and> hev_config_get_mapdns_cache_size c = 0"
  using assms by (auto simp: mapped_dns_init_def elim!: asking_ok split: if_split_asm)

lemma all_of_range: "fst (all_of l s) = 0 \<or> fst (all_of l s) = - 1"
  by (induction l arbitrary: s) (simp_all add: Let_def case_prod_beta)

lemma init_sets_up:
  assumes "all_of (parts c fd) s = (0, t)" and "\<not> mapped_dns s"
  shows "set_up c (t\<lparr>tcp_pcb := True\<rparr>) \<and> tcp_pcb t = listen_mem s \<and> lost_pcbs t = lost_pcbs s + (if listen_mem s then 0 else 1)"
proof -
  from assms(1) obtain s1 r1 where 1: "tunnel_init c fd s = (r1, s1)" "0 \<le> r1" and a1:
    "all_of [gateway_init, event_task_init, lwip_io_task_init, lwip_timer_task_init, mapped_dns_init c] s1 = (0, t)"
    unfolding parts_def by (rule all_of_ok) simp_all
  from a1 obtain s2 r2 where 2: "gateway_init s1 = (r2, s2)" "0 \<le> r2" and a2:
    "all_of [event_task_init, lwip_io_task_init, lwip_timer_task_init, mapped_dns_init c] s2 = (0, t)"
    by (rule all_of_ok) simp_all
  from a2 obtain s3 r3 where 3: "event_task_init s2 = (r3, s3)" "0 \<le> r3" and a3:
    "all_of [lwip_io_task_init, lwip_timer_task_init, mapped_dns_init c] s3 = (0, t)"
    by (rule all_of_ok) simp_all
  from a3 obtain s4 r4 where 4: "lwip_io_task_init s3 = (r4, s4)" "0 \<le> r4" and a4:
    "all_of [lwip_timer_task_init, mapped_dns_init c] s4 = (0, t)"
    by (rule all_of_ok) simp_all
  from a4 obtain s5 r5 where 5: "lwip_timer_task_init s4 = (r5, s5)" "0 \<le> r5" and a5:
    "all_of [mapped_dns_init c] s5 = (0, t)"
    by (rule all_of_ok) simp_all
  from a5 obtain s6 r6 where 6: "mapped_dns_init c s5 = (r6, s6)" "0 \<le> r6" "s6 = t"
    by (rule all_of_ok) simp_all
  note facts = tunnel_init_ok [OF 1] gateway_init_ok [OF 2] event_task_init_ok [OF 3]
  from task_inits_ok(1) [OF 4] task_inits_ok(2) [OF 5]
  obtain rs rs' where s5: "s5 = s3\<lparr>results := rs, task_lwip_io := True, results := rs', task_lwip_timer := True\<rparr>" by blast
  with facts assms(2) have "\<not> mapped_dns s5" by simp
  from mapped_dns_init_ok [OF 6(1,2) this] show ?thesis
    using s5 facts 6(3) assms(2) by (auto simp: set_up_def)
qed

text \<open>
  Only \<open>gateway_init\<close> may lose a block, and one at most.
\<close>

definition lost_of :: "bool \<Rightarrow> nat \<Rightarrow> tun_state \<Rightarrow> bool" where
  "lost_of b k s \<longleftrightarrow> listen_mem s = b \<and> lost_pcbs s = k"

definition lost_one :: "bool \<Rightarrow> nat \<Rightarrow> tun_state \<Rightarrow> bool" where
  "lost_one b k s \<longleftrightarrow> lost_of b k s \<or> \<not> b \<and> lost_of b (k + 1) s"

lemma lost_frame [simp]:
  "lost_of b k (s\<lparr>results := rs\<rparr>) = lost_of b k s" "lost_of b k (s\<lparr>netif := x\<rparr>) = lost_of b k s" "lost_of b k (s\<lparr>tcp_pcb := x\<rparr>) = lost_of b k s"
  "lost_of b k (s\<lparr>udp_pcb := x\<rparr>) = lost_of b k s" "lost_of b k (s\<lparr>scripts := l\<rparr>) = lost_of b k s" "lost_of b k (s\<lparr>tun_fd := fd\<rparr>) = lost_of b k s"
  "lost_of b k (s\<lparr>tun_fd_local := x\<rparr>) = lost_of b k s" "lost_of b k (s\<lparr>fds := l'\<rparr>) = lost_of b k s"
  "lost_of b k (s\<lparr>event_fd0 := fd\<rparr>) = lost_of b k s" "lost_of b k (s\<lparr>event_fd1 := fd\<rparr>) = lost_of b k s"
  "lost_of b k (s\<lparr>task_event := x\<rparr>) = lost_of b k s" "lost_of b k (s\<lparr>task_lwip_io := x\<rparr>) = lost_of b k s"
  "lost_of b k (s\<lparr>task_lwip_timer := x\<rparr>) = lost_of b k s" "lost_of b k (s\<lparr>mapped_dns := x\<rparr>) = lost_of b k s"
  by (simp_all add: lost_of_def)

lemmas keeps_lost = asking_keeps [where I = "lost_of b k" for b k] asking_if_keeps [where I = "lost_of b k" for b k]

lemma inits_keep_lost:
  assumes "lost_of b k s"
  shows "lost_of b k (snd (tunnel_init c fd s))" "lost_of b k (snd (event_task_init s))" "lost_of b k (snd (lwip_io_task_init s))"
    "lost_of b k (snd (lwip_timer_task_init s))" "lost_of b k (snd (mapped_dns_init c s))"
proof -
  let ?go = "\<lambda>s. asking s (\<lambda>_ s. asking_if (hev_config_get_tunnel_ipv4_address c \<noteq> None) s (\<lambda>s.
      asking_if (hev_config_get_tunnel_ipv6_address c \<noteq> None) s (\<lambda>s. asking s (\<lambda>_ s.
      (0, if hev_config_get_tunnel_post_up_script c \<noteq> None then s\<lparr>scripts := scripts s @ [False]\<rparr> else s)))))"
  have go: "lost_of b k (snd (?go s'))" if "lost_of b k s'" for s' :: tun_state
    using that by (intro keeps_lost) simp_all
  have ext: "lost_of b k (snd (asking s (\<lambda>_ s. (0, s\<lparr>tun_fd := fd\<rparr>))))" using assms by (intro keeps_lost) simp_all
  define s1 where "s1 = s\<lparr>tun_fd_local := True\<rparr>"
  obtain q rs where q: "ask s1 = (q, s1\<lparr>results := rs\<rparr>)" by (rule ask_cases)
  have s1: "lost_of b k s1" using assms by (simp add: s1_def)
  show "lost_of b k (snd (tunnel_init c fd s))"
    using ext go [of "s1\<lparr>results := rs, fds := new_fd s1 # fds s1, tun_fd := new_fd s1\<rparr>"] s1
    by (simp add: tunnel_init_def Let_def s1_def [symmetric] q open_fd_def new_fd_def)
  show "lost_of b k (snd (event_task_init s))"
    unfolding event_task_init_def open_fd_def Let_def by (intro keeps_lost; simp add: assms)
      (intro keeps_lost; simp add: assms)
  show "lost_of b k (snd (lwip_io_task_init s))" "lost_of b k (snd (lwip_timer_task_init s))"
    unfolding lwip_io_task_init_def lwip_timer_task_init_def by (intro keeps_lost; simp add: assms)+
  show "lost_of b k (snd (mapped_dns_init c s))"
    unfolding mapped_dns_init_def using assms by (simp, intro impI keeps_lost; simp)
qed

lemma gateway_lost_one:
  assumes "lost_of b k s"
  shows "lost_one b k (snd (gateway_init s))"
proof -
  note keeps = asking_keeps [where I = "lost_one b k"]
  have tail: "lost_one b k (snd (let s = (if listen_mem s' then s'\<lparr>tcp_pcb := True\<rparr> else s'\<lparr>tcp_pcb := False, lost_pcbs := lost_pcbs s' + 1\<rparr>)
       in asking (s\<lparr>udp_pcb := False\<rparr>) (\<lambda>_ s. (0, s\<lparr>udp_pcb := True\<rparr>))))" if "lost_of b k s'" for s'
    unfolding Let_def by (rule keeps) (use that in \<open>auto simp: lost_one_def lost_of_def\<close>)
  show ?thesis unfolding gateway_init_def Let_def [of "_\<lparr>netif := True\<rparr>"]
    by (intro keeps tail) (simp_all add: assms lost_one_def)
qed

lemma all_of_lost_one:
  assumes "lost_of b k s"
  shows "lost_one b k (snd (all_of (parts c fd) s))"
proof -
  obtain r1 s1 where 1: "tunnel_init c fd s = (r1, s1)" by fastforce
  obtain r2 s2 where 2: "gateway_init s1 = (r2, s2)" by fastforce
  have s: "lost_of b k s1" "lost_one b k s2"
    using inits_keep_lost(1) [OF assms, of c fd] gateway_lost_one [of b k s1] by (simp_all add: 1 2)
  have "lost_one b k (snd (all_of [event_task_init, lwip_io_task_init, lwip_timer_task_init, mapped_dns_init c] s2))"
    by (rule all_of_keeps [where I = "lost_one b k", OF _ s(2)]) (auto simp: lost_one_def intro: inits_keep_lost)
  with s show ?thesis by (simp add: parts_def 1 2 lost_one_def del: all_of.simps(2)) (simp add: 1 2 lost_one_def)
qed

lemma fini_lost: "lost_pcbs (hev_socks5_tunnel_fini c s) = lost_pcbs s"
proof -
  have "lost_pcbs (tunnel_fini c s) = lost_pcbs s" "lost_pcbs (gateway_fini s) = lost_pcbs s" "lost_pcbs (event_task_fini s) = lost_pcbs s"
    "lost_pcbs (lwip_io_task_fini s) = lost_pcbs s" "lost_pcbs (lwip_timer_task_fini s) = lost_pcbs s" "lost_pcbs (mapped_dns_fini s) = lost_pcbs s"
    for s
    by (simp_all add: tunnel_fini_def gateway_fini_def event_task_fini_def lwip_io_task_fini_def lwip_timer_task_fini_def
        mapped_dns_fini_def shut_fd_def Let_def)
  then show ?thesis by (simp add: hev_socks5_tunnel_fini_def)
qed

text \<open>Compared to \<open>s\<close> nothing is left: nothing is held, the descriptors are those of \<open>s\<close>, no block was lost.\<close>

definition nothing_left :: "tun_state \<Rightarrow> tun_state \<Rightarrow> bool" where
  "nothing_left s t \<longleftrightarrow> released t \<and> set (fds t) = set (fds s) \<and> lost_pcbs t = lost_pcbs s"

text \<open>
  C13: When lwIP has memory for the listening block, the tunnel releases what it took. From a state with
  nothing acquired, whatever fails among the other calls to the system and to lwIP while it is set up, a
  failed start leaves no descriptor open but those that were open before, no interface, task or table, and
  no block, held or lost; a start that succeeds gives the device, the interface, the listening and the
  datagram block, two ends of the event pair and the tasks, and the table exactly when the configuration
  gives it a size, and stopping it leaves the state as a failed start does. Without that memory the start
  succeeds all the same: everything is there but the listener, and the block that was to become it is
  lost; a failed start then loses at most that one.
\<close>

theorem tunnel_setup_releases:
  assumes "released s" and "\<not> tun_fd_local s" and "hev_socks5_tunnel_init c fd s = (res, t)"
  shows "if listen_mem s then
       (res = - 1 \<and> nothing_left s t) \<or> (res = 0 \<and> set_up c t \<and> nothing_left s (hev_socks5_tunnel_fini c t))
     else
       (let s' = s\<lparr>lost_pcbs := lost_pcbs s + 1\<rparr> in
        (res = - 1 \<and> (nothing_left s t \<or> nothing_left s' t)) \<or>
        (res = 0 \<and> \<not> tcp_pcb t \<and> set_up c (t\<lparr>tcp_pcb := True\<rparr>) \<and> nothing_left s' (hev_socks5_tunnel_fini c t)))"
proof -
  let ?t = "snd (all_of (parts c fd) s)"
  have "steady (set (fds s)) s"
    using assms(1,2) by (simp add: steady_def released_def owns_def own_fds_def no_events_def)
  from all_of_owns [OF this assms(2), of c fd] have owns: "owns (set (fds s)) ?t" .
  note fini = fini_releases [OF owns, of c]
  show ?thesis
  proof (cases "fst (all_of (parts c fd) s) < 0")
    case True
    then have t: "res = - 1" "t = hev_socks5_tunnel_fini c ?t"
      using assms(3) by (auto simp: hev_socks5_tunnel_init_def parts_def [symmetric] case_prod_beta)
    have "lost_one (listen_mem s) (lost_pcbs s) ?t" by (rule all_of_lost_one) (simp add: lost_of_def)
    then show ?thesis using fini by (auto simp: t nothing_left_def fini_lost lost_one_def lost_of_def Let_def)
  next
    case False
    then have "all_of (parts c fd) s = (0, ?t)"
      using all_of_range [of "parts c fd" s] by (auto simp: prod_eq_iff)
    from init_sets_up [OF this] assms(1) have up: "set_up c (?t\<lparr>tcp_pcb := True\<rparr>)" "tcp_pcb ?t = listen_mem s"
      "lost_pcbs ?t = lost_pcbs s + (if listen_mem s then 0 else 1)" by (auto simp: released_def)
    have t: "res = 0" "t = ?t"
      using False assms(3) by (auto simp: hev_socks5_tunnel_init_def parts_def [symmetric] case_prod_beta)
    show ?thesis using up fini unfolding t by (auto simp: nothing_left_def fini_lost set_up_def Let_def)
  qed
qed

definition idle :: "int list \<Rightarrow> int list \<Rightarrow> tun_state" where
  "idle l rs = \<lparr>tun_fd = - 1, tun_fd_local = False, netif = False, tcp_pcb = False, udp_pcb = False, event_fd0 = - 1, event_fd1 = - 1,
     task_event = False, task_lwip_io = False, task_lwip_timer = False, mapped_dns = False, fds = l, lost_pcbs = 0, listen_mem = True,
     scripts = [], results = rs\<rparr>"

lemmas setup_simps = idle_def hev_socks5_tunnel_init_def hev_socks5_tunnel_fini_def tunnel_init_def gateway_init_def event_task_init_def
  lwip_io_task_init_def lwip_timer_task_init_def mapped_dns_init_def tunnel_fini_def gateway_fini_def event_task_fini_def
  lwip_io_task_fini_def lwip_timer_task_fini_def mapped_dns_fini_def asking_def ask_def open_fd_def new_fd_def shut_fd_def Let_def

lemma tunnel_setup_releases_witness:
  "set_up hev_config_reset (snd (hev_socks5_tunnel_init hev_config_reset 7 (idle [7] (replicate 10 0)))) \<and>
   set (fds (hev_socks5_tunnel_fini hev_config_reset (snd (hev_socks5_tunnel_init hev_config_reset 7 (idle [7] (replicate 10 0)))))) = {7}"
proof -
  let ?s = "idle [7] (replicate 10 0)"
  have ok: "fst (hev_socks5_tunnel_init hev_config_reset 7 ?s) = 0"
    by (simp add: setup_simps hev_config_reset_def hev_config_get_mapdns_cache_size_def numeral_eq_Suc)
  have "released ?s" "\<not> tun_fd_local ?s" by (simp_all add: idle_def released_def no_events_def)
  from tunnel_setup_releases [OF this, of hev_config_reset 7 "fst (hev_socks5_tunnel_init hev_config_reset 7 ?s)"
      "snd (hev_socks5_tunnel_init hev_config_reset 7 ?s)"] ok
  show ?thesis by (simp add: prod_eq_iff nothing_left_def split: if_split_asm) (simp_all add: idle_def)
qed

text \<open>
  A device that cannot be opened leaves \<open>tun_fd_local\<close> set: the next tunnel, given its device from
  outside, closes it in the end.
\<close>

lemma stale_flag_closes_device:
  assumes "hev_config_get_tunnel_pre_down_script c = None" and "hev_config_get_mapdns_cache_size c = 0"
  defines "s \<equiv> snd (hev_socks5_tunnel_init c (- 1) (idle [7] (- 1 # replicate 10 0)))"
  shows "tun_fd_local s" and "fst (hev_socks5_tunnel_init c 7 s) = 0"
    and "fds (hev_socks5_tunnel_fini c (snd (hev_socks5_tunnel_init c 7 s))) = []"
  using assms by (simp_all add: setup_simps numeral_eq_Suc)

text \<open>
  Without memory for the listening block the start succeeds all the same, with no listener, and the
  block it was to replace is lost.
\<close>

lemma no_listener_unnoticed:
  assumes "hev_config_get_mapdns_cache_size c = 0"
  shows "\<exists>t. hev_socks5_tunnel_init c 7 ((idle [7] (replicate 9 0))\<lparr>listen_mem := False\<rparr>) = (0, t) \<and> \<not> tcp_pcb t \<and> lost_pcbs t = 1"
  using assms by (simp add: setup_simps numeral_eq_Suc)

end
