(* ===== verification/Spec2Isabelle.thy ===== *)
theory Spec2Isabelle
  imports Prelude Hev_Rbtree Rbtree_Shape Rbtree_Insert Rbtree_Erase Rbtree_Walk Rbtree_Unlink
    Rbtree_Index Rbtree_Props Ring_Buffer Hev_List
    C_String Keyed_Index Socks5_Auth Mapped_Dns Mapped_Dns_Msg Socks5_Addr
    Task_Io Socks5_Client Client_Handshake Client_Props
    Socks5_Udp Udp_Frames Udp_Relay Task_Splice Splice_Props Socks5_Server Server_Login Server_Session Server_Props
    Hev_Config Config_Props Session Session_Tcp Session_Tcp_Props Session_Udp Session_Udp_Props
    Tunnel_Names Tunnel_Sync Tunnel_Sessions Tunnel_Setup
begin

text \<open>
  A verification library for hev-socks5-tunnel, the C core of Dark-Med: the program that takes the
  packets of an Android device from a tunnel interface, ends their connections in an lwIP stack of its
  own and carries them to a SOCKS5 server. File names below are relative to
  \<open>src/app/src/main/jni/hev-socks5-tunnel/src/\<close>; \<open>core/\<close> stands for \<open>core/src/\<close> there.

  \<^bold>\<open>How the parts work together.\<close> \<open>hev-config.c\<close> reads a document into static variables that all others
  read. \<open>hev-socks5-tunnel.c\<close> sets up the device, the lwIP interface, an event pair, tasks and the table
  of names, and keeps the list of sessions. lwIP calls it for every new connection and every new flow
  of datagrams; it answers queries to the address of the mapped DNS (\<open>hev-mapped-dns.c\<close>) and makes a
  session for everything else. A session is a SOCKS5 client (\<open>core/hev-socks5-client*.c\<close>, over
  \<open>core/hev-socks5.c\<close>) that connects, logs in, makes its request and then relays:
  \<open>hev-socks5-session-tcp.c\<close> a byte stream through a ring buffer and a chain of buffers,
  \<open>hev-socks5-session-udp.c\<close> datagrams, framed on the stream by \<open>core/hev-socks5-udp.c\<close>. The same core
  library has the other side, a server with users (\<open>core/hev-socks5-server.c\<close>,
  \<open>hev-socks5-authenticator.c\<close>, \<open>hev-socks5-user.c\<close>) and its relay of streams (\<open>hev-socks5-tcp.c\<close>). Below
  are a red-black tree, a list, a ring buffer and the socket calls of the task system.

  \<^bold>\<open>How code is read.\<close> A C function that changes state is a HOL function from the state to an option of
  result and new state. \<open>None\<close> is what C leaves undefined (a NULL or dangling pointer, a read or write past
  an object) and a loop that never returns (\<open>partial_function (option)\<close>), so \<open>f s = Some r\<close> says that the
  call returns and touches nothing it may not touch. Errors of the code are its own return values.
  Integers keep their width where the code relies on it (\<open>u8\<close>, \<open>u16\<close>, \<open>u32\<close>, \<open>u64\<close>); memory contents the
  code has not written are an arbitrary function of the world. What the kernel, lwIP, the peers and the
  allocator do is scripted: the world carries the list of what the next calls meet, and a theorem over all
  scripts is one over all their behaviours. Where two tasks, or a task and a callback, interleave, the
  code is cut at the points where it waits, each part is a step, and an \<open>inductive\<close> relation lets them
  happen in any order. There is no fuel: loops recurse on data or are proved to return.

  \<^bold>\<open>The base.\<close> \<open>Prelude\<close> (machine types, byte order, the total-correctness transformer \<open>wp\<close>) and \<open>C_String\<close>
  (\<open>string.h\<close>).

  \<^bold>\<open>Containers.\<close>
  \<^item> \<open>Hev_Rbtree\<close> is \<open>core/hev-rbtree.c\<close> line by line, over a memory of nodes whose parent word also holds
    the colour. \<open>Rbtree_Shape\<close> relates the memory to trees and paths to a hole; \<open>Rbtree_Insert\<close>,
    \<open>Rbtree_Unlink\<close>, \<open>Rbtree_Erase\<close>, \<open>Rbtree_Walk\<close> show that the loops return, keep order and balance and do
    nothing else; \<open>Rbtree_Index\<close> adds the search loops of the clients and the interface
    \<open>ordered_index\<close>; \<open>Rbtree_Props\<close> has the properties, with the depth bound.
  \<^item> \<open>Keyed_Index\<close> extends that interface by keys in the nodes, for the authenticator and the mapped DNS.
  \<^item> \<open>Hev_List\<close> is \<open>misc/hev-list.[ch]\<close>, with the interface \<open>node_list\<close>; \<open>Ring_Buffer\<close> is
    \<open>misc/hev-ring-buffer.c\<close>, with the interface \<open>byte_window\<close>: bytes written but not read and bytes read
    but not released, across the end of the array.

  \<^bold>\<open>Users and names.\<close>
  \<^item> \<open>Socks5_Auth\<close>: users with their reference count and the authenticator, a map from names to users.
  \<^item> \<open>Mapped_Dns\<close>, \<open>Mapped_Dns_Msg\<close>: the table of names refines a least-recently-used list of bounded
    length; the handler of queries stays within its two buffers on every request and an answered address
    leads back to the name.

  \<^bold>\<open>SOCKS5.\<close>
  \<^item> \<open>Socks5_Addr\<close>: addresses on the wire and their conversions (\<open>core/hev-socks5-misc.c\<close>, \<open>misc/hev-utils.c\<close>).
  \<^item> \<open>Task_Io\<close>: descriptors and their scripts, the socket calls of the task system with their
    timeouts, the base object.
  \<^item> \<open>Socks5_Client\<close>, \<open>Client_Handshake\<close>, \<open>Client_Props\<close>: the client; its virtual methods are a record, the
    interface \<open>upstream\<close> says what a handshake needs of a class, and both classes are shown to be one.
  \<^item> \<open>Socks5_Udp\<close>, \<open>Udp_Frames\<close>, \<open>Udp_Relay\<close>: datagrams on a stream and the relay of the server.
  \<^item> \<open>Task_Splice\<close>, \<open>Splice_Props\<close>: the relay of streams through kernel pipes.
  \<^item> \<open>Socks5_Server\<close>, \<open>Server_Login\<close>, \<open>Server_Session\<close>, \<open>Server_Props\<close>: the server; that nobody gets past the
    login without a password, that a session gives everything back, and that it understands this client.

  \<^bold>\<open>The tunnel.\<close>
  \<^item> \<open>Hev_Config\<close>, \<open>Config_Props\<close>: the configuration over an arbitrary parsed document.
  \<^item> \<open>Session\<close>: what sessions share. \<open>Session_Tcp\<close>, \<open>Session_Tcp_Props\<close>: steps of the task and of the three
    callbacks of lwIP; an invariant for each direction and one for the end. \<open>Session_Udp\<close>,
    \<open>Session_Udp_Props\<close>: the same for datagrams, with what one round hands back to lwIP. What lwIP has
    delivered is an auxiliary variable of the steps, \<open>l_in\<close> and \<open>hist\<close>, which the properties compare with
    what the server gets.
  \<^item> \<open>Tunnel_Names\<close>: the callback for queries; query, answer, connection and request to the server put together.
  \<^item> \<open>Tunnel_Sessions\<close>: the list of sessions refines a list in the order of activity; the callbacks for
    new connections and flows, which run with the mutex of the tunnel held, and what lwIP makes of their
    answers; \<open>None\<close> is here also a task that waits for ever.
  \<^item> \<open>Tunnel_Sync\<close>: starting and stopping, each access to the atomic word a step. \<open>Tunnel_Setup\<close>: what init
    acquires and fini releases, with every call failing or not.

  \<^bold>\<open>What the theorems show.\<close> Functional behaviour of the operations with their error branches, invariants
  of every reachable state, refinement of abstract lists and maps, round trips between the two sides of a
  format, and absence of undefined behaviour. Some state what the code does where it is not what it
  should do: a frame or datagram cut by a timeout, a header length that wraps, an address block that is
  not freed, a stop that is lost, a session limit that is one too low and does not bound a burst, the task
  of lwIP that locks its own mutex again when there is no memory for the task of a new session, a refused
  flow that lwIP offers again without end, a listener whose absence nobody notices, a stale flag after a
  failed start.

  \<^bold>\<open>Bounds.\<close> The sizes are those of the code: at most 64 pieces in one vectored call, 513 datagrams that
  wait in a session, 1500 bytes for a datagram, names below 256 bytes, and a ring buffer no larger than
  the send buffer of lwIP, which \<open>Config_Props\<close> shows for every document. Properties of a handshake
  over arbitrary scripts assume what the script has to deliver in the statement.

  \<^bold>\<open>Not modelled.\<close> lwIP itself (only its buffer chains and its treatment of the answer to a new connection),
  the YAML parser and the scheduler are vendored: what the program needs of them is scripted or a
  parameter. The devices (\<open>hev-tunnel-*.c\<close>), the logger, \<open>hev-exec.c\<close>, \<open>hev-main.c\<close> and \<open>hev-jni.c\<close> are system
  calls and glue. Of \<open>hev-socks5-tunnel.c\<close> the tasks that move packets between the device and lwIP (but
  for the mutex), the timer task and the counters are left out. In the objects the
  class pointers and the task handle are left out; virtual calls go to the method of the class. The
  variant of the stream relay for systems without \<open>splice\<close> and the Kotlin application are left out.
\<close>

end
